(* ===== verification/Prelude.thy ===== *)
theory Prelude
  imports Main "HOL-Library.Word" "HOL-Library.Multiset" "HOL-Library.Char_ord"
    "HOL-Library.List_Lexorder" "HOL-Library.Product_Lexorder"
begin

text \<open>
  What every component of the development shares: the Rust types of the source as HOL types, the
  \<open>Result\<close> type with the \<open>?\<close> operator and the iterator idioms built on it, the string functions of
  the standard library the source calls (\<open>trim\<close>, decimal formatting), overflow-checked arithmetic,
  and the generic facts about sorted association keys and finite runs that the component theories
  use through the collections below.

  A Rust \<open>String\<close> is its UTF-8 byte sequence, as a HOL \<open>string\<close> (one \<open>char\<close> is one byte): \<open>len\<close> is
  \<open>length\<close> and the source's \<open>Ord\<close> on strings, which compares bytes, is the lexicographic order of
  \<open>HOL-Library.List_Lexorder\<close>. A \<open>Vec<u8>\<close> is a list of 8-bit words.
\<close>

section \<open>Collections of facts\<close>

named_theorems result_simps \<open>unfolding rules for the Result combinators\<close>
named_theorems step_defs \<open>definitions of the state-changing operations\<close>

section \<open>Machine types\<close>

type_synonym u8 = "8 word"
type_synonym u32 = "32 word"
type_synonym u64 = "64 word"
type_synonym i64 = "64 word"
type_synonym bytes = "u8 list"

definition checked_add :: "u64 \<Rightarrow> u64 \<Rightarrow> u64 option" where
  "checked_add a b = (if unat a + unat b < 2 ^ 64 then Some (a + b) else None)"

definition saturating_add :: "u64 \<Rightarrow> u64 \<Rightarrow> u64" where
  "saturating_add a b = (if unat a + unat b < 2 ^ 64 then a + b else - 1)"

definition saturating_mul :: "u64 \<Rightarrow> u64 \<Rightarrow> u64" where
  "saturating_mul a b = (if unat a * unat b < 2 ^ 64 then a * b else - 1)"

section \<open>Result\<close>

datatype ('a, 'e) result = Ok 'a | Err 'e

fun and_then :: "('a, 'e) result \<Rightarrow> ('a \<Rightarrow> ('b, 'e) result) \<Rightarrow> ('b, 'e) result" where
  "and_then (Ok x) f = f x"
| "and_then (Err e) f = Err e"

fun map_err :: "('e \<Rightarrow> 'f) \<Rightarrow> ('a, 'e) result \<Rightarrow> ('a, 'f) result" where
  "map_err g (Ok x) = Ok x"
| "map_err g (Err e) = Err (g e)"

fun ok_or :: "'e \<Rightarrow> 'a option \<Rightarrow> ('a, 'e) result" where
  "ok_or e None = Err e"
| "ok_or e (Some x) = Ok x"

definition ensure :: "bool \<Rightarrow> 'e \<Rightarrow> (unit, 'e) result" where
  "ensure b e = (if b then Ok () else Err e)"

text \<open>\<open>xs.into_iter().map(f).collect::<Result<Vec<_>, _>>()\<close>: stops at the first error.\<close>

fun try_map :: "('a \<Rightarrow> ('b, 'e) result) \<Rightarrow> 'a list \<Rightarrow> ('b list, 'e) result" where
  "try_map f [] = Ok []"
| "try_map f (x # xs) = and_then (f x) (\<lambda>y. and_then (try_map f xs) (\<lambda>ys. Ok (y # ys)))"

text \<open>\<open>for x in xs { f(x)?; }\<close>\<close>

fun try_each :: "('a \<Rightarrow> (unit, 'e) result) \<Rightarrow> 'a list \<Rightarrow> (unit, 'e) result" where
  "try_each f [] = Ok ()"
| "try_each f (x # xs) = and_then (f x) (\<lambda>_. try_each f xs)"

fun is_ok :: "('a, 'e) result \<Rightarrow> bool" where
  "is_ok (Ok x) = True"
| "is_ok (Err e) = False"

lemma and_then_Ok_iff [result_simps]:
  "and_then r f = Ok y \<longleftrightarrow> (\<exists>x. r = Ok x \<and> f x = Ok y)"
  by (cases r) auto

lemma and_then_Err_iff [result_simps]:
  "and_then r f = Err e \<longleftrightarrow> r = Err e \<or> (\<exists>x. r = Ok x \<and> f x = Err e)"
  by (cases r) auto

lemma map_err_Ok_iff [result_simps]: "map_err g r = Ok x \<longleftrightarrow> r = Ok x"
  by (cases r) auto

lemma map_err_Err_iff [result_simps]: "map_err g r = Err f \<longleftrightarrow> (\<exists>e. r = Err e \<and> f = g e)"
  by (cases r) auto

lemma ok_or_Ok_iff [result_simps]: "ok_or e m = Ok x \<longleftrightarrow> m = Some x"
  by (cases m) auto

lemma ok_or_Err_iff [result_simps]: "ok_or e m = Err e' \<longleftrightarrow> m = None \<and> e' = e"
  by (cases m) auto

lemma ensure_Ok_iff [result_simps]: "ensure b e = Ok u \<longleftrightarrow> b"
  by (simp add: ensure_def)

lemma ensure_Err_iff [result_simps]: "ensure b e = Err e' \<longleftrightarrow> \<not> b \<and> e' = e"
  by (auto simp: ensure_def)

lemma try_each_Ok_iff [result_simps]: "try_each f xs = Ok u \<longleftrightarrow> (\<forall>x\<in>set xs. f x = Ok ())"
  by (induction xs) (auto simp: and_then_Ok_iff)

lemma try_each_Err: "try_each f xs = Err e \<Longrightarrow> \<exists>x\<in>set xs. f x = Err e"
  by (induction xs) (auto simp: and_then_Err_iff)

lemma try_map_Ok_iff: "try_map f xs = Ok ys \<longleftrightarrow> list_all2 (\<lambda>x y. f x = Ok y) xs ys"
  by (induction xs arbitrary: ys) (auto simp: and_then_Ok_iff list_all2_Cons1)

lemma try_map_Ok_length: "try_map f xs = Ok ys \<Longrightarrow> length ys = length xs"
  by (simp add: try_map_Ok_iff list_all2_lengthD)

lemma try_map_roundtrip:
  assumes "\<And>x. x \<in> set xs \<Longrightarrow> f (g x) = Ok x"
  shows "try_map f (map g xs) = Ok xs"
  using assms by (induction xs) simp_all

lemma not_is_ok_iff: "\<not> is_ok r \<longleftrightarrow> (\<exists>e. r = Err e)"
  by (cases r) auto

section \<open>Strings\<close>

text \<open>\<open>str::as_bytes\<close>\<close>

definition str_bytes :: "string \<Rightarrow> bytes" where
  "str_bytes s = map (\<lambda>c. of_nat (of_char c)) s"

text \<open>
  The UTF-8 encodings of the code points with the Unicode property \<open>White_Space\<close>, which
  \<open>str::trim\<close> removes at both ends.
\<close>

definition white_space :: "string list" where
  "white_space =
     [[CHR 0x09], [CHR 0x0A], [CHR 0x0B], [CHR 0x0C], [CHR 0x0D], [CHR 0x20],
      [CHR 0xC2, CHR 0x85], [CHR 0xC2, CHR 0xA0], [CHR 0xE1, CHR 0x9A, CHR 0x80],
      [CHR 0xE2, CHR 0x80, CHR 0x80], [CHR 0xE2, CHR 0x80, CHR 0x81],
      [CHR 0xE2, CHR 0x80, CHR 0x82], [CHR 0xE2, CHR 0x80, CHR 0x83],
      [CHR 0xE2, CHR 0x80, CHR 0x84], [CHR 0xE2, CHR 0x80, CHR 0x85],
      [CHR 0xE2, CHR 0x80, CHR 0x86], [CHR 0xE2, CHR 0x80, CHR 0x87],
      [CHR 0xE2, CHR 0x80, CHR 0x88], [CHR 0xE2, CHR 0x80, CHR 0x89],
      [CHR 0xE2, CHR 0x80, CHR 0x8A], [CHR 0xE2, CHR 0x80, CHR 0xA8],
      [CHR 0xE2, CHR 0x80, CHR 0xA9], [CHR 0xE2, CHR 0x80, CHR 0xAF],
      [CHR 0xE2, CHR 0x81, CHR 0x9F], [CHR 0xE3, CHR 0x80, CHR 0x80]]"

text \<open>One code list is used forwards for the start of the string and reversed for its end.\<close>

definition strip_one :: "string list \<Rightarrow> string \<Rightarrow> string option" where
  "strip_one codes s =
     map_option (\<lambda>w. drop (length w) s) (find (\<lambda>w. w \<noteq> [] \<and> take (length w) s = w) codes)"

lemma strip_one_SomeE:
  assumes "strip_one codes s = Some t"
  obtains w where "w \<in> set codes" "w \<noteq> []" "s = w @ t"
proof -
  from assms obtain w where w: "find (\<lambda>w. w \<noteq> [] \<and> take (length w) s = w) codes = Some w"
    and t: "t = drop (length w) s"
    by (auto simp: strip_one_def)
  from w have "w \<in> set codes" "w \<noteq> []" "take (length w) s = w"
    by (auto simp: find_Some_iff)
  with t have "s = w @ t" by (metis append_take_drop_id)
  with \<open>w \<in> set codes\<close> \<open>w \<noteq> []\<close> show thesis by (rule that)
qed

lemma strip_one_shorter: "strip_one codes s = Some t \<Longrightarrow> length t < length s"
  by (erule strip_one_SomeE) auto

function trim_start_with :: "string list \<Rightarrow> string \<Rightarrow> string" where
  "trim_start_with codes s =
     (case strip_one codes s of None \<Rightarrow> s | Some t \<Rightarrow> trim_start_with codes t)"
  by pat_completeness auto
termination
  by (relation "measure (\<lambda>(codes, s). length s)") (auto dest: strip_one_shorter)

declare trim_start_with.simps [simp del]

definition trim_start :: "string \<Rightarrow> string" where
  "trim_start s = trim_start_with white_space s"

definition trim_end :: "string \<Rightarrow> string" where
  "trim_end s = rev (trim_start_with (map rev white_space) (rev s))"

definition trim :: "string \<Rightarrow> string" where
  "trim s = trim_end (trim_start s)"

text \<open>\<open>s.trim().is_empty()\<close>, the test of the source for a missing identifier.\<close>

definition blank :: "string \<Rightarrow> bool" where
  "blank s \<longleftrightarrow> trim s = []"

lemma strip_one_Nil [simp]: "strip_one codes [] = None"
  by (auto simp: strip_one_def find_None_iff)

lemma trim_start_with_Nil [simp]: "trim_start_with codes [] = []"
  by (simp add: trim_start_with.simps)

lemma blank_Nil [simp]: "blank []"
  by (simp add: blank_def trim_def trim_start_def trim_end_def)

lemma trim_start_with_concat:
  "\<exists>ws. set ws \<subseteq> set codes \<and> [] \<notin> set ws \<and> s = concat ws @ trim_start_with codes s"
proof (induction codes s rule: trim_start_with.induct)
  case (1 codes s)
  show ?case
  proof (cases "strip_one codes s")
    case None
    then show ?thesis by (intro exI [of _ "[]"]) (simp add: trim_start_with.simps [of codes s])
  next
    case (Some t)
    then obtain w where w: "w \<in> set codes" "w \<noteq> []" and s: "s = w @ t"
      by (rule strip_one_SomeE)
    from 1 [OF Some] obtain ws where ws: "set ws \<subseteq> set codes" "[] \<notin> set ws"
      "t = concat ws @ trim_start_with codes t" by blast
    have "trim_start_with codes s = trim_start_with codes t"
      using Some by (simp add: trim_start_with.simps [of codes s])
    then have "s = concat (w # ws) @ trim_start_with codes s" using s ws(3) by simp
    then show ?thesis using w ws by (intro exI [of _ "w # ws"]) auto
  qed
qed

lemma trim_start_with_fixpoint: "strip_one codes (trim_start_with codes s) = None"
proof (induction codes s rule: trim_start_with.induct)
  case (1 codes s)
  then show ?case by (cases "strip_one codes s") (simp_all add: trim_start_with.simps [of codes s])
qed

text \<open>Nothing but white space is lost: a string is blank exactly when trimming its start empties it.\<close>

lemma blank_iff_trim_start: "blank s \<longleftrightarrow> trim_start s = []"
proof
  assume "trim_start s = []"
  then show "blank s" by (simp add: blank_def trim_def trim_end_def)
next
  assume "blank s"
  define t where "t = trim_start s"
  from \<open>blank s\<close> have e: "trim_start_with (map rev white_space) (rev t) = []"
    by (simp add: blank_def trim_def trim_end_def t_def)
  from trim_start_with_concat [of "map rev white_space" "rev t"] e
  obtain ws where ws: "set ws \<subseteq> set (map rev white_space)" "[] \<notin> set ws" "rev t = concat ws"
    by auto
  have n: "strip_one white_space t = None"
    unfolding t_def trim_start_def by (rule trim_start_with_fixpoint)
  show "trim_start s = []"
  proof (cases ws rule: rev_cases)
    case Nil
    then show ?thesis using ws(3) by (simp add: t_def)
  next
    case (snoc us w)
    then have "rev (rev t) = rev (concat us @ w)" using ws(3) by simp
    then have t: "t = rev w @ rev (concat us)" by simp
    have w: "rev w \<in> set white_space" "rev w \<noteq> []" using ws(1,2) snoc by auto
    have "take (length (rev w)) t = rev w" by (simp add: t)
    with w have "find (\<lambda>v. v \<noteq> [] \<and> take (length v) t = v) white_space \<noteq> None"
      unfolding find_None_iff by blast
    with n show ?thesis by (simp add: strip_one_def)
  qed
qed

text \<open>A string that starts with a printable ASCII character is not blank.\<close>

definition white_space_leads :: "char list" where
  "white_space_leads = [CHR 0x09, CHR 0x0A, CHR 0x0B, CHR 0x0C, CHR 0x0D, CHR 0x20, CHR 0xC2,
     CHR 0xE1, CHR 0xE2, CHR 0xE3]"

lemma white_space_head: "\<forall>w\<in>set white_space. w \<noteq> [] \<and> hd w \<in> set white_space_leads"
  by (simp add: white_space_def white_space_leads_def)

lemma not_blank_Cons:
  assumes "c \<notin> set white_space_leads"
  shows "\<not> blank (c # cs)"
proof -
  have "take (length w) (c # cs) \<noteq> w" if "w \<in> set white_space" for w
    using bspec [OF white_space_head that] assms by (cases w) auto
  then have "find (\<lambda>w. w \<noteq> [] \<and> take (length w) (c # cs) = w) white_space = None"
    unfolding find_None_iff by blast
  then have "strip_one white_space (c # cs) = None" by (simp add: strip_one_def)
  then have "trim_start (c # cs) = c # cs"
    by (simp add: trim_start_def trim_start_with.simps)
  then show ?thesis by (simp add: blank_iff_trim_start)
qed

lemma not_blank_witness [simp]:
  "c \<notin> set [CHR 0x09, CHR 0x0A, CHR 0x0B, CHR 0x0C, CHR 0x0D, CHR 0x20, CHR 0xC2,
     CHR 0xE1, CHR 0xE2, CHR 0xE3] \<Longrightarrow> \<not> blank (c # cs)"
  using not_blank_Cons by (simp only: white_space_leads_def)

text \<open>Decimal formatting of an unsigned integer (\<open>to_string\<close>, \<open>format!("{}")\<close>).\<close>

definition digit_char :: "nat \<Rightarrow> char" where
  "digit_char d = char_of (48 + d)"

fun decimal :: "nat \<Rightarrow> string" where
  "decimal n = (if n < 10 then [digit_char n] else decimal (n div 10) @ [digit_char (n mod 10)])"

declare decimal.simps [simp del]

text \<open>Unsigned decimal parsing (\<open>str::parse\<close>): an optional plus sign, digits only, no overflow.\<close>

definition digit_value :: "char \<Rightarrow> nat option" where
  "digit_value c = (let k = of_char c in if 48 \<le> k \<and> k \<le> 57 then Some (k - 48) else None)"

fun parse_digits :: "nat \<Rightarrow> string \<Rightarrow> nat option" where
  "parse_digits acc [] = Some acc"
| "parse_digits acc (c # cs) =
     (case digit_value c of None \<Rightarrow> None | Some d \<Rightarrow> parse_digits (10 * acc + d) cs)"

definition parse_u64 :: "string \<Rightarrow> u64 option" where
  "parse_u64 s =
     (let ds = (case s of c # cs \<Rightarrow> if c = CHR ''+'' then cs else s | [] \<Rightarrow> s)
      in if ds = [] then None
         else case parse_digits 0 ds of
             None \<Rightarrow> None
           | Some n \<Rightarrow> if n < 2 ^ 64 then Some (of_nat n) else None)"

lemma digit_value_digit_char: "d < 10 \<Longrightarrow> digit_value (digit_char d) = Some d"
  by (simp add: digit_value_def digit_char_def Let_def)

lemma digit_char_eval [simp]:
  "digit_char 0 = CHR ''0''" "digit_char (Suc 0) = CHR ''1''" "digit_char 2 = CHR ''2''"
  "digit_char 3 = CHR ''3''" "digit_char 4 = CHR ''4''" "digit_char 5 = CHR ''5''"
  "digit_char 6 = CHR ''6''" "digit_char 7 = CHR ''7''" "digit_char 8 = CHR ''8''"
  "digit_char 9 = CHR ''9''"
  by (simp_all add: digit_char_def char_of_eq_iff)

lemma parse_digits_append:
  "parse_digits acc (xs @ ys) =
     (case parse_digits acc xs of None \<Rightarrow> None | Some k \<Rightarrow> parse_digits k ys)"
  by (induction xs arbitrary: acc) (auto split: option.splits)

lemma parse_digits_decimal: "parse_digits 0 (decimal n) = Some n"
proof (induction n rule: decimal.induct)
  case (1 n)
  show ?case
  proof (cases "n < 10")
    case True
    then show ?thesis by (simp add: decimal.simps [of n] digit_value_digit_char)
  next
    case False
    then have "parse_digits 0 (decimal (n div 10)) = Some (n div 10)" using 1 by simp
    then show ?thesis using False
      by (simp add: decimal.simps [of n] parse_digits_append digit_value_digit_char)
  qed
qed

lemma decimal_inject: "decimal m = decimal n \<Longrightarrow> m = n"
  by (metis parse_digits_decimal option.inject)

lemma decimal_digits: "c \<in> set (decimal n) \<Longrightarrow> \<exists>d<10. c = digit_char d"
proof (induction n rule: decimal.induct)
  case (1 n)
  have "\<exists>d<10. digit_char (n mod 10) = digit_char d" by (intro exI [of _ "n mod 10"]) simp
  with 1 show ?case
    by (cases "n < 10") (auto simp: decimal.simps [of n])
qed

lemma decimal_not_Nil [simp]: "decimal n \<noteq> []"
  by (simp add: decimal.simps [of n])

lemma digit_char_cases: "d < 10 \<Longrightarrow> digit_char d \<noteq> CHR ''+'' \<and> digit_char d \<noteq> CHR ''.''"
proof -
  assume "d < 10"
  then have "digit_value (digit_char d) = Some d" by (rule digit_value_digit_char)
  then show ?thesis by (auto simp: digit_value_def)
qed

lemma parse_u64_decimal: "parse_u64 (decimal (unat w)) = Some w"
proof -
  obtain c cs where c: "decimal (unat w) = c # cs"
    by (cases "decimal (unat w)") auto
  then have "c \<noteq> CHR ''+''"
    using decimal_digits [of c "unat w"] digit_char_cases by auto
  with c have "parse_u64 (decimal (unat w)) =
      (case parse_digits 0 (decimal (unat w)) of None \<Rightarrow> None
       | Some n \<Rightarrow> if n < 2 ^ 64 then Some (of_nat n) else None)"
    by (simp add: parse_u64_def)
  then show ?thesis using unsigned_less [of w] by (simp add: parse_digits_decimal)
qed

section \<open>Ordered keys\<close>

text \<open>
  \<open>for pair in xs.windows(2)\<close> with an equality test on a key: the element at which the first
  adjacent repetition is reported.
\<close>

fun first_adjacent :: "('a \<Rightarrow> 'k) \<Rightarrow> 'a list \<Rightarrow> 'a option" where
  "first_adjacent k (x # y # zs) =
     (if k x = k y then Some x else first_adjacent k (y # zs))"
| "first_adjacent k zs = None"

lemma first_adjacent_Some: "first_adjacent k xs = Some x \<Longrightarrow> x \<in> set xs"
  by (induction k xs rule: first_adjacent.induct) (auto split: if_splits)

lemma first_adjacent_Some_dup: "first_adjacent k xs = Some x \<Longrightarrow> \<not> distinct (map k xs)"
  by (induction k xs rule: first_adjacent.induct) (auto split: if_splits)

lemma first_adjacent_sorted:
  assumes "sorted (map (k :: 'a \<Rightarrow> 'k :: linorder) xs)"
  shows "first_adjacent k xs = None \<longleftrightarrow> distinct (map k xs)"
  using assms
proof (induction k xs rule: first_adjacent.induct)
  case (1 k x y zs)
  show ?case
  proof (cases "k x = k y")
    case True
    then show ?thesis by simp
  next
    case False
    with "1.prems" have "k x < k y" by (simp add: order_less_le)
    with "1.prems" have "\<forall>z\<in>set (y # zs). k x < k z" by auto
    then have "k x \<notin> k ` set (y # zs)" by force
    then show ?thesis using 1 False by auto
  qed
qed simp_all

text \<open>\<open>xs.sort_unstable(); xs.dedup();\<close> leaves a strictly ascending list.\<close>

lemma sorted_dedup_strict: "sorted (xs :: 'a :: linorder list) \<Longrightarrow> sorted_wrt (<) (remdups_adj xs)"
proof (induction xs rule: remdups_adj.induct)
  case (3 x y xs)
  show ?case
  proof (cases "x = y")
    case True
    then show ?thesis using 3 by simp
  next
    case False
    then have "\<forall>z\<in>set (y # xs). x < z" using "3.prems" by fastforce
    then show ?thesis using 3 False by simp
  qed
qed simp_all

lemma sorted_distinct_key_unique:
  assumes "mset xs = mset ys" and "sorted (map f xs)" and "sorted (map f ys)"
    and "distinct (map (f :: 'a \<Rightarrow> 'k :: linorder) xs)"
  shows "xs = ys"
proof -
  have m: "mset (map f xs) = mset (map f ys)" using assms(1) by simp
  have "sort (map f ys) = map f xs" using m assms(2) by (rule properties_for_sort)
  moreover have "sort (map f ys) = map f ys" using assms(3) by (rule sorted_sort_id)
  ultimately have eq: "map f xs = map f ys" by simp
  have "set xs = set ys" using assms(1) by (rule mset_eq_setD)
  then have inj: "inj_on f (set xs \<union> set ys)"
    using assms(4) by (simp add: distinct_map)
  from eq inj show ?thesis by (rule map_inj_on)
qed

lemma sort_key_distinct_unique:
  assumes "mset xs = mset ys" and "distinct (map (f :: 'a \<Rightarrow> 'k :: linorder) xs)"
  shows "sort_key f xs = sort_key f ys"
proof (rule sorted_distinct_key_unique [of _ _ f])
  show "mset (sort_key f xs) = mset (sort_key f ys)" using assms(1) by simp
  have "mset (map f (sort_key f xs)) = mset (map f xs)" by simp
  then show "distinct (map f (sort_key f xs))"
    using assms(2) by (metis mset_eq_imp_distinct_iff)
qed simp_all

lemma map_of_distinct_mset:
  assumes "mset xs = mset ys" and "distinct (map fst ys)"
  shows "map_of xs = map_of ys"
proof -
  have "distinct (map fst xs)"
    using assms by (metis mset_eq_imp_distinct_iff mset_map)
  then show ?thesis
    using assms by (metis map_of_inject_set mset_eq_setD)
qed

section \<open>Runs\<close>

text \<open>A sequence of requests against a state-passing operation, with the results in order.\<close>

fun run :: "('s \<Rightarrow> 'q \<Rightarrow> 's \<times> 'r) \<Rightarrow> 's \<Rightarrow> 'q list \<Rightarrow> 's \<times> 'r list" where
  "run f s [] = (s, [])"
| "run f s (q # qs) = (let (s', r) = f s q; (s'', rs) = run f s' qs in (s'', r # rs))"

lemma run_append:
  "run f s (xs @ ys) = (let (s', rs) = run f s xs; (s'', rs') = run f s' ys in (s'', rs @ rs'))"
  by (induction xs arbitrary: s) (simp_all add: case_prod_unfold Let_def)

lemma run_length: "length (snd (run f s qs)) = length qs"
  by (induction qs arbitrary: s) (simp_all add: case_prod_unfold Let_def)

lemma run_invariant:
  assumes "\<And>s q. I s \<Longrightarrow> I (fst (f s q))" and "I s"
  shows "I (fst (run f s qs))"
  using assms(2)
proof (induction qs arbitrary: s)
  case (Cons q qs)
  then have "I (fst (f s q))" using assms(1) by blast
  then show ?case using Cons.IH by (simp add: case_prod_unfold Let_def)
qed simp

end
