(* ===== verification/Contracts.thy ===== *)
theory Contracts
  imports Prelude
begin

text \<open>
  The interfaces the stores of the program promise and their clients rely on, as locales.

  \<^item> \<open>commit_log\<close>: a write operation with receipts. A request that was applied leaves a receipt; the
    receipt survives every later request; presenting the request again replays the receipt without
    changing the state; a refused request changes nothing.
  \<^item> \<open>versioned_log\<close>: a commit log whose records carry revisions. An applied request advances the
    revision of each record it writes by exactly one, leaves the others alone, and is applied only
    at the revision it expects.

  What a caller concludes from these laws is proved once here: a retry after any interleaving of
  other requests replays the first result, a request is applied at most once in a run, a revision
  counts the applied writes, and two writers expecting the same revision cannot both succeed.
  The laws are discharged in the theories of the stores.
\<close>

section \<open>Outcomes\<close>

text \<open>
  The outcome types of the source (\<open>SnapshotWriteOutcome\<close>, \<open>TransactionalWriteOutcome\<close>,
  \<open>MultiRecordTransactionalWriteOutcome\<close>, \<open>TradeTransactionOutcome\<close>) all have the two variants
  \<open>Applied\<close> and \<open>Duplicate\<close> with the same fields, which are the parameter here.
\<close>

datatype 'r write_outcome = Applied 'r | Duplicate 'r

fun outcome_receipt :: "'r write_outcome \<Rightarrow> 'r" where
  "outcome_receipt (Applied r) = r"
| "outcome_receipt (Duplicate r) = r"

fun is_applied :: "('r write_outcome, 'e) result \<Rightarrow> bool" where
  "is_applied (Ok (Applied r)) = True"
| "is_applied (Ok (Duplicate r)) = False"
| "is_applied (Err e) = False"

lemma is_applied_iff: "is_applied x \<longleftrightarrow> (\<exists>r. x = Ok (Applied r))"
  by (cases x rule: is_applied.cases) auto

definition applied_writes :: "('q \<Rightarrow> 'k \<Rightarrow> bool) \<Rightarrow> 'k \<Rightarrow> 'q list \<Rightarrow>
    ('r write_outcome, 'e) result list \<Rightarrow> nat" where
  "applied_writes writes k qs rs =
     length (filter (\<lambda>(q, r). writes q k \<and> is_applied r) (zip qs rs))"

lemma applied_writes_Cons [simp]:
  "applied_writes writes k (q # qs) (r # rs) =
     (if writes q k \<and> is_applied r then 1 else 0) + applied_writes writes k qs rs"
  by (simp add: applied_writes_def)

lemma applied_writes_Nil [simp]: "applied_writes writes k [] rs = 0"
  by (simp add: applied_writes_def)

section \<open>A log of idempotent commits\<close>

locale commit_log =
  fixes step :: "'s \<Rightarrow> 'q \<Rightarrow> 's \<times> ('r write_outcome, 'e) result"
    and committed :: "'s \<Rightarrow> 'q \<Rightarrow> 'r \<Rightarrow> bool"
    and invar :: "'s \<Rightarrow> bool"
  assumes applied_invar: "invar s \<Longrightarrow> step s q = (s', Ok (Applied r)) \<Longrightarrow> invar s'"
    and applied_committed: "invar s \<Longrightarrow> step s q = (s', Ok (Applied r)) \<Longrightarrow> committed s' q r"
    and committed_replay: "invar s \<Longrightarrow> committed s q r \<Longrightarrow> step s q = (s, Ok (Duplicate r))"
    and applied_keeps: "invar s \<Longrightarrow> committed s q r \<Longrightarrow> step s p = (s', Ok (Applied r')) \<Longrightarrow>
      committed s' q r"
    and only_applied_changes: "invar s \<Longrightarrow> step s q = (s', x) \<Longrightarrow> \<not> is_applied x \<Longrightarrow> s' = s"
begin

lemma step_cases:
  assumes "invar s" and "step s q = (s', x)"
  obtains (unchanged) "s' = s" "\<not> is_applied x" | (applied) r where "x = Ok (Applied r)"
  using only_applied_changes [OF assms] by (cases "is_applied x") (auto simp: is_applied_iff)

lemma invar_step: "invar s \<Longrightarrow> invar (fst (step s q))"
proof -
  assume s: "invar s"
  obtain s' x where sx: "step s q = (s', x)" by fastforce
  from s sx show ?thesis
    by (cases rule: step_cases) (use s sx applied_invar in auto)
qed

lemma committed_stable: "invar s \<Longrightarrow> committed s q r \<Longrightarrow> committed (fst (step s p)) q r"
proof -
  assume s: "invar s" and c: "committed s q r"
  obtain s' x where sx: "step s p = (s', x)" by fastforce
  from s sx show ?thesis
    by (cases rule: step_cases) (use s sx c applied_keeps in auto)
qed

lemma invar_run: "invar s \<Longrightarrow> invar (fst (run step s qs))"
  by (rule run_invariant [where I = invar, OF invar_step])

lemma committed_run: "invar s \<Longrightarrow> committed s q r \<Longrightarrow> committed (fst (run step s qs)) q r"
proof (induction qs arbitrary: s)
  case (Cons p qs)
  have "committed (fst (step s p)) q r" using Cons.prems by (rule committed_stable)
  moreover have "invar (fst (step s p))" using Cons.prems(1) by (rule invar_step)
  ultimately show ?case using Cons.IH by (simp add: case_prod_unfold Let_def)
qed simp

lemma retry_replays:
  assumes "invar s" and "step s q = (s1, Ok (Applied r))" and "run step s1 qs = (s2, rs)"
  shows "step s2 q = (s2, Ok (Duplicate r))"
proof -
  have i1: "invar s1" using invar_step [OF assms(1), of q] assms(2) by simp
  have "committed s1 q r" using applied_committed [OF assms(1,2)] .
  then have "committed s2 q r" using committed_run [OF i1, of q r qs] assms(3) by simp
  moreover have "invar s2" using invar_run [OF i1, of qs] assms(3) by simp
  ultimately show ?thesis by (rule committed_replay [rotated])
qed

lemma applied_at_most_once:
  assumes "invar s" and "run step s qs = (s', rs)" and "i < j" and "j < length qs"
    and "qs ! i = qs ! j" and "rs ! i = Ok (Applied r)"
  shows "rs ! j = Ok (Duplicate r)"
  using assms
proof (induction qs arbitrary: s s' rs i j)
  case (Cons q qs)
  obtain s1 x where st: "step s q = (s1, x)" by fastforce
  obtain s2 xs where rn: "run step s1 qs = (s2, xs)" by fastforce
  have rs: "rs = x # xs" using Cons.prems(2) st rn by simp
  have i1: "invar s1" using invar_step [OF Cons.prems(1), of q] st by simp
  obtain j' where j: "j = Suc j'" using Cons.prems(3) by (cases j) auto
  show ?case
  proof (cases i)
    case 0
    with Cons.prems rs have x: "x = Ok (Applied r)" and qj: "qs ! j' = q" by (auto simp: j)
    have "j' < length qs" using Cons.prems(4) j by simp
    then have sp: "qs = take j' qs @ q # drop (Suc j') qs"
      using qj by (metis id_take_nth_drop)
    obtain sa ra where ra: "run step s1 (take j' qs) = (sa, ra)" by fastforce
    have la: "length ra = j'"
      using run_length [of step s1 "take j' qs"] ra \<open>j' < length qs\<close> by simp
    have "step sa q = (sa, Ok (Duplicate r))"
      using retry_replays [OF Cons.prems(1)] st x ra by blast
    then have "snd (run step s1 (take j' qs @ q # drop (Suc j') qs)) ! j' = Ok (Duplicate r)"
      using ra la by (simp add: run_append case_prod_unfold Let_def nth_append)
    then show ?thesis using sp rn rs j by simp
  next
    case (Suc i')
    then show ?thesis
      using Cons.IH [OF i1 rn, of i' j'] Cons.prems rs j by simp
  qed
qed simp

end

section \<open>A log of versioned records\<close>

locale versioned_log = commit_log +
  fixes version :: "'s \<Rightarrow> 'k \<Rightarrow> u64"
    and writes :: "'q \<Rightarrow> 'k \<Rightarrow> bool"
    and expects :: "'q \<Rightarrow> 'k \<Rightarrow> u64 option"
  assumes applied_version: "invar s \<Longrightarrow> step s q = (s', Ok (Applied r)) \<Longrightarrow>
      unat (version s' k) = unat (version s k) + (if writes q k then 1 else 0)"
    and applied_expects: "invar s \<Longrightarrow> step s q = (s', Ok (Applied r)) \<Longrightarrow> writes q k \<Longrightarrow>
      expects q k = Some n \<Longrightarrow> version s k = n"
begin

lemma step_version:
  assumes "invar s" and "step s q = (s', x)"
  shows "unat (version s' k) = unat (version s k) + (if writes q k \<and> is_applied x then 1 else 0)"
proof (cases "is_applied x")
  case True
  then obtain r where "x = Ok (Applied r)" by (auto simp: is_applied_iff)
  then show ?thesis using applied_version [OF assms(1), of q s' r k] assms(2) True by simp
next
  case False
  then have "s' = s" using only_applied_changes [OF assms] by simp
  then show ?thesis using False by simp
qed

lemma version_counts_writes:
  assumes "invar s" and "run step s qs = (s', rs)"
  shows "unat (version s' k) = unat (version s k) + applied_writes writes k qs rs"
  using assms
proof (induction qs arbitrary: s s' rs)
  case (Cons q qs)
  obtain s1 x where st: "step s q = (s1, x)" by fastforce
  obtain s2 xs where rn: "run step s1 qs = (s2, xs)" by fastforce
  have e: "s' = s2" "rs = x # xs" using Cons.prems(2) st rn by simp_all
  have i1: "invar s1" using invar_step [OF Cons.prems(1), of q] st by simp
  have "unat (version s2 k) = unat (version s1 k) + applied_writes writes k qs xs"
    using Cons.IH [OF i1 rn] by simp
  then show ?case
    using step_version [OF Cons.prems(1) st, of k] e by simp
qed simp

lemma cas_exclusive:
  assumes "invar s" and "run step s qs = (s', rs)" and "i < j" and "j < length qs"
    and "writes (qs ! i) k" and "writes (qs ! j) k"
    and "expects (qs ! i) k = Some n" and "expects (qs ! j) k = Some n"
    and "is_applied (rs ! i)"
  shows "\<not> is_applied (rs ! j)"
  using assms
proof (induction qs arbitrary: s s' rs i j)
  case (Cons q qs)
  obtain s1 x where st: "step s q = (s1, x)" by fastforce
  obtain s2 xs where rn: "run step s1 qs = (s2, xs)" by fastforce
  have rs: "rs = x # xs" using Cons.prems(2) st rn by simp
  have i1: "invar s1" using invar_step [OF Cons.prems(1), of q] st by simp
  obtain j' where j: "j = Suc j'" using Cons.prems(3) by (cases j) auto
  have j': "j' < length qs" using Cons.prems(4) j by simp
  show ?case
  proof (cases i)
    case (Suc i')
    then show ?thesis
      using Cons.IH [OF i1 rn, of i' j'] Cons.prems rs j by simp
  next
    case 0
    then have ap: "is_applied x" and wq: "writes q k" and eq: "expects q k = Some n"
      using Cons.prems rs by simp_all
    obtain r where x: "x = Ok (Applied r)" using ap by (auto simp: is_applied_iff)
    have "version s k = n"
      using applied_expects [OF Cons.prems(1) _ wq eq] st x by blast
    moreover have "unat (version s1 k) = unat (version s k) + 1"
      using step_version [OF Cons.prems(1) st, of k] ap wq by simp
    ultimately have v1: "unat (version s1 k) = unat n + 1" by simp
    obtain sa ra where ra: "run step s1 (take j' qs) = (sa, ra)" by fastforce
    have la: "length ra = j'" using run_length [of step s1 "take j' qs"] ra j' by simp
    have ia: "invar sa" using invar_run [OF i1, of "take j' qs"] ra by simp
    have "unat (version sa k) \<ge> unat n + 1"
      using version_counts_writes [OF i1 ra, of k] v1 by simp
    then have ne: "version sa k \<noteq> n" by auto
    have "\<not> is_applied (snd (step sa (qs ! j')))"
    proof
      assume "is_applied (snd (step sa (qs ! j')))"
      then obtain r' where "step sa (qs ! j') = (fst (step sa (qs ! j')), Ok (Applied r'))"
        by (auto simp: is_applied_iff prod_eq_iff)
      then have "version sa k = n"
        using applied_expects [OF ia] Cons.prems(6,8) j by fastforce
      with ne show False by simp
    qed
    moreover have "qs = take j' qs @ qs ! j' # drop (Suc j') qs"
      using j' by (rule id_take_nth_drop)
    then have "xs = snd (run step s1 (take j' qs @ qs ! j' # drop (Suc j') qs))"
      using rn by simp
    ultimately show ?thesis
      using ra la rs j by (simp add: run_append case_prod_unfold Let_def nth_append)
  qed
qed simp

end

end
