(* ===== verification/Core_Types.thy ===== *)
theory Core_Types
  imports Contracts
begin

text \<open>
  The stable types of \<open>crates/dbproxy-core/src/lib.rs\<close>: record addresses, revisions, snapshots,
  snapshot writes and the error type of every store, with the two steps all stores share: reading
  the current revision of a record and allocating the next one without wrapping around.
\<close>

section \<open>Record addresses\<close>

record record_key =
  namespace :: string
  key :: string

text \<open>
  The source orders records by namespace and then by key, byte-wise, wherever it canonicalises a
  request; the order is the library's \<open>linorder\<close> for the type.
\<close>

instantiation record_key_ext :: (linorder) linorder
begin

definition less_eq_record_key_ext :: "'a record_key_scheme \<Rightarrow> 'a record_key_scheme \<Rightarrow> bool" where
  "less_eq_record_key_ext r s \<longleftrightarrow>
     (namespace r, key r, record_key.more r) \<le> (namespace s, key s, record_key.more s)"

definition less_record_key_ext :: "'a record_key_scheme \<Rightarrow> 'a record_key_scheme \<Rightarrow> bool" where
  "less_record_key_ext r s \<longleftrightarrow>
     (namespace r, key r, record_key.more r) < (namespace s, key s, record_key.more s)"

instance
proof
  fix r s t :: "'a record_key_scheme"
  show "(r < s) = (r \<le> s \<and> \<not> s \<le> r)"
    unfolding less_eq_record_key_ext_def less_record_key_ext_def by (rule less_le_not_le)
  show "r \<le> r" unfolding less_eq_record_key_ext_def by (rule order_refl)
  show "r \<le> s \<Longrightarrow> s \<le> t \<Longrightarrow> r \<le> t"
    unfolding less_eq_record_key_ext_def by (rule order_trans)
  show "r \<le> s \<Longrightarrow> s \<le> r \<Longrightarrow> r = s"
    unfolding less_eq_record_key_ext_def by (drule (1) order_antisym) (simp add: record_key.equality)
  show "r \<le> s \<or> s \<le> r" unfolding less_eq_record_key_ext_def by (rule linear)
qed

end

type_synonym revision = u64

section \<open>Snapshots\<close>

record snapshot_envelope =
  se_record :: record_key
  se_schema :: string
  se_schema_version :: u32
  se_revision :: revision
  se_payload :: bytes
  se_updated_at_unix_ms :: u64

record snapshot_write =
  sw_request_id :: string
  sw_record :: record_key
  sw_schema :: string
  sw_schema_version :: u32
  sw_payload :: bytes
  sw_expected_revision :: "revision option"
  sw_updated_at_unix_ms :: u64

type_synonym snapshot_write_outcome = "revision write_outcome"

type_synonym snapshots = "record_key \<rightharpoonup> snapshot_envelope"

section \<open>Errors\<close>

datatype trade_state = Proposed | Escrowed | Settled | Cancelled

datatype store_error =
    AppendRecordConflict record_key
  | InvalidKey string
  | EmptyRequestId
  | EmptyOperationId
  | IdempotencyConflict string
  | OperationIdConflict string
  | OperationExpired string
  | QueuedSnapshotRequiresUnconditionalWrite record_key
  | RevisionConflict record_key "revision option" revision
  | RevisionExhausted record_key
  | EmptyTransactionRecords
  | DuplicateTransactionRecord record_key
  | EmptyTradeId
  | EmptyTradeRecords
  | TradeVersionConflict string revision revision
  | TradeStateConflict string "trade_state option" "trade_state option"
  | TradeVersionExhausted string
  | InvalidTradeStateTransition "trade_state option" trade_state
  | InvalidLedgerPosting string
  | DuplicateLedgerPosting string
  | LedgerPostingConflict string
  | UnbalancedLedger string
  | InvalidOutboxEvent string
  | DuplicateOutboxEvent string
  | OutboxEventConflict string

definition record_key_new :: "string \<Rightarrow> string \<Rightarrow> (record_key, store_error) result" where
  "record_key_new ns k =
     (let address = \<lparr>namespace = ns, key = k\<rparr>
      in if blank (namespace address) then Err (InvalidKey ''namespace is empty'')
         else if blank (key address) then Err (InvalidKey ''key is empty'')
         else Ok address)"

definition valid_record :: "record_key \<Rightarrow> bool" where
  "valid_record r \<longleftrightarrow> \<not> blank (namespace r) \<and> \<not> blank (key r)"

lemma record_key_new_iff:
  "record_key_new ns k = Ok r \<longleftrightarrow> valid_record r \<and> r = \<lparr>namespace = ns, key = k\<rparr>"
  by (auto simp: record_key_new_def valid_record_def Let_def)

lemma record_key_new_self: "record_key_new (namespace r) (key r) = Ok r \<longleftrightarrow> valid_record r"
  by (simp add: record_key_new_iff)

section \<open>Revisions\<close>

text \<open>\<open>snapshots.get(record).map(|s| s.revision).unwrap_or(Revision::ZERO)\<close>\<close>

definition actual_revision :: "snapshots \<Rightarrow> record_key \<Rightarrow> revision" where
  "actual_revision m r = (case m r of None \<Rightarrow> 0 | Some s \<Rightarrow> se_revision s)"

text \<open>\<open>Revision(actual.0.checked_add(1).ok_or_else(|| RevisionExhausted \<dots>)?)\<close>\<close>

definition next_revision :: "record_key \<Rightarrow> revision \<Rightarrow> (revision, store_error) result" where
  "next_revision r actual = ok_or (RevisionExhausted r) (checked_add actual 1)"

lemma next_revision_Ok:
  "next_revision r a = Ok b \<longleftrightarrow> unat a + 1 < 2 ^ 64 \<and> b = a + 1"
  by (auto simp: next_revision_def checked_add_def result_simps)

lemma next_revision_Err:
  "next_revision r a = Err e \<longleftrightarrow> \<not> unat a + 1 < 2 ^ 64 \<and> e = RevisionExhausted r"
  by (auto simp: next_revision_def checked_add_def result_simps)

lemma unat_next: "unat (a :: u64) + 1 < 2 ^ 64 \<Longrightarrow> unat (a + 1) = unat a + 1"
  by (simp add: unat_word_ariths)

lemma actual_revision_upd [simp]:
  "actual_revision (m(r \<mapsto> s)) q = (if q = r then se_revision s else actual_revision m q)"
  by (simp add: actual_revision_def)

lemma actual_revision_empty [simp]: "actual_revision Map.empty r = 0"
  by (simp add: actual_revision_def)

text \<open>Every stored snapshot sits under its own address with a positive revision.\<close>

definition snapshots_ok :: "snapshots \<Rightarrow> bool" where
  "snapshots_ok m \<longleftrightarrow> (\<forall>r s. m r = Some s \<longrightarrow> se_record s = r \<and> se_revision s \<noteq> 0)"

lemma snapshots_ok_empty [simp]: "snapshots_ok Map.empty"
  by (simp add: snapshots_ok_def)

lemma snapshots_ok_upd:
  "snapshots_ok m \<Longrightarrow> se_record s = r \<Longrightarrow> se_revision s \<noteq> 0 \<Longrightarrow> snapshots_ok (m(r \<mapsto> s))"
  by (auto simp: snapshots_ok_def)

lemma next_revision_nonzero: "next_revision r a = Ok b \<Longrightarrow> b \<noteq> 0"
  using unat_next by (force simp: next_revision_Ok unat_eq_0)

end
