(* ===== verification/Snapshot_Store.thy ===== *)
theory Snapshot_Store
  imports Core_Types
begin

text \<open>
  \<open>InMemorySnapshotStore\<close> of \<open>crates/dbproxy-core/src/lib.rs\<close>: the reference implementation of the
  ordinary snapshot contract. \<open>save\<close> takes and returns the store; every \<open>Err\<close> is a branch of its
  result. It is an instance of \<open>versioned_log\<close>, from which the retry and compare-and-swap
  properties follow.
\<close>

section \<open>State\<close>

record request_fingerprint =
  rf_schema :: string
  rf_schema_version :: u32
  rf_payload :: bytes
  rf_expected_revision :: "revision option"

definition request_fingerprint_from :: "snapshot_write \<Rightarrow> request_fingerprint" where
  "request_fingerprint_from q =
     \<lparr>rf_schema = sw_schema q, rf_schema_version = sw_schema_version q,
      rf_payload = sw_payload q, rf_expected_revision = sw_expected_revision q\<rparr>"

record idempotency_receipt =
  ir_record :: record_key
  ir_fingerprint :: request_fingerprint
  ir_revision :: revision

record in_memory_snapshot_store =
  ss_snapshots :: snapshots
  ss_receipts :: "string \<rightharpoonup> idempotency_receipt"

definition snapshot_store_new :: in_memory_snapshot_store where
  "snapshot_store_new = \<lparr>ss_snapshots = Map.empty, ss_receipts = Map.empty\<rparr>"

section \<open>Operations\<close>

definition snapshot_load :: "in_memory_snapshot_store \<Rightarrow> record_key \<Rightarrow>
    (snapshot_envelope option, store_error) result" where
  "snapshot_load s r = Ok (ss_snapshots s r)"

definition snapshot_envelope_of :: "snapshot_write \<Rightarrow> revision \<Rightarrow> snapshot_envelope" where
  "snapshot_envelope_of q v =
     \<lparr>se_record = sw_record q, se_schema = sw_schema q, se_schema_version = sw_schema_version q,
      se_revision = v, se_payload = sw_payload q,
      se_updated_at_unix_ms = sw_updated_at_unix_ms q\<rparr>"

definition snapshot_save :: "in_memory_snapshot_store \<Rightarrow> snapshot_write \<Rightarrow>
    in_memory_snapshot_store \<times> (snapshot_write_outcome, store_error) result" where
  "snapshot_save s q =
     (if blank (sw_request_id q) then (s, Err EmptyRequestId)
      else case ss_receipts s (sw_request_id q) of
        Some receipt \<Rightarrow>
          if ir_record receipt \<noteq> sw_record q \<or>
             ir_fingerprint receipt \<noteq> request_fingerprint_from q
          then (s, Err (IdempotencyConflict (sw_request_id q)))
          else (s, Ok (Duplicate (ir_revision receipt)))
      | None \<Rightarrow>
          (let actual = actual_revision (ss_snapshots s) (sw_record q)
           in if (case sw_expected_revision q of None \<Rightarrow> False | Some n \<Rightarrow> n \<noteq> actual)
              then (s, Err (RevisionConflict (sw_record q) (sw_expected_revision q) actual))
              else case next_revision (sw_record q) actual of
                Err e \<Rightarrow> (s, Err e)
              | Ok v \<Rightarrow>
                  (s\<lparr>ss_snapshots := (ss_snapshots s)(sw_record q \<mapsto> snapshot_envelope_of q v),
                     ss_receipts := (ss_receipts s)(sw_request_id q \<mapsto>
                       \<lparr>ir_record = sw_record q, ir_fingerprint = request_fingerprint_from q,
                        ir_revision = v\<rparr>)\<rparr>,
                   Ok (Applied v))))"

section \<open>Invariant\<close>

text \<open>
  Snapshots sit under their own address with a positive revision, and a receipt never runs ahead of
  the record it was given for.
\<close>

definition snapshot_store_ok :: "in_memory_snapshot_store \<Rightarrow> bool" where
  "snapshot_store_ok s \<longleftrightarrow> snapshots_ok (ss_snapshots s) \<and>
     (\<forall>i c. ss_receipts s i = Some c \<longrightarrow>
        0 < ir_revision c \<and> ir_revision c \<le> actual_revision (ss_snapshots s) (ir_record c))"

definition snapshot_committed ::
    "in_memory_snapshot_store \<Rightarrow> snapshot_write \<Rightarrow> revision \<Rightarrow> bool" where
  "snapshot_committed s q v \<longleftrightarrow> \<not> blank (sw_request_id q) \<and>
     ss_receipts s (sw_request_id q) =
       Some \<lparr>ir_record = sw_record q, ir_fingerprint = request_fingerprint_from q, ir_revision = v\<rparr>"

section \<open>Behaviour of save\<close>

text \<open>The three shapes of a call: refused, replayed, applied.\<close>

lemma snapshot_save_applied_iff:
  "snapshot_save s q = (s', Ok (Applied v)) \<longleftrightarrow>
     \<not> blank (sw_request_id q) \<and> ss_receipts s (sw_request_id q) = None \<and>
     (\<forall>n. sw_expected_revision q = Some n \<longrightarrow> n = actual_revision (ss_snapshots s) (sw_record q)) \<and>
     unat (actual_revision (ss_snapshots s) (sw_record q)) + 1 < 2 ^ 64 \<and>
     v = actual_revision (ss_snapshots s) (sw_record q) + 1 \<and>
     s' = s\<lparr>ss_snapshots := (ss_snapshots s)(sw_record q \<mapsto> snapshot_envelope_of q v),
            ss_receipts := (ss_receipts s)(sw_request_id q \<mapsto>
              \<lparr>ir_record = sw_record q, ir_fingerprint = request_fingerprint_from q,
               ir_revision = v\<rparr>)\<rparr>"
  by (auto simp: snapshot_save_def Let_def next_revision_Ok next_revision_Err
      split: option.splits result.splits)

lemma snapshot_save_duplicate_iff:
  "snapshot_save s q = (s', Ok (Duplicate v)) \<longleftrightarrow> s' = s \<and> snapshot_committed s q v"
  by (auto simp: snapshot_save_def snapshot_committed_def Let_def split: option.splits result.splits)

lemma snapshot_save_unchanged:
  "snapshot_save s q = (s', x) \<Longrightarrow> \<not> is_applied x \<Longrightarrow> s' = s"
  by (auto simp: snapshot_save_def Let_def split: option.splits result.splits if_splits)

lemma snapshot_save_errors:
  "snapshot_save s q = (s', Err e) \<Longrightarrow>
     (e = EmptyRequestId \<and> blank (sw_request_id q)) \<or>
     (e = IdempotencyConflict (sw_request_id q) \<and>
        (\<exists>c. ss_receipts s (sw_request_id q) = Some c \<and>
           (ir_record c \<noteq> sw_record q \<or> ir_fingerprint c \<noteq> request_fingerprint_from q))) \<or>
     (\<exists>n. e = RevisionConflict (sw_record q) (Some n)
              (actual_revision (ss_snapshots s) (sw_record q)) \<and>
        sw_expected_revision q = Some n \<and> n \<noteq> actual_revision (ss_snapshots s) (sw_record q)) \<or>
     (e = RevisionExhausted (sw_record q) \<and>
        unat (actual_revision (ss_snapshots s) (sw_record q)) = 2 ^ 64 - 1)"
proof -
  assume a: "snapshot_save s q = (s', Err e)"
  have "unat (actual_revision (ss_snapshots s) (sw_record q)) < 2 ^ 64"
    using unsigned_less [of "actual_revision (ss_snapshots s) (sw_record q)"] by simp
  with a show ?thesis
    by (auto simp: snapshot_save_def Let_def next_revision_Ok next_revision_Err
        split: option.splits result.splits if_splits)
qed

lemma snapshot_store_ok_save:
  assumes ok: "snapshot_store_ok s" and ap: "snapshot_save s q = (s', Ok (Applied v))"
  shows "snapshot_store_ok s'"
proof -
  let ?a = "actual_revision (ss_snapshots s) (sw_record q)"
  have u: "unat v = unat ?a + 1" using ap by (auto simp: snapshot_save_applied_iff unat_next)
  then have nz: "v \<noteq> 0" and gt: "?a < v" by (auto simp: word_less_nat_alt)
  have sn: "ss_snapshots s' = (ss_snapshots s)(sw_record q \<mapsto> snapshot_envelope_of q v)"
    and rc: "ss_receipts s' = (ss_receipts s)(sw_request_id q \<mapsto>
       \<lparr>ir_record = sw_record q, ir_fingerprint = request_fingerprint_from q, ir_revision = v\<rparr>)"
    using ap by (auto simp: snapshot_save_applied_iff)
  have mono: "actual_revision (ss_snapshots s) k \<le> actual_revision (ss_snapshots s') k" for k
    using gt by (simp add: sn snapshot_envelope_of_def order_less_imp_le)
  have "snapshots_ok (ss_snapshots s')"
    using ok nz by (auto simp: sn snapshot_store_ok_def snapshot_envelope_of_def
        intro!: snapshots_ok_upd)
  moreover have "0 < ir_revision c \<and> ir_revision c \<le> actual_revision (ss_snapshots s') (ir_record c)"
    if c: "ss_receipts s' i = Some c" for i c
  proof (cases "i = sw_request_id q")
    case True
    then show ?thesis using c nz by (auto simp: rc sn snapshot_envelope_of_def word_neq_0_conv)
  next
    case False
    then have "ss_receipts s i = Some c" using c by (simp add: rc)
    then have "0 < ir_revision c \<and> ir_revision c \<le> actual_revision (ss_snapshots s) (ir_record c)"
      using ok by (simp add: snapshot_store_ok_def)
    then show ?thesis using mono [of "ir_record c"] by (blast intro: order_trans)
  qed
  ultimately show ?thesis by (simp add: snapshot_store_ok_def)
qed

lemma snapshot_store_ok_new: "snapshot_store_ok snapshot_store_new"
  by (simp add: snapshot_store_ok_def snapshot_store_new_def)

section \<open>The store keeps the contract\<close>

interpretation snap: versioned_log snapshot_save snapshot_committed snapshot_store_ok
  "\<lambda>s. actual_revision (ss_snapshots s)" "\<lambda>q r. r = sw_record q" "\<lambda>q r. sw_expected_revision q"
proof (unfold_locales, goal_cases)
  case (1 s q s' r)
  then show ?case by (rule snapshot_store_ok_save)
next
  case (2 s q s' r)
  then show ?case by (simp add: snapshot_save_applied_iff snapshot_committed_def)
next
  case (3 s q r)
  then show ?case by (simp add: snapshot_save_duplicate_iff)
next
  case (4 s q r p s' r')
  then show ?case by (auto simp: snapshot_save_applied_iff snapshot_committed_def)
next
  case (5 s q s' x)
  then show ?case by (simp add: snapshot_save_unchanged)
next
  case (6 s q s' r k)
  then show ?case by (auto simp: snapshot_save_applied_iff snapshot_envelope_of_def unat_next)
next
  case (7 s q s' r k n)
  then show ?case by (simp add: snapshot_save_applied_iff)
qed

section \<open>Concrete requests\<close>

text \<open>The requests the unit tests of the source use, for the instances below.\<close>

definition player_key :: "string \<Rightarrow> record_key" where
  "player_key k = \<lparr>namespace = ''player'', key = k\<rparr>"

definition player_write :: "string \<Rightarrow> string \<Rightarrow> bytes \<Rightarrow> revision option \<Rightarrow> snapshot_write" where
  "player_write i k p e =
     \<lparr>sw_request_id = i, sw_record = player_key k, sw_schema = ''player.snapshot'',
      sw_schema_version = 1, sw_payload = p, sw_expected_revision = e, sw_updated_at_unix_ms = 1\<rparr>"

definition player_snapshot :: "string \<Rightarrow> bytes \<Rightarrow> revision \<Rightarrow> snapshot_envelope" where
  "player_snapshot k p v =
     \<lparr>se_record = player_key k, se_schema = ''player.snapshot'', se_schema_version = 1,
      se_revision = v, se_payload = p, se_updated_at_unix_ms = 1\<rparr>"

lemmas player_defs = player_key_def player_write_def player_snapshot_def

lemmas snapshot_save_eval = snapshot_save_def snapshot_store_new_def request_fingerprint_from_def
  snapshot_envelope_of_def actual_revision_def next_revision_def checked_add_def player_defs Let_def

section \<open>Properties\<close>

text \<open>
  C1. Exactly-once retry: once a snapshot write has been applied at some revision, presenting the
  same request again after any number of other writes returns \<open>Duplicate\<close> with that revision and
  leaves the store as it is.
\<close>

theorem snapshot_retry_replays:
  assumes "snapshot_store_ok s"
    and "snapshot_save s q = (s1, Ok (Applied v))"
    and "run snapshot_save s1 qs = (s2, rs)"
  shows "snapshot_save s2 q = (s2, Ok (Duplicate v))"
  by (rule snap.retry_replays [OF assms])

theorem snapshot_retry_replays_witness:
  "let q = player_write ''req-1'' ''1001'' [1] (Some 0);
       p = player_write ''req-2'' ''1001'' [2] (Some 1);
       s1 = fst (snapshot_save snapshot_store_new q);
       s2 = fst (run snapshot_save s1 [p])
   in snapshot_save s2 q = (s2, Ok (Duplicate 1))"
proof -
  let ?q = "player_write ''req-1'' ''1001'' [1] (Some 0)"
  let ?p = "player_write ''req-2'' ''1001'' [2] (Some 1)"
  let ?s1 = "fst (snapshot_save snapshot_store_new ?q)"
  have a: "snapshot_save snapshot_store_new ?q = (?s1, Ok (Applied 1))"
    by (simp add: snapshot_save_eval)
  have r: "run snapshot_save ?s1 [?p] =
      (fst (run snapshot_save ?s1 [?p]), snd (run snapshot_save ?s1 [?p]))" by simp
  show ?thesis
    using snapshot_retry_replays [OF snapshot_store_ok_new a r] by (simp only: Let_def)
qed

text \<open>
  Revisions count writes: over any sequence of saves on a new store, the revision of a record is
  the number of writes to it that were applied, so no applied write is lost and none is counted
  twice.
\<close>

lemma snapshot_revision_counts_writes:
  assumes "run snapshot_save snapshot_store_new qs = (s', rs)"
  shows "unat (actual_revision (ss_snapshots s') r) =
     applied_writes (\<lambda>q r. r = sw_record q) r qs rs"
  using snap.version_counts_writes [OF snapshot_store_ok_new assms, of r]
  by (simp add: snapshot_store_new_def)

lemma snapshot_revision_counts_writes_instance:
  "let qs = [player_write ''req-1'' ''1001'' [1] (Some 0), player_write ''req-2'' ''1001'' [2] (Some 0),
             player_write ''req-1'' ''1001'' [1] (Some 0), player_write ''req-3'' ''1001'' [3] None];
       (s', rs) = run snapshot_save snapshot_store_new qs
   in rs = [Ok (Applied 1), Err (RevisionConflict (player_key ''1001'') (Some 0) 1),
            Ok (Duplicate 1), Ok (Applied 2)] \<and>
      unat (actual_revision (ss_snapshots s') (player_key ''1001'')) =
        applied_writes (\<lambda>q r. r = sw_record q) (player_key ''1001'') qs rs"
proof -
  let ?qs = "[player_write ''req-1'' ''1001'' [1] (Some 0), player_write ''req-2'' ''1001'' [2] (Some 0),
             player_write ''req-1'' ''1001'' [1] (Some 0), player_write ''req-3'' ''1001'' [3] None]"
  obtain s' rs where r: "run snapshot_save snapshot_store_new ?qs = (s', rs)" by fastforce
  then have "rs = [Ok (Applied 1), Err (RevisionConflict (player_key ''1001'') (Some 0) 1),
            Ok (Duplicate 1), Ok (Applied 2)]"
    by (simp add: snapshot_save_eval)
  then show ?thesis
    using snapshot_revision_counts_writes [OF r, of "player_key ''1001''"] r by (simp only: Let_def) simp
qed

text \<open>
  Compare-and-swap is exclusive: of two conditional writes to the same record that expect the
  same revision, at most one is applied, whatever lies between them.
\<close>

lemma snapshot_cas_exclusive:
  assumes "snapshot_store_ok s" and "run snapshot_save s qs = (s', rs)"
    and "i < j" and "j < length qs"
    and "sw_record (qs ! i) = sw_record (qs ! j)"
    and "sw_expected_revision (qs ! i) = Some n" and "sw_expected_revision (qs ! j) = Some n"
    and "is_applied (rs ! i)"
  shows "\<not> is_applied (rs ! j)"
  using snap.cas_exclusive [OF assms(1-4), of "sw_record (qs ! j)" n] assms(5-8) by simp

lemma snapshot_cas_exclusive_instance:
  "\<not> is_applied (snd (run snapshot_save snapshot_store_new
     [player_write ''req-1'' ''1001'' [1] (Some 0), player_write ''req-2'' ''1001'' [2] (Some 0)]) ! 1)"
proof -
  let ?qs = "[player_write ''req-1'' ''1001'' [1] (Some 0), player_write ''req-2'' ''1001'' [2] (Some 0)]"
  obtain s' rs where r: "run snapshot_save snapshot_store_new ?qs = (s', rs)" by fastforce
  have e: "sw_record (?qs ! 0) = sw_record (?qs ! 1)" "sw_expected_revision (?qs ! 0) = Some 0"
    "sw_expected_revision (?qs ! 1) = Some 0" by (simp_all add: player_defs)
  have "is_applied (rs ! 0)" using r by (auto simp: snapshot_save_eval)
  from snapshot_cas_exclusive [OF snapshot_store_ok_new r _ _ e this] show ?thesis using r by simp
qed

end
