(* ===== verification/Transaction_Store.thy ===== *)
theory Transaction_Store
  imports Snapshot_Store
begin

text \<open>
  \<open>crates/dbproxy-core/src/transaction.rs\<close>: the single-record transaction contract and its
  in-memory implementation. A transaction must name the revision it read, stores the business result
  with the receipt, and its receipt can be read back by operation id.
\<close>

section \<open>State\<close>

record transactional_write =
  tw_operation_id :: string
  tw_record :: record_key
  tw_schema :: string
  tw_schema_version :: u32
  tw_expected_revision :: revision
  tw_payload :: bytes
  tw_result :: bytes
  tw_updated_at_unix_ms :: u64

record transaction_receipt =
  tr_operation_id :: string
  tr_record :: record_key
  tr_new_revision :: revision
  tr_result :: bytes

text \<open>The fields \<open>new_revision\<close> and \<open>result\<close> of both variants of \<open>TransactionalWriteOutcome\<close>.\<close>

type_synonym transactional_write_outcome = "(revision \<times> bytes) write_outcome"

record transaction_fingerprint =
  tf_record :: record_key
  tf_schema :: string
  tf_schema_version :: u32
  tf_expected_revision :: revision
  tf_payload :: bytes
  tf_result :: bytes
  tf_updated_at_unix_ms :: u64

definition transaction_fingerprint_from :: "transactional_write \<Rightarrow> transaction_fingerprint" where
  "transaction_fingerprint_from q =
     \<lparr>tf_record = tw_record q, tf_schema = tw_schema q, tf_schema_version = tw_schema_version q,
      tf_expected_revision = tw_expected_revision q, tf_payload = tw_payload q,
      tf_result = tw_result q, tf_updated_at_unix_ms = tw_updated_at_unix_ms q\<rparr>"

record stored_transaction_receipt =
  st_fingerprint :: transaction_fingerprint
  st_new_revision :: revision
  st_result :: bytes

record in_memory_transactional_store =
  ts_snapshots :: snapshots
  ts_receipts :: "string \<rightharpoonup> stored_transaction_receipt"

definition transactional_store_new :: in_memory_transactional_store where
  "transactional_store_new = \<lparr>ts_snapshots = Map.empty, ts_receipts = Map.empty\<rparr>"

section \<open>Operations\<close>

definition transactional_load ::
    "in_memory_transactional_store \<Rightarrow> record_key \<Rightarrow> snapshot_envelope option" where
  "transactional_load s r = ts_snapshots s r"

definition load_receipt :: "in_memory_transactional_store \<Rightarrow> string \<Rightarrow> record_key \<Rightarrow>
    (transaction_receipt option, store_error) result" where
  "load_receipt s i r =
     (if blank i then Err EmptyOperationId
      else case ts_receipts s i of
        None \<Rightarrow> Ok None
      | Some receipt \<Rightarrow>
          if tf_record (st_fingerprint receipt) \<noteq> r then Err (OperationIdConflict i)
          else Ok (Some \<lparr>tr_operation_id = i, tr_record = r,
                         tr_new_revision = st_new_revision receipt, tr_result = st_result receipt\<rparr>))"

definition transaction_envelope :: "transactional_write \<Rightarrow> revision \<Rightarrow> snapshot_envelope" where
  "transaction_envelope q v =
     \<lparr>se_record = tw_record q, se_schema = tw_schema q, se_schema_version = tw_schema_version q,
      se_revision = v, se_payload = tw_payload q, se_updated_at_unix_ms = tw_updated_at_unix_ms q\<rparr>"

definition transaction_apply :: "in_memory_transactional_store \<Rightarrow> transactional_write \<Rightarrow>
    in_memory_transactional_store \<times> (transactional_write_outcome, store_error) result" where
  "transaction_apply s q =
     (if blank (tw_operation_id q) then (s, Err EmptyOperationId)
      else case ts_receipts s (tw_operation_id q) of
        Some receipt \<Rightarrow>
          if st_fingerprint receipt \<noteq> transaction_fingerprint_from q
          then (s, Err (OperationIdConflict (tw_operation_id q)))
          else (s, Ok (Duplicate (st_new_revision receipt, st_result receipt)))
      | None \<Rightarrow>
          (let actual = actual_revision (ts_snapshots s) (tw_record q)
           in if actual \<noteq> tw_expected_revision q
              then (s, Err (RevisionConflict (tw_record q) (Some (tw_expected_revision q)) actual))
              else case next_revision (tw_record q) actual of
                Err e \<Rightarrow> (s, Err e)
              | Ok v \<Rightarrow>
                  (s\<lparr>ts_snapshots := (ts_snapshots s)(tw_record q \<mapsto> transaction_envelope q v),
                     ts_receipts := (ts_receipts s)(tw_operation_id q \<mapsto>
                       \<lparr>st_fingerprint = transaction_fingerprint_from q, st_new_revision = v,
                        st_result = tw_result q\<rparr>)\<rparr>,
                   Ok (Applied (v, tw_result q)))))"

section \<open>Behaviour of apply\<close>

definition transaction_committed ::
    "in_memory_transactional_store \<Rightarrow> transactional_write \<Rightarrow> revision \<times> bytes \<Rightarrow> bool" where
  "transaction_committed s q r \<longleftrightarrow> \<not> blank (tw_operation_id q) \<and>
     ts_receipts s (tw_operation_id q) =
       Some \<lparr>st_fingerprint = transaction_fingerprint_from q, st_new_revision = fst r,
             st_result = snd r\<rparr>"

definition transactional_store_ok :: "in_memory_transactional_store \<Rightarrow> bool" where
  "transactional_store_ok s \<longleftrightarrow> snapshots_ok (ts_snapshots s)"

lemma transaction_apply_applied_iff:
  "transaction_apply s q = (s', Ok (Applied r)) \<longleftrightarrow>
     \<not> blank (tw_operation_id q) \<and> ts_receipts s (tw_operation_id q) = None \<and>
     actual_revision (ts_snapshots s) (tw_record q) = tw_expected_revision q \<and>
     unat (tw_expected_revision q) + 1 < 2 ^ 64 \<and>
     r = (tw_expected_revision q + 1, tw_result q) \<and>
     s' = s\<lparr>ts_snapshots := (ts_snapshots s)(tw_record q \<mapsto>
              transaction_envelope q (tw_expected_revision q + 1)),
            ts_receipts := (ts_receipts s)(tw_operation_id q \<mapsto>
              \<lparr>st_fingerprint = transaction_fingerprint_from q,
               st_new_revision = tw_expected_revision q + 1, st_result = tw_result q\<rparr>)\<rparr>"
  by (auto simp: transaction_apply_def Let_def next_revision_Ok next_revision_Err
      split: option.splits result.splits)

lemma transaction_apply_duplicate_iff:
  "transaction_apply s q = (s', Ok (Duplicate r)) \<longleftrightarrow> s' = s \<and> transaction_committed s q r"
  by (cases r) (auto simp: transaction_apply_def transaction_committed_def Let_def
      split: option.splits result.splits)

lemma transaction_apply_unchanged:
  "transaction_apply s q = (s', x) \<Longrightarrow> \<not> is_applied x \<Longrightarrow> s' = s"
  by (auto simp: transaction_apply_def Let_def split: option.splits result.splits if_splits)

lemma transactional_store_ok_new: "transactional_store_ok transactional_store_new"
  by (simp add: transactional_store_ok_def transactional_store_new_def)

interpretation txn: versioned_log transaction_apply transaction_committed transactional_store_ok
  "\<lambda>s. actual_revision (ts_snapshots s)" "\<lambda>q r. r = tw_record q"
  "\<lambda>q r. Some (tw_expected_revision q)"
proof (unfold_locales, goal_cases)
  case (1 s q s' r)
  then show ?case
    using unat_next [of "tw_expected_revision q"]
    by (auto simp: transaction_apply_applied_iff transactional_store_ok_def transaction_envelope_def
        intro!: snapshots_ok_upd)
next
  case (2 s q s' r)
  then show ?case by (simp add: transaction_apply_applied_iff transaction_committed_def)
next
  case (3 s q r)
  then show ?case by (simp add: transaction_apply_duplicate_iff)
next
  case (4 s q r p s' r')
  then show ?case by (auto simp: transaction_apply_applied_iff transaction_committed_def)
next
  case (5 s q s' x)
  then show ?case by (simp add: transaction_apply_unchanged)
next
  case (6 s q s' r k)
  then show ?case by (auto simp: transaction_apply_applied_iff transaction_envelope_def unat_next)
next
  case (7 s q s' r k n)
  then show ?case by (simp add: transaction_apply_applied_iff)
qed

section \<open>Properties\<close>

definition player_transaction :: "string \<Rightarrow> revision \<Rightarrow> bytes \<Rightarrow> transactional_write" where
  "player_transaction i e p =
     \<lparr>tw_operation_id = i, tw_record = player_key ''1001'', tw_schema = ''player.transactional'',
      tw_schema_version = 1, tw_expected_revision = e, tw_payload = p, tw_result = [99],
      tw_updated_at_unix_ms = 1\<rparr>"

lemmas transaction_apply_eval = transaction_apply_def transactional_store_new_def
  transaction_fingerprint_from_def transaction_envelope_def actual_revision_def next_revision_def
  checked_add_def player_transaction_def player_key_def load_receipt_def Let_def

text \<open>
  A lost response can be recovered: after a transaction was applied and any other transactions
  were attempted, looking its receipt up by operation id and record returns the revision and the
  business result of the first commit, and re-submitting it replays the same result.
\<close>

lemma transaction_receipt_recoverable:
  assumes "transactional_store_ok s"
    and "transaction_apply s q = (s1, Ok (Applied (v, res)))"
    and "run transaction_apply s1 qs = (s2, rs)"
  shows "load_receipt s2 (tw_operation_id q) (tw_record q) =
      Ok (Some \<lparr>tr_operation_id = tw_operation_id q, tr_record = tw_record q,
                tr_new_revision = v, tr_result = res\<rparr>)
    \<and> transaction_apply s2 q = (s2, Ok (Duplicate (v, res)))"
proof -
  have d: "transaction_apply s2 q = (s2, Ok (Duplicate (v, res)))"
    by (rule txn.retry_replays [OF assms])
  then have "transaction_committed s2 q (v, res)" by (simp add: transaction_apply_duplicate_iff)
  then show ?thesis using d
    by (auto simp: transaction_committed_def load_receipt_def transaction_fingerprint_from_def)
qed

lemma transaction_receipt_recoverable_instance:
  "let q = player_transaction ''op-1'' 0 [1];
       s1 = fst (transaction_apply transactional_store_new q);
       s2 = fst (run transaction_apply s1
              [player_transaction ''op-2'' 0 [2], player_transaction ''op-3'' 1 [3]])
   in load_receipt s2 ''op-1'' (player_key ''1001'') =
        Ok (Some \<lparr>tr_operation_id = ''op-1'', tr_record = player_key ''1001'',
                  tr_new_revision = 1, tr_result = [99]\<rparr>)"
proof -
  let ?q = "player_transaction ''op-1'' 0 [1]"
  let ?qs = "[player_transaction ''op-2'' 0 [2], player_transaction ''op-3'' 1 [3]]"
  let ?s1 = "fst (transaction_apply transactional_store_new ?q)"
  have a: "transaction_apply transactional_store_new ?q = (?s1, Ok (Applied (1, [99])))"
    by (simp add: transaction_apply_eval)
  obtain s2 rs where r: "run transaction_apply ?s1 ?qs = (s2, rs)" by fastforce
  have "tw_operation_id ?q = ''op-1''" "tw_record ?q = player_key ''1001''"
    by (simp_all add: player_transaction_def)
  with transaction_receipt_recoverable [OF transactional_store_ok_new a r] r
  show ?thesis by (simp only: Let_def) simp
qed

text \<open>
  A failed compare-and-swap does not poison the operation id: after a revision conflict the
  store is unchanged, and the same operation resubmitted with the revision the error reports is
  applied (unless the revision space is exhausted).
\<close>

lemma transaction_conflict_then_corrected:
  assumes "transaction_apply s q = (s1, Err (RevisionConflict r e actual))"
    and "unat actual + 1 < 2 ^ 64"
  shows "s1 = s \<and> (\<exists>s2. transaction_apply s1 (q\<lparr>tw_expected_revision := actual\<rparr>) =
           (s2, Ok (Applied (actual + 1, tw_result q))))"
proof -
  have "s1 = s" using transaction_apply_unchanged [OF assms(1)] by simp
  moreover have "\<not> blank (tw_operation_id q)" "ts_receipts s (tw_operation_id q) = None"
    "actual = actual_revision (ts_snapshots s) (tw_record q)"
    using assms(1) by (auto simp: transaction_apply_def Let_def next_revision_Err
        split: option.splits result.splits if_splits)
  ultimately show ?thesis using assms(2) by (auto simp: transaction_apply_applied_iff)
qed

lemma transaction_conflict_then_corrected_instance:
  "\<exists>s s1 s2. transaction_apply s (player_transaction ''op-2'' 0 [2]) =
       (s1, Err (RevisionConflict (player_key ''1001'') (Some 0) 1)) \<and>
     transaction_apply s1 (player_transaction ''op-2'' 1 [2]) = (s2, Ok (Applied (2, [99])))"
proof -
  let ?s = "fst (transaction_apply transactional_store_new (player_transaction ''op-1'' 0 [1]))"
  let ?q = "player_transaction ''op-2'' 0 [2]"
  have c: "transaction_apply ?s ?q = (?s, Err (RevisionConflict (player_key ''1001'') (Some 0) 1))"
    by (simp add: transaction_apply_eval)
  have l: "unat (1 :: u64) + 1 < 2 ^ 64" by simp
  have q': "?q\<lparr>tw_expected_revision := 1\<rparr> = player_transaction ''op-2'' 1 [2]" "tw_result ?q = [99]"
    by (simp_all add: player_transaction_def)
  from transaction_conflict_then_corrected [OF c l] c show ?thesis
    unfolding q' by auto
qed

end
