(* ===== verification/Multi_Transaction_Store.thy ===== *)
theory Multi_Transaction_Store
  imports Transaction_Store
begin

text \<open>
  \<open>crates/dbproxy-core/src/multi_transaction.rs\<close>: atomic transactions over several records. A
  request is first brought into canonical form (writes sorted by record, no record twice); then all
  revisions are checked before any snapshot is replaced.

  The check of the writes against the current revisions and their installation are the two loops of
  \<open>apply_multi\<close>; the trade transactions and the sharded backend run the same two loops, so their
  facts are stated here for reuse.
\<close>

section \<open>State\<close>

record transactional_record_write =
  rw_record :: record_key
  rw_schema :: string
  rw_schema_version :: u32
  rw_expected_revision :: revision
  rw_payload :: bytes
  rw_updated_at_unix_ms :: u64

record multi_record_transactional_write =
  mw_operation_id :: string
  mw_writes :: "transactional_record_write list"
  mw_result :: bytes

record transaction_record_receipt =
  rr_record :: record_key
  rr_new_revision :: revision

record multi_record_transaction_receipt =
  mr_operation_id :: string
  mr_records :: "transaction_record_receipt list"
  mr_result :: bytes

type_synonym multi_outcome = "(transaction_record_receipt list \<times> bytes) write_outcome"

record stored_receipt =
  sr_writes :: "transactional_record_write list"
  sr_records :: "transaction_record_receipt list"
  sr_result :: bytes

record in_memory_multi_record_transaction_store =
  ms_snapshots :: snapshots
  ms_receipts :: "string \<rightharpoonup> stored_receipt"

definition multi_store_new :: in_memory_multi_record_transaction_store where
  "multi_store_new = \<lparr>ms_snapshots = Map.empty, ms_receipts = Map.empty\<rparr>"

section \<open>Operations\<close>

definition multi_normalize :: "multi_record_transactional_write \<Rightarrow>
    (multi_record_transactional_write, store_error) result" where
  "multi_normalize q =
     (if blank (mw_operation_id q) then Err EmptyOperationId
      else if mw_writes q = [] then Err EmptyTransactionRecords
      else let q = q\<lparr>mw_writes := sort_key rw_record (mw_writes q)\<rparr>
           in case first_adjacent rw_record (mw_writes q) of
                Some w \<Rightarrow> Err (DuplicateTransactionRecord (rw_record w))
              | None \<Rightarrow> Ok q)"

definition multi_load ::
    "in_memory_multi_record_transaction_store \<Rightarrow> record_key \<Rightarrow> snapshot_envelope option" where
  "multi_load s r = ms_snapshots s r"

definition load_multi_receipt :: "in_memory_multi_record_transaction_store \<Rightarrow> string \<Rightarrow>
    record_key list \<Rightarrow> (multi_record_transaction_receipt option, store_error) result" where
  "load_multi_receipt s i records =
     (if blank i then Err EmptyOperationId
      else let expected = sort_key (\<lambda>r. r) records
           in case ms_receipts s i of
                None \<Rightarrow> Ok None
              | Some receipt \<Rightarrow>
                  (let actual = map rr_record (sr_records receipt)
                   in if actual \<noteq> expected then Err (OperationIdConflict i)
                      else Ok (Some \<lparr>mr_operation_id = i, mr_records = sr_records receipt,
                                     mr_result = sr_result receipt\<rparr>)))"

text \<open>The first loop of \<open>apply_multi\<close>: one write against the current revisions.\<close>

definition check_write :: "snapshots \<Rightarrow> transactional_record_write \<Rightarrow>
    (transaction_record_receipt, store_error) result" where
  "check_write m w =
     (let actual = actual_revision m (rw_record w)
      in if actual \<noteq> rw_expected_revision w
         then Err (RevisionConflict (rw_record w) (Some (rw_expected_revision w)) actual)
         else and_then (next_revision (rw_record w) actual)
                (\<lambda>v. Ok \<lparr>rr_record = rw_record w, rr_new_revision = v\<rparr>))"

text \<open>The second loop: writes and receipts in step, one insertion each.\<close>

definition write_envelope ::
    "transactional_record_write \<Rightarrow> transaction_record_receipt \<Rightarrow> snapshot_envelope" where
  "write_envelope w c =
     \<lparr>se_record = rw_record w, se_schema = rw_schema w, se_schema_version = rw_schema_version w,
      se_revision = rr_new_revision c, se_payload = rw_payload w,
      se_updated_at_unix_ms = rw_updated_at_unix_ms w\<rparr>"

fun install_writes :: "snapshots \<Rightarrow> transactional_record_write list \<Rightarrow>
    transaction_record_receipt list \<Rightarrow> snapshots" where
  "install_writes m (w # ws) (c # cs) = install_writes (m(rw_record w \<mapsto> write_envelope w c)) ws cs"
| "install_writes m ws cs = m"

definition apply_multi :: "in_memory_multi_record_transaction_store \<Rightarrow>
    multi_record_transactional_write \<Rightarrow>
    in_memory_multi_record_transaction_store \<times> (multi_outcome, store_error) result" where
  "apply_multi s q0 =
     (case multi_normalize q0 of
        Err e \<Rightarrow> (s, Err e)
      | Ok q \<Rightarrow>
          (case ms_receipts s (mw_operation_id q) of
             Some receipt \<Rightarrow>
               if \<not> (sr_writes receipt = mw_writes q \<and> sr_result receipt = mw_result q)
               then (s, Err (OperationIdConflict (mw_operation_id q)))
               else (s, Ok (Duplicate (sr_records receipt, sr_result receipt)))
           | None \<Rightarrow>
               (case try_map (check_write (ms_snapshots s)) (mw_writes q) of
                  Err e \<Rightarrow> (s, Err e)
                | Ok committed \<Rightarrow>
                    (s\<lparr>ms_snapshots := install_writes (ms_snapshots s) (mw_writes q) committed,
                       ms_receipts := (ms_receipts s)(mw_operation_id q \<mapsto>
                         \<lparr>sr_writes = mw_writes q, sr_records = committed,
                          sr_result = mw_result q\<rparr>)\<rparr>,
                     Ok (Applied (committed, mw_result q))))))"

section \<open>Canonical form\<close>

lemma multi_normalize_Ok_iff:
  "multi_normalize q = Ok n \<longleftrightarrow>
     \<not> blank (mw_operation_id q) \<and> mw_writes q \<noteq> [] \<and> distinct (map rw_record (mw_writes q)) \<and>
     n = q\<lparr>mw_writes := sort_key rw_record (mw_writes q)\<rparr>"
proof -
  have "distinct (map rw_record (sort_key rw_record (mw_writes q))) \<longleftrightarrow>
      distinct (map rw_record (mw_writes q))"
    by (rule mset_eq_imp_distinct_iff) simp
  moreover have "first_adjacent rw_record (sort_key rw_record (mw_writes q)) = None \<longleftrightarrow>
      distinct (map rw_record (sort_key rw_record (mw_writes q)))"
    by (rule first_adjacent_sorted) simp
  ultimately show ?thesis
    by (auto simp: multi_normalize_def Let_def split: option.splits)
qed

lemma first_adjacent_key_cong:
  "map f xs = map f ys \<Longrightarrow>
     map_option f (first_adjacent f xs) = map_option f (first_adjacent f ys)"
proof (induction xs arbitrary: ys)
  case step: (Cons x xs)
  show ?case
  proof (cases xs)
    case Nil
    then show ?thesis using step.prems by (auto simp: Cons_eq_map_conv map_eq_Cons_conv)
  next
    case (Cons y zs)
    then obtain a b cs where "ys = a # b # cs"
      using step.prems by (auto simp: Cons_eq_map_conv map_eq_Cons_conv)
    then show ?thesis using Cons step.IH [of "b # cs"] step.prems by auto
  qed
qed auto

lemma sort_key_keys_mset:
  assumes "mset xs = mset ys"
  shows "map f (sort_key f xs) = map f (sort_key (f :: 'a \<Rightarrow> 'k :: linorder) ys)"
proof -
  have "mset (map f (sort_key f xs)) = mset (map f ys)" using assms by (metis mset_map mset_sort)
  then have "sort (map f ys) = map f (sort_key f xs)" by (rule properties_for_sort) simp
  moreover have "sort (map f ys) = map f (sort_key f ys)"
    by (rule properties_for_sort) simp_all
  ultimately show ?thesis by simp
qed

text \<open>Normalisation does not see the order in which the caller lists the writes.\<close>

lemma multi_normalize_order:
  assumes "mset (mw_writes q) = mset ws"
  shows "multi_normalize (q\<lparr>mw_writes := ws\<rparr>) = multi_normalize q"
proof (cases "distinct (map rw_record ws)")
  case True
  have "sort_key rw_record ws = sort_key rw_record (mw_writes q)"
    using assms True by (intro sort_key_distinct_unique) simp_all
  moreover have "(ws = []) = (mw_writes q = [])" using assms by (metis mset_zero_iff)
  ultimately show ?thesis by (simp add: multi_normalize_def)
next
  case False
  let ?a = "sort_key rw_record ws" and ?b = "sort_key rw_record (mw_writes q)"
  have k: "map_option rw_record (first_adjacent rw_record ?a) =
      map_option rw_record (first_adjacent rw_record ?b)"
    using assms by (intro first_adjacent_key_cong sort_key_keys_mset) simp
  have "\<not> distinct (map rw_record ?a)"
    using False mset_eq_imp_distinct_iff [of "map rw_record ?a" "map rw_record ws"] by simp
  then obtain w where w: "first_adjacent rw_record ?a = Some w"
    using first_adjacent_sorted [of rw_record ?a] by auto
  then obtain w' where "first_adjacent rw_record ?b = Some w'" "rw_record w' = rw_record w"
    using k by (cases "first_adjacent rw_record ?b") auto
  moreover have "(ws = []) = (mw_writes q = [])" using assms by (metis mset_zero_iff)
  ultimately show ?thesis using w by (simp add: multi_normalize_def)
qed

section \<open>The two loops\<close>

lemma check_write_Ok_iff:
  "check_write m w = Ok c \<longleftrightarrow>
     actual_revision m (rw_record w) = rw_expected_revision w \<and>
     unat (rw_expected_revision w) + 1 < 2 ^ 64 \<and>
     c = \<lparr>rr_record = rw_record w, rr_new_revision = rw_expected_revision w + 1\<rparr>"
  by (auto simp: check_write_def Let_def result_simps next_revision_Ok)

definition write_receipt :: "transactional_record_write \<Rightarrow> transaction_record_receipt" where
  "write_receipt w = \<lparr>rr_record = rw_record w, rr_new_revision = rw_expected_revision w + 1\<rparr>"

definition write_current :: "snapshots \<Rightarrow> transactional_record_write \<Rightarrow> bool" where
  "write_current m w \<longleftrightarrow> actual_revision m (rw_record w) = rw_expected_revision w \<and>
     unat (rw_expected_revision w) + 1 < 2 ^ 64"

lemma check_writes_Ok_iff:
  "try_map (check_write m) ws = Ok cs \<longleftrightarrow>
     (\<forall>w\<in>set ws. write_current m w) \<and> cs = map write_receipt ws"
  by (induction ws arbitrary: cs)
    (auto simp: result_simps check_write_Ok_iff write_receipt_def write_current_def)

lemma install_writes_other: "k \<notin> rw_record ` set ws \<Longrightarrow> install_writes m ws cs k = m k"
  by (induction m ws cs rule: install_writes.induct) auto

lemma install_writes_same:
  assumes "distinct (map rw_record ws)" and "w \<in> set ws"
  shows "install_writes m ws (map write_receipt ws) (rw_record w) =
     Some (write_envelope w (write_receipt w))"
  using assms
proof (induction ws arbitrary: m)
  case (Cons v ws)
  show ?case
  proof (cases "w = v")
    case True
    then have "rw_record w \<notin> rw_record ` set ws" using Cons.prems(1) by auto
    then show ?thesis using True by (simp add: install_writes_other)
  next
    case False
    then show ?thesis using Cons by simp
  qed
qed simp

lemma install_writes_revision:
  assumes "distinct (map rw_record ws)"
  shows "actual_revision (install_writes m ws (map write_receipt ws)) k =
     (case find (\<lambda>w. rw_record w = k) ws of
        None \<Rightarrow> actual_revision m k | Some w \<Rightarrow> rw_expected_revision w + 1)"
proof (cases "find (\<lambda>w. rw_record w = k) ws")
  case None
  then have "k \<notin> rw_record ` set ws" by (auto simp: find_None_iff)
  then show ?thesis using None by (simp add: actual_revision_def install_writes_other)
next
  case (Some w)
  then have "w \<in> set ws" "rw_record w = k" by (auto simp: find_Some_iff)
  then show ?thesis using Some install_writes_same [OF assms, of w m]
    by (simp add: actual_revision_def write_envelope_def write_receipt_def)
qed

lemma install_writes_ok:
  assumes "snapshots_ok m" and "\<forall>w\<in>set ws. write_current m' w"
  shows "snapshots_ok (install_writes m ws (map write_receipt ws))"
  using assms
proof (induction ws arbitrary: m)
  case (Cons w ws)
  have "unat (rw_expected_revision w + 1) = unat (rw_expected_revision w) + 1"
    using Cons.prems(2) by (intro unat_next) (simp add: write_current_def)
  then have "rw_expected_revision w + 1 \<noteq> 0" by auto
  then have "snapshots_ok (m(rw_record w \<mapsto> write_envelope w (write_receipt w)))"
    using Cons.prems(1) by (intro snapshots_ok_upd)
      (auto simp: write_envelope_def write_receipt_def)
  then show ?case using Cons by simp
qed simp

section \<open>Behaviour of apply_multi\<close>

definition multi_committed :: "in_memory_multi_record_transaction_store \<Rightarrow>
    multi_record_transactional_write \<Rightarrow> transaction_record_receipt list \<times> bytes \<Rightarrow> bool" where
  "multi_committed s q r \<longleftrightarrow> (\<exists>n. multi_normalize q = Ok n \<and>
     ms_receipts s (mw_operation_id q) =
       Some \<lparr>sr_writes = mw_writes n, sr_records = fst r, sr_result = snd r\<rparr> \<and>
     snd r = mw_result q)"

definition multi_store_ok :: "in_memory_multi_record_transaction_store \<Rightarrow> bool" where
  "multi_store_ok s \<longleftrightarrow> snapshots_ok (ms_snapshots s)"

lemma apply_multi_applied_iff:
  "apply_multi s q = (s', Ok (Applied r)) \<longleftrightarrow>
     (\<exists>n. multi_normalize q = Ok n \<and> ms_receipts s (mw_operation_id q) = None \<and>
        (\<forall>w\<in>set (mw_writes n). write_current (ms_snapshots s) w) \<and>
        r = (map write_receipt (mw_writes n), mw_result q) \<and>
        s' = s\<lparr>ms_snapshots := install_writes (ms_snapshots s) (mw_writes n)
                                 (map write_receipt (mw_writes n)),
               ms_receipts := (ms_receipts s)(mw_operation_id q \<mapsto>
                 \<lparr>sr_writes = mw_writes n, sr_records = map write_receipt (mw_writes n),
                  sr_result = mw_result q\<rparr>)\<rparr>)"
proof (cases "multi_normalize q")
  case (Ok n)
  then have n: "mw_operation_id n = mw_operation_id q" "mw_result n = mw_result q"
    by (auto simp: multi_normalize_Ok_iff)
  show ?thesis
  proof (cases "try_map (check_write (ms_snapshots s)) (mw_writes n)")
    case (Ok cs)
    then have "\<forall>w\<in>set (mw_writes n). write_current (ms_snapshots s) w"
      "cs = map write_receipt (mw_writes n)" by (simp_all add: check_writes_Ok_iff)
    then show ?thesis using \<open>multi_normalize q = Ok n\<close> Ok n
      by (auto simp: apply_multi_def split: option.splits if_splits)
  next
    case (Err e)
    then have "\<not> (\<forall>w\<in>set (mw_writes n). write_current (ms_snapshots s) w)"
      using check_writes_Ok_iff [of "ms_snapshots s" "mw_writes n"] by (metis result.distinct(1))
    then show ?thesis using \<open>multi_normalize q = Ok n\<close> Err n
      by (auto simp: apply_multi_def split: option.splits if_splits)
  qed
qed (simp add: apply_multi_def)

lemma apply_multi_duplicate_iff:
  "apply_multi s q = (s', Ok (Duplicate r)) \<longleftrightarrow> s' = s \<and> multi_committed s q r"
proof (cases "multi_normalize q")
  case (Ok n)
  then have "mw_operation_id n = mw_operation_id q" "mw_result n = mw_result q"
    by (auto simp: multi_normalize_Ok_iff)
  with Ok show ?thesis
    by (cases r) (auto simp: apply_multi_def multi_committed_def
        split: option.splits result.splits if_splits)
qed (simp add: apply_multi_def multi_committed_def)

lemma apply_multi_unchanged: "apply_multi s q = (s', x) \<Longrightarrow> \<not> is_applied x \<Longrightarrow> s' = s"
  by (auto simp: apply_multi_def split: option.splits result.splits if_splits)

lemma multi_store_ok_new: "multi_store_ok multi_store_new"
  by (simp add: multi_store_ok_def multi_store_new_def)

section \<open>The store keeps the contract\<close>

definition multi_writes :: "multi_record_transactional_write \<Rightarrow> record_key \<Rightarrow> bool" where
  "multi_writes q k \<longleftrightarrow> k \<in> rw_record ` set (mw_writes q)"

definition multi_expects :: "multi_record_transactional_write \<Rightarrow> record_key \<Rightarrow> revision option" where
  "multi_expects q k = map_option rw_expected_revision (find (\<lambda>w. rw_record w = k) (mw_writes q))"

text \<open>The revisions after the installation of a canonical request.\<close>

lemma canonical_install_revision:
  assumes "multi_normalize q = Ok n" and "\<forall>w\<in>set (mw_writes n). write_current m w"
  shows "unat (actual_revision (install_writes m (mw_writes n) (map write_receipt (mw_writes n))) k) =
     unat (actual_revision m k) + (if multi_writes q k then 1 else 0)"
proof -
  have n: "mw_writes n = sort_key rw_record (mw_writes q)" and d: "distinct (map rw_record (mw_writes q))"
    using assms(1) by (auto simp: multi_normalize_Ok_iff)
  have dn: "distinct (map rw_record (mw_writes n))"
    unfolding n using d mset_eq_imp_distinct_iff [of "map rw_record (sort_key rw_record (mw_writes q))"]
    by (metis mset_map mset_sort)
  have st: "set (mw_writes n) = set (mw_writes q)" by (simp add: n)
  show ?thesis
  proof (cases "find (\<lambda>w. rw_record w = k) (mw_writes n)")
    case None
    then have "\<not> multi_writes q k" using st by (auto simp: find_None_iff multi_writes_def)
    then show ?thesis using None by (simp add: install_writes_revision [OF dn])
  next
    case (Some w)
    then have w: "w \<in> set (mw_writes n)" "rw_record w = k" by (auto simp: find_Some_iff)
    then have "multi_writes q k" using st by (auto simp: multi_writes_def)
    moreover have "write_current m w" using assms(2) w(1) by blast
    then have "unat (rw_expected_revision w + 1) = unat (actual_revision m k) + 1"
      using w(2) unat_next by (auto simp: write_current_def)
    ultimately show ?thesis using Some by (simp add: install_writes_revision [OF dn])
  qed
qed

lemma canonical_expects:
  assumes "multi_normalize q = Ok n" and "\<forall>w\<in>set (mw_writes n). write_current m w"
    and "multi_expects q k = Some e"
  shows "actual_revision m k = e"
proof -
  have st: "set (mw_writes n) = set (mw_writes q)" using assms(1) by (auto simp: multi_normalize_Ok_iff)
  from assms(3) obtain w where "find (\<lambda>w. rw_record w = k) (mw_writes q) = Some w"
    and e: "e = rw_expected_revision w" by (auto simp: multi_expects_def)
  then have "w \<in> set (mw_writes n)" "rw_record w = k" using st by (auto simp: find_Some_iff)
  then show ?thesis using assms(2) e by (auto simp: write_current_def)
qed

interpretation multi: versioned_log apply_multi multi_committed multi_store_ok
  "\<lambda>s. actual_revision (ms_snapshots s)" multi_writes multi_expects
proof (unfold_locales, goal_cases)
  case (1 s q s' r)
  then show ?case
    by (auto simp: apply_multi_applied_iff multi_store_ok_def
        intro!: install_writes_ok [where m' = "ms_snapshots s"])
next
  case (2 s q s' r)
  then show ?case by (auto simp: apply_multi_applied_iff multi_committed_def)
next
  case (3 s q r)
  then show ?case by (simp add: apply_multi_duplicate_iff)
next
  case (4 s q r p s' r')
  then show ?case by (auto simp: apply_multi_applied_iff multi_committed_def)
next
  case (5 s q s' x)
  then show ?case by (simp add: apply_multi_unchanged)
next
  case (6 s q s' r k)
  then show ?case by (auto simp: apply_multi_applied_iff canonical_install_revision)
next
  case (7 s q s' r k e)
  then show ?case by (auto simp: apply_multi_applied_iff intro: canonical_expects)
qed

section \<open>Properties\<close>

definition wallet_write :: "string \<Rightarrow> revision \<Rightarrow> bytes \<Rightarrow> transactional_record_write" where
  "wallet_write k e p =
     \<lparr>rw_record = \<lparr>namespace = ''wallet'', key = k\<rparr>, rw_schema = ''wallet.v1'', rw_schema_version = 1,
      rw_expected_revision = e, rw_payload = p, rw_updated_at_unix_ms = 5\<rparr>"

definition wallet_transfer :: "string \<Rightarrow> revision \<Rightarrow> multi_record_transactional_write" where
  "wallet_transfer i e =
     \<lparr>mw_operation_id = i, mw_writes = [wallet_write ''seller'' e [2], wallet_write ''buyer'' e [1]],
      mw_result = [7]\<rparr>"

lemma wallet_order [simp]:
  "\<lparr>namespace = ''wallet'', key = ''seller''\<rparr> \<le> \<lparr>namespace = ''wallet'', key = ''buyer''\<rparr> \<longleftrightarrow> False"
  by (simp add: less_eq_record_key_ext_def less_eq_prod_def)

lemmas apply_multi_eval = apply_multi_def multi_normalize_def multi_store_new_def check_write_def
  write_envelope_def actual_revision_def next_revision_def checked_add_def wallet_transfer_def
  wallet_write_def load_multi_receipt_def Let_def

text \<open>
  C6. All or nothing: a multi-record transaction that is not applied leaves the store exactly as it
  was. One that is applied found every record at the revision it expects, replaces every one of them
  by the given content at the next revision, touches no other record, and returns one receipt per
  write with the result of the request.
\<close>

theorem apply_multi_atomic:
  assumes "apply_multi s q = (s', x)"
  shows "(\<not> is_applied x \<and> s' = s) \<or>
    (\<exists>cs. x = Ok (Applied (cs, mw_result q)) \<and>
       mset cs = image_mset write_receipt (mset (mw_writes q)) \<and>
       (\<forall>w\<in>set (mw_writes q).
          actual_revision (ms_snapshots s) (rw_record w) = rw_expected_revision w \<and>
          ms_snapshots s' (rw_record w) = Some (write_envelope w (write_receipt w))) \<and>
       (\<forall>k. k \<notin> rw_record ` set (mw_writes q) \<longrightarrow> ms_snapshots s' k = ms_snapshots s k))"
proof (cases "is_applied x")
  case False
  then show ?thesis using apply_multi_unchanged [OF assms] by blast
next
  case True
  then obtain r where "apply_multi s q = (s', Ok (Applied r))" and x: "x = Ok (Applied r)"
    using assms by (auto simp: is_applied_iff)
  then obtain n where n: "multi_normalize q = Ok n"
    and cur: "\<forall>w\<in>set (mw_writes n). write_current (ms_snapshots s) w"
    and r: "r = (map write_receipt (mw_writes n), mw_result q)"
    and s': "ms_snapshots s' = install_writes (ms_snapshots s) (mw_writes n)
               (map write_receipt (mw_writes n))"
    by (auto simp: apply_multi_applied_iff)
  have st: "set (mw_writes n) = set (mw_writes q)" and ms: "mset (mw_writes n) = mset (mw_writes q)"
    and d: "distinct (map rw_record (mw_writes q))"
    using n by (auto simp: multi_normalize_Ok_iff)
  have dn: "distinct (map rw_record (mw_writes n))"
    using d ms by (metis mset_eq_imp_distinct_iff mset_map)
  have "ms_snapshots s' (rw_record w) = Some (write_envelope w (write_receipt w))"
    if "w \<in> set (mw_writes q)" for w
    unfolding s' using install_writes_same [OF dn] that st by blast
  moreover have "ms_snapshots s' k = ms_snapshots s k" if "k \<notin> rw_record ` set (mw_writes q)" for k
    unfolding s' using that st by (intro install_writes_other) simp
  ultimately show ?thesis using x r cur st ms by (auto simp: write_current_def)
qed

theorem apply_multi_atomic_witness:
  "\<exists>s'. apply_multi multi_store_new (wallet_transfer ''op-1'' 0) =
      (s', Ok (Applied ([\<lparr>rr_record = \<lparr>namespace = ''wallet'', key = ''buyer''\<rparr>, rr_new_revision = 1\<rparr>,
                         \<lparr>rr_record = \<lparr>namespace = ''wallet'', key = ''seller''\<rparr>, rr_new_revision = 1\<rparr>],
                        [7]))) \<and>
     map_option se_payload (ms_snapshots s' \<lparr>namespace = ''wallet'', key = ''seller''\<rparr>) = Some [2]"
proof -
  let ?q = "wallet_transfer ''op-1'' 0"
  obtain s' x where r: "apply_multi multi_store_new ?q = (s', x)" by fastforce
  have x: "x = Ok (Applied ([\<lparr>rr_record = \<lparr>namespace = ''wallet'', key = ''buyer''\<rparr>, rr_new_revision = 1\<rparr>,
                         \<lparr>rr_record = \<lparr>namespace = ''wallet'', key = ''seller''\<rparr>, rr_new_revision = 1\<rparr>],
                        [7]))"
    using r by (auto simp: apply_multi_eval)
  have w: "wallet_write ''seller'' 0 [2] \<in> set (mw_writes ?q)" by (simp add: wallet_transfer_def)
  have "ms_snapshots s' (rw_record (wallet_write ''seller'' 0 [2])) =
      Some (write_envelope (wallet_write ''seller'' 0 [2]) (write_receipt (wallet_write ''seller'' 0 [2])))"
    using apply_multi_atomic [OF r] x w by auto
  then show ?thesis using r x by (simp add: wallet_write_def write_envelope_def)
qed

text \<open>
  The order in which a caller lists the writes is irrelevant: a reordered request has the same
  effect and the same result on every store, errors included; in particular a retry that lists the
  records differently still finds its receipt.
\<close>

lemma apply_multi_order_irrelevant:
  assumes "mset ws = mset (mw_writes q)"
  shows "apply_multi s (q\<lparr>mw_writes := ws\<rparr>) = apply_multi s q"
  using multi_normalize_order [of q ws] assms by (simp add: apply_multi_def)

lemma apply_multi_order_irrelevant_instance:
  "apply_multi multi_store_new ((wallet_transfer ''op-1'' 0)\<lparr>mw_writes :=
      [wallet_write ''buyer'' 0 [1], wallet_write ''seller'' 0 [2]]\<rparr>) =
   apply_multi multi_store_new (wallet_transfer ''op-1'' 0)"
proof -
  have "mset [wallet_write ''buyer'' 0 [1], wallet_write ''seller'' 0 [2]] =
      mset (mw_writes (wallet_transfer ''op-1'' 0))"
    by (simp add: wallet_transfer_def)
  then show ?thesis by (rule apply_multi_order_irrelevant)
qed

text \<open>
  The receipt of an applied multi-record transaction survives every later transaction: looking
  it up with the operation id and the records of the request, in any order, returns the revisions
  and the result of the first commit, and submitting the request again replays them.
\<close>

lemma multi_receipt_recoverable:
  assumes "multi_store_ok s" and "apply_multi s q = (s1, Ok (Applied (cs, res)))"
    and "run apply_multi s1 qs = (s2, rs)"
    and "mset ks = mset (map rw_record (mw_writes q))"
  shows "load_multi_receipt s2 (mw_operation_id q) ks =
      Ok (Some \<lparr>mr_operation_id = mw_operation_id q, mr_records = cs, mr_result = res\<rparr>)
    \<and> apply_multi s2 q = (s2, Ok (Duplicate (cs, res)))"
proof -
  have d: "apply_multi s2 q = (s2, Ok (Duplicate (cs, res)))"
    by (rule multi.retry_replays [OF assms(1-3)])
  then obtain n where n: "multi_normalize q = Ok n" and
    rc: "ms_receipts s2 (mw_operation_id q) = Some \<lparr>sr_writes = mw_writes n, sr_records = cs, sr_result = res\<rparr>"
    by (auto simp: apply_multi_duplicate_iff multi_committed_def)
  have cs: "cs = map write_receipt (mw_writes n)"
    using assms(2) n by (auto simp: apply_multi_applied_iff)
  have wn: "mw_writes n = sort_key rw_record (mw_writes q)" and nb: "\<not> blank (mw_operation_id q)"
    using n by (auto simp: multi_normalize_Ok_iff)
  have "map rr_record cs = map rw_record (mw_writes n)"
    by (simp add: cs write_receipt_def)
  moreover have "sort_key (\<lambda>r. r) ks = map rw_record (mw_writes n)"
    unfolding wn using assms(4) by (intro properties_for_sort) simp_all
  ultimately show ?thesis using d rc nb by (simp add: load_multi_receipt_def)
qed

lemma multi_receipt_recoverable_instance:
  "\<exists>s2 cs. fst (run apply_multi (fst (apply_multi multi_store_new (wallet_transfer ''op-1'' 0)))
              [wallet_transfer ''op-2'' 1]) = s2 \<and>
     load_multi_receipt s2 ''op-1'' (map (\<lambda>k. \<lparr>namespace = ''wallet'', key = k\<rparr>) [''seller'', ''buyer'']) =
       Ok (Some \<lparr>mr_operation_id = ''op-1'', mr_records = cs, mr_result = [7]\<rparr>)"
proof -
  let ?q = "wallet_transfer ''op-1'' 0"
  let ?s1 = "fst (apply_multi multi_store_new ?q)"
  let ?ks = "map (\<lambda>k. \<lparr>namespace = ''wallet'', key = k\<rparr>) [''seller'', ''buyer'']"
  obtain cs where a: "apply_multi multi_store_new ?q = (?s1, Ok (Applied (cs, [7])))"
    by (simp add: apply_multi_eval)
  obtain s2 rs where r: "run apply_multi ?s1 [wallet_transfer ''op-2'' 1] = (s2, rs)" by fastforce
  have k: "mset ?ks = mset (map rw_record (mw_writes ?q))"
    by (simp add: wallet_transfer_def wallet_write_def)
  have "mw_operation_id ?q = ''op-1''" by (simp add: wallet_transfer_def)
  with multi_receipt_recoverable [OF multi_store_ok_new a r k] r show ?thesis
    by (metis fst_conv)
qed

text \<open>
  Overlapping transactions are serialised by their revisions: of two multi-record transactions
  that share a record and expect the same revision of it, at most one is applied in any run.
\<close>

lemma multi_cas_exclusive:
  assumes "multi_store_ok s" and "run apply_multi s qs = (s', rs)"
    and "i < j" and "j < length qs"
    and "multi_expects (qs ! i) k = Some n" and "multi_expects (qs ! j) k = Some n"
    and "is_applied (rs ! i)"
  shows "\<not> is_applied (rs ! j)"
proof -
  have "multi_writes q k" if "multi_expects q k = Some n" for q
    using that by (auto simp: multi_expects_def multi_writes_def find_Some_iff)
  then show ?thesis using multi.cas_exclusive [OF assms(1-4)] assms(5-7) by blast
qed

lemma multi_cas_exclusive_instance:
  "\<not> is_applied (snd (run apply_multi multi_store_new
      [wallet_transfer ''op-1'' 0, wallet_transfer ''op-2'' 0]) ! 1)"
proof -
  let ?qs = "[wallet_transfer ''op-1'' 0, wallet_transfer ''op-2'' 0]"
  let ?k = "\<lparr>namespace = ''wallet'', key = ''buyer''\<rparr>"
  obtain s' rs where r: "run apply_multi multi_store_new ?qs = (s', rs)" by fastforce
  have e: "multi_expects (?qs ! 0) ?k = Some 0" "multi_expects (?qs ! 1) ?k = Some 0"
    by (simp_all add: multi_expects_def wallet_transfer_def wallet_write_def)
  have "is_applied (rs ! 0)" using r by (auto simp: apply_multi_eval)
  from multi_cas_exclusive [OF multi_store_ok_new r _ _ e this] show ?thesis using r by simp
qed

end
