(* ===== verification/Flush_Queue.thy ===== *)
theory Flush_Queue
  imports Snapshot_Store "HOL-Library.AList"
begin

text \<open>
  \<open>crates/dbproxy-core/src/flush.rs\<close>: the coalescing queue for ordinary snapshots and its two
  draining loops. The pending \<open>HashMap\<close> is an association list with distinct keys, so that its
  \<open>len\<close> is a length. The loops are generic in the store they write to, as in the source
  (\<open>S: AsyncSnapshotStore\<close>); the store's promise is the locale \<open>snapshot_sink\<close>, which
  \<open>InMemorySnapshotStore\<close> keeps. \<open>pending.remove(..).expect(..)\<close> panics when the order and the map
  disagree: a panic is the result \<open>None\<close>.
\<close>

section \<open>State\<close>

record snapshot_flush_report =
  fr_attempted :: nat
  fr_applied :: nat
  fr_duplicate :: nat
  fr_remaining :: nat

definition flush_report_default :: snapshot_flush_report where
  "flush_report_default =
     \<lparr>fr_attempted = 0, fr_applied = 0, fr_duplicate = 0, fr_remaining = 0\<rparr>"

definition flush_report_merge ::
    "snapshot_flush_report \<Rightarrow> snapshot_flush_report \<Rightarrow> snapshot_flush_report" where
  "flush_report_merge a b =
     \<lparr>fr_attempted = fr_attempted a + fr_attempted b, fr_applied = fr_applied a + fr_applied b,
      fr_duplicate = fr_duplicate a + fr_duplicate b, fr_remaining = fr_remaining b\<rparr>"

record 'e snapshot_flush_error =
  fe_error :: 'e
  fe_report :: snapshot_flush_report

record snapshot_flush_queue =
  fq_order :: "record_key list"
  fq_pending :: "(record_key \<times> snapshot_write) list"

definition flush_queue_new :: snapshot_flush_queue where
  "flush_queue_new = \<lparr>fq_order = [], fq_pending = []\<rparr>"

section \<open>Operations\<close>

definition flush_len :: "snapshot_flush_queue \<Rightarrow> nat" where
  "flush_len q = length (fq_pending q)"

definition flush_is_empty :: "snapshot_flush_queue \<Rightarrow> bool" where
  "flush_is_empty q \<longleftrightarrow> fq_pending q = []"

definition flush_enqueue :: "snapshot_flush_queue \<Rightarrow> snapshot_write \<Rightarrow>
    snapshot_flush_queue \<times> (bool, store_error) result" where
  "flush_enqueue q w =
     (if blank (sw_request_id w) then (q, Err EmptyRequestId)
      else if blank (namespace (sw_record w)) then (q, Err (InvalidKey ''namespace is empty''))
      else if blank (key (sw_record w)) then (q, Err (InvalidKey ''key is empty''))
      else if sw_expected_revision w \<noteq> None
      then (q, Err (QueuedSnapshotRequiresUnconditionalWrite (sw_record w)))
      else let r = sw_record w;
               replaced = (map_of (fq_pending q) r \<noteq> None);
               q' = q\<lparr>fq_pending := AList.update r w (fq_pending q)\<rparr>
           in (if \<not> replaced then q'\<lparr>fq_order := fq_order q' @ [r]\<rparr> else q', Ok replaced))"

type_synonym ('s, 'e) save_op = "'s \<Rightarrow> snapshot_write \<Rightarrow> 's \<times> (snapshot_write_outcome, 'e) result"

type_synonym ('s, 'e) flush_result =
  "(snapshot_flush_queue \<times> 's \<times> (snapshot_flush_report, 'e snapshot_flush_error) result) option"

function flush_loop :: "('s, 'e) save_op \<Rightarrow> nat \<Rightarrow> snapshot_flush_queue \<Rightarrow> 's \<Rightarrow>
    snapshot_flush_report \<Rightarrow> ('s, 'e) flush_result" where
  "flush_loop save max_items q st rep =
     (if fr_attempted rep < max_items
      then case fq_order q of
          [] \<Rightarrow> Some (q, st, Ok (rep\<lparr>fr_remaining := flush_len q\<rparr>))
        | r # rest \<Rightarrow>
            (case map_of (fq_pending q) r of
               None \<Rightarrow> None
             | Some w \<Rightarrow>
                 (let q1 = \<lparr>fq_order = rest, fq_pending = AList.delete r (fq_pending q)\<rparr>;
                      rep1 = rep\<lparr>fr_attempted := fr_attempted rep + 1\<rparr>;
                      (st', x) = save st w
                  in case x of
                       Ok (Applied v) \<Rightarrow>
                         flush_loop save max_items q1 st' (rep1\<lparr>fr_applied := fr_applied rep1 + 1\<rparr>)
                     | Ok (Duplicate v) \<Rightarrow>
                         flush_loop save max_items q1 st' (rep1\<lparr>fr_duplicate := fr_duplicate rep1 + 1\<rparr>)
                     | Err e \<Rightarrow>
                         (let q2 = \<lparr>fq_order = r # rest,
                                    fq_pending = AList.update r w (fq_pending q1)\<rparr>
                          in Some (q2, st', Err \<lparr>fe_error = e,
                                                 fe_report = rep1\<lparr>fr_remaining := flush_len q2\<rparr>\<rparr>))))
      else Some (q, st, Ok (rep\<lparr>fr_remaining := flush_len q\<rparr>)))"
  by pat_completeness auto
termination
  by (relation "measure (\<lambda>(save, max_items, q, st, rep). max_items - fr_attempted rep)") auto

declare flush_loop.simps [simp del]

definition flush :: "('s, 'e) save_op \<Rightarrow> snapshot_flush_queue \<Rightarrow> 's \<Rightarrow> nat \<Rightarrow> ('s, 'e) flush_result" where
  "flush save q st max_items = flush_loop save max_items q st flush_report_default"

fun flush_rounds :: "('s, 'e) save_op \<Rightarrow> nat \<Rightarrow> nat \<Rightarrow> snapshot_flush_queue \<Rightarrow> 's \<Rightarrow>
    snapshot_flush_report \<Rightarrow> ('s, 'e) flush_result" where
  "flush_rounds save max_items 0 q st tot =
     Some (q, st, Ok (tot\<lparr>fr_remaining := flush_len q\<rparr>))"
| "flush_rounds save max_items (Suc n) q st tot =
     (if flush_is_empty q then Some (q, st, Ok (tot\<lparr>fr_remaining := flush_len q\<rparr>))
      else case flush save q st max_items of
          None \<Rightarrow> None
        | Some (q', st', Ok rep) \<Rightarrow>
            flush_rounds save max_items n q' st' (flush_report_merge tot rep)
        | Some (q', st', Err err) \<Rightarrow>
            Some (q', st', Err (err\<lparr>fe_report := flush_report_merge tot (fe_report err)\<rparr>)))"

definition flush_until_empty :: "('s, 'e) save_op \<Rightarrow> snapshot_flush_queue \<Rightarrow> 's \<Rightarrow> nat \<Rightarrow> nat \<Rightarrow>
    ('s, 'e) flush_result" where
  "flush_until_empty save q st max_items_per_round max_rounds =
     (let tot = flush_report_default\<lparr>fr_remaining := flush_len q\<rparr>
      in if max_items_per_round = 0 \<or> max_rounds = 0 then Some (q, st, Ok tot)
         else flush_rounds save max_items_per_round max_rounds q st tot)"

declare map_of_eq_Some_iff [simp del]

section \<open>Invariant\<close>

text \<open>The order lists every pending record once, and each request is filed under its own record.\<close>

definition flush_queue_ok :: "snapshot_flush_queue \<Rightarrow> bool" where
  "flush_queue_ok q \<longleftrightarrow> distinct (fq_order q) \<and> distinct (map fst (fq_pending q)) \<and>
     set (fq_order q) = dom (map_of (fq_pending q)) \<and>
     (\<forall>r w. map_of (fq_pending q) r = Some w \<longrightarrow> sw_record w = r \<and> sw_expected_revision w = None)"

text \<open>The pending requests in the order in which they will be written.\<close>

definition pending_list :: "snapshot_flush_queue \<Rightarrow> snapshot_write list" where
  "pending_list q = map (\<lambda>r. the (map_of (fq_pending q) r)) (fq_order q)"

lemma flush_queue_ok_new: "flush_queue_ok flush_queue_new"
  by (simp add: flush_queue_ok_def flush_queue_new_def)

lemma flush_queue_len: "flush_queue_ok q \<Longrightarrow> flush_len q = length (fq_order q)"
  by (metis distinct_card dom_map_of_conv_image_fst flush_len_def flush_queue_ok_def length_map list.set_map)

lemma pending_list_length [simp]: "length (pending_list q) = length (fq_order q)"
  by (simp add: pending_list_def)

lemma flush_queue_lookup:
  "flush_queue_ok q \<Longrightarrow> r \<in> set (fq_order q) \<longleftrightarrow> map_of (fq_pending q) r \<noteq> None"
  by (simp add: flush_queue_ok_def domIff)

lemma pending_records: "flush_queue_ok q \<Longrightarrow> map sw_record (pending_list q) = fq_order q"
proof -
  assume q: "flush_queue_ok q"
  have "sw_record (the (map_of (fq_pending q) r)) = r" if "r \<in> set (fq_order q)" for r
    using q that flush_queue_lookup [OF q, of r] by (auto simp: flush_queue_ok_def)
  then show ?thesis by (simp add: pending_list_def map_idI)
qed

lemma flush_queue_pop:
  assumes q: "flush_queue_ok q" and fo: "fq_order q = r # rest"
  defines "q1 \<equiv> \<lparr>fq_order = rest, fq_pending = AList.delete r (fq_pending q)\<rparr>"
  shows "flush_queue_ok q1" and "\<exists>w. map_of (fq_pending q) r = Some w \<and> pending_list q = w # pending_list q1"
proof -
  have r: "r \<notin> set rest" and d: "distinct rest" using q fo by (auto simp: flush_queue_ok_def)
  have "set rest = dom (map_of (AList.delete r (fq_pending q)))"
    using q fo r by (auto simp: flush_queue_ok_def delete_conv')
  then show "flush_queue_ok q1"
    using q d by (auto simp: q1_def flush_queue_ok_def delete_conv' distinct_delete split: if_splits)
  have "the (map_of (AList.delete r (fq_pending q)) k) = the (map_of (fq_pending q) k)"
    if "k \<in> set rest" for k using that r by (auto simp: delete_conv')
  then have "pending_list q = the (map_of (fq_pending q) r) # pending_list q1"
    by (simp add: pending_list_def fo q1_def)
  moreover have "map_of (fq_pending q) r \<noteq> None" using flush_queue_lookup [OF q, of r] fo by simp
  ultimately show "\<exists>w. map_of (fq_pending q) r = Some w \<and> pending_list q = w # pending_list q1"
    by auto
qed

lemma flush_queue_push_front:
  assumes q: "flush_queue_ok q" and fo: "fq_order q = r # rest" and w: "map_of (fq_pending q) r = Some w"
  defines "q2 \<equiv> \<lparr>fq_order = r # rest, fq_pending = AList.update r w (AList.delete r (fq_pending q))\<rparr>"
  shows "flush_queue_ok q2" and "pending_list q2 = pending_list q"
proof -
  have m: "map_of (fq_pending q2) = map_of (fq_pending q)"
    using w by (auto simp: q2_def update_conv' delete_conv')
  have "set (fq_order q2) = dom (map_of (fq_pending q2))"
    using q fo m by (simp add: q2_def flush_queue_ok_def)
  then show "flush_queue_ok q2"
    using q fo m by (auto simp: flush_queue_ok_def q2_def distinct_update distinct_delete)
  show "pending_list q2 = pending_list q" using m fo by (simp add: pending_list_def q2_def)
qed

lemma flush_enqueue_ok: "flush_queue_ok q \<Longrightarrow> flush_queue_ok (fst (flush_enqueue q w))"
  by (auto simp: flush_enqueue_def flush_queue_ok_def Let_def distinct_update update_conv'
      simp del: map_of_eq_None_iff dest: domI split: if_splits)

section \<open>The loop writes a prefix\<close>

text \<open>
  What one pass over the queue does, as a fold of \<open>save\<close> over the pending list: it writes the first
  \<open>k\<close> requests and drops them; at an error the failed request stays in front.
\<close>

definition count_applied :: "(snapshot_write_outcome, 'e) result list \<Rightarrow> nat" where
  "count_applied rs = length (filter is_applied rs)"

definition count_duplicate :: "(snapshot_write_outcome, 'e) result list \<Rightarrow> nat" where
  "count_duplicate rs = length (filter (\<lambda>r. is_ok r \<and> \<not> is_applied r) rs)"

definition flush_post :: "('s, 'e) save_op \<Rightarrow> nat \<Rightarrow> snapshot_flush_queue \<Rightarrow> 's \<Rightarrow>
    snapshot_flush_report \<Rightarrow> snapshot_flush_queue \<Rightarrow> 's \<Rightarrow>
    (snapshot_flush_report, 'e snapshot_flush_error) result \<Rightarrow> bool" where
  "flush_post save n q st rep q' st' x \<longleftrightarrow> flush_queue_ok q' \<and> (\<exists>rs.
     (\<forall>r\<in>set rs. is_ok r) \<and> pending_list q' = drop (length rs) (pending_list q) \<and>
     (case x of
        Ok rep' \<Rightarrow>
          length rs = min n (length (pending_list q)) \<and>
          run save st (take (length rs) (pending_list q)) = (st', rs) \<and>
          rep' = \<lparr>fr_attempted = fr_attempted rep + length rs,
                  fr_applied = fr_applied rep + count_applied rs,
                  fr_duplicate = fr_duplicate rep + count_duplicate rs,
                  fr_remaining = length (pending_list q')\<rparr>
      | Err err \<Rightarrow>
          length rs < min n (length (pending_list q)) \<and>
          run save st (take (Suc (length rs)) (pending_list q)) = (st', rs @ [Err (fe_error err)]) \<and>
          fe_report err = \<lparr>fr_attempted = fr_attempted rep + length rs + 1,
                  fr_applied = fr_applied rep + count_applied rs,
                  fr_duplicate = fr_duplicate rep + count_duplicate rs,
                  fr_remaining = length (pending_list q')\<rparr>))"

lemma flush_post_stop:
  "flush_queue_ok q \<Longrightarrow> n = 0 \<or> fq_order q = [] \<Longrightarrow>
     flush_post save n q st rep q st (Ok (rep\<lparr>fr_remaining := flush_len q\<rparr>))"
  by (auto simp: flush_post_def count_applied_def count_duplicate_def flush_queue_len intro!: exI [of _ "[]"])

lemma flush_post_cons:
  assumes "flush_post save n q1 st1 rep1 q' st' x" and "pending_list q = w # pending_list q1"
    and "save st w = (st1, Ok oc)"
    and "fr_attempted rep1 = fr_attempted rep + 1"
    and "fr_applied rep1 = fr_applied rep + (case oc of Applied _ \<Rightarrow> 1 | Duplicate _ \<Rightarrow> 0)"
    and "fr_duplicate rep1 = fr_duplicate rep + (case oc of Applied _ \<Rightarrow> 0 | Duplicate _ \<Rightarrow> 1)"
  shows "flush_post save (Suc n) q st rep q' st' x"
proof -
  from assms(1) obtain rs where rs: "\<forall>r\<in>set rs. is_ok r" "pending_list q' = drop (length rs) (pending_list q1)"
    "case x of
        Ok rep' \<Rightarrow>
          length rs = min n (length (pending_list q1)) \<and>
          run save st1 (take (length rs) (pending_list q1)) = (st', rs) \<and>
          rep' = \<lparr>fr_attempted = fr_attempted rep1 + length rs,
                  fr_applied = fr_applied rep1 + count_applied rs,
                  fr_duplicate = fr_duplicate rep1 + count_duplicate rs,
                  fr_remaining = length (pending_list q')\<rparr>
      | Err err \<Rightarrow>
          length rs < min n (length (pending_list q1)) \<and>
          run save st1 (take (Suc (length rs)) (pending_list q1)) = (st', rs @ [Err (fe_error err)]) \<and>
          fe_report err = \<lparr>fr_attempted = fr_attempted rep1 + length rs + 1,
                  fr_applied = fr_applied rep1 + count_applied rs,
                  fr_duplicate = fr_duplicate rep1 + count_duplicate rs,
                  fr_remaining = length (pending_list q')\<rparr>"
    and q': "flush_queue_ok q'"
    unfolding flush_post_def by blast
  show ?thesis
    unfolding flush_post_def
    by (rule conjI [OF q'], rule exI [of _ "Ok oc # rs"])
      (use rs assms(2-6) in \<open>auto simp: count_applied_def count_duplicate_def Let_def
        split: result.splits write_outcome.splits\<close>)
qed

lemma flush_loop_post:
  assumes "flush_queue_ok q"
  shows "\<exists>q' st' x. flush_loop save m q st rep = Some (q', st', x) \<and>
    flush_post save (m - fr_attempted rep) q st rep q' st' x"
  using assms
proof (induction save m q st rep rule: flush_loop.induct)
  case (1 save m q st rep)
  show ?case
  proof (cases "fr_attempted rep < m \<and> fq_order q \<noteq> []")
    case False
    then have "flush_loop save m q st rep = Some (q, st, Ok (rep\<lparr>fr_remaining := flush_len q\<rparr>))"
      by (auto simp: flush_loop.simps [of save m q st rep])
    moreover have "m - fr_attempted rep = 0 \<or> fq_order q = []" using False by auto
    note flush_post_stop [OF "1.prems" this, of save st rep]
    ultimately show ?thesis by simp
  next
    case True
    then obtain r rest where fo: "fq_order q = r # rest" by (cases "fq_order q") auto
    define q1 where "q1 = \<lparr>fq_order = rest, fq_pending = AList.delete r (fq_pending q)\<rparr>"
    from flush_queue_pop [OF "1.prems" fo] obtain w where
      q1: "flush_queue_ok q1" and w: "map_of (fq_pending q) r = Some w"
      and pl: "pending_list q = w # pending_list q1" unfolding q1_def by blast
    obtain st' x where sv: "save st w = (st', x)" by fastforce
    obtain n where n: "m - fr_attempted rep = Suc n" "n = m - (fr_attempted rep + 1)"
      using True by (metis Suc_diff_Suc Suc_eq_plus1)
    note unf = flush_loop.simps [of save m q st rep]
    show ?thesis
    proof (cases x)
      case (Err e)
      from flush_queue_push_front [OF "1.prems" fo w]
      have fq: "flush_queue_ok \<lparr>fq_order = r # rest, fq_pending = AList.update r w (AList.delete r (fq_pending q))\<rparr>"
        and fp: "pending_list \<lparr>fq_order = r # rest, fq_pending = AList.update r w (AList.delete r (fq_pending q))\<rparr>
          = pending_list q" by simp_all
      let ?q2 = "\<lparr>fq_order = r # rest, fq_pending = AList.update r w (AList.delete r (fq_pending q))\<rparr>"
      let ?err = "\<lparr>fe_error = e, fe_report = rep\<lparr>fr_attempted := fr_attempted rep + 1,
        fr_remaining := flush_len ?q2\<rparr>\<rparr>"
      have "flush_loop save m q st rep = Some (?q2, st', Err ?err)"
        using True fo w sv Err by (simp add: unf Let_def)
      moreover have "flush_post save (m - fr_attempted rep) q st rep ?q2 st' (Err ?err)"
        unfolding flush_post_def
        by (rule conjI [OF fq], rule exI [of _ "[]"])
          (simp add: fp n(1) pl sv Err count_applied_def count_duplicate_def flush_queue_len [OF fq],
            simp add: q1_def)
      ultimately show ?thesis by blast
    next
      case (Ok v)
      show ?thesis
      proof (cases v)
        case (Applied u)
        let ?rep = "rep\<lparr>fr_attempted := fr_attempted rep + 1, fr_applied := fr_applied rep + 1\<rparr>"
        have "flush_loop save m q st rep = flush_loop save m q1 st' ?rep"
          using True fo w sv Ok Applied by (simp add: unf q1_def)
        moreover have "\<exists>q' s' x'. flush_loop save m q1 st' ?rep = Some (q', s', x') \<and>
            flush_post save (m - fr_attempted ?rep) q1 st' ?rep q' s' x'"
          using "1.IH"(1) [OF _ fo w, of q1 "rep\<lparr>fr_attempted := fr_attempted rep + 1\<rparr>"] True sv Ok Applied q1
          by (simp add: q1_def)
        ultimately show ?thesis
          using flush_post_cons [OF _ pl, of save n st' ?rep _ _ _ st v rep] sv Ok Applied n by fastforce
      next
        case (Duplicate u)
        let ?rep = "rep\<lparr>fr_attempted := fr_attempted rep + 1, fr_duplicate := fr_duplicate rep + 1\<rparr>"
        have "flush_loop save m q st rep = flush_loop save m q1 st' ?rep"
          using True fo w sv Ok Duplicate by (simp add: unf q1_def)
        moreover have "\<exists>q' s' x'. flush_loop save m q1 st' ?rep = Some (q', s', x') \<and>
            flush_post save (m - fr_attempted ?rep) q1 st' ?rep q' s' x'"
          using "1.IH"(2) [OF _ fo w, of q1 "rep\<lparr>fr_attempted := fr_attempted rep + 1\<rparr>"] True sv Ok Duplicate q1
          by (simp add: q1_def)
        ultimately show ?thesis
          using flush_post_cons [OF _ pl, of save n st' ?rep _ _ _ st v rep] sv Ok Duplicate n by fastforce
      qed
    qed
  qed
qed

lemma flush_total:
  assumes "flush_queue_ok q"
  obtains q' st' x where "flush save q st m = Some (q', st', x)"
    "flush_post save m q st flush_report_default q' st' x"
  using flush_loop_post [OF assms, of save m st flush_report_default]
  by (auto simp: flush_def flush_report_default_def)

lemma flush_post_OkE:
  assumes "flush_post save n q st rep q' st' (Ok rep')"
  obtains rs where "flush_queue_ok q'" "\<forall>r\<in>set rs. is_ok r"
    "pending_list q' = drop (length rs) (pending_list q)"
    "length rs = min n (length (pending_list q))"
    "run save st (take (length rs) (pending_list q)) = (st', rs)"
    "rep' = \<lparr>fr_attempted = fr_attempted rep + length rs,
             fr_applied = fr_applied rep + count_applied rs,
             fr_duplicate = fr_duplicate rep + count_duplicate rs,
             fr_remaining = length (pending_list q')\<rparr>"
  using assms unfolding flush_post_def result.case by blast

lemma flush_post_ErrE:
  assumes "flush_post save n q st rep q' st' (Err err)"
  obtains rs where "length rs < length (pending_list q)"
    "run save st (take (Suc (length rs)) (pending_list q)) = (st', rs @ [Err (fe_error err)])"
  using assms unfolding flush_post_def result.case by auto

text \<open>While the store accepts every pending request, a pass ends without an error.\<close>

lemma flush_without_error:
  assumes q: "flush_queue_ok q" and ok: "\<forall>r\<in>set (snd (run save st (pending_list q))). is_ok r"
  obtains q' st' rep where "flush save q st m = Some (q', st', Ok rep)"
    "flush_post save m q st flush_report_default q' st' (Ok rep)"
proof -
  obtain q' st' x where f: "flush save q st m = Some (q', st', x)"
    and p: "flush_post save m q st flush_report_default q' st' x" by (rule flush_total [OF q])
  show thesis
  proof (cases x)
    case (Ok rep)
    then show thesis using f p that by blast
  next
    case (Err err)
    obtain rs where l: "length rs < length (pending_list q)" and
      rn: "run save st (take (Suc (length rs)) (pending_list q)) = (st', rs @ [Err (fe_error err)])"
      by (rule flush_post_ErrE [OF p [unfolded Err]])
    have "set (snd (run save st (take (Suc (length rs)) (pending_list q)))) \<subseteq>
        set (snd (run save st (pending_list q)))"
      using run_append [of save st "take (Suc (length rs)) (pending_list q)" "drop (Suc (length rs)) (pending_list q)"]
      by (simp add: case_prod_unfold Let_def)
    then show thesis using ok rn by auto
  qed
qed

lemma flush_rounds_drains:
  assumes "flush_queue_ok q" and "run save st (pending_list q) = (st', rs)" and "\<forall>r\<in>set rs. is_ok r"
    and "length (pending_list q) \<le> n * m"
  shows "\<exists>q' rep. flush_rounds save m n q st tot = Some (q', st', Ok rep) \<and> flush_is_empty q' \<and>
     rep = \<lparr>fr_attempted = fr_attempted tot + length rs, fr_applied = fr_applied tot + count_applied rs,
            fr_duplicate = fr_duplicate tot + count_duplicate rs, fr_remaining = 0\<rparr>"
  using assms
proof (induction n arbitrary: q st rs tot)
  case 0
  then have "pending_list q = []" "flush_len q = 0" by (simp_all add: flush_queue_len pending_list_def)
  then show ?case using 0(2)
    by (simp add: flush_is_empty_def flush_len_def count_applied_def count_duplicate_def)
next
  case (Suc n)
  show ?case
  proof (cases "flush_is_empty q")
    case True
    then have l: "flush_len q = 0" by (simp add: flush_is_empty_def flush_len_def)
    then have "pending_list q = []" using Suc.prems(1) by (simp add: flush_queue_len flip: length_0_conv)
    then show ?thesis using Suc.prems(2) l True
      by (simp add: count_applied_def count_duplicate_def)
  next
    case False
    obtain q1 st1 rep1 where f: "flush save q st m = Some (q1, st1, Ok rep1)"
      and p: "flush_post save m q st flush_report_default q1 st1 (Ok rep1)"
      using flush_without_error [OF Suc.prems(1), of save st m] Suc.prems(2,3) by auto
    from p obtain rs1 where q1: "flush_queue_ok q1" and d: "pending_list q1 = drop (length rs1) (pending_list q)"
      and l: "length rs1 = min m (length (pending_list q))"
      and rn: "run save st (take (length rs1) (pending_list q)) = (st1, rs1)"
      and rep1: "rep1 = \<lparr>fr_attempted = length rs1, fr_applied = count_applied rs1,
         fr_duplicate = count_duplicate rs1, fr_remaining = length (pending_list q1)\<rparr>"
      by (elim flush_post_OkE) (simp add: flush_report_default_def)
    obtain rs2 where r2: "run save st1 (pending_list q1) = (st', rs2)" and rs: "rs = rs1 @ rs2"
      using run_append [of save st "take (length rs1) (pending_list q)" "drop (length rs1) (pending_list q)"]
        rn Suc.prems(2) d by (auto simp: Let_def split: prod.splits)
    have "length (pending_list q1) \<le> n * m" using Suc.prems(4) d l by (auto simp: min_def)
    from Suc.IH [OF q1 r2 _ this, of "flush_report_merge tot rep1"]
    show ?thesis using Suc.prems(3) f False rep1
      by (auto simp: rs flush_report_merge_def count_applied_def count_duplicate_def add.assoc)
  qed
qed

section \<open>What the queue holds\<close>

text \<open>The requests of a run of \<open>enqueue\<close> that were accepted.\<close>

definition accepted :: "snapshot_write list \<Rightarrow> (bool, store_error) result list \<Rightarrow> snapshot_write list" where
  "accepted ws rs = map fst (filter (is_ok \<circ> snd) (zip ws rs))"

text \<open>The distinct elements of a list in the order of their first occurrences.\<close>

definition firsts :: "'a list \<Rightarrow> 'a list" where
  "firsts xs = rev (remdups (rev xs))"

lemma firsts_snoc: "firsts (xs @ [x]) = (if x \<in> set xs then firsts xs else firsts xs @ [x])"
  by (simp add: firsts_def)

lemma set_firsts [simp]: "set (firsts xs) = set xs"
  by (simp add: firsts_def)

lemma accepted_snoc:
  "length ws = length rs \<Longrightarrow>
     accepted (ws @ [w]) (rs @ [r]) = accepted ws rs @ (if is_ok r then [w] else [])"
  by (simp add: accepted_def)

definition latest_write :: "snapshot_write list \<Rightarrow> record_key \<Rightarrow> snapshot_write option" where
  "latest_write ws r = find (\<lambda>w. sw_record w = r) (rev ws)"

lemma latest_write_snoc:
  "latest_write (ws @ [w]) r = (if sw_record w = r then Some w else latest_write ws r)"
  by (simp add: latest_write_def)

lemma latest_write_None: "latest_write ws r = None \<longleftrightarrow> r \<notin> sw_record ` set ws"
  by (auto simp: latest_write_def find_None_iff)

lemma flush_enqueue_cases:
  "(\<exists>e. flush_enqueue q w = (q, Err e)) \<or>
   flush_enqueue q w =
     (\<lparr>fq_order = fq_order q @ (if map_of (fq_pending q) (sw_record w) = None then [sw_record w] else []),
       fq_pending = AList.update (sw_record w) w (fq_pending q)\<rparr>,
      Ok (map_of (fq_pending q) (sw_record w) \<noteq> None))"
  by (cases q) (auto simp: flush_enqueue_def Let_def)

lemma flush_enqueue_run:
  assumes "run flush_enqueue flush_queue_new ws = (q, rs)"
  shows "map_of (fq_pending q) = latest_write (accepted ws rs) \<and>
         fq_order q = firsts (map sw_record (accepted ws rs))"
  using assms
proof (induction ws arbitrary: q rs rule: rev_induct)
  case Nil
  then show ?case by (auto simp: flush_queue_new_def accepted_def latest_write_def firsts_def)
next
  case (snoc w ws)
  obtain q0 rs0 where r0: "run flush_enqueue flush_queue_new ws = (q0, rs0)" by fastforce
  obtain q1 x where e: "flush_enqueue q0 w = (q1, x)" by fastforce
  have "q = q1" "rs = rs0 @ [x]" using snoc.prems r0 e by (simp_all add: run_append)
  moreover have "length ws = length rs0" using run_length [of flush_enqueue flush_queue_new ws] r0 by simp
  moreover note snoc.IH [OF r0] flush_enqueue_cases [of q0 w] e
  ultimately show ?case
    by (auto simp: accepted_snoc latest_write_snoc firsts_snoc update_conv' latest_write_None fun_eq_iff
        split: if_splits)
qed

section \<open>The store behind the queue\<close>

text \<open>
  What a drained queue relies on: a successful save, fresh or replayed, keeps the store's invariant
  and the other records, and a fresh one makes the request's content what \<open>load\<close> returns.
\<close>

locale snapshot_sink =
  fixes save :: "('s, 'e) save_op"
    and load :: "'s \<Rightarrow> record_key \<Rightarrow> snapshot_envelope option"
  assumes save_applied: "save s w = (s', Ok (Applied v)) \<Longrightarrow>
      load s' = (load s)(sw_record w \<mapsto> snapshot_envelope_of w v)"
    and save_duplicate: "save s w = (s', Ok (Duplicate v)) \<Longrightarrow> load s' = load s"
begin

lemma run_applied_delivers:
  assumes "run save s ws = (s', rs)" and "\<forall>r\<in>set rs. is_applied r"
    and "distinct (map sw_record ws)" and "w \<in> set ws"
  shows "\<exists>v. load s' (sw_record w) = Some (snapshot_envelope_of w v)"
proof -
  have keep: "load s' k = load s k"
    if "run save s ws = (s', rs)" "\<forall>r\<in>set rs. is_applied r" "k \<notin> sw_record ` set ws" for s ws rs k
    using that
  proof (induction ws arbitrary: s rs)
    case (Cons p ws)
    then show ?case
      by (auto simp: is_applied_iff split: prod.splits dest!: save_applied)
  qed simp
  show ?thesis using assms
  proof (induction ws arbitrary: s rs)
    case (Cons p ws)
    obtain s1 x xs where sx: "save s p = (s1, x)" "run save s1 ws = (s', xs)" "rs = x # xs"
      using Cons.prems(1) by (auto split: prod.splits)
    then obtain v where v: "load s1 = (load s)(sw_record p \<mapsto> snapshot_envelope_of p v)"
      using Cons.prems(2) save_applied by (force simp: is_applied_iff)
    show ?case
    proof (cases "w \<in> set ws")
      case True
      then show ?thesis using Cons.IH [OF sx(2)] Cons.prems sx(3) by simp
    next
      case False
      then have "w = p" using Cons.prems(4) by simp
      then show ?thesis using keep [OF sx(2), of "sw_record p"] v Cons.prems(2,3) sx(3) by auto
    qed
  qed simp
qed

lemma flush_delivers:
  assumes "flush_queue_ok q" and "flush save q st m = Some (q', st', Ok rep)"
    and "fr_remaining rep = 0" and "fr_duplicate rep = 0" and "w \<in> set (pending_list q)"
  shows "\<exists>v. load st' (sw_record w) = Some (snapshot_envelope_of w v)"
proof -
  have "flush_post save m q st flush_report_default q' st' (Ok rep)"
    using flush_total [OF assms(1), of save st m] assms(2) by (metis option.inject prod.inject)
  then obtain rs where ok: "\<forall>r\<in>set rs. is_ok r" and d: "pending_list q' = drop (length rs) (pending_list q)"
    and rn: "run save st (take (length rs) (pending_list q)) = (st', rs)"
    and rep: "fr_duplicate rep = count_duplicate rs" "fr_remaining rep = length (pending_list q')"
    by (elim flush_post_OkE) (simp add: flush_report_default_def)
  have tk: "take (length rs) (pending_list q) = pending_list q" using d rep(2) assms(3) by simp
  have "filter (\<lambda>r. is_ok r \<and> \<not> is_applied r) rs = []"
    using rep(1) assms(4) by (simp add: count_duplicate_def)
  then have "\<forall>r\<in>set rs. is_applied r" using ok by (auto simp: filter_empty_conv)
  moreover have "distinct (map sw_record (pending_list q))"
    using assms(1) by (simp add: pending_records flush_queue_ok_def)
  ultimately show ?thesis using run_applied_delivers [OF rn] assms(5) tk by simp
qed

end

interpretation snap_sink: snapshot_sink snapshot_save ss_snapshots
  by unfold_locales (auto simp: snapshot_save_applied_iff snapshot_save_duplicate_iff)

section \<open>Properties\<close>

definition idle_queue :: snapshot_flush_queue where
  "idle_queue = fst (run flush_enqueue flush_queue_new
     [player_write ''save-1'' ''1001'' [1] None, player_write ''save-2'' ''1002'' [2] None,
      player_write ''save-3'' ''1001'' [3] None])"

lemma idle_queue_ok: "flush_queue_ok idle_queue"
  unfolding idle_queue_def
  by (rule run_invariant [where I = flush_queue_ok, OF flush_enqueue_ok flush_queue_ok_new])

lemma idle_queue_eval: "idle_queue =
    \<lparr>fq_order = [player_key ''1001'', player_key ''1002''],
     fq_pending = [(player_key ''1001'', player_write ''save-3'' ''1001'' [3] None),
                   (player_key ''1002'', player_write ''save-2'' ''1002'' [2] None)]\<rparr>"
  by (simp add: idle_queue_def flush_enqueue_def flush_queue_new_def player_defs Let_def)

lemma idle_queue_pending: "pending_list idle_queue =
    [player_write ''save-3'' ''1001'' [3] None, player_write ''save-2'' ''1002'' [2] None]"
  by (simp add: idle_queue_eval pending_list_def player_key_def)

text \<open>
  C10. Coalescing: after any sequence of \<open>enqueue\<close> calls the queue is consistent and holds exactly one
  request per accepted record, the latest one, in the order in which the records first arrived;
  rejected requests (blank identifiers, or a CAS revision) leave no trace.
\<close>

theorem flush_enqueue_coalesces:
  assumes "run flush_enqueue flush_queue_new ws = (q, rs)"
  shows "flush_queue_ok q \<and>
     pending_list q = map (\<lambda>r. the (latest_write (accepted ws rs) r)) (firsts (map sw_record (accepted ws rs)))"
proof -
  have "flush_queue_ok (fst (run flush_enqueue flush_queue_new ws))"
    by (rule run_invariant [where I = flush_queue_ok, OF flush_enqueue_ok flush_queue_ok_new])
  then show ?thesis using assms flush_enqueue_run [OF assms] by (simp add: pending_list_def)
qed

theorem flush_enqueue_coalesces_witness:
  "let ws = [player_write ''save-1'' ''1001'' [1] None, player_write ''save-2'' ''1002'' [2] None,
             player_write ''save-3'' ''1001'' [3] None];
       (q, rs) = run flush_enqueue flush_queue_new ws
   in pending_list q = map (\<lambda>r. the (latest_write (accepted ws rs) r)) (firsts (map sw_record (accepted ws rs)))"
proof -
  let ?ws = "[player_write ''save-1'' ''1001'' [1] None, player_write ''save-2'' ''1002'' [2] None,
             player_write ''save-3'' ''1001'' [3] None]"
  obtain q rs where r: "run flush_enqueue flush_queue_new ?ws = (q, rs)" by fastforce
  show ?thesis using flush_enqueue_coalesces [OF r] by (simp only: Let_def r prod.case)
qed

text \<open>
  A pass over the queue never hits the \<open>expect\<close> and, whatever the store answers, writes a prefix
  of the pending requests in order and removes exactly those that the store accepted: without an
  error the first \<open>max_items\<close> of them, at an error the requests before the failing one, which stays
  in front for the next pass. The report counts what was written and what remains.
\<close>

lemma flush_writes_prefix:
  assumes "flush_queue_ok q"
  shows "\<exists>q' st' x. flush save q st max_items = Some (q', st', x) \<and>
           flush_post save max_items q st flush_report_default q' st' x"
  using flush_total [OF assms] by metis

lemma flush_writes_prefix_instance:
  "\<exists>q' st' x. flush snapshot_save idle_queue snapshot_store_new 1 = Some (q', st', x) \<and>
      flush_post snapshot_save 1 idle_queue snapshot_store_new flush_report_default q' st' x"
  by (rule flush_writes_prefix [OF idle_queue_ok])

text \<open>
  C12. The graceful-shutdown loop terminates with an empty queue when its window is large enough: if
  the store accepts the pending requests and \<open>max_rounds * max_items_per_round\<close> is at least their
  number, \<open>flush_until_empty\<close> writes all of them in order and reports \<open>remaining = 0\<close>.
\<close>

theorem flush_until_empty_drains:
  assumes "flush_queue_ok q" and "run save st (pending_list q) = (st', rs)" and "\<forall>r\<in>set rs. is_ok r"
    and "flush_len q \<le> max_rounds * max_items_per_round"
  shows "\<exists>q' rep. flush_until_empty save q st max_items_per_round max_rounds = Some (q', st', Ok rep) \<and>
           flush_is_empty q' \<and> fr_attempted rep = length rs \<and> fr_remaining rep = 0 \<and>
           fr_applied rep = count_applied rs \<and> fr_duplicate rep = count_duplicate rs"
proof (cases "max_items_per_round = 0 \<or> max_rounds = 0")
  case True
  then have l: "flush_len q = 0" using assms(4) by auto
  then have "pending_list q = []" using assms(1) by (simp add: flush_queue_len pending_list_def)
  then show ?thesis using True l assms(2)
    by (simp add: flush_until_empty_def flush_report_default_def flush_is_empty_def flush_len_def
        count_applied_def count_duplicate_def Let_def)
next
  case False
  have "length (pending_list q) \<le> max_rounds * max_items_per_round"
    using assms(1,4) by (simp add: flush_queue_len)
  from flush_rounds_drains [OF assms(1-3) this, of "flush_report_default\<lparr>fr_remaining := flush_len q\<rparr>"]
  show ?thesis using False by (auto simp: flush_until_empty_def flush_report_default_def Let_def)
qed

theorem flush_until_empty_drains_witness:
  "\<exists>st' q' rep. flush_until_empty snapshot_save idle_queue snapshot_store_new 1 2 = Some (q', st', Ok rep) \<and>
      fr_attempted rep = 2 \<and> fr_remaining rep = 0"
proof -
  obtain st' rs where r: "run snapshot_save snapshot_store_new (pending_list idle_queue) = (st', rs)"
    by fastforce
  then have "rs = [Ok (Applied 1), Ok (Applied 1)]"
    by (auto simp: idle_queue_pending snapshot_save_eval)
  then have "\<forall>r\<in>set rs. is_ok r" "length rs = 2" by simp_all
  moreover have "flush_len idle_queue \<le> 2 * 1" by (simp add: idle_queue_eval flush_len_def)
  ultimately show ?thesis using flush_until_empty_drains [OF idle_queue_ok r] by metis
qed

text \<open>
  Delivery: when a pass over the reference store reports nothing remaining and no duplicate, every
  request that was pending is what a load of its record now returns.
\<close>

lemma flush_delivers_pending:
  assumes "flush_queue_ok q" and "flush snapshot_save q st m = Some (q', st', Ok rep)"
    and "fr_remaining rep = 0" and "fr_duplicate rep = 0" and "w \<in> set (pending_list q)"
  shows "\<exists>v. snapshot_load st' (sw_record w) = Ok (Some (snapshot_envelope_of w v))"
  using snap_sink.flush_delivers [OF assms] by (simp add: snapshot_load_def)

lemma flush_delivers_pending_instance:
  "\<exists>q' st' rep v. flush snapshot_save idle_queue snapshot_store_new 5 = Some (q', st', Ok rep) \<and>
      snapshot_load st' (player_key ''1001'') =
        Ok (Some (snapshot_envelope_of (player_write ''save-3'' ''1001'' [3] None) v))"
proof -
  have "\<exists>q' st' rep. flush snapshot_save idle_queue snapshot_store_new 5 = Some (q', st', Ok rep) \<and>
      fr_remaining rep = 0 \<and> fr_duplicate rep = 0"
    by (simp add: flush_def flush_loop.simps flush_report_default_def idle_queue_eval snapshot_save_eval
        flush_len_def)
  then obtain q' st' rep where f: "flush snapshot_save idle_queue snapshot_store_new 5 = Some (q', st', Ok rep)"
    and z: "fr_remaining rep = 0" "fr_duplicate rep = 0" by blast
  have "player_write ''save-3'' ''1001'' [3] None \<in> set (pending_list idle_queue)"
    by (simp add: idle_queue_pending)
  from flush_delivers_pending [OF idle_queue_ok f z this] f show ?thesis
    by (auto simp: player_write_def)
qed

end
