(* ===== verification/Relay_Core.thy ===== *)
theory Relay_Core
  imports Core_Types "HOL-Library.Sublist"
begin

text \<open>
  \<open>crates/dbproxy-core/src/relay.rs\<close>: the event envelope of the relay and its transport in an
  outbox event, whose payload is the JSON text of the envelope. \<open>serde_json\<close> is not part of the
  source: its \<open>to_vec\<close> and \<open>from_slice\<close> at this type are a parameter of the definitions, a
  \<open>json_codec\<close>, over the members of the JSON object. The custom \<open>timestamp\<close> module of the source,
  which writes the time as a decimal string, is modelled here. What a caller relies on of the codec
  is \<open>json_faithful\<close>: a text that was written reads back as the object it was written from.
\<close>

section \<open>Types\<close>

text \<open>\<open>crates/dbproxy-core/src/commit.rs\<close>, \<open>OutboxEvent\<close>.\<close>

record outbox_event =
  oe_event_id :: string
  oe_topic :: string
  oe_partition_key :: string
  oe_payload :: bytes
  oe_occurred_at_unix_ms :: u64

record event_envelope =
  ee_event_id :: string
  ee_producer :: string
  ee_event_type :: string
  ee_aggregate_type :: string
  ee_aggregate_id :: string
  ee_partition_key :: string
  ee_schema_version :: u32
  ee_content_type :: string
  ee_payload :: bytes
  ee_occurred_at_unix_ms :: u64
  ee_route_version :: u32

text \<open>The members of the JSON object: those of the envelope with the time as a string.\<close>

record envelope_json =
  ej_event_id :: string
  ej_producer :: string
  ej_event_type :: string
  ej_aggregate_type :: string
  ej_aggregate_id :: string
  ej_partition_key :: string
  ej_schema_version :: u32
  ej_content_type :: string
  ej_payload :: bytes
  ej_occurred_at_unix_ms :: string
  ej_route_version :: u32

record json_codec =
  to_vec :: "envelope_json \<Rightarrow> bytes option"
  from_slice :: "bytes \<Rightarrow> envelope_json option"

definition json_faithful :: "json_codec \<Rightarrow> bool" where
  "json_faithful c \<longleftrightarrow> (\<forall>j b. to_vec c j = Some b \<longrightarrow> from_slice c b = Some j)"

definition RELAY_TOPIC_PREFIX :: string where
  "RELAY_TOPIC_PREFIX = ''dbproxy.relay.v1.''"

section \<open>Validation\<close>

text \<open>
  \<open>text.chars().any(char::is_control)\<close> on the UTF-8 bytes: the code points up to U+001F, U+007F, and
  U+0080 to U+009F, which are encoded as the byte C2 followed by the code point.
\<close>

fun has_control :: "string \<Rightarrow> bool" where
  "has_control [] = False"
| "has_control (c # cs) =
     ((of_char c :: nat) < 0x20 \<or> (of_char c :: nat) = 0x7F \<or>
      ((of_char c :: nat) = 0xC2 \<and>
       (case cs of [] \<Rightarrow> False | d # _ \<Rightarrow> 0x80 \<le> (of_char d :: nat) \<and> (of_char d :: nat) \<le> 0x9F)) \<or>
      has_control cs)"

definition is_ascii_alphanumeric :: "char \<Rightarrow> bool" where
  "is_ascii_alphanumeric c = (let k = (of_char c :: nat)
     in 48 \<le> k \<and> k \<le> 57 \<or> 65 \<le> k \<and> k \<le> 90 \<or> 97 \<le> k \<and> k \<le> 122)"

definition envelope_text_ok :: "string \<Rightarrow> bool" where
  "envelope_text_ok s \<longleftrightarrow> \<not> (blank s \<or> length s > 256 \<or> has_control s)"

definition envelope_validate :: "event_envelope \<Rightarrow> (unit, store_error) result" where
  "envelope_validate e =
     and_then (try_each (\<lambda>s. ensure (envelope_text_ok s) (InvalidOutboxEvent ''invalid envelope text''))
        [ee_event_id e, ee_producer e, ee_event_type e, ee_aggregate_type e, ee_aggregate_id e,
         ee_partition_key e, ee_content_type e])
     (\<lambda>_. if \<not> list_all (\<lambda>b. is_ascii_alphanumeric b \<or> b \<in> set ''_-'') (ee_producer e) \<or>
             ee_schema_version e = 0 \<or> ee_route_version e = 0
          then Err (InvalidOutboxEvent ''invalid producer or envelope version'')
          else Ok ())"

section \<open>Transport\<close>

definition timestamp_serialize :: "u64 \<Rightarrow> string" where
  "timestamp_serialize v = decimal (unat v)"

definition timestamp_deserialize :: "string \<Rightarrow> u64 option" where
  "timestamp_deserialize s = parse_u64 s"

definition envelope_to_json :: "event_envelope \<Rightarrow> envelope_json" where
  "envelope_to_json e =
     \<lparr>ej_event_id = ee_event_id e, ej_producer = ee_producer e, ej_event_type = ee_event_type e,
      ej_aggregate_type = ee_aggregate_type e, ej_aggregate_id = ee_aggregate_id e,
      ej_partition_key = ee_partition_key e, ej_schema_version = ee_schema_version e,
      ej_content_type = ee_content_type e, ej_payload = ee_payload e,
      ej_occurred_at_unix_ms = timestamp_serialize (ee_occurred_at_unix_ms e),
      ej_route_version = ee_route_version e\<rparr>"

definition envelope_of_json :: "envelope_json \<Rightarrow> event_envelope option" where
  "envelope_of_json j =
     map_option (\<lambda>t. \<lparr>ee_event_id = ej_event_id j, ee_producer = ej_producer j,
       ee_event_type = ej_event_type j, ee_aggregate_type = ej_aggregate_type j,
       ee_aggregate_id = ej_aggregate_id j, ee_partition_key = ej_partition_key j,
       ee_schema_version = ej_schema_version j, ee_content_type = ej_content_type j,
       ee_payload = ej_payload j, ee_occurred_at_unix_ms = t,
       ee_route_version = ej_route_version j\<rparr>)
     (timestamp_deserialize (ej_occurred_at_unix_ms j))"

text \<open>\<open>format!("{RELAY_TOPIC_PREFIX}{}.{}", producer, route_version)\<close>\<close>

definition relay_topic :: "string \<Rightarrow> u32 \<Rightarrow> string" where
  "relay_topic producer route_version =
     RELAY_TOPIC_PREFIX @ producer @ ''.'' @ decimal (unat route_version)"

definition into_outbox :: "json_codec \<Rightarrow> event_envelope \<Rightarrow> (outbox_event, store_error) result" where
  "into_outbox c e =
     and_then (envelope_validate e) (\<lambda>_.
     and_then (ok_or (InvalidOutboxEvent ''cannot encode envelope'') (to_vec c (envelope_to_json e)))
       (\<lambda>payload. Ok \<lparr>oe_event_id = ee_event_id e,
          oe_topic = relay_topic (ee_producer e) (ee_route_version e),
          oe_partition_key = ee_partition_key e, oe_payload = payload,
          oe_occurred_at_unix_ms = ee_occurred_at_unix_ms e\<rparr>))"

definition from_outbox :: "json_codec \<Rightarrow> outbox_event \<Rightarrow> (event_envelope option, store_error) result" where
  "from_outbox c event =
     (if \<not> prefix RELAY_TOPIC_PREFIX (oe_topic event) then Ok None
      else and_then (ok_or (InvalidOutboxEvent ''invalid relay envelope'')
                       (Option.bind (from_slice c (oe_payload event)) envelope_of_json)) (\<lambda>envelope.
           and_then (envelope_validate envelope) (\<lambda>_.
             if oe_topic event \<noteq> relay_topic (ee_producer envelope) (ee_route_version envelope) \<or>
                oe_event_id event \<noteq> ee_event_id envelope \<or>
                oe_partition_key event \<noteq> ee_partition_key envelope \<or>
                oe_occurred_at_unix_ms event \<noteq> ee_occurred_at_unix_ms envelope
             then Err (InvalidOutboxEvent ''envelope identity mismatch'')
             else Ok (Some envelope))))"

section \<open>Lemmas\<close>

lemma timestamp_roundtrip: "timestamp_deserialize (timestamp_serialize v) = Some v"
  by (simp add: timestamp_deserialize_def timestamp_serialize_def parse_u64_decimal)

lemma envelope_json_roundtrip: "envelope_of_json (envelope_to_json e) = Some e"
  by (simp add: envelope_of_json_def envelope_to_json_def timestamp_roundtrip)

lemma envelope_validate_Ok_iff:
  "envelope_validate e = Ok u \<longleftrightarrow>
     list_all envelope_text_ok [ee_event_id e, ee_producer e, ee_event_type e, ee_aggregate_type e,
       ee_aggregate_id e, ee_partition_key e, ee_content_type e] \<and>
     list_all (\<lambda>b. is_ascii_alphanumeric b \<or> b \<in> set ''_-'') (ee_producer e) \<and>
     ee_schema_version e \<noteq> 0 \<and> ee_route_version e \<noteq> 0"
  by (auto simp: envelope_validate_def result_simps ensure_def)

lemma prefix_relay_topic [simp]: "prefix RELAY_TOPIC_PREFIX (relay_topic p v)"
  by (simp add: relay_topic_def)

text \<open>A valid producer has no dot, so the topic determines producer and route version.\<close>

lemma dot_free_split:
  assumes "xs @ CHR ''.'' # ys = us @ CHR ''.'' # vs" and "CHR ''.'' \<notin> set xs" and "CHR ''.'' \<notin> set us"
  shows "xs = us \<and> ys = vs"
  using assms
proof (induction xs arbitrary: us)
  case Nil
  then show ?case by (cases us) auto
next
  case (Cons x xs)
  then show ?case by (cases us) auto
qed

lemma relay_topic_inject:
  assumes "relay_topic p v = relay_topic q w"
    and "CHR ''.'' \<notin> set p" and "CHR ''.'' \<notin> set q"
  shows "p = q \<and> v = w"
  using dot_free_split [of p "decimal (unat v)" q "decimal (unat w)"] assms
  by (auto simp: relay_topic_def word_unat_eq_iff dest: decimal_inject)

lemma valid_producer_no_dot:
  assumes "envelope_validate e = Ok u"
  shows "CHR ''.'' \<notin> set (ee_producer e)"
proof
  assume "CHR ''.'' \<in> set (ee_producer e)"
  then have "is_ascii_alphanumeric CHR ''.'' \<or> CHR ''.'' \<in> set ''_-''"
    using assms unfolding envelope_validate_Ok_iff list_all_iff by blast
  then show False by (simp add: is_ascii_alphanumeric_def)
qed

lemma into_outbox_Ok_iff:
  "into_outbox c e = Ok v \<longleftrightarrow> envelope_validate e = Ok () \<and>
     (\<exists>b. to_vec c (envelope_to_json e) = Some b \<and>
        v = \<lparr>oe_event_id = ee_event_id e, oe_topic = relay_topic (ee_producer e) (ee_route_version e),
             oe_partition_key = ee_partition_key e, oe_payload = b,
             oe_occurred_at_unix_ms = ee_occurred_at_unix_ms e\<rparr>)"
  by (auto simp: into_outbox_def result_simps)

lemma from_outbox_Some_iff:
  "from_outbox c v = Ok (Some e) \<longleftrightarrow> envelope_validate e = Ok () \<and>
     Option.bind (from_slice c (oe_payload v)) envelope_of_json = Some e \<and>
     oe_topic v = relay_topic (ee_producer e) (ee_route_version e) \<and>
     oe_event_id v = ee_event_id e \<and> oe_partition_key v = ee_partition_key e \<and>
     oe_occurred_at_unix_ms v = ee_occurred_at_unix_ms e"
  by (auto simp: from_outbox_def result_simps bind_eq_Some_conv)

lemma envelope_validate_Err:
  assumes "envelope_validate e = Err x"
  shows "\<exists>m. x = InvalidOutboxEvent m"
proof -
  let ?check = "\<lambda>s. ensure (envelope_text_ok s) (InvalidOutboxEvent ''invalid envelope text'')"
  have "\<exists>m. y = InvalidOutboxEvent m" if "try_each ?check xs = Err y" for xs y
    using try_each_Err [OF that] by (auto simp: result_simps)
  then show ?thesis
    using assms by (auto simp: envelope_validate_def and_then_Err_iff simp del: try_each.simps split: if_splits)
qed

lemma from_outbox_Err: "from_outbox c v = Err x \<Longrightarrow> \<exists>m. x = InvalidOutboxEvent m"
  by (auto simp: from_outbox_def and_then_Err_iff ok_or_Err_iff dest: envelope_validate_Err split: if_splits)

lemma from_outbox_None_iff:
  "from_outbox c v = Ok None \<longleftrightarrow> \<not> prefix RELAY_TOPIC_PREFIX (oe_topic v)"
  by (auto simp: from_outbox_def result_simps)

section \<open>Properties\<close>

definition sample_envelope :: event_envelope where
  "sample_envelope =
     \<lparr>ee_event_id = ''evt-1'', ee_producer = ''mail_1'', ee_event_type = ''mail.sent'',
      ee_aggregate_type = ''mail'', ee_aggregate_id = ''m-1'', ee_partition_key = ''player-7'',
      ee_schema_version = 1, ee_content_type = ''application/x-protobuf'', ee_payload = [1, 2],
      ee_occurred_at_unix_ms = 1700000000000, ee_route_version = 2\<rparr>"

text \<open>A codec that knows one object, for concrete instances.\<close>

definition sample_codec :: json_codec where
  "sample_codec =
     \<lparr>to_vec = (\<lambda>j. if j = envelope_to_json sample_envelope then Some [123, 125] else None),
      from_slice = (\<lambda>b. if b = [123, 125] then Some (envelope_to_json sample_envelope) else None)\<rparr>"

lemma sample_codec_faithful: "json_faithful sample_codec"
  by (simp add: json_faithful_def sample_codec_def)

lemma sample_envelope_valid: "envelope_validate sample_envelope = Ok ()"
  by (simp add: envelope_validate_Ok_iff sample_envelope_def envelope_text_ok_def
      is_ascii_alphanumeric_def Let_def)

text \<open>
  C14. The relay transport is faithful: what \<open>into_outbox\<close> produced, \<open>from_outbox\<close> recognises and
  returns as the envelope it was made from, and its topic names that producer and route version and
  no other.
\<close>

theorem relay_roundtrip:
  assumes "json_faithful c" and "into_outbox c e = Ok v"
  shows "from_outbox c v = Ok (Some e) \<and>
    (\<forall>e' v'. into_outbox c e' = Ok v' \<longrightarrow> oe_topic v' = oe_topic v \<longrightarrow>
       ee_producer e' = ee_producer e \<and> ee_route_version e' = ee_route_version e)"
proof -
  from assms(2) obtain b where v: "envelope_validate e = Ok ()" "to_vec c (envelope_to_json e) = Some b"
    "oe_payload v = b" "oe_topic v = relay_topic (ee_producer e) (ee_route_version e)"
    "oe_event_id v = ee_event_id e" "oe_partition_key v = ee_partition_key e"
    "oe_occurred_at_unix_ms v = ee_occurred_at_unix_ms e"
    by (auto simp: into_outbox_Ok_iff)
  have "from_slice c b = Some (envelope_to_json e)" using assms(1) v(2) by (auto simp: json_faithful_def)
  then have "from_outbox c v = Ok (Some e)"
    using v by (simp add: from_outbox_Some_iff envelope_json_roundtrip)
  moreover have "ee_producer e' = ee_producer e \<and> ee_route_version e' = ee_route_version e"
    if "into_outbox c e' = Ok v'" "oe_topic v' = oe_topic v" for e' v'
    using that v(1,4) relay_topic_inject valid_producer_no_dot by (auto simp: into_outbox_Ok_iff)
  ultimately show ?thesis by blast
qed

theorem relay_roundtrip_witness:
  "\<exists>v. into_outbox sample_codec sample_envelope = Ok v \<and>
       oe_topic v = ''dbproxy.relay.v1.mail_1.2'' \<and>
       from_outbox sample_codec v = Ok (Some sample_envelope)"
proof -
  have "\<exists>v. into_outbox sample_codec sample_envelope = Ok v \<and> oe_topic v = ''dbproxy.relay.v1.mail_1.2''"
    using sample_envelope_valid
    by (simp add: into_outbox_Ok_iff sample_codec_def relay_topic_def RELAY_TOPIC_PREFIX_def
        sample_envelope_def decimal.simps [of 2])
  then obtain v where v: "into_outbox sample_codec sample_envelope = Ok v"
    "oe_topic v = ''dbproxy.relay.v1.mail_1.2''" by blast
  with relay_roundtrip [OF sample_codec_faithful v(1)] show ?thesis by blast
qed

text \<open>
  C15. Reserved topics fail closed: an event under the relay prefix is never passed on as an ordinary
  event. It is either rejected or yields a valid envelope whose identity, partition, time and route
  are those of the event; whatever the codec answers.
\<close>

theorem relay_fails_closed:
  assumes "prefix RELAY_TOPIC_PREFIX (oe_topic v)"
  shows "(\<exists>m. from_outbox c v = Err (InvalidOutboxEvent m)) \<or>
    (\<exists>e. from_outbox c v = Ok (Some e) \<and> envelope_validate e = Ok () \<and>
       oe_topic v = relay_topic (ee_producer e) (ee_route_version e) \<and>
       oe_event_id v = ee_event_id e \<and> oe_partition_key v = ee_partition_key e \<and>
       oe_occurred_at_unix_ms v = ee_occurred_at_unix_ms e)"
proof (cases "from_outbox c v")
  case (Ok o')
  then show ?thesis
    using assms by (cases o') (auto simp: from_outbox_None_iff from_outbox_Some_iff)
next
  case (Err x)
  then show ?thesis using from_outbox_Err by blast
qed

theorem relay_fails_closed_witness:
  "\<exists>m. from_outbox sample_codec \<lparr>oe_event_id = ''evt-1'', oe_topic = ''dbproxy.relay.v1.mail_1.3'',
     oe_partition_key = ''player-7'', oe_payload = [123, 125],
     oe_occurred_at_unix_ms = 1700000000000\<rparr> = Err (InvalidOutboxEvent m)"
proof -
  let ?v = "\<lparr>oe_event_id = ''evt-1'', oe_topic = ''dbproxy.relay.v1.mail_1.3'',
     oe_partition_key = ''player-7'', oe_payload = [123, 125], oe_occurred_at_unix_ms = 1700000000000\<rparr>"
  have p: "prefix RELAY_TOPIC_PREFIX (oe_topic ?v)" by (simp add: RELAY_TOPIC_PREFIX_def)
  have t: "oe_topic ?v \<noteq> relay_topic (ee_producer sample_envelope) (ee_route_version sample_envelope)"
    by (simp add: relay_topic_def RELAY_TOPIC_PREFIX_def sample_envelope_def decimal.simps [of 2])
  have "from_outbox sample_codec ?v \<noteq> Ok (Some e)" for e
    using t by (auto simp: from_outbox_Some_iff sample_codec_def envelope_json_roundtrip)
  with relay_fails_closed [OF p, of sample_codec] show ?thesis by auto
qed

end
