(* ===== verification/Commit_Effects.thy ===== *)
theory Commit_Effects
  imports Relay_Core
begin

text \<open>
  \<open>crates/dbproxy-core/src/commit.rs\<close>: the effects that a commit carries beside its record writes,
  immutable facts to append and outbox events, and their canonical form. Normalisation sorts both
  lists by identity, rejects empty and repeated identities, and lets an event under the relay prefix
  pass only as a valid envelope.
\<close>

section \<open>Types\<close>

record append_record =
  ap_record :: record_key
  ap_schema :: string
  ap_schema_version :: u32
  ap_payload :: bytes
  ap_occurred_at_unix_ms :: u64

record commit_effects =
  ce_appends :: "append_record list"
  ce_outbox_events :: "outbox_event list"

definition commit_effects_default :: commit_effects where
  "commit_effects_default = \<lparr>ce_appends = [], ce_outbox_events = []\<rparr>"

definition effects_is_empty :: "commit_effects \<Rightarrow> bool" where
  "effects_is_empty e \<longleftrightarrow> ce_appends e = [] \<and> ce_outbox_events e = []"

section \<open>Normalisation\<close>

definition check_append :: "append_record \<Rightarrow> (unit, store_error) result" where
  "check_append a =
     and_then (record_key_new (namespace (ap_record a)) (key (ap_record a)))
       (\<lambda>_. ensure (\<not> blank (ap_schema a)) (InvalidKey ''append schema is empty''))"

text \<open>The loop over the events with the \<open>HashSet\<close> of the identities seen.\<close>

fun check_events :: "json_codec \<Rightarrow> string set \<Rightarrow> outbox_event list \<Rightarrow> (unit, store_error) result" where
  "check_events c ids [] = Ok ()"
| "check_events c ids (e # es) =
     and_then (from_outbox c e) (\<lambda>_.
       if blank (oe_event_id e) \<or> blank (oe_topic e) \<or> blank (oe_partition_key e)
       then Err (InvalidOutboxEvent ''event identity or route is empty'')
       else if oe_event_id e \<in> ids then Err (DuplicateOutboxEvent (oe_event_id e))
       else check_events c (insert (oe_event_id e) ids) es)"

definition effects_normalize :: "json_codec \<Rightarrow> commit_effects \<Rightarrow> (commit_effects, store_error) result" where
  "effects_normalize c e =
     (let e1 = e\<lparr>ce_appends := sort_key ap_record (ce_appends e)\<rparr>
      in and_then (try_each check_append (ce_appends e1)) (\<lambda>_.
         case first_adjacent ap_record (ce_appends e1) of
           Some a \<Rightarrow> Err (DuplicateTransactionRecord (ap_record a))
         | None \<Rightarrow>
             (let e2 = e1\<lparr>ce_outbox_events := sort_key oe_event_id (ce_outbox_events e1)\<rparr>
              in and_then (check_events c {} (ce_outbox_events e2)) (\<lambda>_. Ok e2))))"

section \<open>Which effects are accepted\<close>

definition event_ok :: "json_codec \<Rightarrow> outbox_event \<Rightarrow> bool" where
  "event_ok c e \<longleftrightarrow> is_ok (from_outbox c e) \<and>
     \<not> blank (oe_event_id e) \<and> \<not> blank (oe_topic e) \<and> \<not> blank (oe_partition_key e)"

definition append_ok :: "append_record \<Rightarrow> bool" where
  "append_ok a \<longleftrightarrow> valid_record (ap_record a) \<and> \<not> blank (ap_schema a)"

definition effects_ok :: "json_codec \<Rightarrow> commit_effects \<Rightarrow> bool" where
  "effects_ok c e \<longleftrightarrow>
     list_all append_ok (ce_appends e) \<and> distinct (map ap_record (ce_appends e)) \<and>
     list_all (event_ok c) (ce_outbox_events e) \<and> distinct (map oe_event_id (ce_outbox_events e))"

definition effects_sorted :: "commit_effects \<Rightarrow> commit_effects" where
  "effects_sorted e = e\<lparr>ce_appends := sort_key ap_record (ce_appends e),
     ce_outbox_events := sort_key oe_event_id (ce_outbox_events e)\<rparr>"

lemma check_append_Ok_iff: "check_append a = Ok u \<longleftrightarrow> append_ok a"
  by (auto simp: check_append_def append_ok_def result_simps record_key_new_iff valid_record_def)

lemma check_events_Ok_iff:
  "check_events c ids es = Ok u \<longleftrightarrow>
     list_all (event_ok c) es \<and> distinct (map oe_event_id es) \<and> oe_event_id ` set es \<inter> ids = {}"
proof (induction es arbitrary: ids)
  case (Cons e es)
  have "is_ok (from_outbox c e) \<longleftrightarrow> (\<exists>x. from_outbox c e = Ok x)"
    by (cases "from_outbox c e") auto
  then show ?case
    using Cons.IH [of "insert (oe_event_id e) ids"]
    by (auto simp: and_then_Ok_iff event_ok_def)
qed simp

lemma sort_key_distinct: "distinct (map f (sort_key f xs)) \<longleftrightarrow> distinct (map f xs)"
  by (rule mset_eq_imp_distinct_iff) simp

lemma effects_normalize_Ok_iff:
  "effects_normalize c e = Ok n \<longleftrightarrow> effects_ok c e \<and> n = effects_sorted e"
proof -
  have "first_adjacent ap_record (sort_key ap_record (ce_appends e)) = None \<longleftrightarrow>
      distinct (map ap_record (ce_appends e))"
    by (subst first_adjacent_sorted) (simp_all add: sort_key_distinct)
  then show ?thesis
    by (auto simp: effects_normalize_def Let_def and_then_Ok_iff try_each_Ok_iff check_append_Ok_iff
        check_events_Ok_iff sort_key_distinct effects_ok_def effects_sorted_def list_all_iff
        split: option.splits)
qed

lemma effects_sorted_mset:
  "mset (ce_appends (effects_sorted e)) = mset (ce_appends e)"
  "mset (ce_outbox_events (effects_sorted e)) = mset (ce_outbox_events e)"
  by (simp_all add: effects_sorted_def)

lemma effects_ok_mset:
  assumes "mset (ce_appends e) = mset (ce_appends d)"
    and "mset (ce_outbox_events e) = mset (ce_outbox_events d)"
  shows "effects_ok c e \<longleftrightarrow> effects_ok c d"
proof -
  have "set (ce_appends e) = set (ce_appends d)" "set (ce_outbox_events e) = set (ce_outbox_events d)"
    using assms by (metis mset_eq_setD)+
  moreover have "distinct (map ap_record (ce_appends e)) \<longleftrightarrow> distinct (map ap_record (ce_appends d))"
    using assms(1) by (intro mset_eq_imp_distinct_iff) simp
  moreover have "distinct (map oe_event_id (ce_outbox_events e)) \<longleftrightarrow>
      distinct (map oe_event_id (ce_outbox_events d))"
    using assms(2) by (intro mset_eq_imp_distinct_iff) simp
  ultimately show ?thesis by (simp add: effects_ok_def list_all_iff)
qed

lemma effects_sorted_cong:
  assumes "mset (ce_appends e) = mset (ce_appends d)"
    and "mset (ce_outbox_events e) = mset (ce_outbox_events d)" and "effects_ok c e"
  shows "effects_sorted e = effects_sorted d"
  using assms sort_key_distinct_unique [of "ce_appends e" "ce_appends d" ap_record]
    sort_key_distinct_unique [of "ce_outbox_events e" "ce_outbox_events d" oe_event_id]
  by (cases e; cases d) (auto simp: effects_sorted_def effects_ok_def)

lemma effects_normalize_default [simp]:
  "effects_normalize c commit_effects_default = Ok commit_effects_default"
  by (simp add: effects_normalize_Ok_iff effects_ok_def effects_sorted_def commit_effects_default_def)

text \<open>No accepted event hides under the relay prefix.\<close>

lemma effects_relay_valid:
  assumes "effects_normalize c e = Ok n" and "v \<in> set (ce_outbox_events n)"
    and "prefix RELAY_TOPIC_PREFIX (oe_topic v)"
  obtains env where "from_outbox c v = Ok (Some env)" "envelope_validate env = Ok ()"
proof -
  have "event_ok c v"
    using assms(1,2) by (auto simp: effects_normalize_Ok_iff effects_ok_def effects_sorted_def list_all_iff)
  then obtain x where x: "from_outbox c v = Ok x"
    by (cases "from_outbox c v") (auto simp: event_ok_def)
  then obtain env where "x = Some env" using assms(3) by (cases x) (auto simp: from_outbox_None_iff)
  then show thesis using x that by (auto simp: from_outbox_Some_iff)
qed

section \<open>Properties\<close>

definition sample_append :: "string \<Rightarrow> append_record" where
  "sample_append k = \<lparr>ap_record = \<lparr>namespace = ''ledger'', key = k\<rparr>, ap_schema = ''entry.v1'',
     ap_schema_version = 1, ap_payload = [9], ap_occurred_at_unix_ms = 10\<rparr>"

definition sample_event :: "string \<Rightarrow> outbox_event" where
  "sample_event i = \<lparr>oe_event_id = i, oe_topic = ''mail.sent'', oe_partition_key = ''player-7'',
     oe_payload = [1], oe_occurred_at_unix_ms = 10\<rparr>"

lemma sample_event_ok: "event_ok c (sample_event (x # xs)) \<longleftrightarrow> \<not> blank (x # xs)"
  by (simp add: event_ok_def sample_event_def from_outbox_def RELAY_TOPIC_PREFIX_def)

text \<open>
  Effects have one canonical form: normalisation accepts exactly the effects whose appends and
  events are well formed with distinct identities, returns the same appends and events sorted by
  identity, gives the same result for every reordering of an accepted request, and is idempotent.
\<close>

lemma effects_canonical:
  assumes "effects_normalize c e = Ok n"
  shows "effects_ok c e \<and>
    mset (ce_appends n) = mset (ce_appends e) \<and> sorted (map ap_record (ce_appends n)) \<and>
    mset (ce_outbox_events n) = mset (ce_outbox_events e) \<and> sorted (map oe_event_id (ce_outbox_events n)) \<and>
    effects_normalize c n = Ok n \<and>
    (\<forall>d. mset (ce_appends d) = mset (ce_appends e) \<and> mset (ce_outbox_events d) = mset (ce_outbox_events e) \<longrightarrow>
         effects_normalize c d = Ok n)"
proof -
  have n: "n = effects_sorted e" and ok: "effects_ok c e"
    using assms by (auto simp: effects_normalize_Ok_iff)
  have reorder: "effects_normalize c d = Ok n" if "mset (ce_appends d) = mset (ce_appends e)"
    "mset (ce_outbox_events d) = mset (ce_outbox_events e)" for d
    using that ok effects_ok_mset [OF that] effects_sorted_cong [OF that] n
    by (auto simp: effects_normalize_Ok_iff)
  moreover have "effects_normalize c n = Ok n"
    by (rule reorder) (simp_all add: n effects_sorted_mset)
  ultimately show ?thesis using ok by (simp add: n effects_sorted_mset) (simp add: effects_sorted_def)
qed

lemma effects_canonical_instance:
  "effects_normalize sample_codec
     \<lparr>ce_appends = [sample_append ''2'', sample_append ''1''], ce_outbox_events = [sample_event ''e1'']\<rparr> =
   Ok \<lparr>ce_appends = [sample_append ''1'', sample_append ''2''], ce_outbox_events = [sample_event ''e1'']\<rparr>"
proof -
  let ?n = "\<lparr>ce_appends = [sample_append ''1'', sample_append ''2''], ce_outbox_events = [sample_event ''e1'']\<rparr>"
  have "effects_ok sample_codec ?n"
    by (simp add: effects_ok_def sample_event_ok append_ok_def valid_record_def sample_append_def)
  moreover have "effects_sorted ?n = ?n"
    by (simp add: effects_sorted_def sample_append_def less_eq_record_key_ext_def less_eq_prod_def)
  ultimately have n: "effects_normalize sample_codec ?n = Ok ?n" by (simp add: effects_normalize_Ok_iff)
  show ?thesis using effects_canonical [OF n] by simp
qed

end
