(* ===== verification/Trade_Core.thy ===== *)
theory Trade_Core
  imports Multi_Transaction_Store Commit_Effects
begin

text \<open>
  \<open>crates/dbproxy-core/src/trade.rs\<close>: the escrow state machine and the validation and canonical form
  of a trade transaction (state transition, record writes, ledger postings, outbox events).

  Amounts are 64-bit words read as signed; the per-asset sums, \<open>i128\<close> in the source, are integers,
  and \<open>check_postings_bound\<close> shows that they stay within 128 bits for every list a \<open>Vec\<close> can hold. The
  \<open>BTreeMap\<close> of the sums is an association list in ascending order of its keys.
\<close>

section \<open>Types\<close>

record trade_transition =
  tt_trade_id :: string
  tt_expected_version :: revision
  tt_expected_state :: "trade_state option"
  tt_next_state :: trade_state
  tt_payload :: bytes
  tt_updated_at_unix_ms :: u64

record trade_envelope =
  te_trade_id :: string
  te_version :: revision
  te_state :: trade_state
  te_payload :: bytes
  te_updated_at_unix_ms :: u64

record ledger_posting =
  lp_posting_id :: string
  lp_account_id :: string
  lp_asset :: string
  lp_amount :: i64
  lp_metadata :: bytes

record trade_transaction =
  tx_operation_id :: string
  tx_transition :: trade_transition
  tx_writes :: "transactional_record_write list"
  tx_ledger_postings :: "ledger_posting list"
  tx_outbox_events :: "outbox_event list"
  tx_result :: bytes

record trade_receipt =
  rc_operation_id :: string
  rc_trade_id :: string
  rc_new_trade_version :: revision
  rc_state :: trade_state
  rc_records :: "transaction_record_receipt list"
  rc_ledger_posting_ids :: "string list"
  rc_outbox_event_ids :: "string list"
  rc_result :: bytes

type_synonym trade_outcome = "trade_receipt write_outcome"

section \<open>Operations\<close>

fun is_valid_transition :: "trade_state option \<Rightarrow> trade_state \<Rightarrow> bool" where
  "is_valid_transition None Proposed = True"
| "is_valid_transition None Escrowed = True"
| "is_valid_transition (Some Proposed) Escrowed = True"
| "is_valid_transition (Some Proposed) Cancelled = True"
| "is_valid_transition (Some Escrowed) Settled = True"
| "is_valid_transition (Some Escrowed) Cancelled = True"
| "is_valid_transition _ _ = False"

definition check_trade_record :: "transactional_record_write \<Rightarrow> (unit, store_error) result" where
  "check_trade_record w =
     (if blank (namespace (rw_record w)) then Err (InvalidKey ''namespace is empty'')
      else if blank (key (rw_record w)) then Err (InvalidKey ''key is empty'')
      else Ok ())"

text \<open>\<open>*balances.entry(asset).or_default() += amount\<close>\<close>

fun balance_add :: "string \<Rightarrow> int \<Rightarrow> (string \<times> int) list \<Rightarrow> (string \<times> int) list" where
  "balance_add a d [] = [(a, d)]"
| "balance_add a d ((b, v) # bs) =
     (if a < b then (a, d) # (b, v) # bs
      else if a = b then (b, v + d) # bs
      else (b, v) # balance_add a d bs)"

fun check_postings :: "string set \<Rightarrow> (string \<times> int) list \<Rightarrow> ledger_posting list \<Rightarrow>
    ((string \<times> int) list, store_error) result" where
  "check_postings ids balances [] = Ok balances"
| "check_postings ids balances (p # ps) =
     (if blank (lp_posting_id p) then Err (InvalidLedgerPosting ''posting id is empty'')
      else if lp_posting_id p \<in> ids then Err (DuplicateLedgerPosting (lp_posting_id p))
      else if blank (lp_account_id p) then Err (InvalidLedgerPosting ''account id is empty'')
      else if blank (lp_asset p) then Err (InvalidLedgerPosting ''asset is empty'')
      else if lp_amount p = 0 then Err (InvalidLedgerPosting ''amount is zero'')
      else check_postings (insert (lp_posting_id p) ids)
             (balance_add (lp_asset p) (sint (lp_amount p)) balances) ps)"

fun check_trade_events :: "string set \<Rightarrow> outbox_event list \<Rightarrow> (unit, store_error) result" where
  "check_trade_events ids [] = Ok ()"
| "check_trade_events ids (e # es) =
     (if prefix RELAY_TOPIC_PREFIX (oe_topic e)
      then Err (InvalidOutboxEvent ''relay envelopes require CommitRecords'')
      else if blank (oe_event_id e) then Err (InvalidOutboxEvent ''event id is empty'')
      else if oe_event_id e \<in> ids then Err (DuplicateOutboxEvent (oe_event_id e))
      else if blank (oe_topic e) then Err (InvalidOutboxEvent ''topic is empty'')
      else if blank (oe_partition_key e) then Err (InvalidOutboxEvent ''partition key is empty'')
      else check_trade_events (insert (oe_event_id e) ids) es)"

definition normalize_trade_transaction ::
    "trade_transaction \<Rightarrow> (trade_transaction, store_error) result" where
  "normalize_trade_transaction q =
     (let t = tx_transition q in
      if blank (tx_operation_id q) then Err EmptyOperationId
      else if blank (tt_trade_id t) then Err EmptyTradeId
      else if tx_writes q = [] then Err EmptyTradeRecords
      else if (tt_expected_version t = 0) \<noteq> (tt_expected_state t = None)
      then Err (InvalidTradeStateTransition (tt_expected_state t) (tt_next_state t))
      else if \<not> is_valid_transition (tt_expected_state t) (tt_next_state t)
      then Err (InvalidTradeStateTransition (tt_expected_state t) (tt_next_state t))
      else
        let q1 = q\<lparr>tx_writes := sort_key rw_record (tx_writes q)\<rparr> in
        and_then (try_each check_trade_record (tx_writes q1)) (\<lambda>_.
        case first_adjacent rw_record (tx_writes q1) of
          Some w \<Rightarrow> Err (DuplicateTransactionRecord (rw_record w))
        | None \<Rightarrow>
            let q2 = q1\<lparr>tx_ledger_postings := sort_key lp_posting_id (tx_ledger_postings q1)\<rparr> in
            and_then (check_postings {} [] (tx_ledger_postings q2)) (\<lambda>balances.
            case find (\<lambda>(_, balance). balance \<noteq> 0) balances of
              Some (asset, _) \<Rightarrow> Err (UnbalancedLedger asset)
            | None \<Rightarrow>
                let q3 = q2\<lparr>tx_outbox_events := sort_key oe_event_id (tx_outbox_events q2)\<rparr> in
                and_then (check_trade_events {} (tx_outbox_events q3)) (\<lambda>_. Ok q3))))"

section \<open>Balances\<close>

definition ledger_balance :: "ledger_posting list \<Rightarrow> string \<Rightarrow> int" where
  "ledger_balance ps a = sum_list (map (\<lambda>p. sint (lp_amount p)) (filter (\<lambda>p. lp_asset p = a) ps))"

text \<open>The value of an asset in the map of sums; an absent asset counts as zero.\<close>

definition balance_of :: "(string \<times> int) list \<Rightarrow> string \<Rightarrow> int" where
  "balance_of bs a = (case map_of bs a of None \<Rightarrow> 0 | Some v \<Rightarrow> v)"

lemma balance_add_keys: "fst ` set (balance_add a d bs) = insert a (fst ` set bs)"
  by (induction a d bs rule: balance_add.induct) auto

lemma balance_add_sorted:
  "sorted (map fst bs) \<Longrightarrow> distinct (map fst bs) \<Longrightarrow>
     sorted (map fst (balance_add a d bs)) \<and> distinct (map fst (balance_add a d bs))"
proof (induction a d bs rule: balance_add.induct)
  case (2 a d b v bs)
  have k: "set (map fst (balance_add a d bs)) = insert a (set (map fst bs))"
    using balance_add_keys [of a d bs] by simp
  consider "a < b" | "a = b" | "b < a" by fastforce
  then show ?case
  proof cases
    case 3
    then have ne: "\<not> a < b" "a \<noteq> b" by auto
    then show ?thesis using "2.IH" "2.prems" k 3 by (auto simp del: set_map)
  qed (use "2.prems" in auto)
qed simp

lemma balance_of_add:
  "sorted (map fst bs) \<Longrightarrow> distinct (map fst bs) \<Longrightarrow>
     balance_of (balance_add a d bs) x = balance_of bs x + (if x = a then d else 0)"
proof (induction a d bs rule: balance_add.induct)
  case (2 a d b v bs)
  have "map_of bs a = None" if "a < b"
    using that "2.prems" by (auto simp: map_of_eq_None_iff)
  then show ?case using 2 by (auto simp: balance_of_def)
qed (simp add: balance_of_def)

definition posting_ok :: "ledger_posting \<Rightarrow> bool" where
  "posting_ok p \<longleftrightarrow> \<not> blank (lp_posting_id p) \<and> \<not> blank (lp_account_id p) \<and> \<not> blank (lp_asset p) \<and>
     lp_amount p \<noteq> 0"

lemma check_postings_Ok_iff:
  "(\<exists>bs'. check_postings ids bs ps = Ok bs') \<longleftrightarrow>
     list_all posting_ok ps \<and> distinct (map lp_posting_id ps) \<and> lp_posting_id ` set ps \<inter> ids = {}"
  by (induction ids bs ps rule: check_postings.induct) (auto simp: posting_ok_def)

lemma check_postings_balances:
  assumes "check_postings ids bs ps = Ok bs'" and "sorted (map fst bs)" and "distinct (map fst bs)"
  shows "sorted (map fst bs') \<and> distinct (map fst bs') \<and>
     fst ` set bs' = fst ` set bs \<union> lp_asset ` set ps \<and>
     (\<forall>a. balance_of bs' a = balance_of bs a + ledger_balance ps a)"
  using assms
proof (induction ids bs ps rule: check_postings.induct)
  case (2 ids bs p ps)
  let ?b = "balance_add (lp_asset p) (sint (lp_amount p)) bs"
  have ok: "check_postings (insert (lp_posting_id p) ids) ?b ps = Ok bs'" and c: "\<not> blank (lp_posting_id p)"
    "lp_posting_id p \<notin> ids" "\<not> blank (lp_account_id p)" "\<not> blank (lp_asset p)" "lp_amount p \<noteq> 0"
    using "2.prems"(1) by (auto split: if_splits)
  have s: "sorted (map fst ?b)" "distinct (map fst ?b)"
    using balance_add_sorted "2.prems"(2,3) by blast+
  show ?case
    using "2.IH" [OF c ok s] balance_of_add [OF "2.prems"(2,3)]
    by (auto simp: balance_add_keys ledger_balance_def)
qed (simp add: ledger_balance_def)

text \<open>Every prefix of the postings keeps the sums within the range of \<open>i128\<close>.\<close>

lemma sint_bound: "- (2 ^ 63) \<le> sint (w :: i64) \<and> sint w < 2 ^ 63"
  using sint_greater_eq [of w] sint_less [of w] by simp

lemma ledger_balance_bound: "\<bar>ledger_balance ps a\<bar> \<le> int (length ps) * 2 ^ 63"
proof (induction ps)
  case (Cons p ps)
  have "\<bar>sint (lp_amount p)\<bar> \<le> 2 ^ 63" using sint_bound [of "lp_amount p"] by linarith
  then show ?case using Cons.IH
    by (auto simp: ledger_balance_def algebra_simps)
qed (simp add: ledger_balance_def)

lemma check_postings_bound:
  assumes "check_postings ids [] ps = Ok bs" and "length ps < 2 ^ 63" and "(a, v) \<in> set bs"
  shows "\<bar>v\<bar> < 2 ^ 127"
proof -
  have b: "distinct (map fst bs)" "\<forall>a. balance_of bs a = ledger_balance ps a"
    using check_postings_balances [OF assms(1)] by (auto simp: balance_of_def)
  then have "v = ledger_balance ps a" using assms(3) by (metis balance_of_def map_of_eq_Some_iff option.simps(5))
  moreover have "int (length ps) * 2 ^ 63 < 2 ^ 63 * 2 ^ 63" using assms(2) by simp
  ultimately show ?thesis using ledger_balance_bound [of ps a] by (simp add: power_add [symmetric])
qed

text \<open>The sum that \<open>find\<close> reports is the least unbalanced asset.\<close>

lemma find_unbalanced_None:
  assumes "check_postings {} [] ps = Ok bs"
  shows "find (\<lambda>(_, v). v \<noteq> 0) bs = None \<longleftrightarrow> (\<forall>a. ledger_balance ps a = 0)"
proof -
  have d: "distinct (map fst bs)" and b: "\<forall>a. balance_of bs a = ledger_balance ps a"
    using check_postings_balances [OF assms] by (auto simp: balance_of_def)
  have "(\<forall>a. balance_of bs a = 0) \<longleftrightarrow> (\<forall>(a, v)\<in>set bs. v = 0)"
  proof
    assume z: "\<forall>a. balance_of bs a = 0"
    have "v = 0" if "(a, v) \<in> set bs" for a v
      using z [rule_format, of a] that d by (simp add: balance_of_def)
    then show "\<forall>(a, v)\<in>set bs. v = 0" by blast
  next
    assume "\<forall>(a, v)\<in>set bs. v = 0"
    then show "\<forall>a. balance_of bs a = 0"
      by (auto simp: balance_of_def split: option.splits dest!: map_of_SomeD)
  qed
  then show ?thesis using b by (auto simp: find_None_iff)
qed

lemma find_sorted_least:
  assumes "sorted (map fst bs)" and "find (\<lambda>(_, v). v \<noteq> (0 :: int)) bs = Some (a, v)"
    and "(b, w) \<in> set bs" and "w \<noteq> 0"
  shows "(a :: string) \<le> b"
  using assms by (induction bs) (auto split: if_splits)

lemma find_unbalanced_Some:
  assumes "check_postings {} [] ps = Ok bs" and "find (\<lambda>(_, v). v \<noteq> 0) bs = Some (a, v)"
  shows "ledger_balance ps a \<noteq> 0 \<and> (\<forall>b. ledger_balance ps b \<noteq> 0 \<longrightarrow> a \<le> b)"
proof -
  have s: "sorted (map fst bs)" and d: "distinct (map fst bs)"
    and b: "\<And>a. ledger_balance ps a = balance_of bs a"
    using check_postings_balances [OF assms(1)] by (auto simp: balance_of_def)
  have av: "(a, v) \<in> set bs" "v \<noteq> 0" using assms(2) by (auto simp: find_Some_iff dest: nth_mem)
  then have "balance_of bs a \<noteq> 0" using d by (simp add: balance_of_def)
  moreover have "a \<le> c" if "balance_of bs c \<noteq> 0" for c
    using find_sorted_least [OF s assms(2)] that
    by (auto simp: balance_of_def split: option.splits dest!: map_of_SomeD)
  ultimately show ?thesis by (simp add: b)
qed

section \<open>Which requests are accepted\<close>

definition trade_event_ok :: "outbox_event \<Rightarrow> bool" where
  "trade_event_ok e \<longleftrightarrow> \<not> prefix RELAY_TOPIC_PREFIX (oe_topic e) \<and> \<not> blank (oe_event_id e) \<and>
     \<not> blank (oe_topic e) \<and> \<not> blank (oe_partition_key e)"

lemma check_trade_events_Ok_iff:
  "check_trade_events ids es = Ok u \<longleftrightarrow>
     list_all trade_event_ok es \<and> distinct (map oe_event_id es) \<and> oe_event_id ` set es \<inter> ids = {}"
  by (induction ids es rule: check_trade_events.induct) (auto simp: trade_event_ok_def)

lemma check_trade_record_Ok_iff: "check_trade_record w = Ok u \<longleftrightarrow> valid_record (rw_record w)"
  by (auto simp: check_trade_record_def valid_record_def)

definition trade_head_ok :: "trade_transaction \<Rightarrow> bool" where
  "trade_head_ok q \<longleftrightarrow> \<not> blank (tx_operation_id q) \<and> \<not> blank (tt_trade_id (tx_transition q)) \<and>
     tx_writes q \<noteq> [] \<and>
     (tt_expected_version (tx_transition q) = 0) = (tt_expected_state (tx_transition q) = None) \<and>
     is_valid_transition (tt_expected_state (tx_transition q)) (tt_next_state (tx_transition q))"

definition trade_body_ok :: "trade_transaction \<Rightarrow> bool" where
  "trade_body_ok q \<longleftrightarrow>
     list_all (\<lambda>w. valid_record (rw_record w)) (tx_writes q) \<and> distinct (map rw_record (tx_writes q)) \<and>
     list_all posting_ok (tx_ledger_postings q) \<and> distinct (map lp_posting_id (tx_ledger_postings q)) \<and>
     (\<forall>a. ledger_balance (tx_ledger_postings q) a = 0) \<and>
     list_all trade_event_ok (tx_outbox_events q) \<and> distinct (map oe_event_id (tx_outbox_events q))"

definition trade_sorted :: "trade_transaction \<Rightarrow> trade_transaction" where
  "trade_sorted q = q\<lparr>tx_writes := sort_key rw_record (tx_writes q),
     tx_ledger_postings := sort_key lp_posting_id (tx_ledger_postings q),
     tx_outbox_events := sort_key oe_event_id (tx_outbox_events q)\<rparr>"

lemma ledger_balance_mset: "mset ps = mset qs \<Longrightarrow> ledger_balance ps a = ledger_balance qs a"
proof -
  assume "mset ps = mset qs"
  then have "mset (map (\<lambda>p. sint (lp_amount p)) (filter (\<lambda>p. lp_asset p = a) ps)) =
      mset (map (\<lambda>p. sint (lp_amount p)) (filter (\<lambda>p. lp_asset p = a) qs))" by simp
  then show ?thesis unfolding ledger_balance_def sum_mset_sum_list [symmetric] by simp
qed

lemma ledger_balance_sort [simp]: "ledger_balance (sort_key f ps) a = ledger_balance ps a"
  by (rule ledger_balance_mset) simp

lemma check_postings_sorted_Ok_iff:
  "(\<exists>bs. check_postings {} [] (sort_key lp_posting_id ps) = Ok bs \<and> find (\<lambda>(_, v). v \<noteq> 0) bs = None) \<longleftrightarrow>
     list_all posting_ok ps \<and> distinct (map lp_posting_id ps) \<and> (\<forall>a. ledger_balance ps a = 0)"
  using check_postings_Ok_iff [of "{}" "[]" "sort_key lp_posting_id ps"]
    find_unbalanced_None [of "sort_key lp_posting_id ps"]
  by (auto simp: list_all_iff sort_key_distinct)

lemma no_pair_None: "(\<forall>a b. m \<noteq> Some (a, b)) \<longleftrightarrow> m = None"
  by (cases m) auto

lemma normalize_trade_Ok_iff:
  "normalize_trade_transaction q = Ok n \<longleftrightarrow> trade_head_ok q \<and> trade_body_ok q \<and> n = trade_sorted q"
proof -
  have fa: "first_adjacent rw_record (sort_key rw_record (tx_writes q)) = None \<longleftrightarrow>
      distinct (map rw_record (tx_writes q))"
    by (subst first_adjacent_sorted) (simp_all add: sort_key_distinct)
  have "normalize_trade_transaction q = Ok n \<longleftrightarrow> trade_head_ok q \<and>
      list_all (\<lambda>w. valid_record (rw_record w)) (tx_writes q) \<and> distinct (map rw_record (tx_writes q)) \<and>
      (\<exists>bs. check_postings {} [] (sort_key lp_posting_id (tx_ledger_postings q)) = Ok bs \<and>
            find (\<lambda>(_, v). v \<noteq> 0) bs = None) \<and>
      list_all trade_event_ok (tx_outbox_events q) \<and> distinct (map oe_event_id (tx_outbox_events q)) \<and>
      n = trade_sorted q"
    by (auto simp: normalize_trade_transaction_def trade_head_ok_def Let_def and_then_Ok_iff
        try_each_Ok_iff check_trade_record_Ok_iff check_trade_events_Ok_iff sort_key_distinct fa [symmetric]
        trade_sorted_def list_all_iff no_pair_None split: option.splits prod.splits)
  then show ?thesis by (auto simp: check_postings_sorted_Ok_iff trade_body_ok_def)
qed

text \<open>Requests with the same content in any order.\<close>

definition trade_reordered :: "trade_transaction \<Rightarrow> trade_transaction \<Rightarrow> bool" where
  "trade_reordered p q \<longleftrightarrow> (\<exists>ws ls es. p = q\<lparr>tx_writes := ws, tx_ledger_postings := ls, tx_outbox_events := es\<rparr> \<and>
     mset ws = mset (tx_writes q) \<and> mset ls = mset (tx_ledger_postings q) \<and>
     mset es = mset (tx_outbox_events q))"

lemma trade_reordered_ok:
  assumes "trade_reordered p q" and "trade_head_ok q" and "trade_body_ok q"
  shows "trade_head_ok p \<and> trade_body_ok p \<and> trade_sorted p = trade_sorted q"
proof -
  from assms(1) obtain ws ls es where p: "p = q\<lparr>tx_writes := ws, tx_ledger_postings := ls, tx_outbox_events := es\<rparr>"
    and m: "mset ws = mset (tx_writes q)" "mset ls = mset (tx_ledger_postings q)"
      "mset es = mset (tx_outbox_events q)"
    unfolding trade_reordered_def by blast
  have st: "set ws = set (tx_writes q)" "set ls = set (tx_ledger_postings q)" "set es = set (tx_outbox_events q)"
    using m by (metis mset_eq_setD)+
  have d: "distinct (map rw_record ws)" "distinct (map lp_posting_id ls)" "distinct (map oe_event_id es)"
    using m assms(3) by (auto simp: trade_body_ok_def) (metis mset_eq_imp_distinct_iff mset_map)+
  have "sort_key rw_record ws = sort_key rw_record (tx_writes q)"
    "sort_key lp_posting_id ls = sort_key lp_posting_id (tx_ledger_postings q)"
    "sort_key oe_event_id es = sort_key oe_event_id (tx_outbox_events q)"
    using m d by (auto intro: sort_key_distinct_unique)
  moreover have "(ws = []) = (tx_writes q = [])" using m(1) by (metis mset_zero_iff)
  ultimately show ?thesis
    using assms(2,3) st d ledger_balance_mset [OF m(2)]
    by (simp add: p trade_head_ok_def trade_body_ok_def trade_sorted_def list_all_iff)
qed

lemma trade_reordered_sorted: "trade_reordered (trade_sorted q) q"
  unfolding trade_reordered_def trade_sorted_def
  by (rule exI [of _ "sort_key rw_record (tx_writes q)"],
      rule exI [of _ "sort_key lp_posting_id (tx_ledger_postings q)"],
      rule exI [of _ "sort_key oe_event_id (tx_outbox_events q)"]) simp

section \<open>Properties\<close>

definition gold_posting :: "string \<Rightarrow> string \<Rightarrow> i64 \<Rightarrow> ledger_posting" where
  "gold_posting i account amount =
     \<lparr>lp_posting_id = i, lp_account_id = account, lp_asset = ''gold'', lp_amount = amount, lp_metadata = []\<rparr>"

definition sample_trade :: "string \<Rightarrow> trade_transition \<Rightarrow> revision \<Rightarrow> ledger_posting list \<Rightarrow> trade_transaction" where
  "sample_trade i t e ps =
     \<lparr>tx_operation_id = i, tx_transition = t,
      tx_writes = [wallet_write ''seller'' e [2], wallet_write ''buyer'' e [1]],
      tx_ledger_postings = ps, tx_outbox_events = [sample_event (i @ ''-event'')], tx_result = [5]\<rparr>"

definition trade_step :: "revision \<Rightarrow> trade_state option \<Rightarrow> trade_state \<Rightarrow> trade_transition" where
  "trade_step v s n =
     \<lparr>tt_trade_id = ''trade-1'', tt_expected_version = v, tt_expected_state = s, tt_next_state = n,
      tt_payload = [], tt_updated_at_unix_ms = 3\<rparr>"

definition escrow_trade :: trade_transaction where
  "escrow_trade = sample_trade ''op-1'' (trade_step 0 None Escrowed) 0
     [gold_posting ''p2'' ''escrow'' 30, gold_posting ''p1'' ''buyer'' (- 30)]"

lemmas trade_sample_defs = escrow_trade_def sample_trade_def trade_step_def gold_posting_def
  wallet_write_def sample_event_def

lemma escrow_trade_ok: "trade_head_ok escrow_trade \<and> trade_body_ok escrow_trade"
  by (simp add: trade_head_ok_def trade_body_ok_def trade_sample_defs posting_ok_def trade_event_ok_def
      valid_record_def ledger_balance_def RELAY_TOPIC_PREFIX_def)

text \<open>
  C17. A trade request has one canonical form. Normalisation accepts exactly the requests with a legal
  state transition, distinct well-formed records, distinct well-formed postings that balance, and
  distinct well-formed events; it returns the same content sorted by identity, the same for every
  order in which the caller lists it, and normalising again changes nothing.
\<close>

theorem normalize_trade_canonical:
  "(\<exists>n. normalize_trade_transaction q = Ok n) = (trade_head_ok q \<and> trade_body_ok q) \<and>
   (\<forall>n. normalize_trade_transaction q = Ok n \<longrightarrow>
      trade_reordered n q \<and> sorted (map rw_record (tx_writes n)) \<and>
      sorted (map lp_posting_id (tx_ledger_postings n)) \<and> sorted (map oe_event_id (tx_outbox_events n)) \<and>
      normalize_trade_transaction n = Ok n \<and>
      (\<forall>p. trade_reordered p q \<longrightarrow> normalize_trade_transaction p = Ok n))"
proof -
  have "normalize_trade_transaction p = Ok (trade_sorted q)"
    if "trade_head_ok q" "trade_body_ok q" "trade_reordered p q" for p
    using trade_reordered_ok [OF that(3,1,2)] by (auto simp: normalize_trade_Ok_iff)
  moreover have "sorted (map rw_record (tx_writes (trade_sorted q)))"
    "sorted (map lp_posting_id (tx_ledger_postings (trade_sorted q)))"
    "sorted (map oe_event_id (tx_outbox_events (trade_sorted q)))"
    by (simp_all add: trade_sorted_def)
  ultimately show ?thesis
    using trade_reordered_sorted [of q] unfolding normalize_trade_Ok_iff by blast
qed

theorem normalize_trade_canonical_witness:
  "normalize_trade_transaction escrow_trade = Ok (trade_sorted escrow_trade) \<and>
   normalize_trade_transaction (trade_sorted escrow_trade) = Ok (trade_sorted escrow_trade)"
proof -
  obtain n where n: "normalize_trade_transaction escrow_trade = Ok n"
    using normalize_trade_canonical [of escrow_trade] escrow_trade_ok by blast
  then have "normalize_trade_transaction n = Ok n"
    using normalize_trade_canonical [of escrow_trade] by blast
  moreover have "n = trade_sorted escrow_trade" using n by (simp add: normalize_trade_Ok_iff)
  ultimately show ?thesis using n by simp
qed

text \<open>
  C18. Double-entry bookkeeping: in an accepted trade the postings of every asset sum to zero over the
  integers. When everything before the ledger check passes and the postings themselves are well
  formed, a request that does not balance is refused with the least unbalanced asset; and the running
  sums never leave the range of \<open>i128\<close>.
\<close>

theorem trade_ledger_zero_sum:
  assumes "length (tx_ledger_postings q) < 2 ^ 63"
  shows "(normalize_trade_transaction q = Ok n \<longrightarrow> (\<forall>a. ledger_balance (tx_ledger_postings n) a = 0)) \<and>
    (trade_head_ok q \<and> list_all (\<lambda>w. valid_record (rw_record w)) (tx_writes q) \<and>
     distinct (map rw_record (tx_writes q)) \<and> list_all posting_ok (tx_ledger_postings q) \<and>
     distinct (map lp_posting_id (tx_ledger_postings q)) \<and> ledger_balance (tx_ledger_postings q) b \<noteq> 0 \<longrightarrow>
       (\<exists>a\<le>b. normalize_trade_transaction q = Err (UnbalancedLedger a) \<and>
               ledger_balance (tx_ledger_postings q) a \<noteq> 0)) \<and>
    (\<forall>k a. \<bar>ledger_balance (take k (sort_key lp_posting_id (tx_ledger_postings q))) a\<bar> < 2 ^ 127)"
proof (intro conjI impI allI)
  fix a assume "normalize_trade_transaction q = Ok n"
  then show "ledger_balance (tx_ledger_postings n) a = 0"
    by (simp add: normalize_trade_Ok_iff trade_body_ok_def trade_sorted_def)
next
  fix k a
  let ?ps = "take k (sort_key lp_posting_id (tx_ledger_postings q))"
  have "int (length ?ps) * 2 ^ 63 < 2 ^ 63 * 2 ^ 63" using assms by simp
  then show "\<bar>ledger_balance ?ps a\<bar> < 2 ^ 127"
    using ledger_balance_bound [of ?ps a] by (simp add: power_add [symmetric])
next
  let ?ps = "sort_key lp_posting_id (tx_ledger_postings q)"
  assume a: "trade_head_ok q \<and> list_all (\<lambda>w. valid_record (rw_record w)) (tx_writes q) \<and>
     distinct (map rw_record (tx_writes q)) \<and> list_all posting_ok (tx_ledger_postings q) \<and>
     distinct (map lp_posting_id (tx_ledger_postings q)) \<and> ledger_balance (tx_ledger_postings q) b \<noteq> 0"
  then obtain bs where bs: "check_postings {} [] ?ps = Ok bs"
    using check_postings_Ok_iff [of "{}" "[]" ?ps] by (auto simp: list_all_iff sort_key_distinct)
  have "find (\<lambda>(_, v). v \<noteq> 0) bs \<noteq> None" using find_unbalanced_None [OF bs] a by auto
  then obtain x v where f: "find (\<lambda>(_, v). v \<noteq> 0) bs = Some (x, v)" by auto
  have "first_adjacent rw_record (sort_key rw_record (tx_writes q)) = None"
    using a by (subst first_adjacent_sorted) (simp_all add: sort_key_distinct)
  moreover have "try_each check_trade_record (sort_key rw_record (tx_writes q)) = Ok ()"
    using a by (simp add: try_each_Ok_iff check_trade_record_Ok_iff list_all_iff)
  ultimately have "normalize_trade_transaction q = Err (UnbalancedLedger x)"
    using a bs f by (simp add: normalize_trade_transaction_def trade_head_ok_def Let_def)
  then show "\<exists>a\<le>b. normalize_trade_transaction q = Err (UnbalancedLedger a) \<and>
               ledger_balance (tx_ledger_postings q) a \<noteq> 0"
    using find_unbalanced_Some [OF bs f] a by auto
qed

theorem trade_ledger_zero_sum_witness:
  "\<exists>a\<le>''gold''. normalize_trade_transaction
      (sample_trade ''op-1'' (trade_step 0 None Escrowed) 0 [gold_posting ''p1'' ''buyer'' (- 30)]) =
    Err (UnbalancedLedger a)"
proof -
  let ?q = "sample_trade ''op-1'' (trade_step 0 None Escrowed) 0 [gold_posting ''p1'' ''buyer'' (- 30)]"
  have l: "length (tx_ledger_postings ?q) < 2 ^ 63" by (simp add: sample_trade_def)
  have "trade_head_ok ?q \<and> list_all (\<lambda>w. valid_record (rw_record w)) (tx_writes ?q) \<and>
     distinct (map rw_record (tx_writes ?q)) \<and> list_all posting_ok (tx_ledger_postings ?q) \<and>
     distinct (map lp_posting_id (tx_ledger_postings ?q)) \<and>
     ledger_balance (tx_ledger_postings ?q) ''gold'' \<noteq> 0"
    by (simp add: trade_head_ok_def trade_sample_defs posting_ok_def valid_record_def ledger_balance_def)
  with trade_ledger_zero_sum [OF l, of _ "''gold''"] show ?thesis by blast
qed

end
