(* ===== verification/Memory_Spec.thy ===== *)
theory Memory_Spec
  imports Trade_Core
begin

text \<open>
  The receipts of \<open>crates/dbproxy-server/src/memory_backend.rs\<close>, and an abstract specification of the
  backend: the same operations on one flat state, without shards and locks. The specification is an
  instance of \<open>versioned_log\<close> over all four kinds of request at once (snapshot saves, single-record
  transactions, multi-record commits with effects, trades), which may interleave on the same records
  and operation ids. Theory \<open>Memory_Backend\<close> proves that the sharded backend refines it.

  SHA-256 and the JSON codec of the relay envelopes come from other packages and are the parameters
  \<open>digest\<close> and \<open>codec\<close>.
\<close>

section \<open>Receipts\<close>

record mem_params =
  digest :: "bytes \<Rightarrow> bytes"
  codec :: json_codec

record snapshot_fingerprint =
  sf_schema :: string
  sf_schema_version :: u32
  sf_payload_digest :: bytes
  sf_expected_revision :: "revision option"
  sf_updated_at_unix_ms :: u64

definition snapshot_fingerprint_from :: "mem_params \<Rightarrow> snapshot_write \<Rightarrow> snapshot_fingerprint" where
  "snapshot_fingerprint_from p q =
     \<lparr>sf_schema = sw_schema q, sf_schema_version = sw_schema_version q,
      sf_payload_digest = digest p (sw_payload q), sf_expected_revision = sw_expected_revision q,
      sf_updated_at_unix_ms = sw_updated_at_unix_ms q\<rparr>"

record snapshot_receipt =
  sn_record :: record_key
  sn_fingerprint :: snapshot_fingerprint
  sn_revision :: revision

record mem_transaction_fingerprint =
  mf_record :: record_key
  mf_schema :: string
  mf_schema_version :: u32
  mf_expected_revision :: revision
  mf_payload_digest :: bytes
  mf_result_digest :: bytes
  mf_updated_at_unix_ms :: u64

definition mem_transaction_fingerprint_from ::
    "mem_params \<Rightarrow> transactional_write \<Rightarrow> mem_transaction_fingerprint" where
  "mem_transaction_fingerprint_from p q =
     \<lparr>mf_record = tw_record q, mf_schema = tw_schema q, mf_schema_version = tw_schema_version q,
      mf_expected_revision = tw_expected_revision q, mf_payload_digest = digest p (tw_payload q),
      mf_result_digest = digest p (tw_result q), mf_updated_at_unix_ms = tw_updated_at_unix_ms q\<rparr>"

record mem_transaction_receipt =
  mt_fingerprint :: mem_transaction_fingerprint
  mt_new_revision :: revision
  mt_result :: bytes

record record_fingerprint =
  rp_record :: record_key
  rp_schema :: string
  rp_schema_version :: u32
  rp_expected_revision :: revision
  rp_payload_digest :: bytes
  rp_updated_at_unix_ms :: u64

record multi_fingerprint =
  mp_writes :: "record_fingerprint list"
  mp_result_digest :: bytes

definition multi_fingerprint_from ::
    "mem_params \<Rightarrow> multi_record_transactional_write \<Rightarrow> multi_fingerprint" where
  "multi_fingerprint_from p q =
     \<lparr>mp_writes = map (\<lambda>w. \<lparr>rp_record = rw_record w, rp_schema = rw_schema w,
         rp_schema_version = rw_schema_version w, rp_expected_revision = rw_expected_revision w,
         rp_payload_digest = digest p (rw_payload w),
         rp_updated_at_unix_ms = rw_updated_at_unix_ms w\<rparr>) (mw_writes q),
      mp_result_digest = digest p (mw_result q)\<rparr>"

record stored_multi_receipt =
  sm_effects :: commit_effects
  sm_fingerprint :: multi_fingerprint
  sm_records :: "transaction_record_receipt list"
  sm_result :: bytes

record stored_trade_receipt =
  sd_request :: trade_transaction
  sd_receipt :: trade_receipt

record trade_identifiers =
  ti_appends :: "record_key \<rightharpoonup> append_record"
  ti_ledger_posting_ids :: "string set"
  ti_outbox_event_ids :: "string set"

section \<open>Steps shared by the specification and the sharded backend\<close>

definition normalize_multi :: "multi_record_transactional_write \<Rightarrow>
    (multi_record_transactional_write, store_error) result" where
  "normalize_multi q =
     (if blank (mw_operation_id q) then Err EmptyOperationId
      else if mw_writes q = [] then Err EmptyTransactionRecords
      else let q = q\<lparr>mw_writes := sort_key rw_record (mw_writes q)\<rparr>
           in case first_adjacent rw_record (mw_writes q) of
                Some w \<Rightarrow> Err (DuplicateTransactionRecord (rw_record w))
              | None \<Rightarrow> Ok q)"

definition claim_operation :: "(string \<rightharpoonup> string) \<Rightarrow> string \<Rightarrow> string \<Rightarrow> (unit, store_error) result" where
  "claim_operation kinds i kind =
     (case kinds i of
        Some existing \<Rightarrow> if existing \<noteq> kind then Err (OperationIdConflict i) else Ok ()
      | None \<Rightarrow> Ok ())"

definition check_effects :: "trade_identifiers \<Rightarrow> commit_effects \<Rightarrow> (unit, store_error) result" where
  "check_effects ids eff =
     and_then (try_each (\<lambda>a. ensure (ti_appends ids (ap_record a) = None)
                               (AppendRecordConflict (ap_record a))) (ce_appends eff))
       (\<lambda>_. try_each (\<lambda>v. ensure (oe_event_id v \<notin> ti_outbox_event_ids ids)
                               (OutboxEventConflict (oe_event_id v))) (ce_outbox_events eff))"

definition record_effects :: "trade_identifiers \<Rightarrow> commit_effects \<Rightarrow> trade_identifiers" where
  "record_effects ids eff =
     ids\<lparr>ti_appends := (ti_appends ids)(map ap_record (ce_appends eff) [\<mapsto>] ce_appends eff),
         ti_outbox_event_ids := ti_outbox_event_ids ids \<union> oe_event_id ` set (ce_outbox_events eff)\<rparr>"

definition check_trade_version :: "trade_envelope option \<Rightarrow> trade_transition \<Rightarrow> (unit, store_error) result" where
  "check_trade_version current t =
     (let actual_version = (case current of None \<Rightarrow> 0 | Some c \<Rightarrow> te_version c);
          actual_state = map_option te_state current
      in if actual_version \<noteq> tt_expected_version t
         then Err (TradeVersionConflict (tt_trade_id t) (tt_expected_version t) actual_version)
         else if actual_state \<noteq> tt_expected_state t
         then Err (TradeStateConflict (tt_trade_id t) (tt_expected_state t) actual_state)
         else Ok ())"

definition check_identifiers :: "trade_identifiers \<Rightarrow> trade_transaction \<Rightarrow> (unit, store_error) result" where
  "check_identifiers ids q =
     and_then (try_each (\<lambda>p. ensure (lp_posting_id p \<notin> ti_ledger_posting_ids ids)
                               (LedgerPostingConflict (lp_posting_id p))) (tx_ledger_postings q))
       (\<lambda>_. try_each (\<lambda>v. ensure (oe_event_id v \<notin> ti_outbox_event_ids ids)
                               (OutboxEventConflict (oe_event_id v))) (tx_outbox_events q))"

definition next_trade_version :: "string \<Rightarrow> revision \<Rightarrow> (revision, store_error) result" where
  "next_trade_version i v = ok_or (TradeVersionExhausted i) (checked_add v 1)"

definition trade_envelope_of :: "trade_transition \<Rightarrow> revision \<Rightarrow> trade_envelope" where
  "trade_envelope_of t v =
     \<lparr>te_trade_id = tt_trade_id t, te_version = v, te_state = tt_next_state t,
      te_payload = tt_payload t, te_updated_at_unix_ms = tt_updated_at_unix_ms t\<rparr>"

definition record_identifiers :: "trade_identifiers \<Rightarrow> trade_transaction \<Rightarrow> trade_identifiers" where
  "record_identifiers ids q =
     ids\<lparr>ti_ledger_posting_ids := ti_ledger_posting_ids ids \<union> lp_posting_id ` set (tx_ledger_postings q),
         ti_outbox_event_ids := ti_outbox_event_ids ids \<union> oe_event_id ` set (tx_outbox_events q)\<rparr>"

definition trade_receipt_of :: "trade_transaction \<Rightarrow> revision \<Rightarrow> transaction_record_receipt list \<Rightarrow> trade_receipt" where
  "trade_receipt_of q v records =
     \<lparr>rc_operation_id = tx_operation_id q, rc_trade_id = tt_trade_id (tx_transition q),
      rc_new_trade_version = v, rc_state = tt_next_state (tx_transition q), rc_records = records,
      rc_ledger_posting_ids = map lp_posting_id (tx_ledger_postings q),
      rc_outbox_event_ids = map oe_event_id (tx_outbox_events q), rc_result = tx_result q\<rparr>"

lemma normalize_multi_eq: "normalize_multi = multi_normalize"
  by (simp add: fun_eq_iff normalize_multi_def multi_normalize_def)

lemma claim_operation_Ok_iff: "claim_operation kinds i k = Ok u \<longleftrightarrow> kinds i = None \<or> kinds i = Some k"
  by (auto simp: claim_operation_def split: option.splits)

lemma check_effects_Ok_iff:
  "check_effects ids eff = Ok u \<longleftrightarrow>
     (\<forall>a\<in>set (ce_appends eff). ti_appends ids (ap_record a) = None) \<and>
     oe_event_id ` set (ce_outbox_events eff) \<inter> ti_outbox_event_ids ids = {}"
  by (auto simp: check_effects_def result_simps)

lemma check_identifiers_Ok_iff:
  "check_identifiers ids q = Ok u \<longleftrightarrow>
     lp_posting_id ` set (tx_ledger_postings q) \<inter> ti_ledger_posting_ids ids = {} \<and>
     oe_event_id ` set (tx_outbox_events q) \<inter> ti_outbox_event_ids ids = {}"
  by (auto simp: check_identifiers_def result_simps)

lemma next_trade_version_Ok:
  "next_trade_version i a = Ok b \<longleftrightarrow> unat a + 1 < 2 ^ 64 \<and> b = a + 1"
  by (auto simp: next_trade_version_def checked_add_def result_simps)

section \<open>The flat specification\<close>

record memory_spec =
  sp_snapshots :: snapshots
  sp_kinds :: "string \<rightharpoonup> string"
  sp_saves :: "string \<rightharpoonup> snapshot_receipt"
  sp_transactions :: "string \<rightharpoonup> mem_transaction_receipt"
  sp_multis :: "string \<rightharpoonup> stored_multi_receipt"
  sp_trade_receipts :: "string \<rightharpoonup> stored_trade_receipt"
  sp_trades :: "string \<rightharpoonup> trade_envelope"
  sp_ids :: trade_identifiers

definition spec_save :: "mem_params \<Rightarrow> memory_spec \<Rightarrow> snapshot_write \<Rightarrow>
    memory_spec \<times> (snapshot_write_outcome, store_error) result" where
  "spec_save p s q =
     (if blank (sw_request_id q) then (s, Err EmptyRequestId)
      else case sp_saves s (sw_request_id q) of
        Some c \<Rightarrow>
          if sn_record c \<noteq> sw_record q \<or> sn_fingerprint c \<noteq> snapshot_fingerprint_from p q
          then (s, Err (IdempotencyConflict (sw_request_id q)))
          else (s, Ok (Duplicate (sn_revision c)))
      | None \<Rightarrow>
          (let actual = actual_revision (sp_snapshots s) (sw_record q)
           in if (case sw_expected_revision q of None \<Rightarrow> False | Some n \<Rightarrow> n \<noteq> actual)
              then (s, Err (RevisionConflict (sw_record q) (sw_expected_revision q) actual))
              else case next_revision (sw_record q) actual of
                Err e \<Rightarrow> (s, Err e)
              | Ok v \<Rightarrow>
                  (s\<lparr>sp_snapshots := (sp_snapshots s)(sw_record q \<mapsto> snapshot_envelope_of q v),
                     sp_saves := (sp_saves s)(sw_request_id q \<mapsto>
                       \<lparr>sn_record = sw_record q, sn_fingerprint = snapshot_fingerprint_from p q,
                        sn_revision = v\<rparr>)\<rparr>,
                   Ok (Applied v))))"

definition spec_apply :: "mem_params \<Rightarrow> memory_spec \<Rightarrow> transactional_write \<Rightarrow>
    memory_spec \<times> (transactional_write_outcome, store_error) result" where
  "spec_apply p s q =
     (let i = tw_operation_id q in
      if blank i then (s, Err EmptyOperationId)
      else case claim_operation (sp_kinds s) i ''single'' of
        Err e \<Rightarrow> (s, Err e)
      | Ok _ \<Rightarrow>
        (case sp_transactions s i of
          Some c \<Rightarrow>
            if mt_fingerprint c \<noteq> mem_transaction_fingerprint_from p q
            then (s, Err (OperationIdConflict i))
            else (s, Ok (Duplicate (mt_new_revision c, mt_result c)))
        | None \<Rightarrow>
            (let actual = actual_revision (sp_snapshots s) (tw_record q)
             in if actual \<noteq> tw_expected_revision q
                then (s, Err (RevisionConflict (tw_record q) (Some (tw_expected_revision q)) actual))
                else case next_revision (tw_record q) actual of
                  Err e \<Rightarrow> (s, Err e)
                | Ok v \<Rightarrow>
                    (s\<lparr>sp_snapshots := (sp_snapshots s)(tw_record q \<mapsto> transaction_envelope q v),
                       sp_kinds := (sp_kinds s)(i \<mapsto> ''single''),
                       sp_transactions := (sp_transactions s)(i \<mapsto>
                         \<lparr>mt_fingerprint = mem_transaction_fingerprint_from p q, mt_new_revision = v,
                          mt_result = tw_result q\<rparr>)\<rparr>,
                     Ok (Applied (v, tw_result q))))))"

definition spec_commit :: "mem_params \<Rightarrow> memory_spec \<Rightarrow> multi_record_transactional_write \<Rightarrow>
    commit_effects \<Rightarrow> memory_spec \<times> (multi_outcome, store_error) result" where
  "spec_commit p s q0 eff0 =
     (case effects_normalize (codec p) eff0 of Err e \<Rightarrow> (s, Err e) | Ok eff \<Rightarrow>
      case normalize_multi q0 of Err e \<Rightarrow> (s, Err e) | Ok q \<Rightarrow>
      let i = mw_operation_id q in
      case claim_operation (sp_kinds s) i ''multi'' of Err e \<Rightarrow> (s, Err e) | Ok _ \<Rightarrow>
      case sp_multis s i of
        Some c \<Rightarrow>
          if sm_fingerprint c \<noteq> multi_fingerprint_from p q \<or> sm_effects c \<noteq> eff
          then (s, Err (OperationIdConflict i))
          else (s, Ok (Duplicate (sm_records c, sm_result c)))
      | None \<Rightarrow>
          case (if effects_is_empty eff then Ok () else check_effects (sp_ids s) eff) of
            Err e \<Rightarrow> (s, Err e)
          | Ok _ \<Rightarrow>
          case try_map (check_write (sp_snapshots s)) (mw_writes q) of
            Err e \<Rightarrow> (s, Err e)
          | Ok committed \<Rightarrow>
              (s\<lparr>sp_snapshots := install_writes (sp_snapshots s) (mw_writes q) committed,
                 sp_kinds := (sp_kinds s)(i \<mapsto> ''multi''),
                 sp_ids := (if effects_is_empty eff then sp_ids s else record_effects (sp_ids s) eff),
                 sp_multis := (sp_multis s)(i \<mapsto>
                   \<lparr>sm_effects = eff, sm_fingerprint = multi_fingerprint_from p q,
                    sm_records = committed, sm_result = mw_result q\<rparr>)\<rparr>,
               Ok (Applied (committed, mw_result q))))"

definition spec_trade :: "memory_spec \<Rightarrow> trade_transaction \<Rightarrow>
    memory_spec \<times> (trade_outcome, store_error) result" where
  "spec_trade s q0 =
     (case normalize_trade_transaction q0 of Err e \<Rightarrow> (s, Err e) | Ok q \<Rightarrow>
      let i = tx_operation_id q; t = tx_transition q in
      case claim_operation (sp_kinds s) i ''trade'' of Err e \<Rightarrow> (s, Err e) | Ok _ \<Rightarrow>
      case sp_trade_receipts s i of
        Some c \<Rightarrow>
          if sd_request c \<noteq> q then (s, Err (OperationIdConflict i))
          else (s, Ok (Duplicate (sd_receipt c)))
      | None \<Rightarrow>
          case check_trade_version (sp_trades s (tt_trade_id t)) t of Err e \<Rightarrow> (s, Err e) | Ok _ \<Rightarrow>
          case check_identifiers (sp_ids s) q of Err e \<Rightarrow> (s, Err e) | Ok _ \<Rightarrow>
          case try_map (check_write (sp_snapshots s)) (tx_writes q) of Err e \<Rightarrow> (s, Err e) | Ok committed \<Rightarrow>
          case next_trade_version (tt_trade_id t) (tt_expected_version t) of Err e \<Rightarrow> (s, Err e) | Ok v \<Rightarrow>
            (s\<lparr>sp_snapshots := install_writes (sp_snapshots s) (tx_writes q) committed,
               sp_kinds := (sp_kinds s)(i \<mapsto> ''trade''),
               sp_trades := (sp_trades s)(tt_trade_id t \<mapsto> trade_envelope_of t v),
               sp_ids := record_identifiers (sp_ids s) q,
               sp_trade_receipts := (sp_trade_receipts s)(i \<mapsto>
                 \<lparr>sd_request = q, sd_receipt = trade_receipt_of q v committed\<rparr>)\<rparr>,
             Ok (Applied (trade_receipt_of q v committed))))"

section \<open>When an operation is applied\<close>

lemma spec_save_applied_iff:
  "spec_save p s q = (s', Ok (Applied v)) \<longleftrightarrow>
     \<not> blank (sw_request_id q) \<and> sp_saves s (sw_request_id q) = None \<and>
     (\<forall>n. sw_expected_revision q = Some n \<longrightarrow> n = actual_revision (sp_snapshots s) (sw_record q)) \<and>
     unat (actual_revision (sp_snapshots s) (sw_record q)) + 1 < 2 ^ 64 \<and>
     v = actual_revision (sp_snapshots s) (sw_record q) + 1 \<and>
     s' = s\<lparr>sp_snapshots := (sp_snapshots s)(sw_record q \<mapsto> snapshot_envelope_of q v),
            sp_saves := (sp_saves s)(sw_request_id q \<mapsto>
              \<lparr>sn_record = sw_record q, sn_fingerprint = snapshot_fingerprint_from p q, sn_revision = v\<rparr>)\<rparr>"
  by (auto simp: spec_save_def Let_def next_revision_Ok next_revision_Err
      split: option.splits result.splits)

lemma spec_apply_applied_iff:
  "spec_apply p s q = (s', Ok (Applied r)) \<longleftrightarrow>
     \<not> blank (tw_operation_id q) \<and> claim_operation (sp_kinds s) (tw_operation_id q) ''single'' = Ok () \<and>
     sp_transactions s (tw_operation_id q) = None \<and>
     actual_revision (sp_snapshots s) (tw_record q) = tw_expected_revision q \<and>
     unat (tw_expected_revision q) + 1 < 2 ^ 64 \<and> r = (tw_expected_revision q + 1, tw_result q) \<and>
     s' = s\<lparr>sp_snapshots := (sp_snapshots s)(tw_record q \<mapsto> transaction_envelope q (tw_expected_revision q + 1)),
            sp_kinds := (sp_kinds s)(tw_operation_id q \<mapsto> ''single''),
            sp_transactions := (sp_transactions s)(tw_operation_id q \<mapsto>
              \<lparr>mt_fingerprint = mem_transaction_fingerprint_from p q,
               mt_new_revision = tw_expected_revision q + 1, mt_result = tw_result q\<rparr>)\<rparr>"
  by (auto simp: spec_apply_def Let_def next_revision_Ok next_revision_Err
      split: option.splits result.splits)

lemma spec_commit_applied_iff:
  "spec_commit p s q eff = (s', Ok (Applied r)) \<longleftrightarrow>
     (\<exists>n f. multi_normalize q = Ok n \<and> effects_normalize (codec p) eff = Ok f \<and>
        claim_operation (sp_kinds s) (mw_operation_id q) ''multi'' = Ok () \<and>
        sp_multis s (mw_operation_id q) = None \<and>
        (effects_is_empty f \<or> check_effects (sp_ids s) f = Ok ()) \<and>
        (\<forall>w\<in>set (mw_writes n). write_current (sp_snapshots s) w) \<and>
        r = (map write_receipt (mw_writes n), mw_result q) \<and>
        s' = s\<lparr>sp_snapshots := install_writes (sp_snapshots s) (mw_writes n) (map write_receipt (mw_writes n)),
               sp_kinds := (sp_kinds s)(mw_operation_id q \<mapsto> ''multi''),
               sp_ids := (if effects_is_empty f then sp_ids s else record_effects (sp_ids s) f),
               sp_multis := (sp_multis s)(mw_operation_id q \<mapsto>
                 \<lparr>sm_effects = f, sm_fingerprint = multi_fingerprint_from p n,
                  sm_records = map write_receipt (mw_writes n), sm_result = mw_result q\<rparr>)\<rparr>)"
proof (cases "multi_normalize q"; cases "effects_normalize (codec p) eff")
  fix n f assume n: "multi_normalize q = Ok n" and f: "effects_normalize (codec p) eff = Ok f"
  have e: "mw_operation_id n = mw_operation_id q" "mw_result n = mw_result q"
    using n by (auto simp: multi_normalize_Ok_iff)
  show ?thesis
  proof (cases "try_map (check_write (sp_snapshots s)) (mw_writes n)")
    case (Ok cs)
    then have w: "\<forall>w\<in>set (mw_writes n). write_current (sp_snapshots s) w"
      "cs = map write_receipt (mw_writes n)" by (simp_all add: check_writes_Ok_iff)
    show ?thesis
      by (cases "claim_operation (sp_kinds s) (mw_operation_id q) ''multi''";
          cases "sp_multis s (mw_operation_id q)"; cases "check_effects (sp_ids s) f")
        (auto simp: spec_commit_def Let_def normalize_multi_eq n f e Ok w)
  next
    case (Err x)
    have "\<not> (\<forall>w\<in>set (mw_writes n). write_current (sp_snapshots s) w)"
      using check_writes_Ok_iff [of "sp_snapshots s" "mw_writes n" "map write_receipt (mw_writes n)"] Err by simp
    then show ?thesis
      by (cases "claim_operation (sp_kinds s) (mw_operation_id q) ''multi''";
          cases "sp_multis s (mw_operation_id q)"; cases "check_effects (sp_ids s) f")
        (simp_all add: spec_commit_def Let_def normalize_multi_eq n f e Err)
  qed
qed (simp_all add: spec_commit_def normalize_multi_eq)

lemma spec_commit_appliedE:
  assumes "spec_commit p s q eff = (s', Ok (Applied r))"
  obtains n f where "multi_normalize q = Ok n" "effects_normalize (codec p) eff = Ok f"
    "effects_is_empty f \<or> check_effects (sp_ids s) f = Ok ()"
    "\<forall>w\<in>set (mw_writes n). write_current (sp_snapshots s) w"
    "r = (map write_receipt (mw_writes n), mw_result q)"
    "sp_snapshots s' = install_writes (sp_snapshots s) (mw_writes n) (map write_receipt (mw_writes n))"
    "sp_ids s' = (if effects_is_empty f then sp_ids s else record_effects (sp_ids s) f)"
  using assms by (auto simp: spec_commit_applied_iff)

lemma spec_trade_applied_iff:
  "spec_trade s q = (s', Ok (Applied r)) \<longleftrightarrow>
     (\<exists>n t. normalize_trade_transaction q = Ok n \<and> t = tx_transition q \<and>
        claim_operation (sp_kinds s) (tx_operation_id q) ''trade'' = Ok () \<and>
        sp_trade_receipts s (tx_operation_id q) = None \<and>
        check_trade_version (sp_trades s (tt_trade_id t)) t = Ok () \<and>
        check_identifiers (sp_ids s) n = Ok () \<and>
        (\<forall>w\<in>set (tx_writes n). write_current (sp_snapshots s) w) \<and>
        unat (tt_expected_version t) + 1 < 2 ^ 64 \<and>
        r = trade_receipt_of n (tt_expected_version t + 1) (map write_receipt (tx_writes n)) \<and>
        s' = s\<lparr>sp_snapshots := install_writes (sp_snapshots s) (tx_writes n) (map write_receipt (tx_writes n)),
               sp_kinds := (sp_kinds s)(tx_operation_id q \<mapsto> ''trade''),
               sp_trades := (sp_trades s)(tt_trade_id t \<mapsto> trade_envelope_of t (tt_expected_version t + 1)),
               sp_ids := record_identifiers (sp_ids s) n,
               sp_trade_receipts := (sp_trade_receipts s)(tx_operation_id q \<mapsto>
                 \<lparr>sd_request = n, sd_receipt = r\<rparr>)\<rparr>)"
proof (cases "normalize_trade_transaction q")
  case (Ok n)
  then have e: "tx_operation_id n = tx_operation_id q" "tx_transition n = tx_transition q"
    by (auto simp: normalize_trade_Ok_iff trade_sorted_def)
  let ?t = "tx_transition q"
  show ?thesis
  proof (cases "try_map (check_write (sp_snapshots s)) (tx_writes n)")
    case cs: (Ok cs)
    then have w: "\<forall>w\<in>set (tx_writes n). write_current (sp_snapshots s) w"
      "cs = map write_receipt (tx_writes n)" by (simp_all add: check_writes_Ok_iff)
    show ?thesis
      by (cases "claim_operation (sp_kinds s) (tx_operation_id q) ''trade''";
          cases "sp_trade_receipts s (tx_operation_id q)";
          cases "check_trade_version (sp_trades s (tt_trade_id ?t)) ?t";
          cases "check_identifiers (sp_ids s) n";
          cases "next_trade_version (tt_trade_id ?t) (tt_expected_version ?t)")
        (auto simp: spec_trade_def Let_def Ok e cs w next_trade_version_Ok next_trade_version_def checked_add_def
          split: if_splits)
  next
    case (Err x)
    have "\<not> (\<forall>w\<in>set (tx_writes n). write_current (sp_snapshots s) w)"
      using check_writes_Ok_iff [of "sp_snapshots s" "tx_writes n" "map write_receipt (tx_writes n)"] Err by simp
    then show ?thesis
      by (cases "claim_operation (sp_kinds s) (tx_operation_id q) ''trade''";
          cases "sp_trade_receipts s (tx_operation_id q)";
          cases "check_trade_version (sp_trades s (tt_trade_id ?t)) ?t";
          cases "check_identifiers (sp_ids s) n")
        (simp_all add: spec_trade_def Let_def Ok e Err)
  qed
qed (simp add: spec_trade_def)

section \<open>When an operation is replayed\<close>

lemma spec_save_duplicate_iff:
  "spec_save p s q = (s', Ok (Duplicate v)) \<longleftrightarrow> s' = s \<and> \<not> blank (sw_request_id q) \<and>
     sp_saves s (sw_request_id q) =
       Some \<lparr>sn_record = sw_record q, sn_fingerprint = snapshot_fingerprint_from p q, sn_revision = v\<rparr>"
  by (auto simp: spec_save_def Let_def split: option.splits result.splits)

lemma spec_apply_duplicate_iff:
  "spec_apply p s q = (s', Ok (Duplicate (v, res))) \<longleftrightarrow> s' = s \<and> \<not> blank (tw_operation_id q) \<and>
     claim_operation (sp_kinds s) (tw_operation_id q) ''single'' = Ok () \<and>
     sp_transactions s (tw_operation_id q) =
       Some \<lparr>mt_fingerprint = mem_transaction_fingerprint_from p q, mt_new_revision = v, mt_result = res\<rparr>"
  by (auto simp: spec_apply_def Let_def split: option.splits result.splits)

lemma spec_commit_duplicate_iff:
  "spec_commit p s q eff = (s', Ok (Duplicate (cs, res))) \<longleftrightarrow> s' = s \<and>
     (\<exists>n f c. multi_normalize q = Ok n \<and> effects_normalize (codec p) eff = Ok f \<and>
        claim_operation (sp_kinds s) (mw_operation_id q) ''multi'' = Ok () \<and>
        sp_multis s (mw_operation_id q) = Some c \<and> sm_effects c = f \<and>
        sm_fingerprint c = multi_fingerprint_from p n \<and> sm_records c = cs \<and> sm_result c = res)"
proof (cases "multi_normalize q"; cases "effects_normalize (codec p) eff")
  fix n f assume n: "multi_normalize q = Ok n" and f: "effects_normalize (codec p) eff = Ok f"
  have e: "mw_operation_id n = mw_operation_id q" using n by (auto simp: multi_normalize_Ok_iff)
  show ?thesis
    by (cases "claim_operation (sp_kinds s) (mw_operation_id q) ''multi''";
        cases "sp_multis s (mw_operation_id q)"; cases "check_effects (sp_ids s) f";
        cases "try_map (check_write (sp_snapshots s)) (mw_writes n)")
      (auto simp: spec_commit_def Let_def normalize_multi_eq n f e)
qed (simp_all add: spec_commit_def normalize_multi_eq)

lemma spec_trade_duplicate_iff:
  "spec_trade s q = (s', Ok (Duplicate r)) \<longleftrightarrow> s' = s \<and>
     (\<exists>n c. normalize_trade_transaction q = Ok n \<and>
        claim_operation (sp_kinds s) (tx_operation_id q) ''trade'' = Ok () \<and>
        sp_trade_receipts s (tx_operation_id q) = Some c \<and> sd_request c = n \<and> sd_receipt c = r)"
proof (cases "normalize_trade_transaction q")
  case (Ok n)
  then have e: "tx_operation_id n = tx_operation_id q" "tx_transition n = tx_transition q"
    by (auto simp: normalize_trade_Ok_iff trade_sorted_def)
  let ?t = "tx_transition q"
  show ?thesis
    by (cases "claim_operation (sp_kinds s) (tx_operation_id q) ''trade''";
        cases "sp_trade_receipts s (tx_operation_id q)";
        cases "check_trade_version (sp_trades s (tt_trade_id ?t)) ?t";
        cases "check_identifiers (sp_ids s) n";
        cases "try_map (check_write (sp_snapshots s)) (tx_writes n)";
        cases "next_trade_version (tt_trade_id ?t) (tt_expected_version ?t)")
      (auto simp: spec_trade_def Let_def Ok e)
qed (simp add: spec_trade_def)

section \<open>Only applied operations change the state\<close>

lemma spec_save_unchanged: "spec_save p s q = (s', x) \<Longrightarrow> \<not> is_applied x \<Longrightarrow> s' = s"
  by (auto simp: spec_save_def Let_def split: option.splits result.splits if_splits)

lemma spec_apply_unchanged: "spec_apply p s q = (s', x) \<Longrightarrow> \<not> is_applied x \<Longrightarrow> s' = s"
  by (auto simp: spec_apply_def Let_def split: option.splits result.splits if_splits)

lemma spec_commit_unchanged: "spec_commit p s q eff = (s', x) \<Longrightarrow> \<not> is_applied x \<Longrightarrow> s' = s"
  unfolding spec_commit_def Let_def by (auto split: option.splits result.splits if_split_asm)

lemma spec_trade_unchanged: "spec_trade s q = (s', x) \<Longrightarrow> \<not> is_applied x \<Longrightarrow> s' = s"
  unfolding spec_trade_def Let_def by (auto split: option.splits result.splits if_split_asm)

section \<open>All requests as one log\<close>

datatype mem_request =
    SaveRequest snapshot_write
  | TransactionRequest transactional_write
  | CommitRequest multi_record_transactional_write commit_effects
  | TradeRequest trade_transaction

datatype mem_receipt =
    Saved revision
  | Transacted "revision \<times> bytes"
  | Committed "transaction_record_receipt list \<times> bytes"
  | Traded trade_receipt

definition lift_outcome :: "('a \<Rightarrow> 'b) \<Rightarrow> 's \<times> ('a write_outcome, 'e) result \<Rightarrow> 's \<times> ('b write_outcome, 'e) result" where
  "lift_outcome f r = (fst r, map_result (map_write_outcome f) (\<lambda>e. e) (snd r))"

lemma lift_outcome_Applied:
  "lift_outcome f r = (s, Ok (Applied y)) \<longleftrightarrow> (\<exists>x. r = (s, Ok (Applied x)) \<and> y = f x)"
  by (cases r; cases "snd r" rule: is_applied.cases) (auto simp: lift_outcome_def)

lemma lift_outcome_Duplicate:
  "lift_outcome f r = (s, Ok (Duplicate y)) \<longleftrightarrow> (\<exists>x. r = (s, Ok (Duplicate x)) \<and> y = f x)"
  by (cases r; cases "snd r" rule: is_applied.cases) (auto simp: lift_outcome_def)

lemma is_applied_lift: "is_applied (map_result (map_write_outcome f) g x) \<longleftrightarrow> is_applied x"
  by (cases x rule: is_applied.cases) auto

fun spec_step :: "mem_params \<Rightarrow> memory_spec \<Rightarrow> mem_request \<Rightarrow>
    memory_spec \<times> (mem_receipt write_outcome, store_error) result" where
  "spec_step p s (SaveRequest q) = lift_outcome Saved (spec_save p s q)"
| "spec_step p s (TransactionRequest q) = lift_outcome Transacted (spec_apply p s q)"
| "spec_step p s (CommitRequest q eff) = lift_outcome Committed (spec_commit p s q eff)"
| "spec_step p s (TradeRequest q) = lift_outcome Traded (spec_trade s q)"

text \<open>A request is committed when the state holds its receipt under its own kind.\<close>

definition spec_committed :: "mem_params \<Rightarrow> memory_spec \<Rightarrow> mem_request \<Rightarrow> mem_receipt \<Rightarrow> bool" where
  "spec_committed p s q r \<longleftrightarrow>
     (case q of
        SaveRequest w \<Rightarrow> (\<exists>c. \<not> blank (sw_request_id w) \<and> sp_saves s (sw_request_id w) = Some c \<and>
          sn_record c = sw_record w \<and> sn_fingerprint c = snapshot_fingerprint_from p w \<and>
          r = Saved (sn_revision c))
      | TransactionRequest w \<Rightarrow> (\<exists>c. \<not> blank (tw_operation_id w) \<and>
          sp_kinds s (tw_operation_id w) = Some ''single'' \<and> sp_transactions s (tw_operation_id w) = Some c \<and>
          mt_fingerprint c = mem_transaction_fingerprint_from p w \<and>
          r = Transacted (mt_new_revision c, mt_result c))
      | CommitRequest w eff \<Rightarrow> (\<exists>n f c. multi_normalize w = Ok n \<and> effects_normalize (codec p) eff = Ok f \<and>
          sp_kinds s (mw_operation_id w) = Some ''multi'' \<and> sp_multis s (mw_operation_id w) = Some c \<and>
          sm_effects c = f \<and> sm_fingerprint c = multi_fingerprint_from p n \<and>
          r = Committed (sm_records c, sm_result c))
      | TradeRequest w \<Rightarrow> (\<exists>n c. normalize_trade_transaction w = Ok n \<and>
          sp_kinds s (tx_operation_id w) = Some ''trade'' \<and> sp_trade_receipts s (tx_operation_id w) = Some c \<and>
          sd_request c = n \<and> r = Traded (sd_receipt c)))"

fun request_writes :: "mem_request \<Rightarrow> record_key \<Rightarrow> bool" where
  "request_writes (SaveRequest w) k = (k = sw_record w)"
| "request_writes (TransactionRequest w) k = (k = tw_record w)"
| "request_writes (CommitRequest w eff) k = (k \<in> rw_record ` set (mw_writes w))"
| "request_writes (TradeRequest w) k = (k \<in> rw_record ` set (tx_writes w))"

fun request_expects :: "mem_request \<Rightarrow> record_key \<Rightarrow> revision option" where
  "request_expects (SaveRequest w) k = sw_expected_revision w"
| "request_expects (TransactionRequest w) k = Some (tw_expected_revision w)"
| "request_expects (CommitRequest w eff) k =
     map_option rw_expected_revision (find (\<lambda>w. rw_record w = k) (mw_writes w))"
| "request_expects (TradeRequest w) k =
     map_option rw_expected_revision (find (\<lambda>w. rw_record w = k) (tx_writes w))"

text \<open>The kind on record for an operation id says in which map its receipt is.\<close>

definition kind_slot :: "string option \<Rightarrow> bool \<Rightarrow> bool \<Rightarrow> bool \<Rightarrow> bool" where
  "kind_slot k t m d \<longleftrightarrow> t = (k = Some ''single'') \<and> m = (k = Some ''multi'') \<and> d = (k = Some ''trade'')"

definition kinds_ok :: "memory_spec \<Rightarrow> bool" where
  "kinds_ok s \<longleftrightarrow> (\<forall>i. kind_slot (sp_kinds s i) (sp_transactions s i \<noteq> None) (sp_multis s i \<noteq> None)
     (sp_trade_receipts s i \<noteq> None))"

definition spec_ok :: "memory_spec \<Rightarrow> bool" where
  "spec_ok s \<longleftrightarrow> snapshots_ok (sp_snapshots s) \<and> kinds_ok s"

lemma kinds_ok_at:
  "kinds_ok s \<Longrightarrow> kind_slot (sp_kinds s i) (sp_transactions s i \<noteq> None) (sp_multis s i \<noteq> None)
     (sp_trade_receipts s i \<noteq> None)"
  unfolding kinds_ok_def by blast

lemma kinds_ok_unclaimed:
  assumes "kinds_ok s" and "claim_operation (sp_kinds s) i k = Ok u"
    and "k = ''single'' \<and> sp_transactions s i = None \<or> k = ''multi'' \<and> sp_multis s i = None \<or>
         k = ''trade'' \<and> sp_trade_receipts s i = None"
  shows "sp_kinds s i = None"
  using kinds_ok_at [OF assms(1), of i] assms(2,3) by (auto simp: claim_operation_Ok_iff kind_slot_def)

lemma kinds_ok_claim:
  assumes "kinds_ok s" and "sp_kinds s i = None" and "sp_kinds s' = (sp_kinds s)(i \<mapsto> k)"
    and "\<forall>j. j \<noteq> i \<longrightarrow> sp_transactions s' j = sp_transactions s j \<and> sp_multis s' j = sp_multis s j \<and>
           sp_trade_receipts s' j = sp_trade_receipts s j"
    and "kind_slot None (sp_transactions s i \<noteq> None) (sp_multis s i \<noteq> None) (sp_trade_receipts s i \<noteq> None) \<Longrightarrow>
         kind_slot (Some k) (sp_transactions s' i \<noteq> None) (sp_multis s' i \<noteq> None) (sp_trade_receipts s' i \<noteq> None)"
  shows "kinds_ok s'"
  unfolding kinds_ok_def
proof
  fix j
  show "kind_slot (sp_kinds s' j) (sp_transactions s' j \<noteq> None) (sp_multis s' j \<noteq> None)
      (sp_trade_receipts s' j \<noteq> None)"
    using assms(2-5) kinds_ok_at [OF assms(1), of j] by (cases "j = i") simp_all
qed

text \<open>What an applied request does to the kinds, the receipts and the snapshots.\<close>

lemma spec_step_kinds:
  assumes "kinds_ok s" and "spec_step p s q = (s', Ok (Applied r))"
  shows "kinds_ok s'"
proof (cases q)
  case (SaveRequest w)
  then have "sp_kinds s' = sp_kinds s" "sp_transactions s' = sp_transactions s" "sp_multis s' = sp_multis s"
    "sp_trade_receipts s' = sp_trade_receipts s"
    using assms(2) by (auto simp: lift_outcome_Applied spec_save_applied_iff)
  then show ?thesis using assms(1) by (simp add: kinds_ok_def)
next
  case (TransactionRequest w)
  let ?i = "tw_operation_id w"
  have e: "sp_kinds s' = (sp_kinds s)(?i \<mapsto> ''single'')" "sp_multis s' = sp_multis s"
    "\<exists>c. sp_transactions s' = (sp_transactions s)(?i \<mapsto> c)" "sp_trade_receipts s' = sp_trade_receipts s"
    and n: "sp_kinds s ?i = None"
    using assms(2) TransactionRequest kinds_ok_unclaimed [OF assms(1), of ?i "''single''"]
    by (auto simp: lift_outcome_Applied spec_apply_applied_iff)
  show ?thesis
    by (rule kinds_ok_claim [OF assms(1) n e(1)]) (use e(2-4) in \<open>auto simp: kind_slot_def\<close>)
next
  case (CommitRequest w eff)
  let ?i = "mw_operation_id w"
  have e: "sp_kinds s' = (sp_kinds s)(?i \<mapsto> ''multi'')" "sp_transactions s' = sp_transactions s"
    "\<exists>c. sp_multis s' = (sp_multis s)(?i \<mapsto> c)" "sp_trade_receipts s' = sp_trade_receipts s"
    and n: "sp_kinds s ?i = None"
    using assms(2) CommitRequest kinds_ok_unclaimed [OF assms(1), of ?i "''multi''"]
    by (auto simp: lift_outcome_Applied spec_commit_applied_iff)
  show ?thesis
    by (rule kinds_ok_claim [OF assms(1) n e(1)]) (use e(2-4) in \<open>auto simp: kind_slot_def\<close>)
next
  case (TradeRequest w)
  let ?i = "tx_operation_id w"
  have e: "sp_kinds s' = (sp_kinds s)(?i \<mapsto> ''trade'')" "sp_transactions s' = sp_transactions s"
    "\<exists>c. sp_trade_receipts s' = (sp_trade_receipts s)(?i \<mapsto> c)" "sp_multis s' = sp_multis s"
    and n: "sp_kinds s ?i = None"
    using assms(2) TradeRequest kinds_ok_unclaimed [OF assms(1), of ?i "''trade''"]
    by (auto simp: lift_outcome_Applied spec_trade_applied_iff)
  show ?thesis
    by (rule kinds_ok_claim [OF assms(1) n e(1)]) (use e(2-4) in \<open>auto simp: kind_slot_def\<close>)
qed

lemma trade_writes_multi:
  assumes "normalize_trade_transaction q = Ok n"
  shows "\<exists>m. multi_normalize \<lparr>mw_operation_id = tx_operation_id q, mw_writes = tx_writes q, mw_result = []\<rparr> = Ok m \<and>
     mw_writes m = tx_writes n"
  using assms by (auto simp: normalize_trade_Ok_iff multi_normalize_Ok_iff trade_head_ok_def trade_body_ok_def
      trade_sorted_def)

lemma spec_step_snapshots_ok:
  assumes "snapshots_ok (sp_snapshots s)" and "spec_step p s q = (s', Ok (Applied r))"
  shows "snapshots_ok (sp_snapshots s')"
proof -
  have nz: "a + 1 \<noteq> 0" if "unat a + 1 < 2 ^ 64" for a :: u64
    using next_revision_nonzero [of undefined a "a + 1"] that by (simp add: next_revision_Ok)
  show ?thesis
  proof (cases q)
    case (SaveRequest w)
    then show ?thesis using assms nz
      by (auto simp: lift_outcome_Applied spec_save_applied_iff snapshot_envelope_of_def intro!: snapshots_ok_upd)
  next
    case (TransactionRequest w)
    then show ?thesis using assms nz
      by (auto simp: lift_outcome_Applied spec_apply_applied_iff transaction_envelope_def intro!: snapshots_ok_upd)
  next
    case (CommitRequest w eff)
    then show ?thesis using assms install_writes_ok [OF assms(1)]
      by (auto simp: lift_outcome_Applied spec_commit_applied_iff)
  next
    case (TradeRequest w)
    then show ?thesis using assms install_writes_ok [OF assms(1)]
      by (auto simp: lift_outcome_Applied spec_trade_applied_iff)
  qed
qed

lemma spec_step_ok: "spec_ok s \<Longrightarrow> spec_step p s q = (s', Ok (Applied r)) \<Longrightarrow> spec_ok s'"
  unfolding spec_ok_def using spec_step_kinds spec_step_snapshots_ok by blast

lemma spec_step_version:
  assumes "spec_step p s q = (s', Ok (Applied r))"
  shows "unat (actual_revision (sp_snapshots s') k) =
     unat (actual_revision (sp_snapshots s) k) + (if request_writes q k then 1 else 0)"
proof (cases q)
  case (SaveRequest w)
  then show ?thesis using assms
    by (auto simp: lift_outcome_Applied spec_save_applied_iff snapshot_envelope_of_def unat_next)
next
  case (TransactionRequest w)
  then show ?thesis using assms
    by (auto simp: lift_outcome_Applied spec_apply_applied_iff transaction_envelope_def unat_next)
next
  case (CommitRequest w eff)
  then show ?thesis using assms canonical_install_revision [of w _ "sp_snapshots s" k]
    by (auto simp: lift_outcome_Applied spec_commit_applied_iff multi_writes_def)
next
  case (TradeRequest w)
  then obtain n where n: "normalize_trade_transaction w = Ok n"
    "\<forall>v\<in>set (tx_writes n). write_current (sp_snapshots s) v"
    "sp_snapshots s' = install_writes (sp_snapshots s) (tx_writes n) (map write_receipt (tx_writes n))"
    using assms by (auto simp: lift_outcome_Applied spec_trade_applied_iff)
  from trade_writes_multi [OF n(1)] obtain m where
    "multi_normalize \<lparr>mw_operation_id = tx_operation_id w, mw_writes = tx_writes w, mw_result = []\<rparr> = Ok m"
    "mw_writes m = tx_writes n" by blast
  from canonical_install_revision [OF this(1), of "sp_snapshots s" k] show ?thesis
    using n TradeRequest \<open>mw_writes m = tx_writes n\<close> by (simp add: multi_writes_def)
qed

lemma spec_step_expects:
  assumes "spec_step p s q = (s', Ok (Applied r))" and "request_writes q k" and "request_expects q k = Some e"
  shows "actual_revision (sp_snapshots s) k = e"
proof (cases q)
  case (SaveRequest w)
  then show ?thesis using assms by (auto simp: lift_outcome_Applied spec_save_applied_iff)
next
  case (TransactionRequest w)
  then show ?thesis using assms by (auto simp: lift_outcome_Applied spec_apply_applied_iff)
next
  case (CommitRequest w eff)
  then show ?thesis using assms canonical_expects [of w _ "sp_snapshots s" k e]
    by (auto simp: lift_outcome_Applied spec_commit_applied_iff multi_expects_def)
next
  case (TradeRequest w)
  then obtain n where n: "normalize_trade_transaction w = Ok n"
    "\<forall>v\<in>set (tx_writes n). write_current (sp_snapshots s) v"
    using assms(1) by (auto simp: lift_outcome_Applied spec_trade_applied_iff)
  from trade_writes_multi [OF n(1)] obtain m where
    "multi_normalize \<lparr>mw_operation_id = tx_operation_id w, mw_writes = tx_writes w, mw_result = []\<rparr> = Ok m"
    "mw_writes m = tx_writes n" by blast
  from canonical_expects [OF this(1), of "sp_snapshots s" k e] show ?thesis
    using n TradeRequest assms(3) \<open>mw_writes m = tx_writes n\<close> by (simp add: multi_expects_def)
qed

lemma spec_step_commits:
  assumes "spec_step p s q = (s', Ok (Applied r))"
  shows "spec_committed p s' q r"
  using assms
  by (cases q) (auto simp: spec_committed_def lift_outcome_Applied spec_save_applied_iff spec_apply_applied_iff
      spec_commit_applied_iff spec_trade_applied_iff)

lemma spec_committed_replays:
  assumes "spec_committed p s q r"
  shows "spec_step p s q = (s, Ok (Duplicate r))"
proof (cases q)
  case (SaveRequest w)
  then show ?thesis using assms
    by (auto simp: spec_committed_def lift_outcome_Duplicate spec_save_duplicate_iff)
next
  case (TransactionRequest w)
  then show ?thesis using assms
    by (auto simp: spec_committed_def lift_outcome_Duplicate spec_apply_duplicate_iff claim_operation_Ok_iff)
next
  case (CommitRequest w eff)
  then show ?thesis using assms
    by (auto simp: spec_committed_def lift_outcome_Duplicate spec_commit_duplicate_iff claim_operation_Ok_iff)
next
  case (TradeRequest w)
  then show ?thesis using assms
    by (auto simp: spec_committed_def lift_outcome_Duplicate spec_trade_duplicate_iff claim_operation_Ok_iff)
qed

text \<open>Receipts, kinds and facts are only ever added.\<close>

definition spec_extends :: "memory_spec \<Rightarrow> memory_spec \<Rightarrow> bool" where
  "spec_extends s s' \<longleftrightarrow> sp_kinds s \<subseteq>\<^sub>m sp_kinds s' \<and> sp_saves s \<subseteq>\<^sub>m sp_saves s' \<and>
     sp_transactions s \<subseteq>\<^sub>m sp_transactions s' \<and> sp_multis s \<subseteq>\<^sub>m sp_multis s' \<and>
     sp_trade_receipts s \<subseteq>\<^sub>m sp_trade_receipts s' \<and>
     ti_appends (sp_ids s) \<subseteq>\<^sub>m ti_appends (sp_ids s') \<and>
     ti_ledger_posting_ids (sp_ids s) \<subseteq> ti_ledger_posting_ids (sp_ids s') \<and>
     ti_outbox_event_ids (sp_ids s) \<subseteq> ti_outbox_event_ids (sp_ids s')"

lemma map_le_fresh: "m i = None \<Longrightarrow> m \<subseteq>\<^sub>m m(i \<mapsto> x)"
  by (auto simp: map_le_def)

lemma appended_same:
  "distinct (map ap_record as) \<Longrightarrow> a \<in> set as \<Longrightarrow> (m(map ap_record as [\<mapsto>] as)) (ap_record a) = Some a"
proof (induction as arbitrary: m)
  case (Cons b as)
  show ?case
  proof (cases "a = b")
    case True
    then show ?thesis using Cons.prems(1) by (simp add: map_upds_apply_nontin)
  next
    case False
    then have a: "a \<in> set as" using Cons.prems(2) by simp
    then have "ap_record a \<in> set (map ap_record as)" by simp
    then have "ap_record a \<noteq> ap_record b" using Cons.prems(1) by (metis distinct.simps(2) list.simps(9))
    with a show ?thesis using Cons.IH [of m] Cons.prems(1) by simp
  qed
qed simp

lemma record_effects_appends_le:
  assumes "check_effects ids eff = Ok ()"
  shows "ti_appends ids \<subseteq>\<^sub>m ti_appends (record_effects ids eff)"
proof -
  have "r \<notin> ap_record ` set (ce_appends eff)" if "ti_appends ids r = Some x" for r x
    using assms that by (auto simp: check_effects_Ok_iff)
  then show ?thesis
    by (auto simp: map_le_def record_effects_def map_upds_apply_nontin dom_def)
qed

lemma spec_step_extends:
  assumes k: "kinds_ok s" and ap: "spec_step p s q = (s', Ok (Applied r))"
  shows "spec_extends s s'"
proof (cases q)
  case (SaveRequest w)
  then show ?thesis using ap
    by (auto simp: lift_outcome_Applied spec_save_applied_iff spec_extends_def map_le_fresh)
next
  case (TransactionRequest w)
  then have "claim_operation (sp_kinds s) (tw_operation_id w) ''single'' = Ok ()"
    "sp_transactions s (tw_operation_id w) = None"
    using ap by (auto simp: lift_outcome_Applied spec_apply_applied_iff)
  then have "sp_kinds s (tw_operation_id w) = None" using kinds_ok_unclaimed [OF k] by blast
  with TransactionRequest show ?thesis using ap
    by (auto simp: lift_outcome_Applied spec_apply_applied_iff spec_extends_def map_le_fresh)
next
  case (CommitRequest w eff)
  then have "claim_operation (sp_kinds s) (mw_operation_id w) ''multi'' = Ok ()"
    "sp_multis s (mw_operation_id w) = None"
    using ap by (auto simp: lift_outcome_Applied spec_commit_applied_iff)
  then have "sp_kinds s (mw_operation_id w) = None" using kinds_ok_unclaimed [OF k] by blast
  moreover from CommitRequest ap obtain f where "effects_normalize (codec p) eff = Ok f"
    and f: "sp_ids s' = (if effects_is_empty f then sp_ids s else record_effects (sp_ids s) f)"
    and c: "effects_is_empty f \<or> check_effects (sp_ids s) f = Ok ()"
    by (auto simp: lift_outcome_Applied spec_commit_applied_iff)
  from c have "ti_appends (sp_ids s) \<subseteq>\<^sub>m ti_appends (sp_ids s')"
    using record_effects_appends_le unfolding f by auto
  moreover have "ti_ledger_posting_ids (sp_ids s) \<subseteq> ti_ledger_posting_ids (sp_ids s')"
    "ti_outbox_event_ids (sp_ids s) \<subseteq> ti_outbox_event_ids (sp_ids s')"
    unfolding f by (auto simp: record_effects_def)
  ultimately show ?thesis using ap CommitRequest
    by (auto simp: lift_outcome_Applied spec_commit_applied_iff spec_extends_def map_le_fresh)
next
  case (TradeRequest w)
  then have "claim_operation (sp_kinds s) (tx_operation_id w) ''trade'' = Ok ()"
    "sp_trade_receipts s (tx_operation_id w) = None"
    using ap by (auto simp: lift_outcome_Applied spec_trade_applied_iff)
  then have "sp_kinds s (tx_operation_id w) = None" using kinds_ok_unclaimed [OF k] by blast
  with TradeRequest show ?thesis using ap
    by (auto simp: lift_outcome_Applied spec_trade_applied_iff spec_extends_def map_le_fresh record_identifiers_def)
qed

lemma map_le_Some: "m \<subseteq>\<^sub>m m' \<Longrightarrow> m i = Some x \<Longrightarrow> m' i = Some x"
  by (metis domI map_le_def)

lemma spec_committed_extends:
  assumes "spec_extends s s'" and "spec_committed p s q r"
  shows "spec_committed p s' q r"
proof -
  have m: "\<And>i k. sp_kinds s i = Some k \<Longrightarrow> sp_kinds s' i = Some k"
    "\<And>i c. sp_saves s i = Some c \<Longrightarrow> sp_saves s' i = Some c"
    "\<And>i c. sp_transactions s i = Some c \<Longrightarrow> sp_transactions s' i = Some c"
    "\<And>i c. sp_multis s i = Some c \<Longrightarrow> sp_multis s' i = Some c"
    "\<And>i c. sp_trade_receipts s i = Some c \<Longrightarrow> sp_trade_receipts s' i = Some c"
    using assms(1) by (auto simp: spec_extends_def intro: map_le_Some)
  show ?thesis using assms(2) by (cases q) (auto simp: spec_committed_def dest!: m)
qed

lemma spec_step_unchanged: "spec_step p s q = (s', x) \<Longrightarrow> \<not> is_applied x \<Longrightarrow> s' = s"
  by (cases q) (auto simp: lift_outcome_def is_applied_lift prod_eq_iff
      intro: spec_save_unchanged spec_apply_unchanged spec_commit_unchanged spec_trade_unchanged)

interpretation spec: versioned_log "spec_step p" "spec_committed p" spec_ok
  "\<lambda>s. actual_revision (sp_snapshots s)" request_writes request_expects for p
proof (unfold_locales, goal_cases)
  case (1 s q s' r)
  then show ?case by (rule spec_step_ok)
next
  case (2 s q s' r)
  then show ?case by (intro spec_step_commits)
next
  case (3 s q r)
  then show ?case by (intro spec_committed_replays)
next
  case (4 s q r q' s' r')
  then show ?case using spec_step_extends spec_committed_extends unfolding spec_ok_def by blast
next
  case (5 s q s' x)
  then show ?case by (intro spec_step_unchanged)
next
  case (6 s q s' r k)
  then show ?case by (intro spec_step_version)
next
  case (7 s q s' r k n)
  then show ?case by (intro spec_step_expects)
qed

section \<open>The life of a trade\<close>

fun trade_stage :: "revision \<Rightarrow> trade_state \<Rightarrow> bool" where
  "trade_stage v Proposed = (v = 1)"
| "trade_stage v Escrowed = (v = 1 \<or> v = 2)"
| "trade_stage v Settled = (v = 2 \<or> v = 3)"
| "trade_stage v Cancelled = (v = 2 \<or> v = 3)"

fun terminal :: "trade_state \<Rightarrow> bool" where
  "terminal Settled = True"
| "terminal Cancelled = True"
| "terminal _ = False"

definition trades_ok :: "memory_spec \<Rightarrow> bool" where
  "trades_ok s \<longleftrightarrow> (\<forall>i t. sp_trades s i = Some t \<longrightarrow> te_trade_id t = i \<and> trade_stage (te_version t) (te_state t))"

lemma is_valid_transition_stage:
  assumes "is_valid_transition from st" and "from = None \<Longrightarrow> v = 0" and "\<And>x. from = Some x \<Longrightarrow> trade_stage v x"
  shows "trade_stage (v + 1) st"
  using assms by (cases "(from, st)" rule: is_valid_transition.cases) auto

lemma check_trade_version_Ok_iff:
  "check_trade_version c t = Ok u \<longleftrightarrow>
     tt_expected_version t = (case c of None \<Rightarrow> 0 | Some x \<Rightarrow> te_version x) \<and>
     tt_expected_state t = map_option te_state c"
  by (auto simp: check_trade_version_def Let_def)

lemma spec_step_trades:
  assumes "trades_ok s" and "spec_step p s q = (s', x)"
  shows "trades_ok s' \<and> (\<forall>i t. sp_trades s i = Some t \<longrightarrow> terminal (te_state t) \<longrightarrow> sp_trades s' i = Some t)"
proof (cases "is_applied x")
  case False
  then show ?thesis using spec_step_unchanged [OF assms(2)] assms(1) by blast
next
  case True
  then obtain r where ap: "spec_step p s q = (s', Ok (Applied r))" using assms(2) by (auto simp: is_applied_iff)
  show ?thesis
  proof (cases q)
    case (TradeRequest w)
    let ?t = "tx_transition w" and ?c = "sp_trades s (tt_trade_id (tx_transition w))"
    have v: "tt_expected_version ?t = (case ?c of None \<Rightarrow> 0 | Some x \<Rightarrow> te_version x)"
      "tt_expected_state ?t = map_option te_state ?c"
      and d: "sp_trades s' = (sp_trades s)(tt_trade_id ?t \<mapsto> trade_envelope_of ?t (tt_expected_version ?t + 1))"
      and tr: "is_valid_transition (tt_expected_state ?t) (tt_next_state ?t)"
      using ap TradeRequest
      by (auto simp: lift_outcome_Applied spec_trade_applied_iff check_trade_version_Ok_iff normalize_trade_Ok_iff
          trade_head_ok_def)
    have "trade_stage (tt_expected_version ?t + 1) (tt_next_state ?t)"
      by (rule is_valid_transition_stage [OF tr]) (use v assms(1) in \<open>auto simp: trades_ok_def split: option.splits\<close>)
    moreover have "\<not> terminal (te_state t)" if "?c = Some t" for t
      using tr that v(2) by (cases "te_state t"; cases "tt_next_state ?t") auto
    ultimately show ?thesis
      using assms(1) d by (auto simp: trades_ok_def trade_envelope_of_def)
  qed (use ap assms(1) in \<open>auto simp: lift_outcome_Applied spec_save_applied_iff spec_apply_applied_iff
      spec_commit_applied_iff trades_ok_def\<close>)
qed

section \<open>Identifiers are used once\<close>

datatype ident =
    OperationIdentifier string
  | RequestIdentifier string
  | AppendIdentifier record_key
  | PostingIdentifier string
  | EventIdentifier string

fun request_identifiers :: "mem_request \<Rightarrow> ident set" where
  "request_identifiers (SaveRequest w) = {RequestIdentifier (sw_request_id w)}"
| "request_identifiers (TransactionRequest w) = {OperationIdentifier (tw_operation_id w)}"
| "request_identifiers (CommitRequest w eff) =
     insert (OperationIdentifier (mw_operation_id w))
       (AppendIdentifier ` ap_record ` set (ce_appends eff) \<union>
        EventIdentifier ` oe_event_id ` set (ce_outbox_events eff))"
| "request_identifiers (TradeRequest w) =
     insert (OperationIdentifier (tx_operation_id w))
       (PostingIdentifier ` lp_posting_id ` set (tx_ledger_postings w) \<union>
        EventIdentifier ` oe_event_id ` set (tx_outbox_events w))"

definition used_identifiers :: "memory_spec \<Rightarrow> ident set" where
  "used_identifiers s = OperationIdentifier ` dom (sp_kinds s) \<union> RequestIdentifier ` dom (sp_saves s) \<union>
     AppendIdentifier ` dom (ti_appends (sp_ids s)) \<union> PostingIdentifier ` ti_ledger_posting_ids (sp_ids s) \<union>
     EventIdentifier ` ti_outbox_event_ids (sp_ids s)"

lemma spec_extends_used: "spec_extends s s' \<Longrightarrow> used_identifiers s \<subseteq> used_identifiers s'"
  unfolding spec_extends_def used_identifiers_def
  by (intro Un_mono image_mono map_le_implies_dom_le) simp_all

lemma record_effects_dom:
  "dom (ti_appends (record_effects ids eff)) = ap_record ` set (ce_appends eff) \<union> dom (ti_appends ids)"
  by (simp add: record_effects_def)

lemma spec_step_identifiers:
  assumes k: "kinds_ok s" and ap: "spec_step p s q = (s', Ok (Applied r))"
  shows "request_identifiers q \<inter> used_identifiers s = {} \<and> request_identifiers q \<subseteq> used_identifiers s'"
proof (cases q)
  case (SaveRequest w)
  then show ?thesis using ap
    by (auto simp: lift_outcome_Applied spec_save_applied_iff used_identifiers_def)
next
  case (TransactionRequest w)
  then have "sp_kinds s (tw_operation_id w) = None"
    using ap kinds_ok_unclaimed [OF k] by (auto simp: lift_outcome_Applied spec_apply_applied_iff)
  then show ?thesis using TransactionRequest ap
    by (auto simp: lift_outcome_Applied spec_apply_applied_iff used_identifiers_def)
next
  case (CommitRequest w eff)
  then have n: "sp_kinds s (mw_operation_id w) = None"
    using ap kinds_ok_unclaimed [OF k] by (auto simp: lift_outcome_Applied spec_commit_applied_iff)
  from CommitRequest ap obtain f where "effects_normalize (codec p) eff = Ok f"
    and f: "sp_ids s' = (if effects_is_empty f then sp_ids s else record_effects (sp_ids s) f)"
    and c: "effects_is_empty f \<or> check_effects (sp_ids s) f = Ok ()"
    and kd: "sp_kinds s' = (sp_kinds s)(mw_operation_id w \<mapsto> ''multi'')"
    by (auto simp: lift_outcome_Applied spec_commit_applied_iff)
  then have st: "set (ce_appends f) = set (ce_appends eff)" "set (ce_outbox_events f) = set (ce_outbox_events eff)"
    by (auto simp: effects_normalize_Ok_iff effects_sorted_def)
  show ?thesis
  proof (cases "effects_is_empty f")
    case True
    then have "set (ce_appends eff) = {}" "set (ce_outbox_events eff) = {}"
      using st by (auto simp: effects_is_empty_def)
    then show ?thesis using CommitRequest n kd by (auto simp: used_identifiers_def)
  next
    case False
    then have "sp_ids s' = record_effects (sp_ids s) f" "check_effects (sp_ids s) f = Ok ()" using f c by auto
    then show ?thesis using CommitRequest n kd st record_effects_dom [of "sp_ids s" f]
      by (auto simp: used_identifiers_def check_effects_Ok_iff record_effects_def)
  qed
next
  case (TradeRequest w)
  then have n: "sp_kinds s (tx_operation_id w) = None"
    using ap kinds_ok_unclaimed [OF k] by (auto simp: lift_outcome_Applied spec_trade_applied_iff)
  from TradeRequest ap obtain m where "normalize_trade_transaction w = Ok m"
    and f: "sp_ids s' = record_identifiers (sp_ids s) m" and c: "check_identifiers (sp_ids s) m = Ok ()"
    and kd: "sp_kinds s' = (sp_kinds s)(tx_operation_id w \<mapsto> ''trade'')"
    by (auto simp: lift_outcome_Applied spec_trade_applied_iff)
  then have "set (tx_ledger_postings m) = set (tx_ledger_postings w)"
    "set (tx_outbox_events m) = set (tx_outbox_events w)"
    by (auto simp: normalize_trade_Ok_iff trade_sorted_def)
  then show ?thesis using TradeRequest n kd f c
    by (auto simp: used_identifiers_def check_identifiers_Ok_iff record_identifiers_def)
qed

lemma spec_run_identifiers:
  assumes "kinds_ok s" and "run (spec_step p) s qs = (s', rs)" and "j < length qs" and "is_applied (rs ! j)"
  shows "request_identifiers (qs ! j) \<inter> used_identifiers s = {} \<and>
    (\<forall>i<j. is_applied (rs ! i) \<longrightarrow> request_identifiers (qs ! i) \<inter> request_identifiers (qs ! j) = {})"
  using assms
proof (induction qs arbitrary: s rs j)
  case (Cons q qs)
  obtain s1 x where st: "spec_step p s q = (s1, x)" by fastforce
  obtain s2 xs where rn: "run (spec_step p) s1 qs = (s2, xs)" by fastforce
  have e: "s2 = s'" "rs = x # xs" using Cons.prems(2) st rn by simp_all
  have step: "kinds_ok s1 \<and> used_identifiers s \<subseteq> used_identifiers s1 \<and>
      (is_applied x \<longrightarrow> request_identifiers q \<inter> used_identifiers s = {} \<and> request_identifiers q \<subseteq> used_identifiers s1)"
  proof (cases "is_applied x")
    case True
    then obtain r where "spec_step p s q = (s1, Ok (Applied r))" using st by (auto simp: is_applied_iff)
    then show ?thesis
      using spec_step_kinds spec_step_extends spec_extends_used spec_step_identifiers Cons.prems(1) by blast
  next
    case False
    then show ?thesis using spec_step_unchanged [OF st] Cons.prems(1) by simp
  qed
  show ?case
  proof (cases j)
    case 0
    then show ?thesis using step Cons.prems(4) e by simp
  next
    case (Suc k)
    then have k: "k < length qs" "is_applied (xs ! k)" using Cons.prems(3,4) e by simp_all
    have ih: "request_identifiers (qs ! k) \<inter> used_identifiers s1 = {}"
      "\<And>i. i < k \<Longrightarrow> is_applied (xs ! i) \<Longrightarrow> request_identifiers (qs ! i) \<inter> request_identifiers (qs ! k) = {}"
      using Cons.IH [of s1 xs k] step rn e k by auto
    have "request_identifiers (qs ! k) \<inter> used_identifiers s = {}" using ih(1) step by blast
    moreover have "request_identifiers ((q # qs) ! i) \<inter> request_identifiers (qs ! k) = {}"
      if "i < Suc k" "is_applied ((x # xs) ! i)" for i
      using that ih step by (cases i) auto
    ultimately show ?thesis using Suc e by simp
  qed
qed simp

definition spec_empty :: memory_spec where
  "spec_empty = \<lparr>sp_snapshots = Map.empty, sp_kinds = Map.empty, sp_saves = Map.empty,
     sp_transactions = Map.empty, sp_multis = Map.empty, sp_trade_receipts = Map.empty, sp_trades = Map.empty,
     sp_ids = \<lparr>ti_appends = Map.empty, ti_ledger_posting_ids = {}, ti_outbox_event_ids = {}\<rparr>\<rparr>"

lemma spec_empty_ok: "spec_ok spec_empty" "kinds_ok spec_empty" "trades_ok spec_empty"
  by (simp_all add: spec_ok_def kinds_ok_def kind_slot_def trades_ok_def spec_empty_def)

end
