(* ===== verification/Memory_Backend.thy ===== *)
theory Memory_Backend
  imports Memory_Spec
begin

text \<open>
  \<open>MemoryBackend\<close> of \<open>crates/dbproxy-server/src/memory_backend.rs\<close>: snapshots, receipts and trades in
  shards chosen by a hash, each shard behind its own lock. The hash is \<open>DefaultHasher\<close>, whose
  algorithm the standard library leaves open: it is the parameter \<open>hash_record\<close>, \<open>hash_str\<close>.

  Every operation keeps the locks it takes until it returns, so an operation is one step of the
  state. The guards of \<open>lock_data_shards\<close> are modelled as the list of locked shards that the loops
  search with \<open>find\<close>; a missing guard, which the source answers with \<open>expect\<close>, is the result \<open>None\<close>.
  The order in which the operations take their locks is the subject of theory \<open>Lock_Order\<close>.
\<close>

section \<open>State\<close>

record mem_env = mem_params +
  hash_record :: "record_key \<Rightarrow> u64"
  hash_str :: "string \<Rightarrow> u64"

record memory_shard =
  md_snapshots :: snapshots

record receipt_shard =
  rs_operation_kinds :: "string \<rightharpoonup> string"
  rs_snapshots :: "string \<rightharpoonup> snapshot_receipt"
  rs_transactions :: "string \<rightharpoonup> mem_transaction_receipt"
  rs_multi_transactions :: "string \<rightharpoonup> stored_multi_receipt"
  rs_trade_transactions :: "string \<rightharpoonup> stored_trade_receipt"

record trade_shard =
  td_trades :: "string \<rightharpoonup> trade_envelope"

record memory_backend =
  mb_data_shards :: "memory_shard list"
  mb_receipt_shards :: "receipt_shard list"
  mb_trade_shards :: "trade_shard list"
  mb_trade_identifiers :: trade_identifiers

definition receipt_shard_default :: receipt_shard where
  "receipt_shard_default = \<lparr>rs_operation_kinds = Map.empty, rs_snapshots = Map.empty,
     rs_transactions = Map.empty, rs_multi_transactions = Map.empty, rs_trade_transactions = Map.empty\<rparr>"

definition trade_identifiers_default :: trade_identifiers where
  "trade_identifiers_default = \<lparr>ti_appends = Map.empty, ti_ledger_posting_ids = {}, ti_outbox_event_ids = {}\<rparr>"

text \<open>\<open>MemoryBackend::new\<close>; \<open>None\<close> is the error \<open>InvalidConfig\<close> for zero shards.\<close>

definition memory_backend_new :: "nat \<Rightarrow> memory_backend option" where
  "memory_backend_new shards =
     (if shards = 0 then None
      else Some \<lparr>mb_data_shards = map (\<lambda>_. \<lparr>md_snapshots = Map.empty\<rparr>) [0..<shards],
                 mb_receipt_shards = map (\<lambda>_. receipt_shard_default) [0..<shards],
                 mb_trade_shards = map (\<lambda>_. \<lparr>td_trades = Map.empty\<rparr>) [0..<shards],
                 mb_trade_identifiers = trade_identifiers_default\<rparr>)"

section \<open>Routing\<close>

definition hash_index :: "u64 \<Rightarrow> nat \<Rightarrow> nat" where
  "hash_index h n = unat h mod n"

definition data_index :: "mem_env \<Rightarrow> memory_backend \<Rightarrow> record_key \<Rightarrow> nat" where
  "data_index env b r = hash_index (hash_record env r) (length (mb_data_shards b))"

definition receipt_index :: "mem_env \<Rightarrow> memory_backend \<Rightarrow> string \<Rightarrow> nat" where
  "receipt_index env b i = hash_index (hash_str env i) (length (mb_receipt_shards b))"

definition trade_index :: "mem_env \<Rightarrow> memory_backend \<Rightarrow> string \<Rightarrow> nat" where
  "trade_index env b i = hash_index (hash_str env i) (length (mb_trade_shards b))"

abbreviation params :: "mem_env \<Rightarrow> mem_params" where
  "params env \<equiv> mem_params.truncate env"

section \<open>Guards\<close>

type_synonym data_guards = "(nat \<times> memory_shard) list"

text \<open>\<open>indices.sort_unstable(); indices.dedup();\<close> and one guard per index.\<close>

definition lock_indices :: "mem_env \<Rightarrow> memory_backend \<Rightarrow> record_key list \<Rightarrow> nat list" where
  "lock_indices env b rs = remdups_adj (sort (map (data_index env b) rs))"

definition lock_data_shards :: "mem_env \<Rightarrow> memory_backend \<Rightarrow> record_key list \<Rightarrow> data_guards" where
  "lock_data_shards env b rs = map (\<lambda>i. (i, mb_data_shards b ! i)) (lock_indices env b rs)"

definition find_guard :: "nat \<Rightarrow> data_guards \<Rightarrow> memory_shard option" where
  "find_guard i gs = map_option snd (find (\<lambda>(candidate, _). candidate = i) gs)"

text \<open>The check loop: stops at the first conflict; \<open>None\<close> when a guard is missing.\<close>

fun guard_checks :: "mem_env \<Rightarrow> memory_backend \<Rightarrow> data_guards \<Rightarrow> transactional_record_write list \<Rightarrow>
    (transaction_record_receipt list, store_error) result option" where
  "guard_checks env b gs [] = Some (Ok [])"
| "guard_checks env b gs (w # ws) =
     (case find_guard (data_index env b (rw_record w)) gs of
        None \<Rightarrow> None
      | Some shard \<Rightarrow>
          (case check_write (md_snapshots shard) w of
             Err e \<Rightarrow> Some (Err e)
           | Ok c \<Rightarrow> map_option (\<lambda>r. and_then r (\<lambda>cs. Ok (c # cs))) (guard_checks env b gs ws)))"

text \<open>One insertion through \<open>iter_mut().find(..)\<close>.\<close>

fun guard_insert :: "nat \<Rightarrow> record_key \<Rightarrow> snapshot_envelope \<Rightarrow> data_guards \<Rightarrow> data_guards option" where
  "guard_insert i r e [] = None"
| "guard_insert i r e ((candidate, shard) # gs) =
     (if candidate = i
      then Some ((candidate, shard\<lparr>md_snapshots := (md_snapshots shard)(r \<mapsto> e)\<rparr>) # gs)
      else map_option (Cons (candidate, shard)) (guard_insert i r e gs))"

fun guard_installs :: "mem_env \<Rightarrow> memory_backend \<Rightarrow> data_guards \<Rightarrow> transactional_record_write list \<Rightarrow>
    transaction_record_receipt list \<Rightarrow> data_guards option" where
  "guard_installs env b gs (w # ws) (c # cs) =
     (case guard_insert (data_index env b (rw_record w)) (rw_record w) (write_envelope w c) gs of
        None \<Rightarrow> None
      | Some gs' \<Rightarrow> guard_installs env b gs' ws cs)"
| "guard_installs env b gs ws cs = Some gs"

text \<open>The guards are the shards themselves: what they hold is the state when they are dropped.\<close>

fun release_guards :: "memory_shard list \<Rightarrow> data_guards \<Rightarrow> memory_shard list" where
  "release_guards ds [] = ds"
| "release_guards ds ((i, shard) # gs) = release_guards (ds[i := shard]) gs"

section \<open>Reads\<close>

definition mem_load :: "mem_env \<Rightarrow> memory_backend \<Rightarrow> record_key \<Rightarrow> snapshot_envelope option" where
  "mem_load env b r = md_snapshots (mb_data_shards b ! data_index env b r) r"

text \<open>\<open>load_multi\<close>: \<open>None\<close> as a whole when a guard is missing.\<close>

fun guard_loads :: "mem_env \<Rightarrow> memory_backend \<Rightarrow> data_guards \<Rightarrow> record_key list \<Rightarrow>
    snapshot_envelope option list option" where
  "guard_loads env b gs [] = Some []"
| "guard_loads env b gs (r # rs) =
     (case find_guard (data_index env b r) gs of
        None \<Rightarrow> None
      | Some shard \<Rightarrow> map_option (Cons (md_snapshots shard r)) (guard_loads env b gs rs))"

definition mem_load_multi :: "mem_env \<Rightarrow> memory_backend \<Rightarrow> record_key list \<Rightarrow>
    snapshot_envelope option list option" where
  "mem_load_multi env b rs = guard_loads env b (lock_data_shards env b rs) rs"

definition mem_load_transaction :: "mem_env \<Rightarrow> memory_backend \<Rightarrow> string \<Rightarrow> record_key \<Rightarrow>
    (transaction_receipt option, store_error) result" where
  "mem_load_transaction env b i r =
     (if blank i then Err EmptyOperationId
      else case rs_transactions (mb_receipt_shards b ! receipt_index env b i) i of
        None \<Rightarrow> Ok None
      | Some receipt \<Rightarrow>
          if mf_record (mt_fingerprint receipt) \<noteq> r then Err (OperationIdConflict i)
          else Ok (Some \<lparr>tr_operation_id = i, tr_record = r, tr_new_revision = mt_new_revision receipt,
                         tr_result = mt_result receipt\<rparr>))"

definition mem_load_multi_transaction :: "mem_env \<Rightarrow> memory_backend \<Rightarrow> string \<Rightarrow> record_key list \<Rightarrow>
    (multi_record_transaction_receipt option, store_error) result" where
  "mem_load_multi_transaction env b i records =
     (if blank i then Err EmptyOperationId
      else let expected = sort_key (\<lambda>r. r) records
           in case rs_multi_transactions (mb_receipt_shards b ! receipt_index env b i) i of
                None \<Rightarrow> Ok None
              | Some receipt \<Rightarrow>
                  if map rr_record (sm_records receipt) \<noteq> expected then Err (OperationIdConflict i)
                  else Ok (Some \<lparr>mr_operation_id = i, mr_records = sm_records receipt,
                                 mr_result = sm_result receipt\<rparr>))"

definition mem_load_trade :: "mem_env \<Rightarrow> memory_backend \<Rightarrow> string \<Rightarrow> (trade_envelope option, store_error) result" where
  "mem_load_trade env b i =
     (if blank i then Err EmptyTradeId
      else Ok (td_trades (mb_trade_shards b ! trade_index env b i) i))"

definition mem_load_trade_transaction :: "mem_env \<Rightarrow> memory_backend \<Rightarrow> string \<Rightarrow> string \<Rightarrow>
    (trade_receipt option, store_error) result" where
  "mem_load_trade_transaction env b i trade =
     (if blank i then Err EmptyOperationId
      else if blank trade then Err EmptyTradeId
      else case rs_trade_transactions (mb_receipt_shards b ! receipt_index env b i) i of
        None \<Rightarrow> Ok None
      | Some stored \<Rightarrow>
          if rc_trade_id (sd_receipt stored) \<noteq> trade then Err (OperationIdConflict i)
          else Ok (Some (sd_receipt stored)))"

section \<open>Writes\<close>

definition mem_save :: "mem_env \<Rightarrow> memory_backend \<Rightarrow> snapshot_write \<Rightarrow>
    memory_backend \<times> (snapshot_write_outcome, store_error) result" where
  "mem_save env b q =
     (if blank (sw_request_id q) then (b, Err EmptyRequestId)
      else
        let ri = receipt_index env b (sw_request_id q);
            receipts = mb_receipt_shards b ! ri;
            fingerprint = snapshot_fingerprint_from (params env) q
        in case rs_snapshots receipts (sw_request_id q) of
          Some receipt \<Rightarrow>
            if sn_record receipt \<noteq> sw_record q \<or> sn_fingerprint receipt \<noteq> fingerprint
            then (b, Err (IdempotencyConflict (sw_request_id q)))
            else (b, Ok (Duplicate (sn_revision receipt)))
        | None \<Rightarrow>
            let di = data_index env b (sw_record q);
                data = mb_data_shards b ! di;
                actual = actual_revision (md_snapshots data) (sw_record q)
            in if (case sw_expected_revision q of None \<Rightarrow> False | Some n \<Rightarrow> n \<noteq> actual)
               then (b, Err (RevisionConflict (sw_record q) (sw_expected_revision q) actual))
               else case next_revision (sw_record q) actual of
                 Err e \<Rightarrow> (b, Err e)
               | Ok v \<Rightarrow>
                   (b\<lparr>mb_data_shards := (mb_data_shards b)[di := data\<lparr>md_snapshots :=
                          (md_snapshots data)(sw_record q \<mapsto> snapshot_envelope_of q v)\<rparr>],
                      mb_receipt_shards := (mb_receipt_shards b)[ri := receipts\<lparr>rs_snapshots :=
                          (rs_snapshots receipts)(sw_request_id q \<mapsto>
                            \<lparr>sn_record = sw_record q, sn_fingerprint = fingerprint, sn_revision = v\<rparr>)\<rparr>]\<rparr>,
                    Ok (Applied v)))"

definition mem_enqueue_snapshot :: "mem_env \<Rightarrow> memory_backend \<Rightarrow> snapshot_write \<Rightarrow>
    memory_backend \<times> (unit, store_error) result" where
  "mem_enqueue_snapshot env b q =
     (if sw_expected_revision q \<noteq> None
      then (b, Err (QueuedSnapshotRequiresUnconditionalWrite (sw_record q)))
      else let (b', x) = mem_save env b q in (b', and_then x (\<lambda>_. Ok ())))"

definition mem_apply_transaction :: "mem_env \<Rightarrow> memory_backend \<Rightarrow> transactional_write \<Rightarrow>
    memory_backend \<times> (transactional_write_outcome, store_error) result" where
  "mem_apply_transaction env b q =
     (let i = tw_operation_id q in
      if blank i then (b, Err EmptyOperationId)
      else
        let ri = receipt_index env b i;
            receipts = mb_receipt_shards b ! ri
        in case claim_operation (rs_operation_kinds receipts) i ''single'' of
          Err e \<Rightarrow> (b, Err e)
        | Ok _ \<Rightarrow>
          let fingerprint = mem_transaction_fingerprint_from (params env) q
          in case rs_transactions receipts i of
            Some receipt \<Rightarrow>
              if mt_fingerprint receipt \<noteq> fingerprint then (b, Err (OperationIdConflict i))
              else (b, Ok (Duplicate (mt_new_revision receipt, mt_result receipt)))
          | None \<Rightarrow>
              let di = data_index env b (tw_record q);
                  data = mb_data_shards b ! di;
                  actual = actual_revision (md_snapshots data) (tw_record q)
              in if actual \<noteq> tw_expected_revision q
                 then (b, Err (RevisionConflict (tw_record q) (Some (tw_expected_revision q)) actual))
                 else case next_revision (tw_record q) actual of
                   Err e \<Rightarrow> (b, Err e)
                 | Ok v \<Rightarrow>
                     (b\<lparr>mb_data_shards := (mb_data_shards b)[di := data\<lparr>md_snapshots :=
                            (md_snapshots data)(tw_record q \<mapsto> transaction_envelope q v)\<rparr>],
                        mb_receipt_shards := (mb_receipt_shards b)[ri := receipts\<lparr>
                            rs_operation_kinds := (rs_operation_kinds receipts)(i \<mapsto> ''single''),
                            rs_transactions := (rs_transactions receipts)(i \<mapsto>
                              \<lparr>mt_fingerprint = fingerprint, mt_new_revision = v,
                               mt_result = tw_result q\<rparr>)\<rparr>]\<rparr>,
                      Ok (Applied (v, tw_result q))))"

definition mem_commit_records :: "mem_env \<Rightarrow> memory_backend \<Rightarrow> multi_record_transactional_write \<Rightarrow>
    commit_effects \<Rightarrow> (memory_backend \<times> (multi_outcome, store_error) result) option" where
  "mem_commit_records env b q0 eff0 =
     (case effects_normalize (codec env) eff0 of Err e \<Rightarrow> Some (b, Err e) | Ok eff \<Rightarrow>
      case normalize_multi q0 of Err e \<Rightarrow> Some (b, Err e) | Ok q \<Rightarrow>
      let i = mw_operation_id q;
          ri = receipt_index env b i;
          receipts = mb_receipt_shards b ! ri
      in case claim_operation (rs_operation_kinds receipts) i ''multi'' of Err e \<Rightarrow> Some (b, Err e) | Ok _ \<Rightarrow>
      let fingerprint = multi_fingerprint_from (params env) q
      in case rs_multi_transactions receipts i of
        Some receipt \<Rightarrow>
          if sm_fingerprint receipt \<noteq> fingerprint \<or> sm_effects receipt \<noteq> eff
          then Some (b, Err (OperationIdConflict i))
          else Some (b, Ok (Duplicate (sm_records receipt, sm_result receipt)))
      | None \<Rightarrow>
          let identifiers = (if effects_is_empty eff then None else Some (mb_trade_identifiers b))
          in case (case identifiers of None \<Rightarrow> Ok () | Some ids \<Rightarrow> check_effects ids eff) of
            Err e \<Rightarrow> Some (b, Err e)
          | Ok _ \<Rightarrow>
          let data = lock_data_shards env b (map rw_record (mw_writes q))
          in case guard_checks env b data (mw_writes q) of
            None \<Rightarrow> None
          | Some (Err e) \<Rightarrow> Some (b, Err e)
          | Some (Ok committed) \<Rightarrow>
          (case guard_installs env b data (mw_writes q) committed of
            None \<Rightarrow> None
          | Some data' \<Rightarrow>
              Some (b\<lparr>mb_data_shards := release_guards (mb_data_shards b) data',
                      mb_trade_identifiers := (case identifiers of
                          None \<Rightarrow> mb_trade_identifiers b | Some ids \<Rightarrow> record_effects ids eff),
                      mb_receipt_shards := (mb_receipt_shards b)[ri := receipts\<lparr>
                          rs_operation_kinds := (rs_operation_kinds receipts)(i \<mapsto> ''multi''),
                          rs_multi_transactions := (rs_multi_transactions receipts)(i \<mapsto>
                            \<lparr>sm_effects = eff, sm_fingerprint = fingerprint, sm_records = committed,
                             sm_result = mw_result q\<rparr>)\<rparr>]\<rparr>,
                    Ok (Applied (committed, mw_result q)))))"

definition mem_apply_multi_transaction :: "mem_env \<Rightarrow> memory_backend \<Rightarrow> multi_record_transactional_write \<Rightarrow>
    (memory_backend \<times> (multi_outcome, store_error) result) option" where
  "mem_apply_multi_transaction env b q = mem_commit_records env b q commit_effects_default"

definition mem_apply_trade_transaction :: "mem_env \<Rightarrow> memory_backend \<Rightarrow> trade_transaction \<Rightarrow>
    (memory_backend \<times> (trade_outcome, store_error) result) option" where
  "mem_apply_trade_transaction env b q0 =
     (case normalize_trade_transaction q0 of Err e \<Rightarrow> Some (b, Err e) | Ok q \<Rightarrow>
      let i = tx_operation_id q;
          t = tx_transition q;
          ri = receipt_index env b i;
          receipts = mb_receipt_shards b ! ri
      in case claim_operation (rs_operation_kinds receipts) i ''trade'' of Err e \<Rightarrow> Some (b, Err e) | Ok _ \<Rightarrow>
      case rs_trade_transactions receipts i of
        Some stored \<Rightarrow>
          if sd_request stored \<noteq> q then Some (b, Err (OperationIdConflict i))
          else Some (b, Ok (Duplicate (sd_receipt stored)))
      | None \<Rightarrow>
          let identifiers = mb_trade_identifiers b;
              ti = trade_index env b (tt_trade_id t);
              trades = mb_trade_shards b ! ti;
              current = td_trades trades (tt_trade_id t);
              actual_version = (case current of None \<Rightarrow> 0 | Some trade \<Rightarrow> te_version trade)
          in case check_trade_version current t of Err e \<Rightarrow> Some (b, Err e) | Ok _ \<Rightarrow>
          case check_identifiers identifiers q of Err e \<Rightarrow> Some (b, Err e) | Ok _ \<Rightarrow>
          let data = lock_data_shards env b (map rw_record (tx_writes q))
          in case guard_checks env b data (tx_writes q) of
            None \<Rightarrow> None
          | Some (Err e) \<Rightarrow> Some (b, Err e)
          | Some (Ok committed) \<Rightarrow>
          (case next_trade_version (tt_trade_id t) actual_version of Err e \<Rightarrow> Some (b, Err e) | Ok v \<Rightarrow>
           case guard_installs env b data (tx_writes q) committed of
             None \<Rightarrow> None
           | Some data' \<Rightarrow>
               let receipt = trade_receipt_of q v committed
               in Some (b\<lparr>mb_data_shards := release_guards (mb_data_shards b) data',
                       mb_trade_shards := (mb_trade_shards b)[ti := trades\<lparr>td_trades :=
                           (td_trades trades)(tt_trade_id t \<mapsto> trade_envelope_of t v)\<rparr>],
                       mb_trade_identifiers := record_identifiers identifiers q,
                       mb_receipt_shards := (mb_receipt_shards b)[ri := receipts\<lparr>
                           rs_operation_kinds := (rs_operation_kinds receipts)(i \<mapsto> ''trade''),
                           rs_trade_transactions := (rs_trade_transactions receipts)(i \<mapsto>
                             \<lparr>sd_request = q, sd_receipt = receipt\<rparr>)\<rparr>]\<rparr>,
                     Ok (Applied receipt))))"

section \<open>Abstraction\<close>

definition backend_ok :: "memory_backend \<Rightarrow> bool" where
  "backend_ok b \<longleftrightarrow> mb_data_shards b \<noteq> [] \<and> mb_receipt_shards b \<noteq> [] \<and> mb_trade_shards b \<noteq> []"

text \<open>A reader finds a key in the shard its hash selects.\<close>

definition routed_receipts :: "mem_env \<Rightarrow> memory_backend \<Rightarrow> string \<Rightarrow> receipt_shard" where
  "routed_receipts env b i = mb_receipt_shards b ! receipt_index env b i"

definition abs_spec :: "mem_env \<Rightarrow> memory_backend \<Rightarrow> memory_spec" where
  "abs_spec env b =
     \<lparr>sp_snapshots = mem_load env b,
      sp_kinds = (\<lambda>i. rs_operation_kinds (routed_receipts env b i) i),
      sp_saves = (\<lambda>i. rs_snapshots (routed_receipts env b i) i),
      sp_transactions = (\<lambda>i. rs_transactions (routed_receipts env b i) i),
      sp_multis = (\<lambda>i. rs_multi_transactions (routed_receipts env b i) i),
      sp_trade_receipts = (\<lambda>i. rs_trade_transactions (routed_receipts env b i) i),
      sp_trades = (\<lambda>i. td_trades (mb_trade_shards b ! trade_index env b i) i),
      sp_ids = mb_trade_identifiers b\<rparr>"

lemma indices_less:
  assumes "backend_ok b"
  shows "data_index env b r < length (mb_data_shards b)" "receipt_index env b i < length (mb_receipt_shards b)"
    "trade_index env b i < length (mb_trade_shards b)"
  using assms by (simp_all add: backend_ok_def data_index_def receipt_index_def trade_index_def hash_index_def)

lemma data_index_cong: "length (mb_data_shards b') = length (mb_data_shards b) \<Longrightarrow> data_index env b' = data_index env b"
  by (simp add: fun_eq_iff data_index_def)

lemma receipt_index_cong:
  "length (mb_receipt_shards b') = length (mb_receipt_shards b) \<Longrightarrow> receipt_index env b' = receipt_index env b"
  by (simp add: fun_eq_iff receipt_index_def)

lemma trade_index_cong:
  "length (mb_trade_shards b') = length (mb_trade_shards b) \<Longrightarrow> trade_index env b' = trade_index env b"
  by (simp add: fun_eq_iff trade_index_def)

lemma mem_load_update:
  assumes "backend_ok b" and "mb_data_shards b' = (mb_data_shards b)[data_index env b r := d]"
    and "d = (mb_data_shards b ! data_index env b r)\<lparr>md_snapshots :=
               (md_snapshots (mb_data_shards b ! data_index env b r))(r \<mapsto> e)\<rparr>"
  shows "mem_load env b' = (mem_load env b)(r \<mapsto> e)"
proof
  fix k
  have i: "data_index env b' = data_index env b" using assms(2) by (intro data_index_cong) simp
  show "mem_load env b' k = ((mem_load env b)(r \<mapsto> e)) k"
    using assms(2,3) indices_less(1) [OF assms(1), of env]
    by (auto simp: mem_load_def i nth_list_update)
qed

text \<open>The shards as a reader of the locked guards sees them.\<close>

definition guard_view :: "mem_env \<Rightarrow> memory_backend \<Rightarrow> data_guards \<Rightarrow> snapshots" where
  "guard_view env b gs r = (case map_of gs (data_index env b r) of
     None \<Rightarrow> mem_load env b r | Some shard \<Rightarrow> md_snapshots shard r)"

lemma find_guard_map_of: "find_guard i gs = map_of gs i"
  by (induction gs) (auto simp: find_guard_def)

lemma lock_indices_set: "set (lock_indices env b rs) = data_index env b ` set rs"
  by (simp add: lock_indices_def)

lemma lock_indices_strict: "sorted_wrt (<) (lock_indices env b rs)"
  by (simp add: lock_indices_def sorted_dedup_strict)

lemma lock_indices_distinct: "distinct (lock_indices env b rs)"
  using lock_indices_strict by (simp add: strict_sorted_iff)

lemma map_of_lock_data_shards:
  "map_of (lock_data_shards env b rs) i =
     (if i \<in> data_index env b ` set rs then Some (mb_data_shards b ! i) else None)"
proof -
  have "map_of (map (\<lambda>i. (i, f i)) xs) i = (if i \<in> set xs then Some (f i) else None)" for f :: "nat \<Rightarrow> memory_shard" and xs
    by (induction xs) auto
  then show ?thesis by (simp add: lock_data_shards_def lock_indices_set)
qed

lemma guard_view_locked: "guard_view env b (lock_data_shards env b rs) = mem_load env b"
  by (auto simp: fun_eq_iff guard_view_def map_of_lock_data_shards mem_load_def)

lemma guard_checks_eq:
  assumes "\<forall>w\<in>set ws. map_of gs (data_index env b (rw_record w)) \<noteq> None"
  shows "guard_checks env b gs ws = Some (try_map (check_write (guard_view env b gs)) ws)"
  using assms
proof (induction ws)
  case (Cons w ws)
  then obtain sh where sh: "map_of gs (data_index env b (rw_record w)) = Some sh" by auto
  then have "actual_revision (md_snapshots sh) (rw_record w) = actual_revision (guard_view env b gs) (rw_record w)"
    by (simp add: actual_revision_def guard_view_def)
  then have "check_write (md_snapshots sh) w = check_write (guard_view env b gs) w" by (simp add: check_write_def)
  then show ?case using Cons sh
    by (cases "check_write (guard_view env b gs) w") (simp_all add: find_guard_map_of)
qed simp

lemma guard_insert_Some:
  assumes "map_of gs (data_index env b r) \<noteq> None"
  shows "\<exists>gs'. guard_insert (data_index env b r) r e gs = Some gs' \<and> map fst gs' = map fst gs \<and>
     guard_view env b gs' = (guard_view env b gs)(r \<mapsto> e)"
proof -
  have "\<exists>gs'. guard_insert i r e gs = Some gs' \<and> map fst gs' = map fst gs \<and>
      map_of gs' = (map_of gs)(i \<mapsto> (the (map_of gs i))\<lparr>md_snapshots := (md_snapshots (the (map_of gs i)))(r \<mapsto> e)\<rparr>)"
    if "map_of gs i \<noteq> None" for i using that
  proof (induction gs)
    case (Cons g gs)
    then show ?case by (cases g) (auto simp: fun_eq_iff)
  qed simp
  from this [OF assms] show ?thesis
    using assms by (auto simp: guard_view_def fun_eq_iff)
qed

lemma guard_installs_Some:
  assumes "\<forall>w\<in>set ws. data_index env b (rw_record w) \<in> set (map fst gs)"
  shows "\<exists>gs'. guard_installs env b gs ws cs = Some gs' \<and> map fst gs' = map fst gs \<and>
     guard_view env b gs' = install_writes (guard_view env b gs) ws cs"
  using assms
proof (induction env b gs ws cs rule: guard_installs.induct)
  case (1 env b gs w ws c cs)
  have "map_of gs (data_index env b (rw_record w)) \<noteq> None"
    using "1.prems" by (auto simp: map_of_eq_None_iff)
  from guard_insert_Some [OF this, of "write_envelope w c"] obtain g where
    g: "guard_insert (data_index env b (rw_record w)) (rw_record w) (write_envelope w c) gs = Some g"
    "map fst g = map fst gs" "guard_view env b g = (guard_view env b gs)(rw_record w \<mapsto> write_envelope w c)"
    by blast
  have "\<forall>w\<in>set ws. data_index env b (rw_record w) \<in> set (map fst g)"
    using "1.prems" by (simp add: g(2) del: set_map)
  from "1.IH" [OF g(1) this, unfolded g(2,3)] show ?case using g(1) by (simp add: fun_upd_def)
qed simp_all

lemma release_guards_nth:
  assumes "distinct (map fst gs)" and "i < length ds"
  shows "release_guards ds gs ! i = (case map_of gs i of None \<Rightarrow> ds ! i | Some sh \<Rightarrow> sh)"
  using assms
proof (induction ds gs rule: release_guards.induct)
  case (2 ds j sh gs)
  then have "map_of gs j = None" by (auto simp: map_of_eq_None_iff)
  then show ?case using 2 by (auto simp: nth_list_update split: option.splits)
qed simp

lemma release_guards_length [simp]: "length (release_guards ds gs) = length ds"
  by (induction ds gs rule: release_guards.induct) simp_all

lemma release_guards_Nil_iff [simp]: "release_guards ds gs = [] \<longleftrightarrow> ds = []"
  by (simp flip: length_0_conv)

text \<open>The check and the installation through the guards are those of the flat state.\<close>

lemma guarded_checks:
  "guard_checks env b (lock_data_shards env b (map rw_record ws)) ws =
     Some (try_map (check_write (mem_load env b)) ws)"
  using guard_checks_eq [of ws "lock_data_shards env b (map rw_record ws)" env b]
  by (simp add: guard_view_locked map_of_lock_data_shards)

lemma guarded_installs:
  assumes "backend_ok b"
  obtains gs where "guard_installs env b (lock_data_shards env b (map rw_record ws)) ws cs = Some gs"
    "\<And>b'. mb_data_shards b' = release_guards (mb_data_shards b) gs \<Longrightarrow>
       mem_load env b' = install_writes (mem_load env b) ws cs"
proof -
  let ?g = "lock_data_shards env b (map rw_record ws)"
  have k: "map fst ?g = lock_indices env b (map rw_record ws)"
    by (simp add: lock_data_shards_def comp_def)
  have "\<forall>w\<in>set ws. data_index env b (rw_record w) \<in> set (map fst ?g)"
    unfolding k lock_indices_set by simp
  from guard_installs_Some [OF this, of cs] obtain gs where
    gs: "guard_installs env b ?g ws cs = Some gs" "map fst gs = map fst ?g"
    "guard_view env b gs = install_writes (mem_load env b) ws cs"
    by (auto simp: guard_view_locked)
  have d: "distinct (map fst gs)" using gs(2) k lock_indices_distinct by simp
  have "mem_load env b' = guard_view env b gs"
    if "mb_data_shards b' = release_guards (mb_data_shards b) gs" for b'
  proof
    fix r
    have "data_index env b' = data_index env b" using that by (intro data_index_cong) simp
    then show "mem_load env b' r = guard_view env b gs r"
      using that release_guards_nth [OF d indices_less(1) [OF assms]]
      by (simp add: mem_load_def guard_view_def split: option.splits)
  qed
  then show thesis using that gs by simp
qed

section \<open>Refinement\<close>

text \<open>The outcome of an operation of the backend matches the outcome of the specification.\<close>

definition refines :: "mem_env \<Rightarrow> memory_backend \<times> 'x \<Rightarrow> memory_spec \<times> 'x \<Rightarrow> bool" where
  "refines env br sr \<longleftrightarrow> backend_ok (fst br) \<and> abs_spec env (fst br) = fst sr \<and> snd br = snd sr"

lemma abs_simps:
  "sp_snapshots (abs_spec env b) = mem_load env b"
  "sp_kinds (abs_spec env b) i = rs_operation_kinds (mb_receipt_shards b ! receipt_index env b i) i"
  "sp_saves (abs_spec env b) i = rs_snapshots (mb_receipt_shards b ! receipt_index env b i) i"
  "sp_transactions (abs_spec env b) i = rs_transactions (mb_receipt_shards b ! receipt_index env b i) i"
  "sp_multis (abs_spec env b) i = rs_multi_transactions (mb_receipt_shards b ! receipt_index env b i) i"
  "sp_trade_receipts (abs_spec env b) i = rs_trade_transactions (mb_receipt_shards b ! receipt_index env b i) i"
  "sp_trades (abs_spec env b) i = td_trades (mb_trade_shards b ! trade_index env b i) i"
  "sp_ids (abs_spec env b) = mb_trade_identifiers b"
  by (simp_all add: abs_spec_def routed_receipts_def)

lemma mem_load_routed:
  "actual_revision (md_snapshots (mb_data_shards b ! data_index env b r)) r = actual_revision (mem_load env b) r"
  by (simp add: actual_revision_def mem_load_def)

lemma claim_abs:
  "claim_operation (sp_kinds (abs_spec env b)) i k =
   claim_operation (rs_operation_kinds (mb_receipt_shards b ! receipt_index env b i)) i k"
  by (simp add: claim_operation_def abs_simps)

lemma params_simps [simp]: "codec (params env) = codec env" "digest (params env) = digest env"
  by (simp_all add: mem_params.truncate_def)

text \<open>
  An update of one receipt shard is, for every component of the receipts, an update of that component
  at one operation id.
\<close>

lemma routed_update:
  assumes "backend_ok b" and "length (mb_receipt_shards b') = length (mb_receipt_shards b)"
    and "mb_receipt_shards b' = (mb_receipt_shards b)[receipt_index env b i := sh]"
  shows "routed_receipts env b' j = (if receipt_index env b j = receipt_index env b i then sh else routed_receipts env b j)"
  using assms(3) indices_less(2) [OF assms(1), of env] receipt_index_cong [OF assms(2), of env]
  by (simp add: routed_receipts_def nth_list_update)

lemma mem_save_refines:
  assumes "backend_ok b"
  shows "refines env (mem_save env b q) (spec_save (params env) (abs_spec env b) q)"
proof -
  let ?ri = "receipt_index env b (sw_request_id q)" and ?di = "data_index env b (sw_record q)"
  let ?rs = "mb_receipt_shards b ! ?ri" and ?ds = "mb_data_shards b ! ?di"
  have main: "refines env
      (b\<lparr>mb_data_shards := (mb_data_shards b)[?di := ?ds\<lparr>md_snapshots := (md_snapshots ?ds)(sw_record q \<mapsto> e)\<rparr>],
         mb_receipt_shards := (mb_receipt_shards b)[?ri := ?rs\<lparr>rs_snapshots := (rs_snapshots ?rs)(sw_request_id q \<mapsto> c)\<rparr>]\<rparr>, x)
      ((abs_spec env b)\<lparr>sp_snapshots := (mem_load env b)(sw_record q \<mapsto> e),
         sp_saves := (sp_saves (abs_spec env b))(sw_request_id q \<mapsto> c)\<rparr>, x)" (is "refines env (?b, x) _") for e c x
  proof -
    have "mem_load env ?b = (mem_load env b)(sw_record q \<mapsto> e)" by (rule mem_load_update [OF assms]) simp_all
    moreover have "routed_receipts env ?b j =
       (if receipt_index env b j = ?ri then ?rs\<lparr>rs_snapshots := (rs_snapshots ?rs)(sw_request_id q \<mapsto> c)\<rparr>
        else routed_receipts env b j)" for j
      by (rule routed_update [OF assms]) simp_all
    ultimately show ?thesis
      using assms trade_index_cong [of ?b b env]
      by (auto simp: refines_def abs_spec_def backend_ok_def fun_eq_iff routed_receipts_def)
  qed
  show ?thesis
    using assms main
    by (auto simp: mem_save_def spec_save_def Let_def mem_load_routed abs_simps
        split: option.splits result.splits) (auto simp: refines_def)
qed

lemma mem_apply_transaction_refines:
  assumes "backend_ok b"
  shows "refines env (mem_apply_transaction env b q) (spec_apply (params env) (abs_spec env b) q)"
proof -
  let ?i = "tw_operation_id q"
  let ?ri = "receipt_index env b ?i" and ?di = "data_index env b (tw_record q)"
  let ?rs = "mb_receipt_shards b ! ?ri" and ?ds = "mb_data_shards b ! ?di"
  have main: "refines env
      (b\<lparr>mb_data_shards := (mb_data_shards b)[?di := ?ds\<lparr>md_snapshots := (md_snapshots ?ds)(tw_record q \<mapsto> e)\<rparr>],
         mb_receipt_shards := (mb_receipt_shards b)[?ri := ?rs\<lparr>
           rs_operation_kinds := (rs_operation_kinds ?rs)(?i \<mapsto> ''single''),
           rs_transactions := (rs_transactions ?rs)(?i \<mapsto> c)\<rparr>]\<rparr>, x)
      ((abs_spec env b)\<lparr>sp_snapshots := (mem_load env b)(tw_record q \<mapsto> e),
         sp_kinds := (sp_kinds (abs_spec env b))(?i \<mapsto> ''single''),
         sp_transactions := (sp_transactions (abs_spec env b))(?i \<mapsto> c)\<rparr>, x)" (is "refines env (?b, x) _") for e c x
  proof -
    have "mem_load env ?b = (mem_load env b)(tw_record q \<mapsto> e)" by (rule mem_load_update [OF assms]) simp_all
    moreover have "routed_receipts env ?b j =
       (if receipt_index env b j = ?ri then ?rs\<lparr>
           rs_operation_kinds := (rs_operation_kinds ?rs)(?i \<mapsto> ''single''),
           rs_transactions := (rs_transactions ?rs)(?i \<mapsto> c)\<rparr> else routed_receipts env b j)" for j
      by (rule routed_update [OF assms]) simp_all
    ultimately show ?thesis
      using assms trade_index_cong [of ?b b env]
      by (auto simp: refines_def abs_spec_def backend_ok_def fun_eq_iff routed_receipts_def)
  qed
  show ?thesis
    using assms main
    by (auto simp: mem_apply_transaction_def spec_apply_def Let_def mem_load_routed abs_simps claim_abs
        split: option.splits result.splits) (auto simp: refines_def)
qed

lemma mem_commit_refines:
  assumes "backend_ok b"
  shows "\<exists>br. mem_commit_records env b q eff = Some br \<and>
     refines env br (spec_commit (params env) (abs_spec env b) q eff)"
proof (cases "effects_normalize (codec env) eff"; cases "multi_normalize q")
  fix f n assume f: "effects_normalize (codec env) eff = Ok f" and n: "multi_normalize q = Ok n"
  let ?i = "mw_operation_id n" and ?ws = "mw_writes n"
  let ?ri = "receipt_index env b ?i" and ?g = "lock_data_shards env b (map rw_record ?ws)"
  let ?rs = "mb_receipt_shards b ! ?ri"
  let ?ids = "if effects_is_empty f then mb_trade_identifiers b else record_effects (mb_trade_identifiers b) f"
  have main: "refines env
      (b\<lparr>mb_data_shards := release_guards (mb_data_shards b) gs, mb_trade_identifiers := ?ids,
         mb_receipt_shards := (mb_receipt_shards b)[?ri := ?rs\<lparr>
           rs_operation_kinds := (rs_operation_kinds ?rs)(?i \<mapsto> ''multi''),
           rs_multi_transactions := (rs_multi_transactions ?rs)(?i \<mapsto> c)\<rparr>]\<rparr>, x)
      ((abs_spec env b)\<lparr>sp_snapshots := install_writes (mem_load env b) ?ws cs,
         sp_kinds := (sp_kinds (abs_spec env b))(?i \<mapsto> ''multi''), sp_ids := ?ids,
         sp_multis := (sp_multis (abs_spec env b))(?i \<mapsto> c)\<rparr>, x)" (is "refines env (?b, x) _")
    if gs: "\<And>b'. mb_data_shards b' = release_guards (mb_data_shards b) gs \<Longrightarrow>
       mem_load env b' = install_writes (mem_load env b) ?ws cs" for gs cs c x
  proof -
    have "mem_load env ?b = install_writes (mem_load env b) ?ws cs" by (rule gs) simp
    moreover have "routed_receipts env ?b j =
       (if receipt_index env b j = ?ri then ?rs\<lparr>
           rs_operation_kinds := (rs_operation_kinds ?rs)(?i \<mapsto> ''multi''),
           rs_multi_transactions := (rs_multi_transactions ?rs)(?i \<mapsto> c)\<rparr> else routed_receipts env b j)" for j
      by (rule routed_update [OF assms]) simp_all
    ultimately show ?thesis
      using assms trade_index_cong [of ?b b env]
      by (auto simp: refines_def abs_spec_def backend_ok_def fun_eq_iff routed_receipts_def)
  qed
  show ?thesis
  proof (cases "try_map (check_write (mem_load env b)) ?ws")
    case (Ok cs)
    obtain gs where gs: "guard_installs env b ?g ?ws cs = Some gs" "\<And>b'. mb_data_shards b' = release_guards (mb_data_shards b) gs \<Longrightarrow>
       mem_load env b' = install_writes (mem_load env b) ?ws cs" by (rule guarded_installs [OF assms]) blast
    show ?thesis
      using assms main [OF gs(2)]
      by (cases "claim_operation (rs_operation_kinds ?rs) ?i ''multi''"; cases "rs_multi_transactions ?rs ?i";
          cases "check_effects (mb_trade_identifiers b) f")
        (auto simp: mem_commit_records_def spec_commit_def Let_def normalize_multi_eq n f claim_abs abs_simps
          guarded_checks gs(1) Ok refines_def)
  next
    case (Err e)
    show ?thesis
      using assms
      by (cases "claim_operation (rs_operation_kinds ?rs) ?i ''multi''"; cases "rs_multi_transactions ?rs ?i";
          cases "check_effects (mb_trade_identifiers b) f")
        (auto simp: mem_commit_records_def spec_commit_def Let_def normalize_multi_eq n f claim_abs abs_simps
          guarded_checks Err refines_def)
  qed
qed (use assms in \<open>simp_all add: mem_commit_records_def spec_commit_def normalize_multi_eq refines_def\<close>)

lemma mem_trade_refines:
  assumes "backend_ok b"
  shows "\<exists>br. mem_apply_trade_transaction env b q = Some br \<and>
     refines env br (spec_trade (abs_spec env b) q)"
proof (cases "normalize_trade_transaction q")
  case n: (Ok n)
  let ?i = "tx_operation_id n" and ?ws = "tx_writes n" and ?t = "tx_transition n"
  let ?d = "tt_trade_id ?t"
  let ?ri = "receipt_index env b ?i" and ?g = "lock_data_shards env b (map rw_record ?ws)"
  let ?rs = "mb_receipt_shards b ! ?ri" and ?ti = "trade_index env b ?d"
  let ?ts = "mb_trade_shards b ! ?ti" and ?ids = "record_identifiers (mb_trade_identifiers b) n"
  have main: "refines env
      (b\<lparr>mb_data_shards := release_guards (mb_data_shards b) gs,
         mb_trade_shards := (mb_trade_shards b)[?ti := ?ts\<lparr>td_trades := (td_trades ?ts)(?d \<mapsto> e)\<rparr>],
         mb_trade_identifiers := ?ids,
         mb_receipt_shards := (mb_receipt_shards b)[?ri := ?rs\<lparr>
           rs_operation_kinds := (rs_operation_kinds ?rs)(?i \<mapsto> ''trade''),
           rs_trade_transactions := (rs_trade_transactions ?rs)(?i \<mapsto> c)\<rparr>]\<rparr>, x)
      ((abs_spec env b)\<lparr>sp_snapshots := install_writes (mem_load env b) ?ws cs,
         sp_kinds := (sp_kinds (abs_spec env b))(?i \<mapsto> ''trade''),
         sp_trades := (sp_trades (abs_spec env b))(?d \<mapsto> e), sp_ids := ?ids,
         sp_trade_receipts := (sp_trade_receipts (abs_spec env b))(?i \<mapsto> c)\<rparr>, x)" (is "refines env (?b, x) _")
    if gs: "\<And>b'. mb_data_shards b' = release_guards (mb_data_shards b) gs \<Longrightarrow>
       mem_load env b' = install_writes (mem_load env b) ?ws cs" for gs cs c e x
  proof -
    have "mem_load env ?b = install_writes (mem_load env b) ?ws cs" by (rule gs) simp
    moreover have "routed_receipts env ?b j =
       (if receipt_index env b j = ?ri then ?rs\<lparr>
           rs_operation_kinds := (rs_operation_kinds ?rs)(?i \<mapsto> ''trade''),
           rs_trade_transactions := (rs_trade_transactions ?rs)(?i \<mapsto> c)\<rparr> else routed_receipts env b j)" for j
      by (rule routed_update [OF assms]) simp_all
    ultimately show ?thesis
      using assms trade_index_cong [of ?b b env] indices_less(3) [OF assms, of env ?d]
      by (auto simp: refines_def abs_spec_def backend_ok_def fun_eq_iff routed_receipts_def nth_list_update)
  qed
  have v: "(case td_trades ?ts ?d of None \<Rightarrow> 0 | Some x \<Rightarrow> te_version x) = tt_expected_version ?t"
    if "check_trade_version (td_trades ?ts ?d) ?t = Ok u" for u
    using that by (auto simp: check_trade_version_Ok_iff)
  show ?thesis
  proof (cases "try_map (check_write (mem_load env b)) ?ws")
    case (Ok cs)
    obtain gs where gs: "guard_installs env b ?g ?ws cs = Some gs" "\<And>b'. mb_data_shards b' = release_guards (mb_data_shards b) gs \<Longrightarrow>
       mem_load env b' = install_writes (mem_load env b) ?ws cs" by (rule guarded_installs [OF assms]) blast
    show ?thesis
      using assms main [OF gs(2)]
      by (cases "claim_operation (rs_operation_kinds ?rs) ?i ''trade''"; cases "rs_trade_transactions ?rs ?i";
          cases "check_trade_version (td_trades ?ts ?d) ?t"; cases "check_identifiers (mb_trade_identifiers b) n";
          cases "next_trade_version ?d (tt_expected_version ?t)")
        (auto simp: mem_apply_trade_transaction_def spec_trade_def Let_def n claim_abs abs_simps
          guarded_checks gs(1) Ok refines_def v)
  next
    case (Err e)
    show ?thesis
      using assms
      by (cases "claim_operation (rs_operation_kinds ?rs) ?i ''trade''"; cases "rs_trade_transactions ?rs ?i";
          cases "check_trade_version (td_trades ?ts ?d) ?t"; cases "check_identifiers (mb_trade_identifiers b) n")
        (auto simp: mem_apply_trade_transaction_def spec_trade_def Let_def n claim_abs abs_simps
          guarded_checks Err refines_def)
  qed
qed (use assms in \<open>simp add: mem_apply_trade_transaction_def spec_trade_def refines_def\<close>)

section \<open>All requests\<close>

fun mem_step :: "mem_env \<Rightarrow> memory_backend \<Rightarrow> mem_request \<Rightarrow>
    (memory_backend \<times> (mem_receipt write_outcome, store_error) result) option" where
  "mem_step env b (SaveRequest q) = Some (lift_outcome Saved (mem_save env b q))"
| "mem_step env b (TransactionRequest q) = Some (lift_outcome Transacted (mem_apply_transaction env b q))"
| "mem_step env b (CommitRequest q eff) = map_option (lift_outcome Committed) (mem_commit_records env b q eff)"
| "mem_step env b (TradeRequest q) = map_option (lift_outcome Traded) (mem_apply_trade_transaction env b q)"

lemma refines_lift: "refines env br sr \<Longrightarrow> refines env (lift_outcome f br) (lift_outcome f sr)"
  by (simp add: refines_def lift_outcome_def)

lemma mem_step_refines:
  assumes "backend_ok b"
  shows "\<exists>br. mem_step env b q = Some br \<and> refines env br (spec_step (params env) (abs_spec env b) q)"
proof (cases q)
  case (SaveRequest w)
  then show ?thesis using refines_lift [OF mem_save_refines [OF assms, of env w], of Saved] by simp
next
  case (TransactionRequest w)
  then show ?thesis using refines_lift [OF mem_apply_transaction_refines [OF assms, of env w], of Transacted] by simp
next
  case (CommitRequest w eff)
  obtain br where "mem_commit_records env b w eff = Some br"
    "refines env br (spec_commit (params env) (abs_spec env b) w eff)" using mem_commit_refines [OF assms] by blast
  then show ?thesis using CommitRequest refines_lift [of env br] by simp
next
  case (TradeRequest w)
  obtain br where "mem_apply_trade_transaction env b w = Some br"
    "refines env br (spec_trade (abs_spec env b) w)" using mem_trade_refines [OF assms] by blast
  then show ?thesis using TradeRequest refines_lift [of env br] by simp
qed

text \<open>A run of requests on the backend; \<open>None\<close> if one of them panics.\<close>

fun mem_run :: "mem_env \<Rightarrow> memory_backend \<Rightarrow> mem_request list \<Rightarrow>
    (memory_backend \<times> (mem_receipt write_outcome, store_error) result list) option" where
  "mem_run env b [] = Some (b, [])"
| "mem_run env b (q # qs) =
     (case mem_step env b q of
        None \<Rightarrow> None
      | Some (b', x) \<Rightarrow> map_option (\<lambda>(b'', xs). (b'', x # xs)) (mem_run env b' qs))"

lemma mem_run_refines:
  assumes "backend_ok b"
  shows "\<exists>br. mem_run env b qs = Some br \<and> refines env br (run (spec_step (params env)) (abs_spec env b) qs)"
  using assms
proof (induction qs arbitrary: b)
  case Nil
  then show ?case by (simp add: refines_def)
next
  case (Cons q qs)
  obtain b' x where s: "mem_step env b q = Some (b', x)"
    and r: "refines env (b', x) (spec_step (params env) (abs_spec env b) q)"
    using mem_step_refines [OF Cons.prems] by fastforce
  then have "backend_ok b'" by (simp add: refines_def)
  from Cons.IH [OF this] s r show ?case
    by (auto simp: refines_def case_prod_unfold Let_def)
qed

lemma memory_backend_new_ok:
  assumes "memory_backend_new n = Some b"
  shows "backend_ok b" and "abs_spec env b = spec_empty"
proof -
  have b: "n \<noteq> 0" "b = \<lparr>mb_data_shards = map (\<lambda>_. \<lparr>md_snapshots = Map.empty\<rparr>) [0..<n],
                 mb_receipt_shards = map (\<lambda>_. receipt_shard_default) [0..<n],
                 mb_trade_shards = map (\<lambda>_. \<lparr>td_trades = Map.empty\<rparr>) [0..<n],
                 mb_trade_identifiers = trade_identifiers_default\<rparr>"
    using assms by (auto simp: memory_backend_new_def split: if_splits)
  show ok: "backend_ok b" using b(1) by (simp add: backend_ok_def b(2))
  have "mb_data_shards b ! data_index env b r = \<lparr>md_snapshots = Map.empty\<rparr>" for r
    using indices_less(1) [OF ok, of env r] by (simp add: b(2) del: upt_Suc)
  moreover have "routed_receipts env b i = receipt_shard_default" for i
    using indices_less(2) [OF ok, of env i] unfolding routed_receipts_def by (simp add: b(2) del: upt_Suc)
  moreover have "mb_trade_shards b ! trade_index env b i = \<lparr>td_trades = Map.empty\<rparr>" for i
    using indices_less(3) [OF ok, of env i] by (simp add: b(2) del: upt_Suc)
  moreover have "mb_trade_identifiers b = trade_identifiers_default" by (simp add: b(2))
  ultimately show "abs_spec env b = spec_empty"
    by (simp add: abs_spec_def spec_empty_def mem_load_def receipt_shard_default_def trade_identifiers_default_def
        fun_eq_iff)
qed

lemma mem_run_spec:
  assumes "backend_ok b" and "mem_run env b qs = Some (b', xs)"
  shows "backend_ok b'" and "run (spec_step (params env)) (abs_spec env b) qs = (abs_spec env b', xs)"
  using mem_run_refines [OF assms(1), of env qs] assms(2) by (auto simp: refines_def prod_eq_iff)

lemma mem_run_new:
  assumes "memory_backend_new n = Some b" and "mem_run env b qs = Some (b', xs)"
  shows "run (spec_step (params env)) spec_empty qs = (abs_spec env b', xs)"
  using mem_run_spec(2) [OF memory_backend_new_ok(1) [OF assms(1)] assms(2)] memory_backend_new_ok(2) [OF assms(1)]
  by simp

lemma mem_load_multi_eq: "mem_load_multi env b rs = Some (map (mem_load env b) rs)"
proof -
  have "guard_loads env b gs rs = Some (map (guard_view env b gs) rs)"
    if "\<forall>r\<in>set rs. map_of gs (data_index env b r) \<noteq> None" for gs
    using that by (induction rs) (auto simp: find_guard_map_of guard_view_def)
  from this [of "lock_data_shards env b rs"] show ?thesis
    by (simp add: mem_load_multi_def guard_view_locked map_of_lock_data_shards)
qed

section \<open>Properties\<close>

definition demo_env :: mem_env where
  "demo_env = \<lparr>digest = (\<lambda>b. b), codec = sample_codec, hash_record = (\<lambda>r. of_nat (length (key r))),
     hash_str = (\<lambda>s. of_nat (length s))\<rparr>"

definition demo_backend :: memory_backend where
  "demo_backend = the (memory_backend_new 2)"

lemma demo_backend_new: "memory_backend_new 2 = Some demo_backend"
  by (simp add: demo_backend_def memory_backend_new_def)

lemma demo_run: "\<exists>b xs. mem_run demo_env demo_backend qs = Some (b, xs)"
  using mem_run_refines [OF memory_backend_new_ok(1) [OF demo_backend_new], of demo_env qs] by force

lemma demo_spec:
  assumes "mem_run demo_env demo_backend qs = Some (b, xs)"
  shows "xs = snd (run (spec_step (params demo_env)) spec_empty qs)"
  using mem_run_new [OF demo_backend_new assms] by simp

definition demo_transaction :: "string \<Rightarrow> string \<Rightarrow> revision \<Rightarrow> transactional_write" where
  "demo_transaction i k e =
     \<lparr>tw_operation_id = i, tw_record = player_key k, tw_schema = ''player.snapshot'', tw_schema_version = 1,
      tw_expected_revision = e, tw_payload = [4], tw_result = [8], tw_updated_at_unix_ms = 2\<rparr>"

lemmas spec_eval = spec_empty_def spec_save_def spec_apply_def claim_operation_def actual_revision_def
  next_revision_def checked_add_def snapshot_fingerprint_from_def mem_transaction_fingerprint_from_def
  snapshot_envelope_of_def transaction_envelope_def lift_outcome_def demo_transaction_def player_defs Let_def

text \<open>
  C19. The sharded backend implements the flat specification: for every hash function, every number of
  shards and every sequence of requests, no operation hits an \<open>expect\<close>, the outcomes are those of the
  specification, and the final state is the specification's seen through the hash; a batch read
  returns what the single reads of its records return.
\<close>

theorem memory_backend_refines:
  assumes "backend_ok b"
  shows "\<exists>b' xs. mem_run env b qs = Some (b', xs) \<and> backend_ok b' \<and>
     run (spec_step (params env)) (abs_spec env b) qs = (abs_spec env b', xs) \<and>
     (\<forall>rs. mem_load_multi env b' rs = Some (map (sp_snapshots (abs_spec env b')) rs))"
  using mem_run_refines [OF assms, of env qs]
  by (auto simp: refines_def mem_load_multi_eq abs_simps prod_eq_iff)

theorem memory_backend_refines_witness:
  "\<exists>b' xs. mem_run demo_env demo_backend [SaveRequest (player_write ''r'' ''1'' [1] None),
       TransactionRequest (demo_transaction ''op'' ''1'' 1)] = Some (b', xs) \<and>
     xs = [Ok (Applied (Saved 1)), Ok (Applied (Transacted (2, [8])))]"
proof -
  let ?qs = "[SaveRequest (player_write ''r'' ''1'' [1] None), TransactionRequest (demo_transaction ''op'' ''1'' 1)]"
  obtain b' xs where r: "mem_run demo_env demo_backend ?qs = Some (b', xs)"
    "run (spec_step (params demo_env)) (abs_spec demo_env demo_backend) ?qs = (abs_spec demo_env b', xs)"
    using memory_backend_refines [OF memory_backend_new_ok(1) [OF demo_backend_new], of demo_env ?qs] by blast
  have "snd (run (spec_step (params demo_env)) spec_empty ?qs) =
      [Ok (Applied (Saved 1)), Ok (Applied (Transacted (2, [8])))]"
    by (simp add: spec_eval)
  then show ?thesis using r memory_backend_new_ok(2) [OF demo_backend_new, of demo_env] by simp
qed

text \<open>
  C20. Exactly once across all request kinds: when a request is presented twice in a run on a new
  backend and the first presentation was applied, the second returns \<open>Duplicate\<close> with the receipt of
  the first, whatever saves, transactions, commits and trades lie between.
\<close>

theorem memory_applied_once:
  assumes "memory_backend_new n = Some b" and "mem_run env b qs = Some (b', xs)"
    and "i < j" and "j < length qs" and "qs ! i = qs ! j" and "xs ! i = Ok (Applied r)"
  shows "xs ! j = Ok (Duplicate r)"
  by (rule spec.applied_at_most_once [OF spec_empty_ok(1) mem_run_new [OF assms(1,2)] assms(3-6)])

theorem memory_applied_once_witness:
  "\<exists>b' xs. mem_run demo_env demo_backend [TransactionRequest (demo_transaction ''op'' ''1'' 0),
       SaveRequest (player_write ''r'' ''1'' [1] None), TransactionRequest (demo_transaction ''op'' ''1'' 0)] = Some (b', xs) \<and>
     xs ! 2 = Ok (Duplicate (Transacted (1, [8])))"
proof -
  let ?qs = "[TransactionRequest (demo_transaction ''op'' ''1'' 0),
       SaveRequest (player_write ''r'' ''1'' [1] None), TransactionRequest (demo_transaction ''op'' ''1'' 0)]"
  obtain b' xs where r: "mem_run demo_env demo_backend ?qs = Some (b', xs)" using demo_run by blast
  have a: "xs ! 0 = Ok (Applied (Transacted (1, [8])))"
    unfolding demo_spec [OF r] by (simp add: spec_eval)
  have "xs ! 2 = Ok (Duplicate (Transacted (1, [8])))"
    by (rule memory_applied_once [OF demo_backend_new r _ _ _ a]) simp_all
  then show ?thesis using r by blast
qed

text \<open>
  C21. No write is lost or counted twice: after any run on a new backend the revision of a record is the
  number of applied requests that wrote it, of whatever kind, and two requests that expect the same
  revision of a record are not both applied.
\<close>

theorem memory_revision_counts:
  assumes "memory_backend_new n = Some b" and "mem_run env b qs = Some (b', xs)"
  shows "unat (actual_revision (mem_load env b') k) = applied_writes request_writes k qs xs \<and>
    (\<forall>i j v. i < j \<and> j < length qs \<and> request_writes (qs ! i) k \<and> request_writes (qs ! j) k \<and>
       request_expects (qs ! i) k = Some v \<and> request_expects (qs ! j) k = Some v \<and> is_applied (xs ! i) \<longrightarrow>
       \<not> is_applied (xs ! j))"
proof -
  have r: "run (spec_step (params env)) spec_empty qs = (abs_spec env b', xs)" by (rule mem_run_new [OF assms])
  have "unat (actual_revision (mem_load env b') k) = applied_writes request_writes k qs xs"
    using spec.version_counts_writes [OF spec_empty_ok(1) r, of k] by (simp add: abs_simps) (simp add: spec_empty_def)
  then show ?thesis using spec.cas_exclusive [OF spec_empty_ok(1) r] by blast
qed

theorem memory_revision_counts_witness:
  "\<exists>b' xs. mem_run demo_env demo_backend [TransactionRequest (demo_transaction ''a'' ''1'' 0),
       TransactionRequest (demo_transaction ''b'' ''1'' 0), SaveRequest (player_write ''r'' ''1'' [1] None)] = Some (b', xs) \<and>
     \<not> is_applied (xs ! 1) \<and> unat (actual_revision (mem_load demo_env b') (player_key ''1'')) = 2"
proof -
  let ?qs = "[TransactionRequest (demo_transaction ''a'' ''1'' 0),
       TransactionRequest (demo_transaction ''b'' ''1'' 0), SaveRequest (player_write ''r'' ''1'' [1] None)]"
  let ?k = "player_key ''1''"
  obtain b' xs where r: "mem_run demo_env demo_backend ?qs = Some (b', xs)" using demo_run by blast
  have xs: "xs = [Ok (Applied (Transacted (1, [8]))), Err (RevisionConflict ?k (Some 0) 1), Ok (Applied (Saved 2))]"
    unfolding demo_spec [OF r] by (simp add: spec_eval)
  have "applied_writes request_writes ?k ?qs xs = 2"
    by (simp add: xs demo_transaction_def player_write_def)
  moreover have "\<not> is_applied (xs ! 1)"
    using memory_revision_counts [OF demo_backend_new r, of ?k] xs
    by simp
  ultimately show ?thesis using memory_revision_counts [OF demo_backend_new r, of ?k] r by auto
qed

text \<open>
  C22. Identifiers are globally unique: in a run on a new backend no two applied requests share an
  operation id (whatever their kinds), a snapshot request id, an appended record, a ledger posting id
  or an outbox event id, even when commits and trades compete for the same event id.
\<close>

theorem memory_identifiers_unique:
  assumes "memory_backend_new n = Some b" and "mem_run env b qs = Some (b', xs)"
    and "i < j" and "j < length qs" and "is_applied (xs ! i)" and "is_applied (xs ! j)"
  shows "request_identifiers (qs ! i) \<inter> request_identifiers (qs ! j) = {}"
  using spec_run_identifiers [OF spec_empty_ok(2) mem_run_new [OF assms(1,2)] assms(4,6)] assms(3,5) by blast

theorem memory_identifiers_unique_witness:
  "\<exists>b' xs. mem_run demo_env demo_backend [TransactionRequest (demo_transaction ''a'' ''1'' 0),
       TransactionRequest (demo_transaction ''b'' ''1'' 1)] = Some (b', xs) \<and>
     request_identifiers (TransactionRequest (demo_transaction ''a'' ''1'' 0)) \<inter>
     request_identifiers (TransactionRequest (demo_transaction ''b'' ''1'' 1)) = {}"
proof -
  let ?qs = "[TransactionRequest (demo_transaction ''a'' ''1'' 0), TransactionRequest (demo_transaction ''b'' ''1'' 1)]"
  obtain b' xs where r: "mem_run demo_env demo_backend ?qs = Some (b', xs)" using demo_run by blast
  have "xs = [Ok (Applied (Transacted (1, [8]))), Ok (Applied (Transacted (2, [8])))]"
    unfolding demo_spec [OF r] by (simp add: spec_eval)
  then show ?thesis using memory_identifiers_unique [OF demo_backend_new r, of 0 1] r by auto
qed

lemma spec_run_trades:
  assumes "trades_ok s" and "run (spec_step p) s qs = (s', rs)"
  shows "trades_ok s' \<and> (\<forall>i t. sp_trades s i = Some t \<longrightarrow> terminal (te_state t) \<longrightarrow> sp_trades s' i = Some t)"
  using assms
proof (induction qs arbitrary: s rs)
  case (Cons q qs)
  obtain s1 x where st: "spec_step p s q = (s1, x)" by fastforce
  obtain xs where rn: "run (spec_step p) s1 qs = (s', xs)"
    using Cons.prems(2) st by (auto simp: Let_def split: prod.splits)
  show ?case using spec_step_trades [OF Cons.prems(1) st] Cons.IH [OF _ rn] by blast
qed simp

lemma mem_load_trade_Some:
  "mem_load_trade env b i = Ok (Some t) \<longleftrightarrow> \<not> blank i \<and> sp_trades (abs_spec env b) i = Some t"
  by (simp add: mem_load_trade_def abs_simps)

text \<open>
  C23. The life of a trade: in every state reachable from a new backend a stored trade is in a state and
  at a version that a path of the escrow state machine explains, so it is closed after at most three
  transitions; a settled or cancelled trade is never changed again by any request.
\<close>

theorem memory_trade_lifecycle:
  assumes "memory_backend_new n = Some b" and "mem_run env b qs = Some (b1, xs)"
    and "mem_load_trade env b1 i = Ok (Some t)"
  shows "te_trade_id t = i \<and> trade_stage (te_version t) (te_state t) \<and>
    (terminal (te_state t) \<longrightarrow>
       (\<exists>b2 ys. mem_run env b1 qs' = Some (b2, ys) \<and> mem_load_trade env b2 i = Ok (Some t)))"
proof -
  have r: "run (spec_step (params env)) spec_empty qs = (abs_spec env b1, xs)" by (rule mem_run_new [OF assms(1,2)])
  have ok: "trades_ok (abs_spec env b1)" using spec_run_trades [OF spec_empty_ok(3) r] by blast
  have b1: "backend_ok b1" by (rule mem_run_spec(1) [OF memory_backend_new_ok(1) [OF assms(1)] assms(2)])
  obtain b2 ys where r2: "mem_run env b1 qs' = Some (b2, ys)" using mem_run_refines [OF b1, of env qs'] by force
  note s2 = spec_run_trades [OF ok mem_run_spec(2) [OF b1 r2]]
  show ?thesis using assms(3) ok s2 r2 by (auto simp: mem_load_trade_Some trades_ok_def)
qed

definition demo_trade :: "string \<Rightarrow> trade_transition \<Rightarrow> revision \<Rightarrow> trade_transaction" where
  "demo_trade i t e =
     \<lparr>tx_operation_id = i, tx_transition = t, tx_writes = [wallet_write ''buyer'' e [1]],
      tx_ledger_postings = [], tx_outbox_events = [], tx_result = [5]\<rparr>"

lemma demo_trade_normal:
  assumes "\<not> blank i" and "is_valid_transition st n" and "(v = 0) = (st = None)"
  shows "normalize_trade_transaction (demo_trade i (trade_step v st n) e) = Ok (demo_trade i (trade_step v st n) e)"
  using assms
  by (simp add: normalize_trade_Ok_iff trade_head_ok_def trade_body_ok_def trade_sorted_def demo_trade_def
      trade_step_def wallet_write_def valid_record_def ledger_balance_def)

lemmas spec_trade_eval = spec_trade_def claim_operation_def check_trade_version_def check_identifiers_def
  check_write_def next_trade_version_def trade_envelope_of_def record_identifiers_def trade_receipt_of_def
  write_envelope_def wallet_write_def

theorem memory_trade_lifecycle_witness:
  "\<exists>b1 xs b2 ys. mem_run demo_env demo_backend
       [TradeRequest (demo_trade ''t1'' (trade_step 0 None Escrowed) 0),
        TradeRequest (demo_trade ''t2'' (trade_step 1 (Some Escrowed) Settled) 1)] = Some (b1, xs) \<and>
     mem_run demo_env b1 [TradeRequest (demo_trade ''t3'' (trade_step 2 (Some Settled) Cancelled) 2)] = Some (b2, ys) \<and>
     mem_load_trade demo_env b2 ''trade-1'' = mem_load_trade demo_env b1 ''trade-1''"
proof -
  let ?qs = "[TradeRequest (demo_trade ''t1'' (trade_step 0 None Escrowed) 0),
        TradeRequest (demo_trade ''t2'' (trade_step 1 (Some Escrowed) Settled) 1)]"
  let ?qs' = "[TradeRequest (demo_trade ''t3'' (trade_step 2 (Some Settled) Cancelled) 2)]"
  obtain b1 xs where r: "mem_run demo_env demo_backend ?qs = Some (b1, xs)" using demo_run by blast
  have "map_option te_state (sp_trades (fst (run (spec_step (params demo_env)) spec_empty ?qs)) ''trade-1'') = Some Settled"
    by (simp add: spec_trade_def demo_trade_normal)
      (simp add: spec_trade_eval spec_eval demo_trade_def trade_step_def)
  then obtain t where t: "sp_trades (abs_spec demo_env b1) ''trade-1'' = Some t" "te_state t = Settled"
    using mem_run_new [OF demo_backend_new r] by auto
  then have l: "mem_load_trade demo_env b1 ''trade-1'' = Ok (Some t)" by (simp add: mem_load_trade_Some)
  from memory_trade_lifecycle [OF demo_backend_new r l, of ?qs'] t(2) obtain b2 ys where
    "mem_run demo_env b1 ?qs' = Some (b2, ys)" "mem_load_trade demo_env b2 ''trade-1'' = Ok (Some t)" by auto
  then show ?thesis using r l by metis
qed

text \<open>
  C24. A commit is all or nothing, effects included: if it is not applied, the backend is unchanged; if
  it is, every record it names was at the expected revision and now has the new content at the next
  revision, no other record changed, every fact it appends was absent and is now stored, and its
  events are on record.
\<close>

theorem memory_commit_atomic:
  assumes "backend_ok b" and "mem_commit_records env b q eff = Some (b', x)"
  shows "(\<not> is_applied x \<and> abs_spec env b' = abs_spec env b) \<or>
    (\<exists>cs. x = Ok (Applied (cs, mw_result q)) \<and> mset cs = image_mset write_receipt (mset (mw_writes q)) \<and>
      (\<forall>w\<in>set (mw_writes q). actual_revision (mem_load env b) (rw_record w) = rw_expected_revision w \<and>
         mem_load env b' (rw_record w) = Some (write_envelope w (write_receipt w))) \<and>
      (\<forall>k. k \<notin> rw_record ` set (mw_writes q) \<longrightarrow> mem_load env b' k = mem_load env b k) \<and>
      (\<forall>a\<in>set (ce_appends eff). ti_appends (mb_trade_identifiers b) (ap_record a) = None \<and>
         ti_appends (mb_trade_identifiers b') (ap_record a) = Some a) \<and>
      oe_event_id ` set (ce_outbox_events eff) \<subseteq> ti_outbox_event_ids (mb_trade_identifiers b'))"
proof (cases "is_applied x")
  case False
  then show ?thesis using mem_commit_refines [OF assms(1), of env q eff] assms(2)
      spec_commit_unchanged [of "params env" "abs_spec env b" q eff "abs_spec env b'" x]
    by (auto simp: refines_def prod_eq_iff)
next
  case True
  then obtain r where x: "x = Ok (Applied r)" by (auto simp: is_applied_iff)
  have "spec_commit (params env) (abs_spec env b) q eff = (abs_spec env b', Ok (Applied r))"
    using mem_commit_refines [OF assms(1), of env q eff] assms(2) x by (auto simp: refines_def prod_eq_iff)
  then obtain n f where n: "multi_normalize q = Ok n" and f: "effects_normalize (codec env) eff = Ok f"
    and cf: "effects_is_empty f \<or> check_effects (mb_trade_identifiers b) f = Ok ()"
    and cur: "\<forall>w\<in>set (mw_writes n). write_current (mem_load env b) w"
    and r: "r = (map write_receipt (mw_writes n), mw_result q)"
    and ld: "mem_load env b' = install_writes (mem_load env b) (mw_writes n) (map write_receipt (mw_writes n))"
    and ids: "mb_trade_identifiers b' = (if effects_is_empty f then mb_trade_identifiers b
                else record_effects (mb_trade_identifiers b) f)"
    by (rule spec_commit_appliedE) (simp add: abs_simps)
  have ms: "mset (mw_writes n) = mset (mw_writes q)" and st: "set (mw_writes n) = set (mw_writes q)"
    and dn: "distinct (map rw_record (mw_writes n))"
    using n sort_key_distinct [of rw_record "mw_writes q"] by (auto simp: multi_normalize_Ok_iff)
  have w: "mem_load env b' (rw_record w) = Some (write_envelope w (write_receipt w))" if "w \<in> set (mw_writes q)" for w
    unfolding ld using install_writes_same [OF dn] that st by blast
  have k: "mem_load env b' k = mem_load env b k" if "k \<notin> rw_record ` set (mw_writes q)" for k
    unfolding ld using that st by (intro install_writes_other) simp
  have fs: "set (ce_appends f) = set (ce_appends eff)" "set (ce_outbox_events f) = set (ce_outbox_events eff)"
    and da: "distinct (map ap_record (ce_appends f))"
    using f sort_key_distinct [of ap_record "ce_appends eff"]
    by (auto simp: effects_normalize_Ok_iff effects_sorted_def effects_ok_def)
  have a: "ti_appends (mb_trade_identifiers b) (ap_record a) = None \<and>
      ti_appends (mb_trade_identifiers b') (ap_record a) = Some a" if "a \<in> set (ce_appends eff)" for a
  proof -
    have "a \<in> set (ce_appends f)" using that fs by simp
    moreover from this have "\<not> effects_is_empty f" by (auto simp: effects_is_empty_def)
    ultimately show ?thesis using cf ids appended_same [OF da] by (auto simp: check_effects_Ok_iff record_effects_def)
  qed
  have "oe_event_id ` set (ce_outbox_events eff) \<subseteq> ti_outbox_event_ids (mb_trade_identifiers b')"
    using fs ids by (auto simp: record_effects_def effects_is_empty_def)
  then show ?thesis using x r cur st ms w k a by (auto simp: write_current_def)
qed

theorem memory_commit_atomic_witness:
  "\<exists>b' x. mem_commit_records demo_env demo_backend (wallet_transfer ''op-1'' 5) commit_effects_default = Some (b', x) \<and>
     \<not> is_applied x \<and> abs_spec demo_env b' = abs_spec demo_env demo_backend"
proof -
  let ?q = "wallet_transfer ''op-1'' 5"
  have ok: "backend_ok demo_backend" by (rule memory_backend_new_ok(1) [OF demo_backend_new])
  obtain b' x where r: "mem_commit_records demo_env demo_backend ?q commit_effects_default = Some (b', x)"
    using mem_commit_refines [OF ok, of demo_env ?q commit_effects_default] by force
  have "mem_load demo_env demo_backend = Map.empty"
    unfolding abs_simps(1) [symmetric] memory_backend_new_ok(2) [OF demo_backend_new] by (simp add: spec_empty_def)
  then have "actual_revision (mem_load demo_env demo_backend) k = 0" for k by simp
  moreover have "wallet_write ''buyer'' 5 [1] \<in> set (mw_writes ?q)" by (simp add: wallet_transfer_def)
  ultimately show ?thesis using memory_commit_atomic [OF ok r] r by (force simp: wallet_write_def)
qed

end
