(* ===== verification/Lock_Order.thy ===== *)
theory Lock_Order
  imports Memory_Backend
begin

text \<open>
  The locks of \<open>crates/dbproxy-server/src/memory_backend.rs\<close>. Each operation takes some of the mutexes
  of the backend, one after the other, holds them until it returns and then drops all of them. The
  definitions below list the mutexes an operation takes, in the order of its code and with its early
  returns; the order of the lists follows one global order of the mutexes. Concurrent operations are
  a step relation over tasks that wait for a mutex held by another task.
\<close>

section \<open>Mutexes and their order\<close>

datatype lock = ReceiptLock nat | IdentifierLock | TradeLock nat | DataLock nat

fun lock_rank :: "lock \<Rightarrow> nat \<times> nat" where
  "lock_rank (ReceiptLock i) = (0, i)"
| "lock_rank IdentifierLock = (1, 0)"
| "lock_rank (TradeLock i) = (2, i)"
| "lock_rank (DataLock i) = (3, i)"

lemma lock_rank_inject: "lock_rank l = lock_rank m \<longleftrightarrow> l = m"
  by (cases l; cases m) auto

instantiation lock :: linorder
begin

definition less_eq_lock :: "lock \<Rightarrow> lock \<Rightarrow> bool" where
  "less_eq_lock l m \<longleftrightarrow> lock_rank l \<le> lock_rank m"

definition less_lock :: "lock \<Rightarrow> lock \<Rightarrow> bool" where
  "less_lock l m \<longleftrightarrow> lock_rank l < lock_rank m"

instance
  by standard (auto simp: less_eq_lock_def less_lock_def lock_rank_inject dest: order_antisym)

end

section \<open>What each operation locks\<close>

definition data_locks :: "mem_env \<Rightarrow> memory_backend \<Rightarrow> record_key list \<Rightarrow> lock list" where
  "data_locks env b rs = map DataLock (lock_indices env b rs)"

definition save_locks :: "mem_env \<Rightarrow> memory_backend \<Rightarrow> snapshot_write \<Rightarrow> lock list" where
  "save_locks env b q =
     (if blank (sw_request_id q) then []
      else let ri = receipt_index env b (sw_request_id q)
           in ReceiptLock ri #
              (case rs_snapshots (mb_receipt_shards b ! ri) (sw_request_id q) of
                 Some _ \<Rightarrow> []
               | None \<Rightarrow> [DataLock (data_index env b (sw_record q))]))"

definition transaction_locks :: "mem_env \<Rightarrow> memory_backend \<Rightarrow> transactional_write \<Rightarrow> lock list" where
  "transaction_locks env b q =
     (let i = tw_operation_id q; ri = receipt_index env b i; receipts = mb_receipt_shards b ! ri in
      if blank i then []
      else ReceiptLock ri #
        (if is_ok (claim_operation (rs_operation_kinds receipts) i ''single'') \<and> rs_transactions receipts i = None
         then [DataLock (data_index env b (tw_record q))] else []))"

definition commit_locks :: "mem_env \<Rightarrow> memory_backend \<Rightarrow> multi_record_transactional_write \<Rightarrow>
    commit_effects \<Rightarrow> lock list" where
  "commit_locks env b q0 eff0 =
     (case effects_normalize (codec env) eff0 of Err _ \<Rightarrow> [] | Ok eff \<Rightarrow>
      case normalize_multi q0 of Err _ \<Rightarrow> [] | Ok q \<Rightarrow>
      let i = mw_operation_id q; ri = receipt_index env b i; receipts = mb_receipt_shards b ! ri in
      ReceiptLock ri #
        (if is_ok (claim_operation (rs_operation_kinds receipts) i ''multi'') \<and>
            rs_multi_transactions receipts i = None
         then (if effects_is_empty eff then data_locks env b (map rw_record (mw_writes q))
               else IdentifierLock #
                 (if is_ok (check_effects (mb_trade_identifiers b) eff)
                  then data_locks env b (map rw_record (mw_writes q)) else []))
         else []))"

definition trade_locks :: "mem_env \<Rightarrow> memory_backend \<Rightarrow> trade_transaction \<Rightarrow> lock list" where
  "trade_locks env b q0 =
     (case normalize_trade_transaction q0 of Err _ \<Rightarrow> [] | Ok q \<Rightarrow>
      let i = tx_operation_id q; t = tx_transition q; ri = receipt_index env b i;
          receipts = mb_receipt_shards b ! ri; ti = trade_index env b (tt_trade_id t) in
      ReceiptLock ri #
        (if is_ok (claim_operation (rs_operation_kinds receipts) i ''trade'') \<and>
            rs_trade_transactions receipts i = None
         then IdentifierLock # TradeLock ti #
           (if is_ok (check_trade_version (td_trades (mb_trade_shards b ! ti) (tt_trade_id t)) t) \<and>
               is_ok (check_identifiers (mb_trade_identifiers b) q)
            then data_locks env b (map rw_record (tx_writes q)) else [])
         else []))"

datatype mem_call =
    LoadCall record_key
  | LoadMultiCall "record_key list"
  | LoadReceiptCall string
  | LoadTradeCall string
  | WriteCall mem_request

fun call_locks :: "mem_env \<Rightarrow> memory_backend \<Rightarrow> mem_call \<Rightarrow> lock list" where
  "call_locks env b (LoadCall r) = [DataLock (data_index env b r)]"
| "call_locks env b (LoadMultiCall rs) = data_locks env b rs"
| "call_locks env b (LoadReceiptCall i) = (if blank i then [] else [ReceiptLock (receipt_index env b i)])"
| "call_locks env b (LoadTradeCall i) = (if blank i then [] else [TradeLock (trade_index env b i)])"
| "call_locks env b (WriteCall (SaveRequest q)) = save_locks env b q"
| "call_locks env b (WriteCall (TransactionRequest q)) = transaction_locks env b q"
| "call_locks env b (WriteCall (CommitRequest q eff)) = commit_locks env b q eff"
| "call_locks env b (WriteCall (TradeRequest q)) = trade_locks env b q"

lemma data_locks_strict: "sorted_wrt (<) (data_locks env b rs)"
  using lock_indices_strict [of env b rs]
  by (auto simp: data_locks_def sorted_wrt_map less_lock_def less_prod_def elim: sorted_wrt_mono_rel [rotated])

lemma data_locks_above: "l \<in> set (data_locks env b rs) \<Longrightarrow> \<exists>i. l = DataLock i"
  by (auto simp: data_locks_def)

lemma lock_less [simp]:
  "ReceiptLock i < DataLock j" "IdentifierLock < DataLock j" "TradeLock i < DataLock j"
  "ReceiptLock i < IdentifierLock" "ReceiptLock i < TradeLock j" "IdentifierLock < TradeLock j"
  by (simp_all add: less_lock_def)

lemma call_locks_strict: "sorted_wrt (<) (call_locks env b c)"
proof -
  have d: "\<forall>l\<in>set (data_locks env b rs). ReceiptLock i < l \<and> IdentifierLock < l \<and> TradeLock j < l" for rs i j
    using data_locks_above by fastforce
  show ?thesis
    by (cases "(env, b, c)" rule: call_locks.cases)
      (use d data_locks_strict in \<open>auto simp: save_locks_def transaction_locks_def commit_locks_def trade_locks_def
        Let_def split: option.splits result.splits\<close>)
qed

section \<open>Concurrent tasks\<close>

record task =
  tk_held :: "lock set"
  tk_todo :: "lock list"

definition task_of :: "mem_env \<Rightarrow> memory_backend \<times> mem_call \<Rightarrow> task" where
  "task_of env c = \<lparr>tk_held = {}, tk_todo = call_locks env (fst c) (snd c)\<rparr>"

definition idle :: "task \<Rightarrow> bool" where
  "idle t \<longleftrightarrow> tk_held t = {} \<and> tk_todo t = []"

text \<open>
  A task takes its next mutex when no task holds it, itself included (the mutexes are not
  reentrant), and drops all it holds when it has nothing left to take.
\<close>

inductive lock_step :: "task list \<Rightarrow> task list \<Rightarrow> bool" where
  acquire: "i < length ts \<Longrightarrow> tk_todo (ts ! i) = l # ls \<Longrightarrow> \<forall>t\<in>set ts. l \<notin> tk_held t \<Longrightarrow>
     lock_step ts (ts[i := \<lparr>tk_held = insert l (tk_held (ts ! i)), tk_todo = ls\<rparr>])"
| finish: "i < length ts \<Longrightarrow> tk_todo (ts ! i) = [] \<Longrightarrow> tk_held (ts ! i) \<noteq> {} \<Longrightarrow>
     lock_step ts (ts[i := \<lparr>tk_held = {}, tk_todo = []\<rparr>])"

definition task_ordered :: "task \<Rightarrow> bool" where
  "task_ordered t \<longleftrightarrow> sorted_wrt (<) (tk_todo t) \<and> (\<forall>h\<in>tk_held t. \<forall>l\<in>set (tk_todo t). h < l)"

lemma lock_step_ordered:
  assumes "lock_step ts ts'" and "\<forall>t\<in>set ts. task_ordered t"
  shows "\<forall>t\<in>set ts'. task_ordered t"
  using assms
proof (induction rule: lock_step.induct)
  case (acquire i ts l ls)
  have "task_ordered (ts ! i)" using acquire by simp
  then have "task_ordered \<lparr>tk_held = insert l (tk_held (ts ! i)), tk_todo = ls\<rparr>"
    using acquire(2) by (auto simp: task_ordered_def)
  then show ?case using acquire.prems by (metis insertE set_update_subset_insert subsetD)
next
  case (finish i ts)
  have "task_ordered \<lparr>tk_held = {}, tk_todo = []\<rparr>" by (simp add: task_ordered_def)
  then show ?case using finish.prems by (metis insertE set_update_subset_insert subsetD)
qed

lemma lock_progress:
  assumes "\<forall>t\<in>set ts. task_ordered t" and "\<not> (\<forall>t\<in>set ts. idle t)"
  shows "\<exists>ts'. lock_step ts ts'"
proof (cases "\<exists>t\<in>set ts. tk_todo t = [] \<and> tk_held t \<noteq> {}")
  case True
  then obtain i where "i < length ts" "tk_todo (ts ! i) = []" "tk_held (ts ! i) \<noteq> {}"
    by (metis in_set_conv_nth)
  then show ?thesis by (blast intro: lock_step.finish)
next
  case False
  let ?W = "{t \<in> set ts. tk_todo t \<noteq> []}"
  have "?W \<noteq> {}" using assms(2) False by (auto simp: idle_def)
  moreover have "finite ?W" by simp
  ultimately have "Max ((\<lambda>u. hd (tk_todo u)) ` ?W) \<in> (\<lambda>u. hd (tk_todo u)) ` ?W"
    by (intro Max_in) simp_all
  then obtain t where t: "t \<in> ?W" and "hd (tk_todo t) = Max ((\<lambda>u. hd (tk_todo u)) ` ?W)" by force
  then have mx: "hd (tk_todo u) \<le> hd (tk_todo t)" if "u \<in> ?W" for u
    using that \<open>finite ?W\<close> by (metis (no_types, lifting) Max_ge finite_imageI imageI)
  obtain l ls where l: "tk_todo t = l # ls" using t by (cases "tk_todo t") auto
  have free: "l \<notin> tk_held u" if u: "u \<in> set ts" for u
  proof
    assume h: "l \<in> tk_held u"
    then have "tk_todo u \<noteq> []" using False u by blast
    moreover from this have "l < hd (tk_todo u)" using assms(1) u h by (auto simp: task_ordered_def)
    moreover have "hd (tk_todo u) \<le> l" using mx [of u] u \<open>tk_todo u \<noteq> []\<close> l by simp
    ultimately show False by simp
  qed
  obtain i where "i < length ts" "ts ! i = t" using t by (auto simp: in_set_conv_nth)
  then show ?thesis using lock_step.acquire [of i ts l ls] l free by blast
qed

definition lock_work :: "task list \<Rightarrow> nat" where
  "lock_work ts = sum_list (map (\<lambda>t. 2 * length (tk_todo t) + (if tk_held t = {} then 0 else 1)) ts)"

lemma lock_step_work:
  assumes "lock_step ts ts'"
  shows "lock_work ts' < lock_work ts"
proof -
  let ?f = "\<lambda>t. 2 * length (tk_todo t) + (if tk_held t = {} then 0 else 1 :: nat)"
  have upd: "sum_list (map ?f (ts[i := u])) < sum_list (map ?f ts)" if i: "i < length ts" and u: "?f u < ?f (ts ! i)"
    for ts i u
  proof -
    have "?f (ts ! i) \<in> set (map ?f ts)" using i by simp
    then have "?f (ts ! i) \<le> sum_list (map ?f ts)" by (rule member_le_sum_list) simp
    then show ?thesis using i u by (simp add: map_update sum_list_update)
  qed
  from assms show ?thesis
    unfolding lock_work_def
  proof (induction rule: lock_step.induct)
    case (acquire i ts l ls)
    then show ?case by (intro upd) simp_all
  next
    case (finish i ts)
    then show ?case by (intro upd) simp_all
  qed
qed

lemma lock_drains:
  assumes "\<forall>t\<in>set ts. task_ordered t"
  shows "\<exists>ts'. lock_step\<^sup>*\<^sup>* ts ts' \<and> (\<forall>t\<in>set ts'. idle t)"
  using assms
proof (induction "lock_work ts" arbitrary: ts rule: less_induct)
  case less
  show ?case
  proof (cases "\<forall>t\<in>set ts. idle t")
    case False
    then obtain ts1 where s: "lock_step ts ts1" using lock_progress less.prems by blast
    from less.hyps [OF lock_step_work [OF s] lock_step_ordered [OF s less.prems]] s show ?thesis
      by (meson converse_rtranclp_into_rtranclp)
  qed blast
qed

section \<open>Properties\<close>

text \<open>
  C25. The backend cannot deadlock: whatever calls run concurrently and however their lock acquisitions
  interleave, as long as some call is unfinished one of them can take a step, every step reduces the
  work left, and all calls finish.
\<close>

theorem memory_deadlock_free:
  assumes "lock_step\<^sup>*\<^sup>* (map (task_of env) calls) ts"
  shows "((\<forall>t\<in>set ts. idle t) \<or> (\<exists>ts'. lock_step ts ts')) \<and>
    (\<forall>ts'. lock_step ts ts' \<longrightarrow> lock_work ts' < lock_work ts) \<and>
    (\<exists>ts'. lock_step\<^sup>*\<^sup>* ts ts' \<and> (\<forall>t\<in>set ts'. idle t))"
proof -
  have "\<forall>t\<in>set (map (task_of env) calls). task_ordered t"
    using call_locks_strict by (auto simp: task_of_def task_ordered_def)
  with assms have "\<forall>t\<in>set ts. task_ordered t"
    by (induction rule: rtranclp_induct) (use lock_step_ordered in blast)+
  then show ?thesis using lock_progress lock_step_work lock_drains by blast
qed

theorem memory_deadlock_free_witness:
  "\<exists>ts'. lock_step\<^sup>*\<^sup>* (map (task_of demo_env)
      [(demo_backend, WriteCall (CommitRequest (wallet_transfer ''op-1'' 0) commit_effects_default)),
       (demo_backend, LoadMultiCall [player_key ''22'', player_key ''1''])]) ts' \<and> (\<forall>t\<in>set ts'. idle t)"
  using memory_deadlock_free [of demo_env
      "[(demo_backend, WriteCall (CommitRequest (wallet_transfer ''op-1'' 0) commit_effects_default)),
       (demo_backend, LoadMultiCall [player_key ''22'', player_key ''1''])]", OF rtranclp.rtrancl_refl] by blast

end
