(* ===== verification/Wire_Types.thy ===== *)
theory Wire_Types
  imports Trade_Core
begin

text \<open>
  The messages of \<open>crates/dbproxy-protocol/proto/dbproxy.proto\<close> as the generated Rust types have them:
  a message-typed field is an option, a repeated field a list, an enumeration its 32-bit number, and
  a \<open>oneof\<close> an option of a datatype with one constructor per alternative. The messages that carry
  stored data come first, then the requests and responses of the service.
\<close>

type_synonym i32 = "32 word"

section \<open>Stored data\<close>

record wire_record_key =
  wk_namespace :: string
  wk_key :: string

record wire_snapshot_envelope =
  wse_record :: "wire_record_key option"
  wse_schema :: string
  wse_schema_version :: u32
  wse_revision :: u64
  wse_payload :: bytes
  wse_updated_at_unix_ms :: u64

record save_snapshot_request =
  wss_request_id :: string
  wss_record :: "wire_record_key option"
  wss_schema :: string
  wss_schema_version :: u32
  wss_payload :: bytes
  wss_expected_revision :: "u64 option"
  wss_updated_at_unix_ms :: u64

record apply_transaction_request =
  wat_operation_id :: string
  wat_record :: "wire_record_key option"
  wat_schema :: string
  wat_schema_version :: u32
  wat_expected_revision :: u64
  wat_payload :: bytes
  wat_result :: bytes
  wat_updated_at_unix_ms :: u64

record wire_record_write =
  wrw_record :: "wire_record_key option"
  wrw_schema :: string
  wrw_schema_version :: u32
  wrw_expected_revision :: u64
  wrw_payload :: bytes
  wrw_updated_at_unix_ms :: u64

record wire_append_record =
  wap_record :: "wire_record_key option"
  wap_schema :: string
  wap_schema_version :: u32
  wap_payload :: bytes
  wap_occurred_at_unix_ms :: u64

record wire_trade_envelope =
  wte_trade_id :: string
  wte_version :: u64
  wte_state :: i32
  wte_payload :: bytes
  wte_updated_at_unix_ms :: u64

record wire_trade_transition =
  wtt_trade_id :: string
  wtt_expected_version :: u64
  wtt_expected_state :: "i32 option"
  wtt_next_state :: i32
  wtt_payload :: bytes
  wtt_updated_at_unix_ms :: u64

record wire_ledger_posting =
  wlp_posting_id :: string
  wlp_account_id :: string
  wlp_asset :: string
  wlp_amount :: i64
  wlp_metadata :: bytes

record wire_outbox_event =
  woe_event_id :: string
  woe_topic :: string
  woe_partition_key :: string
  woe_payload :: bytes
  woe_occurred_at_unix_ms :: u64

record apply_trade_transaction_request =
  wtx_operation_id :: string
  wtx_transition :: "wire_trade_transition option"
  wtx_writes :: "wire_record_write list"
  wtx_ledger_postings :: "wire_ledger_posting list"
  wtx_outbox_events :: "wire_outbox_event list"
  wtx_result :: bytes

record wire_record_receipt =
  wrr_record :: "wire_record_key option"
  wrr_new_revision :: u64

record wire_trade_receipt =
  wtr_operation_id :: string
  wtr_trade_id :: string
  wtr_new_trade_version :: u64
  wtr_state :: i32
  wtr_records :: "wire_record_receipt list"
  wtr_ledger_posting_ids :: "string list"
  wtr_outbox_event_ids :: "string list"
  wtr_result :: bytes

record wire_transaction_receipt =
  wxr_operation_id :: string
  wxr_record :: "wire_record_key option"
  wxr_new_revision :: u64
  wxr_result :: bytes

record wire_multi_receipt =
  wmr_operation_id :: string
  wmr_records :: "wire_record_receipt list"
  wmr_result :: bytes

section \<open>Errors\<close>

datatype error_code =
    ErrorUnspecified | InvalidRequest | Unauthorized | ProtocolMismatch | RevisionConflictCode
  | IdempotencyConflictCode | OperationConflictCode | TradeConflictCode | LedgerConflictCode
  | OutboxConflictCode | OperationExpiredCode | StorageUnavailable | Internal

fun error_number :: "error_code \<Rightarrow> i32" where
  "error_number ErrorUnspecified = 0"
| "error_number InvalidRequest = 1001"
| "error_number Unauthorized = 1002"
| "error_number ProtocolMismatch = 1003"
| "error_number RevisionConflictCode = 2001"
| "error_number IdempotencyConflictCode = 2002"
| "error_number OperationConflictCode = 2003"
| "error_number TradeConflictCode = 2004"
| "error_number LedgerConflictCode = 2005"
| "error_number OutboxConflictCode = 2006"
| "error_number OperationExpiredCode = 2007"
| "error_number StorageUnavailable = 3001"
| "error_number Internal = 9000"

record rpc_error =
  re_code :: i32
  re_message :: string
  re_actual_revision :: "u64 option"

section \<open>Requests\<close>

record load_snapshot_request =
  wls_record :: "wire_record_key option"
  wls_allow_stale :: bool
  wls_min_revision :: "u64 option"

record load_multi_snapshot_request =
  wlm_records :: "wire_record_key list"
  wlm_allow_stale :: bool
  wlm_min_revisions :: "u64 list"

record apply_multi_transaction_request =
  wam_operation_id :: string
  wam_writes :: "wire_record_write list"
  wam_result :: bytes

record load_transaction_request =
  wlt_operation_id :: string
  wlt_record :: "wire_record_key option"

record load_multi_transaction_request =
  wlx_operation_id :: string
  wlx_records :: "wire_record_key list"

record load_trade_transaction_request =
  wlr_operation_id :: string
  wlr_trade_id :: string

record commit_records_request =
  wcr_operation_id :: string
  wcr_writes :: "wire_record_write list"
  wcr_result :: bytes
  wcr_appends :: "wire_append_record list"
  wcr_outbox_events :: "wire_outbox_event list"

datatype request_body =
    LoadSnapshot load_snapshot_request
  | SaveSnapshot save_snapshot_request
  | EnqueueSnapshot "save_snapshot_request option"
  | ApplyTransaction apply_transaction_request
  | LoadTransaction load_transaction_request
  | ApplyMultiTransaction apply_multi_transaction_request
  | LoadMultiTransaction load_multi_transaction_request
  | LoadMultiSnapshot load_multi_snapshot_request
  | SaveMultiSnapshot "save_snapshot_request list"
  | EnqueueMultiSnapshot "save_snapshot_request list"
  | ApplyTradeTransaction apply_trade_transaction_request
  | LoadTrade string
  | LoadTradeTransaction load_trade_transaction_request
  | CommitRecords commit_records_request

record request_envelope =
  rq_rpc_id :: u64
  rq_body :: "request_body option"

section \<open>Responses\<close>

datatype write_disposition = DispositionUnspecified | DispositionApplied | DispositionDuplicate

fun disposition_number :: "write_disposition \<Rightarrow> i32" where
  "disposition_number DispositionUnspecified = 0"
| "disposition_number DispositionApplied = 1"
| "disposition_number DispositionDuplicate = 2"

record save_snapshot_response =
  wsr_disposition :: i32
  wsr_revision :: u64

record save_multi_entry =
  wsm_result :: "save_snapshot_response option"
  wsm_error :: "rpc_error option"

record enqueue_multi_entry =
  wem_accepted :: bool
  wem_error :: "rpc_error option"

record apply_transaction_response =
  war_disposition :: i32
  war_new_revision :: u64
  war_result :: bytes

record apply_multi_response =
  wmx_disposition :: i32
  wmx_records :: "wire_record_receipt list"
  wmx_result :: bytes

record apply_trade_response =
  wtd_disposition :: i32
  wtd_receipt :: "wire_trade_receipt option"

datatype response_body =
    LoadSnapshotResponse "wire_snapshot_envelope option"
  | SaveSnapshotResponse save_snapshot_response
  | EnqueueSnapshotResponse bool
  | ApplyTransactionResponse apply_transaction_response
  | LoadTransactionResponse "wire_transaction_receipt option"
  | ApplyMultiTransactionResponse apply_multi_response
  | LoadMultiTransactionResponse "wire_multi_receipt option"
  | LoadMultiSnapshotResponse "wire_snapshot_envelope option list"
  | SaveMultiSnapshotResponse "save_multi_entry list"
  | EnqueueMultiSnapshotResponse "enqueue_multi_entry list"
  | ApplyTradeTransactionResponse apply_trade_response
  | LoadTradeResponse "wire_trade_envelope option"
  | LoadTradeTransactionResponse "wire_trade_receipt option"
  | CommitRecordsResponse apply_multi_response

record response_envelope =
  rp_rpc_id :: u64
  rp_error :: "rpc_error option"
  rp_body :: "response_body option"

section \<open>Handshake\<close>

record client_hello =
  ch_protocol_version :: u32
  ch_protocol_fingerprint :: string
  ch_auth_token :: string
  ch_client_name :: string

record server_hello =
  sh_protocol_version :: u32
  sh_protocol_fingerprint :: string
  sh_accepted :: bool
  sh_error :: "rpc_error option"
  sh_supports_outbox_relay :: bool

datatype client_frame = ClientHelloFrame client_hello | RequestFrame request_envelope | EmptyClientFrame

datatype server_frame = ServerHelloFrame server_hello | ResponseFrame response_envelope

end
