(* ===== verification/Protocol.thy ===== *)
theory Protocol
  imports Wire_Types
begin

text \<open>
  \<open>crates/dbproxy-protocol/src/lib.rs\<close>: the conversions between the stored types and the wire messages
  with their field limits, and the length-prefixed frames. Each \<open>From\<close> is a function \<open>.._to_wire\<close>,
  each \<open>TryFrom\<close> a function \<open>.._of_wire\<close> into a result.

  The lemmas have one form: a message converts to \<open>x\<close> exactly when it is the message of \<open>x\<close> and \<open>x\<close>
  respects the limits. So an accepted message loses nothing, a value within the limits survives the
  round trip, and two messages of the same value are equal.

  The protobuf encoding is generated code of another package: it is the parameter \<open>msg_codec\<close> of the
  framing, of which only faithfulness is assumed where it is needed.
\<close>

unbundle bit_operations_syntax

section \<open>Limits and errors\<close>

definition DEFAULT_MAX_FRAME_BYTES :: nat where "DEFAULT_MAX_FRAME_BYTES = 8 * 1024 * 1024"
definition DEFAULT_MAX_PAYLOAD_BYTES :: nat where "DEFAULT_MAX_PAYLOAD_BYTES = 1024 * 1024"
definition MAX_AUTH_TOKEN_BYTES :: nat where "MAX_AUTH_TOKEN_BYTES = 512"
definition MAX_CLIENT_NAME_BYTES :: nat where "MAX_CLIENT_NAME_BYTES = 128"
definition MAX_NAMESPACE_BYTES :: nat where "MAX_NAMESPACE_BYTES = 128"
definition MAX_RECORD_KEY_BYTES :: nat where "MAX_RECORD_KEY_BYTES = 512"
definition MAX_SCHEMA_BYTES :: nat where "MAX_SCHEMA_BYTES = 256"
definition MAX_IDEMPOTENCY_KEY_BYTES :: nat where "MAX_IDEMPOTENCY_KEY_BYTES = 256"
definition MAX_TRANSACTION_RECORDS :: nat where "MAX_TRANSACTION_RECORDS = 256"
definition MAX_BATCH_LOAD_RECORDS :: nat where "MAX_BATCH_LOAD_RECORDS = 64"
definition MAX_BATCH_SNAPSHOT_WRITES :: nat where "MAX_BATCH_SNAPSHOT_WRITES = 64"
definition MAX_TRADE_ID_BYTES :: nat where "MAX_TRADE_ID_BYTES = 256"
definition MAX_LEDGER_POSTINGS :: nat where "MAX_LEDGER_POSTINGS = 512"
definition MAX_LEDGER_FIELD_BYTES :: nat where "MAX_LEDGER_FIELD_BYTES = 256"
definition MAX_OUTBOX_EVENTS :: nat where "MAX_OUTBOX_EVENTS = 64"
definition MAX_OUTBOX_TOPIC_BYTES :: nat where "MAX_OUTBOX_TOPIC_BYTES = 128"
definition MAX_OUTBOX_PARTITION_KEY_BYTES :: nat where "MAX_OUTBOX_PARTITION_KEY_BYTES = 512"

lemmas limit_defs = MAX_NAMESPACE_BYTES_def MAX_RECORD_KEY_BYTES_def MAX_SCHEMA_BYTES_def
  MAX_IDEMPOTENCY_KEY_BYTES_def MAX_TRANSACTION_RECORDS_def MAX_TRADE_ID_BYTES_def MAX_LEDGER_POSTINGS_def
  MAX_LEDGER_FIELD_BYTES_def MAX_OUTBOX_EVENTS_def MAX_OUTBOX_TOPIC_BYTES_def
  MAX_OUTBOX_PARTITION_KEY_BYTES_def

datatype protocol_error =
    Io string
  | InvalidFrameLength nat nat
  | Decode
  | MissingField string
  | InvalidField string
  | ProtocolStore store_error

definition validate_text :: "string \<Rightarrow> string \<Rightarrow> nat \<Rightarrow> (unit, protocol_error) result" where
  "validate_text s field maximum =
     (if blank s \<or> maximum < length s then Err (InvalidField field) else Ok ())"

definition text_ok :: "nat \<Rightarrow> string \<Rightarrow> bool" where
  "text_ok maximum s \<longleftrightarrow> \<not> blank s \<and> length s \<le> maximum"

lemma validate_text_Ok_iff [result_simps]: "validate_text s field n = Ok u \<longleftrightarrow> text_ok n s"
  by (auto simp: validate_text_def text_ok_def)

lemma validate_text_Ok: "text_ok n s \<Longrightarrow> validate_text s field n = Ok ()"
  by (simp add: validate_text_Ok_iff)

lemma validate_all_Ok:
  "list_all (text_ok n) xs \<Longrightarrow> try_each (\<lambda>i. validate_text i field n) xs = Ok ()"
  by (simp add: try_each_Ok_iff validate_text_Ok_iff list_all_iff)

section \<open>The contract of a conversion\<close>

text \<open>
  What every pair of conversions promises: the message is accepted as \<open>x\<close> exactly when it is the message
  of \<open>x\<close> and \<open>x\<close> is within its limits. Repeated and message-typed fields inherit the contract.
\<close>

locale wire_codec =
  fixes to_wire :: "'a \<Rightarrow> 'w"
    and of_wire :: "'w \<Rightarrow> ('a, protocol_error) result"
    and in_limits :: "'a \<Rightarrow> bool"
  assumes of_wire_iff: "of_wire w = Ok x \<longleftrightarrow> w = to_wire x \<and> in_limits x"
begin

lemma of_wire_to_wire: "of_wire (to_wire x) = Ok x \<longleftrightarrow> in_limits x"
  by (simp add: of_wire_iff)

lemma to_wire_inj:
  assumes "in_limits x" and "in_limits y" and "to_wire x = to_wire y"
  shows "x = y"
proof -
  have "of_wire (to_wire y) = Ok x" using assms(1,3) of_wire_to_wire [of x] by simp
  then show ?thesis using assms(2) of_wire_to_wire [of y] by simp
qed

lemma all_of_wire_iff: "try_map of_wire ws = Ok xs \<longleftrightarrow> ws = map to_wire xs \<and> list_all in_limits xs"
proof -
  have "list_all2 (\<lambda>w x. of_wire w = Ok x) ws xs \<longleftrightarrow> ws = map to_wire xs \<and> list_all in_limits xs"
  proof (induction ws arbitrary: xs)
    case (Cons w ws)
    show ?case by (cases xs) (auto simp: Cons.IH of_wire_iff [of w])
  qed auto
  then show ?thesis by (simp add: try_map_Ok_iff)
qed

lemma of_wire_self: "in_limits x \<Longrightarrow> of_wire (to_wire x) = Ok x"
  by (simp add: of_wire_iff)

lemma all_of_wire_self: "list_all in_limits xs \<Longrightarrow> try_map of_wire (map to_wire xs) = Ok xs"
  by (simp add: all_of_wire_iff)

lemma required_of_wire_iff:
  "and_then (ok_or e v) of_wire = Ok x \<longleftrightarrow> v = Some (to_wire x) \<and> in_limits x"
  by (auto simp: result_simps of_wire_iff)

end

section \<open>Records\<close>

definition record_key_to_wire :: "record_key \<Rightarrow> wire_record_key" where
  "record_key_to_wire r = \<lparr>wk_namespace = namespace r, wk_key = key r\<rparr>"

definition record_key_of_wire :: "wire_record_key \<Rightarrow> (record_key, protocol_error) result" where
  "record_key_of_wire w =
     and_then (validate_text (wk_namespace w) ''record.namespace'' MAX_NAMESPACE_BYTES) (\<lambda>_.
     and_then (validate_text (wk_key w) ''record.key'' MAX_RECORD_KEY_BYTES) (\<lambda>_.
     map_err ProtocolStore (record_key_new (wk_namespace w) (wk_key w))))"

definition record_of_wire :: "string \<Rightarrow> wire_record_key option \<Rightarrow> (record_key, protocol_error) result" where
  "record_of_wire field w = and_then (ok_or (MissingField field) w) record_key_of_wire"

definition key_in_limits :: "record_key \<Rightarrow> bool" where
  "key_in_limits r \<longleftrightarrow> text_ok MAX_NAMESPACE_BYTES (namespace r) \<and> text_ok MAX_RECORD_KEY_BYTES (key r)"

lemma record_key_of_wire_iff [result_simps]:
  "record_key_of_wire w = Ok r \<longleftrightarrow> w = record_key_to_wire r \<and> key_in_limits r"
  by (cases w; cases r) (auto simp: record_key_of_wire_def result_simps record_key_new_iff valid_record_def
      record_key_to_wire_def key_in_limits_def text_ok_def)

lemma record_of_wire_iff [result_simps]:
  "record_of_wire field w = Ok r \<longleftrightarrow> w = Some (record_key_to_wire r) \<and> key_in_limits r"
  by (auto simp: record_of_wire_def result_simps)

section \<open>Snapshots\<close>

definition snapshot_to_wire :: "snapshot_envelope \<Rightarrow> wire_snapshot_envelope" where
  "snapshot_to_wire s =
     \<lparr>wse_record = Some (record_key_to_wire (se_record s)), wse_schema = se_schema s,
      wse_schema_version = se_schema_version s, wse_revision = se_revision s, wse_payload = se_payload s,
      wse_updated_at_unix_ms = se_updated_at_unix_ms s\<rparr>"

definition snapshot_of_wire :: "wire_snapshot_envelope \<Rightarrow> (snapshot_envelope, protocol_error) result" where
  "snapshot_of_wire w =
     and_then (validate_text (wse_schema w) ''snapshot.schema'' MAX_SCHEMA_BYTES) (\<lambda>_.
     and_then (record_of_wire ''snapshot.record'' (wse_record w)) (\<lambda>r.
     Ok \<lparr>se_record = r, se_schema = wse_schema w, se_schema_version = wse_schema_version w,
         se_revision = wse_revision w, se_payload = wse_payload w,
         se_updated_at_unix_ms = wse_updated_at_unix_ms w\<rparr>))"

definition save_to_wire :: "snapshot_write \<Rightarrow> save_snapshot_request" where
  "save_to_wire q =
     \<lparr>wss_request_id = sw_request_id q, wss_record = Some (record_key_to_wire (sw_record q)),
      wss_schema = sw_schema q, wss_schema_version = sw_schema_version q, wss_payload = sw_payload q,
      wss_expected_revision = sw_expected_revision q, wss_updated_at_unix_ms = sw_updated_at_unix_ms q\<rparr>"

definition save_of_wire :: "save_snapshot_request \<Rightarrow> (snapshot_write, protocol_error) result" where
  "save_of_wire w =
     and_then (validate_text (wss_request_id w) ''save_snapshot.request_id'' MAX_IDEMPOTENCY_KEY_BYTES) (\<lambda>_.
     and_then (validate_text (wss_schema w) ''save_snapshot.schema'' MAX_SCHEMA_BYTES) (\<lambda>_.
     and_then (record_of_wire ''save_snapshot.record'' (wss_record w)) (\<lambda>r.
     Ok \<lparr>sw_request_id = wss_request_id w, sw_record = r, sw_schema = wss_schema w,
         sw_schema_version = wss_schema_version w, sw_payload = wss_payload w,
         sw_expected_revision = wss_expected_revision w,
         sw_updated_at_unix_ms = wss_updated_at_unix_ms w\<rparr>)))"

definition snapshot_in_limits :: "snapshot_envelope \<Rightarrow> bool" where
  "snapshot_in_limits s \<longleftrightarrow> text_ok MAX_SCHEMA_BYTES (se_schema s) \<and> key_in_limits (se_record s)"

definition save_in_limits :: "snapshot_write \<Rightarrow> bool" where
  "save_in_limits q \<longleftrightarrow> text_ok MAX_IDEMPOTENCY_KEY_BYTES (sw_request_id q) \<and>
     text_ok MAX_SCHEMA_BYTES (sw_schema q) \<and> key_in_limits (sw_record q)"

lemma snapshot_of_wire_iff [result_simps]:
  "snapshot_of_wire w = Ok s \<longleftrightarrow> w = snapshot_to_wire s \<and> snapshot_in_limits s"
  by (cases w; cases s) (auto simp: snapshot_of_wire_def result_simps snapshot_to_wire_def snapshot_in_limits_def)

lemma save_of_wire_iff [result_simps]:
  "save_of_wire w = Ok q \<longleftrightarrow> w = save_to_wire q \<and> save_in_limits q"
  by (cases w; cases q) (auto simp: save_of_wire_def result_simps save_to_wire_def save_in_limits_def)

section \<open>Transactions\<close>

definition transaction_to_wire :: "transactional_write \<Rightarrow> apply_transaction_request" where
  "transaction_to_wire q =
     \<lparr>wat_operation_id = tw_operation_id q, wat_record = Some (record_key_to_wire (tw_record q)),
      wat_schema = tw_schema q, wat_schema_version = tw_schema_version q,
      wat_expected_revision = tw_expected_revision q, wat_payload = tw_payload q, wat_result = tw_result q,
      wat_updated_at_unix_ms = tw_updated_at_unix_ms q\<rparr>"

definition transaction_of_wire :: "apply_transaction_request \<Rightarrow> (transactional_write, protocol_error) result" where
  "transaction_of_wire w =
     and_then (validate_text (wat_operation_id w) ''apply_transaction.operation_id'' MAX_IDEMPOTENCY_KEY_BYTES) (\<lambda>_.
     and_then (validate_text (wat_schema w) ''apply_transaction.schema'' MAX_SCHEMA_BYTES) (\<lambda>_.
     and_then (record_of_wire ''apply_transaction.record'' (wat_record w)) (\<lambda>r.
     Ok \<lparr>tw_operation_id = wat_operation_id w, tw_record = r, tw_schema = wat_schema w,
         tw_schema_version = wat_schema_version w, tw_expected_revision = wat_expected_revision w,
         tw_payload = wat_payload w, tw_result = wat_result w,
         tw_updated_at_unix_ms = wat_updated_at_unix_ms w\<rparr>)))"

definition record_write_to_wire :: "transactional_record_write \<Rightarrow> wire_record_write" where
  "record_write_to_wire q =
     \<lparr>wrw_record = Some (record_key_to_wire (rw_record q)), wrw_schema = rw_schema q,
      wrw_schema_version = rw_schema_version q, wrw_expected_revision = rw_expected_revision q,
      wrw_payload = rw_payload q, wrw_updated_at_unix_ms = rw_updated_at_unix_ms q\<rparr>"

definition record_write_of_wire :: "wire_record_write \<Rightarrow> (transactional_record_write, protocol_error) result" where
  "record_write_of_wire w =
     and_then (validate_text (wrw_schema w) ''transactional_record.schema'' MAX_SCHEMA_BYTES) (\<lambda>_.
     and_then (record_of_wire ''transactional_record.record'' (wrw_record w)) (\<lambda>r.
     Ok \<lparr>rw_record = r, rw_schema = wrw_schema w, rw_schema_version = wrw_schema_version w,
         rw_expected_revision = wrw_expected_revision w, rw_payload = wrw_payload w,
         rw_updated_at_unix_ms = wrw_updated_at_unix_ms w\<rparr>))"

definition append_to_wire :: "append_record \<Rightarrow> wire_append_record" where
  "append_to_wire a =
     \<lparr>wap_record = Some (record_key_to_wire (ap_record a)), wap_schema = ap_schema a,
      wap_schema_version = ap_schema_version a, wap_payload = ap_payload a,
      wap_occurred_at_unix_ms = ap_occurred_at_unix_ms a\<rparr>"

definition append_of_wire :: "wire_append_record \<Rightarrow> (append_record, protocol_error) result" where
  "append_of_wire w =
     (if blank (wap_schema w) \<or> MAX_SCHEMA_BYTES < length (wap_schema w)
      then Err (InvalidField ''append.schema'')
      else and_then (record_of_wire ''append.record'' (wap_record w)) (\<lambda>r.
        Ok \<lparr>ap_record = r, ap_schema = wap_schema w, ap_schema_version = wap_schema_version w,
            ap_payload = wap_payload w, ap_occurred_at_unix_ms = wap_occurred_at_unix_ms w\<rparr>))"

definition transaction_in_limits :: "transactional_write \<Rightarrow> bool" where
  "transaction_in_limits q \<longleftrightarrow> text_ok MAX_IDEMPOTENCY_KEY_BYTES (tw_operation_id q) \<and>
     text_ok MAX_SCHEMA_BYTES (tw_schema q) \<and> key_in_limits (tw_record q)"

definition record_write_in_limits :: "transactional_record_write \<Rightarrow> bool" where
  "record_write_in_limits q \<longleftrightarrow> text_ok MAX_SCHEMA_BYTES (rw_schema q) \<and> key_in_limits (rw_record q)"

definition append_in_limits :: "append_record \<Rightarrow> bool" where
  "append_in_limits a \<longleftrightarrow> text_ok MAX_SCHEMA_BYTES (ap_schema a) \<and> key_in_limits (ap_record a)"

lemma transaction_of_wire_iff [result_simps]:
  "transaction_of_wire w = Ok q \<longleftrightarrow> w = transaction_to_wire q \<and> transaction_in_limits q"
  by (cases w; cases q)
    (auto simp: transaction_of_wire_def result_simps transaction_to_wire_def transaction_in_limits_def)

lemma record_write_of_wire_iff [result_simps]:
  "record_write_of_wire w = Ok q \<longleftrightarrow> w = record_write_to_wire q \<and> record_write_in_limits q"
  by (cases w; cases q)
    (auto simp: record_write_of_wire_def result_simps record_write_to_wire_def record_write_in_limits_def)

lemma append_of_wire_iff [result_simps]:
  "append_of_wire w = Ok a \<longleftrightarrow> w = append_to_wire a \<and> append_in_limits a"
  by (cases w; cases a)
    (auto simp: append_of_wire_def result_simps append_to_wire_def append_in_limits_def text_ok_def)

section \<open>Trades\<close>

fun trade_state_to_wire :: "trade_state \<Rightarrow> i32" where
  "trade_state_to_wire Proposed = 1"
| "trade_state_to_wire Escrowed = 2"
| "trade_state_to_wire Settled = 3"
| "trade_state_to_wire Cancelled = 4"

definition core_trade_state :: "i32 \<Rightarrow> (trade_state, protocol_error) result" where
  "core_trade_state v =
     (if v = 1 then Ok Proposed
      else if v = 2 then Ok Escrowed
      else if v = 3 then Ok Settled
      else if v = 4 then Ok Cancelled
      else Err (InvalidField ''trade.state''))"

lemma core_trade_state_iff [result_simps]: "core_trade_state v = Ok s \<longleftrightarrow> v = trade_state_to_wire s"
  by (cases s) (auto simp: core_trade_state_def)

lemma core_trade_state_self: "core_trade_state (trade_state_to_wire s) = Ok s"
  by (simp add: core_trade_state_iff)

definition trade_to_wire :: "trade_envelope \<Rightarrow> wire_trade_envelope" where
  "trade_to_wire t =
     \<lparr>wte_trade_id = te_trade_id t, wte_version = te_version t, wte_state = trade_state_to_wire (te_state t),
      wte_payload = te_payload t, wte_updated_at_unix_ms = te_updated_at_unix_ms t\<rparr>"

definition trade_of_wire :: "wire_trade_envelope \<Rightarrow> (trade_envelope, protocol_error) result" where
  "trade_of_wire w =
     and_then (validate_text (wte_trade_id w) ''trade.trade_id'' MAX_TRADE_ID_BYTES) (\<lambda>_.
     and_then (core_trade_state (wte_state w)) (\<lambda>s.
     Ok \<lparr>te_trade_id = wte_trade_id w, te_version = wte_version w, te_state = s, te_payload = wte_payload w,
         te_updated_at_unix_ms = wte_updated_at_unix_ms w\<rparr>))"

definition transition_to_wire :: "trade_transition \<Rightarrow> wire_trade_transition" where
  "transition_to_wire t =
     \<lparr>wtt_trade_id = tt_trade_id t, wtt_expected_version = tt_expected_version t,
      wtt_expected_state = map_option trade_state_to_wire (tt_expected_state t),
      wtt_next_state = trade_state_to_wire (tt_next_state t), wtt_payload = tt_payload t,
      wtt_updated_at_unix_ms = tt_updated_at_unix_ms t\<rparr>"

text \<open>\<open>value.expected_state.map(core_trade_state).transpose()?\<close>\<close>

fun transpose_state :: "i32 option \<Rightarrow> (trade_state option, protocol_error) result" where
  "transpose_state None = Ok None"
| "transpose_state (Some v) = and_then (core_trade_state v) (\<lambda>s. Ok (Some s))"

definition transition_of_wire :: "wire_trade_transition \<Rightarrow> (trade_transition, protocol_error) result" where
  "transition_of_wire w =
     and_then (validate_text (wtt_trade_id w) ''trade_transition.trade_id'' MAX_TRADE_ID_BYTES) (\<lambda>_.
     and_then (transpose_state (wtt_expected_state w)) (\<lambda>e.
     and_then (core_trade_state (wtt_next_state w)) (\<lambda>n.
     Ok \<lparr>tt_trade_id = wtt_trade_id w, tt_expected_version = wtt_expected_version w, tt_expected_state = e,
         tt_next_state = n, tt_payload = wtt_payload w, tt_updated_at_unix_ms = wtt_updated_at_unix_ms w\<rparr>)))"

definition posting_to_wire :: "ledger_posting \<Rightarrow> wire_ledger_posting" where
  "posting_to_wire p =
     \<lparr>wlp_posting_id = lp_posting_id p, wlp_account_id = lp_account_id p, wlp_asset = lp_asset p,
      wlp_amount = lp_amount p, wlp_metadata = lp_metadata p\<rparr>"

definition posting_of_wire :: "wire_ledger_posting \<Rightarrow> (ledger_posting, protocol_error) result" where
  "posting_of_wire w =
     and_then (validate_text (wlp_posting_id w) ''ledger_posting.posting_id'' MAX_LEDGER_FIELD_BYTES) (\<lambda>_.
     and_then (validate_text (wlp_account_id w) ''ledger_posting.account_id'' MAX_LEDGER_FIELD_BYTES) (\<lambda>_.
     and_then (validate_text (wlp_asset w) ''ledger_posting.asset'' MAX_LEDGER_FIELD_BYTES) (\<lambda>_.
     Ok \<lparr>lp_posting_id = wlp_posting_id w, lp_account_id = wlp_account_id w, lp_asset = wlp_asset w,
         lp_amount = wlp_amount w, lp_metadata = wlp_metadata w\<rparr>)))"

definition event_to_wire :: "outbox_event \<Rightarrow> wire_outbox_event" where
  "event_to_wire e =
     \<lparr>woe_event_id = oe_event_id e, woe_topic = oe_topic e, woe_partition_key = oe_partition_key e,
      woe_payload = oe_payload e, woe_occurred_at_unix_ms = oe_occurred_at_unix_ms e\<rparr>"

definition topic_chars_ok :: "string \<Rightarrow> bool" where
  "topic_chars_ok s \<longleftrightarrow> list_all (\<lambda>b. is_ascii_alphanumeric b \<or> b \<in> set ''._-'') s"

definition event_of_wire :: "wire_outbox_event \<Rightarrow> (outbox_event, protocol_error) result" where
  "event_of_wire w =
     and_then (validate_text (woe_event_id w) ''outbox_event.event_id'' MAX_IDEMPOTENCY_KEY_BYTES) (\<lambda>_.
     and_then (validate_text (woe_topic w) ''outbox_event.topic'' MAX_OUTBOX_TOPIC_BYTES) (\<lambda>_.
     and_then (validate_text (woe_partition_key w) ''outbox_event.partition_key'' MAX_OUTBOX_PARTITION_KEY_BYTES) (\<lambda>_.
     if \<not> topic_chars_ok (woe_topic w) then Err (InvalidField ''outbox_event.topic'')
     else Ok \<lparr>oe_event_id = woe_event_id w, oe_topic = woe_topic w, oe_partition_key = woe_partition_key w,
              oe_payload = woe_payload w, oe_occurred_at_unix_ms = woe_occurred_at_unix_ms w\<rparr>)))"

definition trade_in_limits :: "trade_envelope \<Rightarrow> bool" where
  "trade_in_limits t \<longleftrightarrow> text_ok MAX_TRADE_ID_BYTES (te_trade_id t)"

definition transition_in_limits :: "trade_transition \<Rightarrow> bool" where
  "transition_in_limits t \<longleftrightarrow> text_ok MAX_TRADE_ID_BYTES (tt_trade_id t)"

definition posting_in_limits :: "ledger_posting \<Rightarrow> bool" where
  "posting_in_limits p \<longleftrightarrow> text_ok MAX_LEDGER_FIELD_BYTES (lp_posting_id p) \<and>
     text_ok MAX_LEDGER_FIELD_BYTES (lp_account_id p) \<and> text_ok MAX_LEDGER_FIELD_BYTES (lp_asset p)"

definition event_in_limits :: "outbox_event \<Rightarrow> bool" where
  "event_in_limits e \<longleftrightarrow> text_ok MAX_IDEMPOTENCY_KEY_BYTES (oe_event_id e) \<and>
     text_ok MAX_OUTBOX_TOPIC_BYTES (oe_topic e) \<and> topic_chars_ok (oe_topic e) \<and>
     text_ok MAX_OUTBOX_PARTITION_KEY_BYTES (oe_partition_key e)"

lemma trade_of_wire_iff [result_simps]:
  "trade_of_wire w = Ok t \<longleftrightarrow> w = trade_to_wire t \<and> trade_in_limits t"
  by (cases w; cases t) (auto simp: trade_of_wire_def result_simps trade_to_wire_def trade_in_limits_def)

lemma transpose_state_iff [result_simps]:
  "transpose_state v = Ok s \<longleftrightarrow> v = map_option trade_state_to_wire s"
  by (cases v; cases s) (auto simp: result_simps)

lemma transition_of_wire_iff [result_simps]:
  "transition_of_wire w = Ok t \<longleftrightarrow> w = transition_to_wire t \<and> transition_in_limits t"
  by (cases w; cases t)
    (auto simp: transition_of_wire_def result_simps transition_to_wire_def transition_in_limits_def)

lemma posting_of_wire_iff [result_simps]:
  "posting_of_wire w = Ok p \<longleftrightarrow> w = posting_to_wire p \<and> posting_in_limits p"
  by (cases w; cases p) (auto simp: posting_of_wire_def result_simps posting_to_wire_def posting_in_limits_def)

lemma event_of_wire_iff [result_simps]:
  "event_of_wire w = Ok e \<longleftrightarrow> w = event_to_wire e \<and> event_in_limits e"
  by (cases w; cases e) (auto simp: event_of_wire_def result_simps event_to_wire_def event_in_limits_def)

interpretation write_codec: wire_codec record_write_to_wire record_write_of_wire record_write_in_limits
  by unfold_locales (rule record_write_of_wire_iff)

interpretation transition_codec: wire_codec transition_to_wire transition_of_wire transition_in_limits
  by unfold_locales (rule transition_of_wire_iff)

interpretation posting_codec: wire_codec posting_to_wire posting_of_wire posting_in_limits
  by unfold_locales (rule posting_of_wire_iff)

interpretation event_codec: wire_codec event_to_wire event_of_wire event_in_limits
  by unfold_locales (rule event_of_wire_iff)

interpretation append_codec: wire_codec append_to_wire append_of_wire append_in_limits
  by unfold_locales (rule append_of_wire_iff)

interpretation save_codec: wire_codec save_to_wire save_of_wire save_in_limits
  by unfold_locales (rule save_of_wire_iff)

interpretation key_codec: wire_codec record_key_to_wire record_key_of_wire key_in_limits
  by unfold_locales (rule record_key_of_wire_iff)

section \<open>Trade transactions\<close>

definition trade_transaction_to_wire :: "trade_transaction \<Rightarrow> apply_trade_transaction_request" where
  "trade_transaction_to_wire q =
     \<lparr>wtx_operation_id = tx_operation_id q, wtx_transition = Some (transition_to_wire (tx_transition q)),
      wtx_writes = map record_write_to_wire (tx_writes q),
      wtx_ledger_postings = map posting_to_wire (tx_ledger_postings q),
      wtx_outbox_events = map event_to_wire (tx_outbox_events q), wtx_result = tx_result q\<rparr>"

definition trade_transaction_of_wire ::
    "apply_trade_transaction_request \<Rightarrow> (trade_transaction, protocol_error) result" where
  "trade_transaction_of_wire w =
     and_then (validate_text (wtx_operation_id w) ''apply_trade_transaction.operation_id'' MAX_IDEMPOTENCY_KEY_BYTES) (\<lambda>_.
     if MAX_TRANSACTION_RECORDS < length (wtx_writes w)
     then Err (InvalidField ''apply_trade_transaction.writes'')
     else if MAX_LEDGER_POSTINGS < length (wtx_ledger_postings w)
     then Err (InvalidField ''apply_trade_transaction.ledger_postings'')
     else if MAX_OUTBOX_EVENTS < length (wtx_outbox_events w)
     then Err (InvalidField ''apply_trade_transaction.outbox_events'')
     else
       and_then (and_then (ok_or (MissingField ''apply_trade_transaction.transition'') (wtx_transition w))
         transition_of_wire) (\<lambda>t.
       and_then (try_map record_write_of_wire (wtx_writes w)) (\<lambda>ws.
       and_then (try_map posting_of_wire (wtx_ledger_postings w)) (\<lambda>ps.
       and_then (try_map event_of_wire (wtx_outbox_events w)) (\<lambda>es.
       Ok \<lparr>tx_operation_id = wtx_operation_id w, tx_transition = t, tx_writes = ws,
           tx_ledger_postings = ps, tx_outbox_events = es, tx_result = wtx_result w\<rparr>)))))"

definition trade_transaction_in_limits :: "trade_transaction \<Rightarrow> bool" where
  "trade_transaction_in_limits q \<longleftrightarrow> text_ok MAX_IDEMPOTENCY_KEY_BYTES (tx_operation_id q) \<and>
     transition_in_limits (tx_transition q) \<and>
     length (tx_writes q) \<le> MAX_TRANSACTION_RECORDS \<and> list_all record_write_in_limits (tx_writes q) \<and>
     length (tx_ledger_postings q) \<le> MAX_LEDGER_POSTINGS \<and> list_all posting_in_limits (tx_ledger_postings q) \<and>
     length (tx_outbox_events q) \<le> MAX_OUTBOX_EVENTS \<and> list_all event_in_limits (tx_outbox_events q)"

lemma guard_Ok_iff: "(if b then Err e else r) = Ok x \<longleftrightarrow> \<not> b \<and> r = Ok x"
  by simp

lemmas codec_checks = guard_Ok_iff and_then_Ok_iff ok_or_Ok_iff validate_text_Ok_iff not_less de_Morgan_disj not_not
  write_codec.all_of_wire_iff posting_codec.all_of_wire_iff event_codec.all_of_wire_iff
  transition_codec.required_of_wire_iff transition_of_wire_iff

lemma trade_transaction_codec: "trade_transaction_of_wire w = Ok q \<longleftrightarrow>
    w = trade_transaction_to_wire q \<and> trade_transaction_in_limits q"
proof
  assume "trade_transaction_of_wire w = Ok q"
  then show "w = trade_transaction_to_wire q \<and> trade_transaction_in_limits q"
    unfolding trade_transaction_of_wire_def codec_checks
    by (elim exE conjE) (cases w, clarsimp simp: trade_transaction_to_wire_def trade_transaction_in_limits_def)
next
  assume "w = trade_transaction_to_wire q \<and> trade_transaction_in_limits q"
  then show "trade_transaction_of_wire w = Ok q"
    by (simp add: trade_transaction_to_wire_def trade_transaction_in_limits_def trade_transaction_of_wire_def
        validate_text_Ok transition_codec.of_wire_self write_codec.all_of_wire_self
        posting_codec.all_of_wire_self event_codec.all_of_wire_self)
qed

section \<open>Trade receipts\<close>

definition record_receipt_to_wire :: "transaction_record_receipt \<Rightarrow> wire_record_receipt" where
  "record_receipt_to_wire r =
     \<lparr>wrr_record = Some (record_key_to_wire (rr_record r)), wrr_new_revision = rr_new_revision r\<rparr>"

definition trade_receipt_to_wire :: "trade_receipt \<Rightarrow> wire_trade_receipt" where
  "trade_receipt_to_wire r =
     \<lparr>wtr_operation_id = rc_operation_id r, wtr_trade_id = rc_trade_id r,
      wtr_new_trade_version = rc_new_trade_version r, wtr_state = trade_state_to_wire (rc_state r),
      wtr_records = map record_receipt_to_wire (rc_records r),
      wtr_ledger_posting_ids = rc_ledger_posting_ids r, wtr_outbox_event_ids = rc_outbox_event_ids r,
      wtr_result = rc_result r\<rparr>"

definition trade_record_receipt_of_wire ::
    "wire_record_receipt \<Rightarrow> (transaction_record_receipt, protocol_error) result" where
  "trade_record_receipt_of_wire w =
     (if wrr_new_revision w = 0 then Err (InvalidField ''trade_receipt.record.new_revision'')
      else and_then (record_of_wire ''trade_receipt.record'' (wrr_record w)) (\<lambda>r.
        Ok \<lparr>rr_record = r, rr_new_revision = wrr_new_revision w\<rparr>))"

definition trade_receipt_of_wire :: "wire_trade_receipt \<Rightarrow> (trade_receipt, protocol_error) result" where
  "trade_receipt_of_wire w =
     and_then (validate_text (wtr_operation_id w) ''trade_receipt.operation_id'' MAX_IDEMPOTENCY_KEY_BYTES) (\<lambda>_.
     and_then (validate_text (wtr_trade_id w) ''trade_receipt.trade_id'' MAX_TRADE_ID_BYTES) (\<lambda>_.
     if wtr_new_trade_version w = 0 then Err (InvalidField ''trade_receipt.new_trade_version'')
     else if wtr_records w = [] \<or> MAX_TRANSACTION_RECORDS < length (wtr_records w)
     then Err (InvalidField ''trade_receipt.records'')
     else if MAX_LEDGER_POSTINGS < length (wtr_ledger_posting_ids w)
     then Err (InvalidField ''trade_receipt.ledger_posting_ids'')
     else if MAX_OUTBOX_EVENTS < length (wtr_outbox_event_ids w)
     then Err (InvalidField ''trade_receipt.outbox_event_ids'')
     else
       and_then (try_each (\<lambda>i. validate_text i ''trade_receipt.ledger_posting_id'' MAX_LEDGER_FIELD_BYTES)
         (wtr_ledger_posting_ids w)) (\<lambda>_.
       and_then (try_each (\<lambda>i. validate_text i ''trade_receipt.outbox_event_id'' MAX_IDEMPOTENCY_KEY_BYTES)
         (wtr_outbox_event_ids w)) (\<lambda>_.
       if card (set (wtr_ledger_posting_ids w)) \<noteq> length (wtr_ledger_posting_ids w) \<or>
          card (set (wtr_outbox_event_ids w)) \<noteq> length (wtr_outbox_event_ids w)
       then Err (InvalidField ''trade_receipt.identifiers'')
       else
         and_then (try_map trade_record_receipt_of_wire (wtr_records w)) (\<lambda>records.
         if card (set (map rr_record records)) \<noteq> length records
         then Err (InvalidField ''trade_receipt.records'')
         else
           and_then (core_trade_state (wtr_state w)) (\<lambda>s.
           Ok \<lparr>rc_operation_id = wtr_operation_id w, rc_trade_id = wtr_trade_id w,
               rc_new_trade_version = wtr_new_trade_version w, rc_state = s, rc_records = records,
               rc_ledger_posting_ids = wtr_ledger_posting_ids w,
               rc_outbox_event_ids = wtr_outbox_event_ids w, rc_result = wtr_result w\<rparr>))))))"

definition record_receipt_in_limits :: "transaction_record_receipt \<Rightarrow> bool" where
  "record_receipt_in_limits r \<longleftrightarrow> rr_new_revision r \<noteq> 0 \<and> key_in_limits (rr_record r)"

definition trade_receipt_in_limits :: "trade_receipt \<Rightarrow> bool" where
  "trade_receipt_in_limits r \<longleftrightarrow>
     text_ok MAX_IDEMPOTENCY_KEY_BYTES (rc_operation_id r) \<and> text_ok MAX_TRADE_ID_BYTES (rc_trade_id r) \<and>
     rc_new_trade_version r \<noteq> 0 \<and>
     rc_records r \<noteq> [] \<and> length (rc_records r) \<le> MAX_TRANSACTION_RECORDS \<and>
     list_all record_receipt_in_limits (rc_records r) \<and> distinct (map rr_record (rc_records r)) \<and>
     length (rc_ledger_posting_ids r) \<le> MAX_LEDGER_POSTINGS \<and> distinct (rc_ledger_posting_ids r) \<and>
     list_all (text_ok MAX_LEDGER_FIELD_BYTES) (rc_ledger_posting_ids r) \<and>
     length (rc_outbox_event_ids r) \<le> MAX_OUTBOX_EVENTS \<and> distinct (rc_outbox_event_ids r) \<and>
     list_all (text_ok MAX_IDEMPOTENCY_KEY_BYTES) (rc_outbox_event_ids r)"

lemma card_set_length: "card (set xs) = length xs \<longleftrightarrow> distinct xs"
  by (auto simp: distinct_card card_distinct)

lemma trade_record_receipt_of_wire_iff: "trade_record_receipt_of_wire w = Ok r \<longleftrightarrow>
    w = record_receipt_to_wire r \<and> record_receipt_in_limits r"
  by (cases w; cases r) (auto simp: trade_record_receipt_of_wire_def result_simps record_receipt_to_wire_def
      record_receipt_in_limits_def)

interpretation receipt_codec: wire_codec record_receipt_to_wire trade_record_receipt_of_wire record_receipt_in_limits
  by unfold_locales (rule trade_record_receipt_of_wire_iff)

lemma card_records_length:
  "card (rr_record ` set rs) = length rs \<longleftrightarrow> distinct (map rr_record rs)"
  using card_set_length [of "map rr_record rs"] by simp

lemmas trade_receipt_checks = codec_checks receipt_codec.all_of_wire_iff
  try_each_Ok_iff core_trade_state_iff card_set_length card_records_length

lemma trade_receipt_codec: "trade_receipt_of_wire w = Ok r \<longleftrightarrow>
    w = trade_receipt_to_wire r \<and> trade_receipt_in_limits r"
proof
  assume "trade_receipt_of_wire w = Ok r"
  then show "w = trade_receipt_to_wire r \<and> trade_receipt_in_limits r"
    unfolding trade_receipt_of_wire_def trade_receipt_checks
    by (elim exE conjE) (cases w, clarsimp simp: trade_receipt_to_wire_def trade_receipt_in_limits_def list_all_iff
        card_records_length)
next
  assume "w = trade_receipt_to_wire r \<and> trade_receipt_in_limits r"
  then show "trade_receipt_of_wire w = Ok r"
    by (simp add: trade_receipt_to_wire_def trade_receipt_in_limits_def trade_receipt_of_wire_def
        validate_text_Ok validate_all_Ok receipt_codec.all_of_wire_self core_trade_state_self
        card_set_length card_records_length)
qed

section \<open>Frames\<close>

record 'm msg_codec =
  msg_encode :: "'m \<Rightarrow> bytes"
  msg_decode :: "bytes \<Rightarrow> 'm option"

definition to_be_bytes :: "u32 \<Rightarrow> bytes" where
  "to_be_bytes w = [ucast (drop_bit 24 w), ucast (drop_bit 16 w), ucast (drop_bit 8 w), ucast w]"

definition from_be_bytes :: "bytes \<Rightarrow> u32" where
  "from_be_bytes bs = foldl (\<lambda>w b. push_bit 8 w OR ucast b) 0 bs"

definition unexpected_eof :: protocol_error where
  "unexpected_eof = Io ''unexpected end of file''"

text \<open>
  The reader is the list of the bytes that still arrive before the peer closes the connection;
  \<open>read_exact\<close> fails when they are too few.
\<close>

definition read_exact :: "nat \<Rightarrow> bytes \<Rightarrow> bytes \<times> (bytes, protocol_error) result" where
  "read_exact n input =
     (if length input < n then ([], Err unexpected_eof) else (drop n input, Ok (take n input)))"

definition read_message :: "'m msg_codec \<Rightarrow> nat \<Rightarrow> bytes \<Rightarrow> bytes \<times> ('m option, protocol_error) result" where
  "read_message c maximum input =
     (case input of
        [] \<Rightarrow> ([], Ok None)
      | b # input1 \<Rightarrow>
          (case read_exact 3 input1 of
             (input2, Err e) \<Rightarrow> (input2, Err e)
           | (input2, Ok bs) \<Rightarrow>
               let len = unat (from_be_bytes (b # bs)) in
               if \<not> (1 \<le> len \<and> len \<le> maximum) then (input2, Err (InvalidFrameLength len maximum))
               else
                 (case read_exact len input2 of
                    (input3, Err e) \<Rightarrow> (input3, Err e)
                  | (input3, Ok payload) \<Rightarrow>
                      (case msg_decode c payload of
                         None \<Rightarrow> (input3, Err Decode)
                       | Some m \<Rightarrow> (input3, Ok (Some m))))))"

text \<open>The writer accepts every byte; the result is what was written.\<close>

definition write_message :: "'m msg_codec \<Rightarrow> 'm \<Rightarrow> nat \<Rightarrow> bytes \<times> (unit, protocol_error) result" where
  "write_message c m maximum =
     (let payload = msg_encode c m in
      if \<not> (1 \<le> length payload \<and> length payload \<le> maximum)
      then ([], Err (InvalidFrameLength (length payload) maximum))
      else if 2 ^ 32 \<le> length payload
      then ([], Err (InvalidFrameLength (length payload) maximum))
      else (to_be_bytes (of_nat (length payload)) @ payload, Ok ()))"

lemma from_be_to_be: "from_be_bytes (to_be_bytes w) = w"
proof (rule bit_word_eqI)
  fix n
  assume "n < LENGTH(32)"
  then consider "n < 8" | "8 \<le> n" "n < 16" | "16 \<le> n" "n < 24" | "24 \<le> n" "n < 32"
    by (simp, linarith)
  then show "bit (from_be_bytes (to_be_bytes w)) n = bit w n"
    by cases (auto simp: from_be_bytes_def to_be_bytes_def bit_simps)
qed

lemma byte_high_bits: "\<not> bit (b :: u8) (8 + n)" "\<not> bit (b :: u8) (16 + n)" "\<not> bit (b :: u8) (24 + n)"
  by (auto dest!: bit_imp_le_length)

lemma to_be_from_be: "to_be_bytes (from_be_bytes [a, b, c, d]) = [a, b, c, d]"
  by (auto simp: from_be_bytes_def to_be_bytes_def bit_simps byte_high_bits intro!: bit_word_eqI)

lemma length_to_be_bytes [simp]: "length (to_be_bytes w) = 4"
  by (simp add: to_be_bytes_def)

text \<open>The length prefix of a frame, read back.\<close>

lemma read_length: "read_message c maximum (to_be_bytes w @ input) =
    (let len = unat w in
     if \<not> (1 \<le> len \<and> len \<le> maximum) then (input, Err (InvalidFrameLength len maximum))
     else (case read_exact len input of
        (input3, Err e) \<Rightarrow> (input3, Err e)
      | (input3, Ok payload) \<Rightarrow> (case msg_decode c payload of None \<Rightarrow> (input3, Err Decode)
           | Some m \<Rightarrow> (input3, Ok (Some m)))))"
proof -
  obtain b bs where assms: "to_be_bytes w = b # bs" by (simp add: to_be_bytes_def)
  have "length (b # bs) = 4" unfolding assms [symmetric] by simp
  then have "length bs = 3" by simp
  then have r: "read_exact 3 (bs @ input) = (input, Ok bs)" by (simp add: read_exact_def)
  have w: "from_be_bytes (b # bs) = w" using from_be_to_be [of w] assms by simp
  show ?thesis by (simp add: read_message_def assms r w Let_def)
qed

text \<open>A frame of a payload, and the three ways a stream can start.\<close>

definition frame :: "bytes \<Rightarrow> bytes" where
  "frame payload = to_be_bytes (of_nat (length payload)) @ payload"

lemma unat_length_u32: "length p < 2 ^ 32 \<Longrightarrow> unat (of_nat (length p) :: u32) = length p"
  by (simp add: unat_of_nat)

lemma read_frame:
  assumes "1 \<le> length p" "length p \<le> maximum" "length p < 2 ^ 32"
  shows "read_message c maximum (frame p @ rest) =
    (rest, case msg_decode c p of None \<Rightarrow> Err Decode | Some m \<Rightarrow> Ok (Some m))"
  using assms unat_length_u32 [OF assms(3)]
  by (simp add: frame_def read_length read_exact_def Let_def split: option.split)

lemma read_short: "input \<noteq> [] \<Longrightarrow> length input < 4 \<Longrightarrow> read_message c maximum input = ([], Err unexpected_eof)"
  by (cases input) (simp_all add: read_message_def read_exact_def)

lemma read_cut_frame:
  assumes "1 \<le> length p" "length p \<le> maximum" "length p < 2 ^ 32"
    and k: "0 < k" "k < length (frame p)"
  shows "read_message c maximum (take k (frame p)) = ([], Err unexpected_eof)"
proof (cases "k < 4")
  case True
  have "length (take k (frame p)) = k" using k by simp
  with True k show ?thesis by (intro read_short) auto
next
  case False
  then have t: "take k (frame p) = to_be_bytes (of_nat (length p)) @ take (k - 4) p"
    by (simp add: frame_def)
  have "k - 4 < length p" using False k by (simp add: frame_def)
  then show ?thesis
    unfolding t using assms unat_length_u32 [OF assms(3)]
    by (simp add: read_length read_exact_def Let_def)
qed

lemma frame_of_stream:
  assumes "4 \<le> length input"
  obtains w input2 where "input = to_be_bytes w @ input2"
proof -
  obtain a b c d rest where "input = a # b # c # d # rest"
    using assms by (auto simp: numeral_eq_Suc Suc_le_length_iff)
  then have "input = to_be_bytes (from_be_bytes [a, b, c, d]) @ rest" by (simp add: to_be_from_be)
  then show thesis by (rule that)
qed

lemma read_message_iff: "read_message c maximum input = (rest, Ok (Some m)) \<longleftrightarrow>
    (\<exists>p. input = frame p @ rest \<and> 1 \<le> length p \<and> length p \<le> maximum \<and> length p < 2 ^ 32 \<and>
         msg_decode c p = Some m)"
proof
  assume r: "read_message c maximum input = (rest, Ok (Some m))"
  have "input \<noteq> []" using r by (auto simp: read_message_def)
  then have "4 \<le> length input" using r read_short [of input c maximum] by (cases "length input < 4") auto
  then obtain w input2 where i: "input = to_be_bytes w @ input2" by (rule frame_of_stream)
  define p where "p = take (unat w) input2"
  have len: "1 \<le> unat w" "unat w \<le> maximum" "unat w \<le> length input2"
    and d: "msg_decode c p = Some m" "rest = drop (unat w) input2"
    using r by (auto simp: i read_length Let_def read_exact_def p_def split: if_splits option.splits)
  have lp: "length p = unat w" using len by (simp add: p_def)
  have "input = frame p @ rest" by (simp add: i frame_def lp d(2)) (simp add: p_def)
  then show "\<exists>p. input = frame p @ rest \<and> 1 \<le> length p \<and> length p \<le> maximum \<and> length p < 2 ^ 32 \<and>
      msg_decode c p = Some m"
    using len d(1) lp unsigned_less [of w] by (intro exI [of _ p]) simp
next
  assume "\<exists>p. input = frame p @ rest \<and> 1 \<le> length p \<and> length p \<le> maximum \<and> length p < 2 ^ 32 \<and>
    msg_decode c p = Some m"
  then show "read_message c maximum input = (rest, Ok (Some m))" by (auto simp: read_frame)
qed

text \<open>Writing a list of messages, and reading until the peer closes or an error ends the connection.\<close>

fun write_messages :: "'m msg_codec \<Rightarrow> nat \<Rightarrow> 'm list \<Rightarrow> bytes \<times> (unit, protocol_error) result" where
  "write_messages c maximum [] = ([], Ok ())"
| "write_messages c maximum (m # ms) =
     (case write_message c m maximum of
        (out, Err e) \<Rightarrow> (out, Err e)
      | (out, Ok _) \<Rightarrow> (let (out', r) = write_messages c maximum ms in (out @ out', r)))"

lemma read_message_shorter:
  "read_message c maximum input = (rest, Ok (Some m)) \<Longrightarrow> length rest < length input"
  by (auto simp: read_message_iff frame_def)

function read_messages :: "'m msg_codec \<Rightarrow> nat \<Rightarrow> bytes \<Rightarrow> 'm list \<times> (unit, protocol_error) result" where
  "read_messages c maximum input =
     (case read_message c maximum input of
        (rest, Err e) \<Rightarrow> ([], Err e)
      | (rest, Ok None) \<Rightarrow> ([], Ok ())
      | (rest, Ok (Some m)) \<Rightarrow> (let (ms, r) = read_messages c maximum rest in (m # ms, r)))"
  by pat_completeness auto
termination
  by (relation "measure (\<lambda>(c, maximum, input). length input)") (auto dest!: read_message_shorter [OF sym])

declare read_messages.simps [simp del]

lemma write_message_Ok: "write_message c m maximum = (out, Ok ()) \<longleftrightarrow>
    out = frame (msg_encode c m) \<and> 1 \<le> length (msg_encode c m) \<and> length (msg_encode c m) \<le> maximum \<and>
    length (msg_encode c m) < 2 ^ 32"
  by (auto simp: write_message_def frame_def Let_def)

lemma read_messages_frame:
  assumes "msg_decode c (msg_encode c m) = Some m" and "write_message c m maximum = (out, Ok ())"
  shows "read_messages c maximum (out @ rest) =
    (m # fst (read_messages c maximum rest), snd (read_messages c maximum rest))"
proof -
  have "read_message c maximum (out @ rest) = (rest, Ok (Some m))"
    using assms by (simp add: write_message_Ok read_frame)
  then show ?thesis by (subst read_messages.simps) (simp add: case_prod_unfold Let_def)
qed

lemma read_messages_end:
  assumes "write_message c m maximum = (out, Ok ())" and "k < length out"
  shows "read_messages c maximum (take k out) = ([], if k = 0 then Ok () else Err unexpected_eof)"
proof (cases "k = 0")
  case True
  then show ?thesis by (subst read_messages.simps) (simp add: read_message_def)
next
  case False
  then have "read_message c maximum (take k out) = ([], Err unexpected_eof)"
    using assms by (simp add: write_message_Ok read_cut_frame)
  then show ?thesis using False by (subst read_messages.simps) simp
qed

section \<open>Schema fingerprint\<close>

text \<open>The build script hashes the schema after this normalisation (\<open>fingerprint.rs\<close>).\<close>

fun normalize_line_endings :: "bytes \<Rightarrow> bytes" where
  "normalize_line_endings [] = []"
| "normalize_line_endings (x # xs) =
     (if x = 13 then 10 # (case xs of
          [] \<Rightarrow> normalize_line_endings xs
        | y # ys \<Rightarrow> if y = 10 then normalize_line_endings ys else normalize_line_endings xs)
      else x # normalize_line_endings xs)"

definition LEGACY_PROTOCOL_FINGERPRINT_V2 :: string where
  "LEGACY_PROTOCOL_FINGERPRINT_V2 = ''d20f64198cedce3fd673708a08a9700c230d5a7aecc3d2ede47e4701143e4f1f''"
definition PRE_COMMIT_PROTOCOL_FINGERPRINT_V2 :: string where
  "PRE_COMMIT_PROTOCOL_FINGERPRINT_V2 = ''a5296d1ef9b288fcbd7f43ac9328c3a59187bf5e7ffdb31972d333a289509456''"
definition PRE_RELAY_PROTOCOL_FINGERPRINT_V2 :: string where
  "PRE_RELAY_PROTOCOL_FINGERPRINT_V2 = ''63894bf08f30464ba807fbfe6507bbd74a0aa30de8da1913d7857904f52e3e17''"
definition PRE_AUTHORITATIVE_PROTOCOL_FINGERPRINT_V2 :: string where
  "PRE_AUTHORITATIVE_PROTOCOL_FINGERPRINT_V2 = ''affd104ec61b48af713241daf11b2b7ba08577673054ee9aea0ef3653dab8c68''"
definition PRE_OPERATION_EXPIRED_PROTOCOL_FINGERPRINT_V2 :: string where
  "PRE_OPERATION_EXPIRED_PROTOCOL_FINGERPRINT_V2 = ''f02678836c752cdda8a083aed7cf9320797618c620e6a3b23247e6131604021a''"

text \<open>\<open>PROTOCOL_FINGERPRINT\<close> is written by the build script and is the first argument.\<close>

definition is_compatible_protocol_fingerprint :: "string \<Rightarrow> string \<Rightarrow> bool" where
  "is_compatible_protocol_fingerprint PROTOCOL_FINGERPRINT candidate \<longleftrightarrow>
     candidate = PROTOCOL_FINGERPRINT \<or>
     candidate = PRE_OPERATION_EXPIRED_PROTOCOL_FINGERPRINT_V2 \<or>
     candidate = LEGACY_PROTOCOL_FINGERPRINT_V2 \<or>
     candidate = PRE_COMMIT_PROTOCOL_FINGERPRINT_V2 \<or>
     candidate = PRE_RELAY_PROTOCOL_FINGERPRINT_V2 \<or>
     candidate = PRE_AUTHORITATIVE_PROTOCOL_FINGERPRINT_V2"

text \<open>
  A text file as its lines with the ending each one has. Two readings of the same bytes would differ
  only where an empty line ended by LF follows a line ended by CR.
\<close>

datatype line_ending = LF | CRLF | CR

fun ending_bytes :: "line_ending \<Rightarrow> bytes" where
  "ending_bytes LF = [10]"
| "ending_bytes CRLF = [13, 10]"
| "ending_bytes CR = [13]"

definition render :: "(bytes \<times> line_ending) list \<Rightarrow> bytes" where
  "render ls = concat (map (\<lambda>(l, e). l @ ending_bytes e) ls)"

fun unambiguous :: "(bytes \<times> line_ending) list \<Rightarrow> bool" where
  "unambiguous [] = True"
| "unambiguous ((l, e) # ls) \<longleftrightarrow>
     10 \<notin> set l \<and> 13 \<notin> set l \<and>
     (e = CR \<longrightarrow> (case ls of (l', e') # _ \<Rightarrow> l' \<noteq> [] \<or> e' \<noteq> LF | [] \<Rightarrow> True)) \<and> unambiguous ls"

lemma normalize_plain:
  "13 \<notin> set l \<Longrightarrow> normalize_line_endings (l @ xs) = l @ normalize_line_endings xs"
  by (induction l) auto

lemma normalize_ending:
  assumes "e = CR \<longrightarrow> xs = [] \<or> hd xs \<noteq> 10"
  shows "normalize_line_endings (ending_bytes e @ xs) = 10 # normalize_line_endings xs"
  using assms by (cases e; cases xs) auto

lemma render_Cons: "render ((l, e) # ls) = l @ ending_bytes e @ render ls"
  by (simp add: render_def)

lemma render_hd:
  assumes "unambiguous ls" "case ls of (l', e') # _ \<Rightarrow> l' \<noteq> [] \<or> e' \<noteq> LF | [] \<Rightarrow> True"
  shows "render ls = [] \<or> hd (render ls) \<noteq> 10"
proof (cases ls)
  case (Cons a ls')
  obtain l e where "a = (l, e)" by (cases a)
  then show ?thesis using assms Cons by (cases l; cases e) (auto simp: render_Cons)
qed (simp add: render_def)

lemma normalize_render:
  "unambiguous ls \<Longrightarrow> normalize_line_endings (render ls) = render (map (\<lambda>(l, e). (l, LF)) ls)"
proof (induction ls)
  case (Cons a ls)
  obtain l e where a: "a = (l, e)" by (cases a)
  have "e = CR \<longrightarrow> render ls = [] \<or> hd (render ls) \<noteq> 10"
    using Cons.prems render_hd [of ls] by (auto simp: a)
  then show ?case using Cons by (simp add: a render_Cons normalize_plain normalize_ending)
qed (simp add: render_def)

section \<open>Properties\<close>

text \<open>
  C26. A write request is accepted from the wire exactly when it is the message of a write within the
  published limits, for snapshot saves, single-record transactions and trade transactions: nothing
  the limits exclude is accepted, nothing they allow is refused, and no field is changed on the way.
\<close>

theorem wire_writes_exact:
  "(save_of_wire w1 = Ok q1 \<longleftrightarrow> w1 = save_to_wire q1 \<and> save_in_limits q1) \<and>
   (transaction_of_wire w2 = Ok q2 \<longleftrightarrow> w2 = transaction_to_wire q2 \<and> transaction_in_limits q2) \<and>
   (trade_transaction_of_wire w3 = Ok q3 \<longleftrightarrow>
      w3 = trade_transaction_to_wire q3 \<and> trade_transaction_in_limits q3)"
  using save_of_wire_iff transaction_of_wire_iff trade_transaction_codec by blast

text \<open>
  C27. A trade receipt survives the wire exactly when it names a version, a non-empty list of distinct
  records with a positive revision each, distinct posting and event identifiers, and respects the
  limits; the receiver then holds the receipt that was sent.
\<close>

theorem wire_trade_receipt_exact:
  "trade_receipt_of_wire w = Ok r \<longleftrightarrow> w = trade_receipt_to_wire r \<and> trade_receipt_in_limits r"
  by (rule trade_receipt_codec)

text \<open>
  C28. The framing is a faithful stream of messages: the messages of a successful sequence of writes are
  read back in order, and when the connection ends inside a further frame the reader reports an
  error; it reports a clean end exactly when the connection ends between two frames.
\<close>

theorem frames_roundtrip:
  assumes "\<And>m. msg_decode c (msg_encode c m) = Some m"
    and "write_messages c maximum ms = (out, Ok ())"
    and "write_message c m maximum = (last_frame, Ok ())" and "k < length last_frame"
  shows "read_messages c maximum (out @ take k last_frame) =
    (ms, if k = 0 then Ok () else Err unexpected_eof)"
  using assms(2)
proof (induction ms arbitrary: out)
  case Nil
  then show ?case using read_messages_end [OF assms(3,4)] by simp
next
  case (Cons a ms)
  then obtain out1 out2 where out: "write_message c a maximum = (out1, Ok ())"
    "write_messages c maximum ms = (out2, Ok ())" "out = out1 @ out2"
    by (auto split: prod.splits result.splits)
  show ?case using read_messages_frame [OF assms(1) out(1)] Cons.IH [OF out(2)] by (simp add: out(3))
qed

definition byte_codec :: "bytes msg_codec" where
  "byte_codec = \<lparr>msg_encode = \<lambda>m. m, msg_decode = \<lambda>p. Some p\<rparr>"

theorem frames_roundtrip_witness:
  "read_messages byte_codec 8 ([0, 0, 0, 2, 7, 9, 0, 0, 0, 1, 5] @ take 3 [0, 0, 0, 1, 6]) =
     ([[7, 9], [5]], Err unexpected_eof)"
proof -
  have w: "write_messages byte_codec 8 [[7, 9], [5]] = ([0, 0, 0, 2, 7, 9, 0, 0, 0, 1, 5], Ok ())"
    by (simp add: write_message_def byte_codec_def to_be_bytes_def)
  have m: "write_message byte_codec [6] 8 = ([0, 0, 0, 1, 6], Ok ())"
    by (simp add: write_message_def byte_codec_def to_be_bytes_def)
  show ?thesis using frames_roundtrip [OF _ w m, of 3] by (simp add: byte_codec_def)
qed

text \<open>
  The reader is bounded: it delivers a message exactly when the stream starts with a frame whose
  payload has between one and \<open>maximum\<close> bytes and decodes to it, and it consumes that frame and no
  more. A prefix that announces more than the maximum is refused before any payload is read.
\<close>

lemma frame_bounds:
  "(read_message c maximum input = (rest, Ok (Some m)) \<longleftrightarrow>
      (\<exists>p. input = frame p @ rest \<and> 1 \<le> length p \<and> length p \<le> maximum \<and> length p < 2 ^ 32 \<and>
           msg_decode c p = Some m)) \<and>
   (read_message c maximum (to_be_bytes w @ rest) = (rest, Err (InvalidFrameLength (unat w) maximum)) \<longleftrightarrow>
      unat w = 0 \<or> maximum < unat w)"
  by (simp only: read_message_iff)
    (auto simp: read_length Let_def read_exact_def unexpected_eof_def split: option.splits)

text \<open>
  The schema fingerprint does not depend on how a checkout ends its lines: whatever mix of LF, CRLF
  and CR a file uses, the normalised bytes are the lines ended by LF, and normalising again changes
  nothing.
\<close>

lemma fingerprint_line_endings:
  assumes "unambiguous ls"
  shows "normalize_line_endings (render ls) = render (map (\<lambda>(l, e). (l, LF)) ls) \<and>
    normalize_line_endings (normalize_line_endings (render ls)) = normalize_line_endings (render ls)"
proof -
  have "unambiguous (map (\<lambda>(l, e). (l, LF)) ls)"
    using assms by (induction ls) auto
  then show ?thesis using assms by (simp add: normalize_render case_prod_unfold comp_def)
qed

lemma fingerprint_line_endings_instance:
  "normalize_line_endings [65, 13, 10, 66, 13, 67, 10] = [65, 10, 66, 10, 67, 10]"
proof -
  have "unambiguous [([65], CRLF), ([66], CR), ([67], LF)]" by simp
  from fingerprint_line_endings [OF this] show ?thesis by (simp add: render_def)
qed

end
