(* ===== verification/Storage_Types.thy ===== *)
theory Storage_Types
  imports Core_Types
begin

text \<open>
  The error type of the storage adapters (\<open>crates/dbproxy-storage/src/lib.rs\<close>). An error of a driver
  package is what the source reads of it: the SQLSTATE of a PostgreSQL error, the text of a Redis
  error.
\<close>

datatype storage_error =
    StorageCore store_error
  | Postgres "string option"
  | PostgresConnectTimeout u64
  | Redis string
  | RedisAofNotDurable u64
  | InvalidRedisDurabilityBudget string
  | RedisDurabilityDeadlineExceeded
  | Codec string
  | CacheProtocol string
  | PersistenceProtocol string
  | InvalidRevision record_key i64
  | InvalidTimestamp record_key i64
  | SchemaVersionTooLarge record_key
  | RevisionTooLarge record_key
  | TimestampTooLarge record_key
  | MissingAfterWrite record_key
  | CacheFallbackGateClosed
  | CacheFallbackTimeout u64
  | CacheOperationTimeout string u64
  | InvalidCacheFallbackConcurrency
  | InvalidCacheFallbackTimeout
  | InvalidCacheOperationTimeout
  | InvalidPostgresConnectionWaitTimeout
  | InvalidPostgresReadConnections
  | InvalidReceiptRetention u64
  | InvalidOperationReceiptRetention u64
  | InvalidRetiredOperationRetention u64
  | InvalidPostgresReconnectCooldown
  | PostgresConnectionWaitTimeout u64
  | PostgresReconnectCooldown u64
  | InvalidCacheFallbackCircuitThreshold
  | InvalidCacheFallbackCircuitCooldown
  | CacheFallbackCircuitOpen u64
  | InvalidCacheFallbackLockLease
  | InvalidCacheFallbackLockWait
  | InvalidCacheFallbackLockPoll
  | InvalidCacheTtl
  | BacklogClock string
  | BacklogTimestampTooLarge
  | InvalidBacklogLease
  | BacklogLeaseTooLarge u64
  | BacklogProtocol string
  | BacklogEnqueueOverloaded nat
  | BacklogEnqueueDeadlineExceeded u64
  | BacklogEnqueueFailed string
  | BacklogEnqueueStopped
  | InvalidQueueLease
  | InvalidQueueWorker
  | QueueProtocol string
  | TradeProtocol string
  | TradeVersionTooLarge string
  | InvalidSnapshotPartitionLayout string
  | InvalidSchemaIndex string
  | SchemaMigrationConflict "32 word" string string

definition is_retryable_conflict :: "storage_error \<Rightarrow> bool" where
  "is_retryable_conflict e =
     (case e of
        Postgres code \<Rightarrow> (case code of None \<Rightarrow> False | Some c \<Rightarrow> c = ''40P01'' \<or> c = ''40001'')
      | _ \<Rightarrow> False)"

end
