(* ===== verification/Server_Backend.thy ===== *)
theory Server_Backend
  imports Memory_Backend Storage_Types
begin

text \<open>
  The interface between the network layer and a backend (\<open>DbProxyBackend\<close> in
  \<open>crates/dbproxy-server/src/lib.rs\<close>): a record of operations on a state of any type, with the default
  methods of the trait, and \<open>MemoryBackend\<close> as an instance of it.

  A call returns the new state with \<open>Some\<close> of its result, or \<open>None\<close> when it panics.
\<close>

datatype backend_error =
    InvalidConfig string
  | Core store_error
  | Storage storage_error
  | Worker string

type_synonym ('s, 'a) call = "'s \<Rightarrow> 's \<times> ('a, backend_error) result option"

record 's db_backend =
  be_load :: "record_key \<Rightarrow> ('s, snapshot_envelope option) call"
  be_load_multi :: "record_key list \<Rightarrow> ('s, snapshot_envelope option list) call"
  be_load_cached :: "record_key \<Rightarrow> ('s, snapshot_envelope option) call"
  be_load_cached_multi :: "record_key list \<Rightarrow> ('s, snapshot_envelope option list) call"
  be_save :: "snapshot_write \<Rightarrow> ('s, snapshot_write_outcome) call"
  be_save_multi :: "snapshot_write list \<Rightarrow> ('s, (snapshot_write_outcome, backend_error) result list) call"
  be_enqueue_snapshot :: "snapshot_write \<Rightarrow> ('s, unit) call"
  be_enqueue_multi_snapshot :: "snapshot_write list \<Rightarrow> ('s, (unit, backend_error) result list) call"
  be_apply_transaction :: "transactional_write \<Rightarrow> ('s, transactional_write_outcome) call"
  be_load_transaction :: "string \<Rightarrow> record_key \<Rightarrow> ('s, transaction_receipt option) call"
  be_apply_multi_transaction :: "multi_record_transactional_write \<Rightarrow> ('s, multi_outcome) call"
  be_commit_records :: "multi_record_transactional_write \<Rightarrow> commit_effects \<Rightarrow> ('s, multi_outcome) call"
  be_load_multi_transaction :: "string \<Rightarrow> record_key list \<Rightarrow> ('s, multi_record_transaction_receipt option) call"
  be_load_trade :: "string \<Rightarrow> ('s, trade_envelope option) call"
  be_apply_trade_transaction :: "trade_transaction \<Rightarrow> ('s, trade_outcome) call"
  be_load_trade_transaction :: "string \<Rightarrow> string \<Rightarrow> ('s, trade_receipt option) call"

section \<open>Default methods\<close>

fun default_load_multi :: "(record_key \<Rightarrow> ('s, snapshot_envelope option) call) \<Rightarrow> record_key list \<Rightarrow>
    ('s, snapshot_envelope option list) call" where
  "default_load_multi load [] s = (s, Some (Ok []))"
| "default_load_multi load (r # rs) s =
     (case load r s of
        (s1, None) \<Rightarrow> (s1, None)
      | (s1, Some (Err e)) \<Rightarrow> (s1, Some (Err e))
      | (s1, Some (Ok x)) \<Rightarrow>
          (case default_load_multi load rs s1 of
             (s2, None) \<Rightarrow> (s2, None)
           | (s2, Some (Err e)) \<Rightarrow> (s2, Some (Err e))
           | (s2, Some (Ok xs)) \<Rightarrow> (s2, Some (Ok (x # xs)))))"

definition default_load_cached :: "(record_key \<Rightarrow> ('s, snapshot_envelope option) call) \<Rightarrow>
    record_key \<Rightarrow> ('s, snapshot_envelope option) call" where
  "default_load_cached load r = load r"

definition default_load_cached_multi :: "(record_key list \<Rightarrow> ('s, snapshot_envelope option list) call) \<Rightarrow>
    record_key list \<Rightarrow> ('s, snapshot_envelope option list) call" where
  "default_load_cached_multi load_multi rs = load_multi rs"

text \<open>
  The default batch methods run the single operation on every element and collect every result, an
  error of one element included.
\<close>

fun each_call :: "('q \<Rightarrow> ('s, 'a) call) \<Rightarrow> 'q list \<Rightarrow> ('s, ('a, backend_error) result list) call" where
  "each_call f [] s = (s, Some (Ok []))"
| "each_call f (q # qs) s =
     (case f q s of
        (s1, None) \<Rightarrow> (s1, None)
      | (s1, Some x) \<Rightarrow>
          (case each_call f qs s1 of
             (s2, Some (Ok xs)) \<Rightarrow> (s2, Some (Ok (x # xs)))
           | (s2, y) \<Rightarrow> (s2, y)))"

definition default_save_multi :: "(snapshot_write \<Rightarrow> ('s, snapshot_write_outcome) call) \<Rightarrow>
    snapshot_write list \<Rightarrow> ('s, (snapshot_write_outcome, backend_error) result list) call" where
  "default_save_multi save qs = each_call save qs"

definition default_enqueue_multi_snapshot :: "(snapshot_write \<Rightarrow> ('s, unit) call) \<Rightarrow>
    snapshot_write list \<Rightarrow> ('s, (unit, backend_error) result list) call" where
  "default_enqueue_multi_snapshot enqueue qs = each_call enqueue qs"

definition default_commit_records ::
    "multi_record_transactional_write \<Rightarrow> commit_effects \<Rightarrow> ('s, multi_outcome) call" where
  "default_commit_records q eff s =
     (s, Some (Err (InvalidConfig ''generic commits are not supported by this backend'')))"

definition default_apply_multi_transaction ::
    "multi_record_transactional_write \<Rightarrow> ('s, multi_outcome) call" where
  "default_apply_multi_transaction q s =
     (s, Some (Err (InvalidConfig ''multi-record transactions are not supported by this backend'')))"

definition default_load_multi_transaction ::
    "string \<Rightarrow> record_key list \<Rightarrow> ('s, multi_record_transaction_receipt option) call" where
  "default_load_multi_transaction i rs s =
     (s, Some (Err (InvalidConfig ''multi-record transactions are not supported by this backend'')))"

definition default_load_trade :: "string \<Rightarrow> ('s, trade_envelope option) call" where
  "default_load_trade i s =
     (s, Some (Err (InvalidConfig ''trade transactions are not supported by this backend'')))"

definition default_apply_trade_transaction :: "trade_transaction \<Rightarrow> ('s, trade_outcome) call" where
  "default_apply_trade_transaction q s =
     (s, Some (Err (InvalidConfig ''trade transactions are not supported by this backend'')))"

definition default_load_trade_transaction :: "string \<Rightarrow> string \<Rightarrow> ('s, trade_receipt option) call" where
  "default_load_trade_transaction i t s =
     (s, Some (Err (InvalidConfig ''trade transactions are not supported by this backend'')))"

section \<open>The memory backend as an instance\<close>

text \<open>
  The operations of the memory backend as calls: a read leaves the state, an error is wrapped by the
  \<open>?\<close> operator into \<open>Core\<close>, and a panicking operation, which the refinement of
  \<open>Memory_Backend\<close> excludes, leaves the state as it was.
\<close>

definition read_call :: "('s \<Rightarrow> ('a, store_error) result) \<Rightarrow> ('s, 'a) call" where
  "read_call f s = (s, Some (map_err Core (f s)))"

definition write_call :: "('s \<Rightarrow> 's \<times> ('a, store_error) result) \<Rightarrow> ('s, 'a) call" where
  "write_call f s = (let (s', x) = f s in (s', Some (map_err Core x)))"

definition panicking_call :: "('s \<Rightarrow> ('s \<times> ('a, store_error) result) option) \<Rightarrow> ('s, 'a) call" where
  "panicking_call f s = (case f s of None \<Rightarrow> (s, None) | Some (s', x) \<Rightarrow> (s', Some (map_err Core x)))"

definition memory_calls :: "mem_env \<Rightarrow> memory_backend db_backend" where
  "memory_calls env =
     \<lparr>be_load = \<lambda>r. read_call (\<lambda>b. Ok (mem_load env b r)),
      be_load_multi = \<lambda>rs b. (b, map_option Ok (mem_load_multi env b rs)),
      be_load_cached = default_load_cached (\<lambda>r. read_call (\<lambda>b. Ok (mem_load env b r))),
      be_load_cached_multi = default_load_cached_multi (\<lambda>rs b. (b, map_option Ok (mem_load_multi env b rs))),
      be_save = \<lambda>q. write_call (\<lambda>b. mem_save env b q),
      be_save_multi = default_save_multi (\<lambda>q. write_call (\<lambda>b. mem_save env b q)),
      be_enqueue_snapshot = \<lambda>q. write_call (\<lambda>b. mem_enqueue_snapshot env b q),
      be_enqueue_multi_snapshot =
        default_enqueue_multi_snapshot (\<lambda>q. write_call (\<lambda>b. mem_enqueue_snapshot env b q)),
      be_apply_transaction = \<lambda>q. write_call (\<lambda>b. mem_apply_transaction env b q),
      be_load_transaction = \<lambda>i r. read_call (\<lambda>b. mem_load_transaction env b i r),
      be_apply_multi_transaction = \<lambda>q. panicking_call (\<lambda>b. mem_apply_multi_transaction env b q),
      be_commit_records = \<lambda>q eff. panicking_call (\<lambda>b. mem_commit_records env b q eff),
      be_load_multi_transaction = \<lambda>i rs. read_call (\<lambda>b. mem_load_multi_transaction env b i rs),
      be_load_trade = \<lambda>i. read_call (\<lambda>b. mem_load_trade env b i),
      be_apply_trade_transaction = \<lambda>q. panicking_call (\<lambda>b. mem_apply_trade_transaction env b q),
      be_load_trade_transaction = \<lambda>i t. read_call (\<lambda>b. mem_load_trade_transaction env b i t)\<rparr>"

section \<open>What the defaults promise\<close>

lemma each_call_length:
  "each_call f qs s = (s', Some (Ok xs)) \<Longrightarrow> length xs = length qs"
  by (induction f qs s arbitrary: s' xs rule: each_call.induct)
    (auto split: prod.splits option.splits result.splits)

lemma each_call_never_fails: "snd (each_call f qs s) \<noteq> Some (Err e)"
  by (induction qs arbitrary: s) (auto split: prod.splits option.splits result.splits dest: arg_cong [of _ _ snd])

lemma default_load_multi_length:
  "default_load_multi load rs s = (s', Some (Ok xs)) \<Longrightarrow> length xs = length rs"
  by (induction load rs s arbitrary: s' xs rule: default_load_multi.induct)
    (auto split: prod.splits option.splits result.splits)

end
