(* ===== verification/Rpc_Dispatch.thy ===== *)
theory Rpc_Dispatch
  imports Protocol Server_Backend
begin

text \<open>
  Request dispatch of \<open>crates/dbproxy-server/src/lib.rs\<close>: the public failure of a request, the
  validators, the conversions of outcomes to responses, one handler per request of
  \<open>dispatch_body\<close>, and the envelope with the panic barrier of \<open>dispatch_isolated\<close>.

  A handler is a state transformer over any backend: it returns the new state with \<open>Some\<close> of a result,
  or \<open>None\<close> when a backend call panicked. The text of an error (\<open>to_string\<close>, derived by a macro of
  another package) is the parameter \<open>display\<close>; metrics and log lines are not part of the model.
\<close>

section \<open>Failures\<close>

record rpc_failure =
  rf_code :: error_code
  rf_public_message :: string
  rf_actual_revision :: "u64 option"

definition wire_error :: "error_code \<Rightarrow> string \<Rightarrow> u64 option \<Rightarrow> rpc_error" where
  "wire_error code message actual =
     \<lparr>re_code = error_number code, re_message = message, re_actual_revision = actual\<rparr>"

definition into_wire :: "rpc_failure \<Rightarrow> rpc_error" where
  "into_wire f = wire_error (rf_code f) (rf_public_message f) (rf_actual_revision f)"

definition failure_of :: "error_code \<Rightarrow> string \<Rightarrow> u64 option \<Rightarrow> rpc_failure" where
  "failure_of code message actual =
     \<lparr>rf_code = code, rf_public_message = message, rf_actual_revision = actual\<rparr>"

definition invalid_failure :: "string \<Rightarrow> rpc_failure" where
  "invalid_failure message = failure_of InvalidRequest message None"

definition internal_failure :: "string \<Rightarrow> rpc_failure" where
  "internal_failure message = failure_of Internal message None"

fun from_store :: "(store_error \<Rightarrow> string) \<Rightarrow> store_error \<Rightarrow> rpc_failure" where
  "from_store display (InvalidKey m) = invalid_failure (display (InvalidKey m))"
| "from_store display EmptyRequestId = invalid_failure (display EmptyRequestId)"
| "from_store display EmptyOperationId = invalid_failure (display EmptyOperationId)"
| "from_store display EmptyTransactionRecords = invalid_failure (display EmptyTransactionRecords)"
| "from_store display EmptyTradeId = invalid_failure (display EmptyTradeId)"
| "from_store display EmptyTradeRecords = invalid_failure (display EmptyTradeRecords)"
| "from_store display (DuplicateTransactionRecord r) = invalid_failure (display (DuplicateTransactionRecord r))"
| "from_store display (InvalidTradeStateTransition a b) =
     invalid_failure (display (InvalidTradeStateTransition a b))"
| "from_store display (InvalidLedgerPosting m) = invalid_failure (display (InvalidLedgerPosting m))"
| "from_store display (DuplicateLedgerPosting i) = invalid_failure (display (DuplicateLedgerPosting i))"
| "from_store display (UnbalancedLedger a) = invalid_failure (display (UnbalancedLedger a))"
| "from_store display (InvalidOutboxEvent m) = invalid_failure (display (InvalidOutboxEvent m))"
| "from_store display (DuplicateOutboxEvent i) = invalid_failure (display (DuplicateOutboxEvent i))"
| "from_store display (QueuedSnapshotRequiresUnconditionalWrite r) =
     invalid_failure (display (QueuedSnapshotRequiresUnconditionalWrite r))"
| "from_store display (IdempotencyConflict i) =
     failure_of IdempotencyConflictCode (display (IdempotencyConflict i)) None"
| "from_store display (OperationIdConflict i) =
     failure_of OperationConflictCode (display (OperationIdConflict i)) None"
| "from_store display (AppendRecordConflict r) =
     failure_of OperationConflictCode (display (AppendRecordConflict r)) None"
| "from_store display (OperationExpired i) =
     failure_of OperationExpiredCode (display (OperationExpired i)) None"
| "from_store display (RevisionConflict r e a) =
     failure_of RevisionConflictCode (display (RevisionConflict r e a)) (Some a)"
| "from_store display (TradeVersionConflict t e a) =
     failure_of TradeConflictCode (display (TradeVersionConflict t e a)) (Some a)"
| "from_store display (TradeStateConflict t e a) =
     failure_of TradeConflictCode (display (TradeStateConflict t e a)) None"
| "from_store display (LedgerPostingConflict i) =
     failure_of LedgerConflictCode (display (LedgerPostingConflict i)) None"
| "from_store display (OutboxEventConflict i) =
     failure_of OutboxConflictCode (display (OutboxEventConflict i)) None"
| "from_store display (RevisionExhausted r) = failure_of Internal ''revision exhausted'' None"
| "from_store display (TradeVersionExhausted t) = failure_of Internal ''revision exhausted'' None"

fun from_protocol :: "(store_error \<Rightarrow> string) \<Rightarrow> protocol_error \<Rightarrow> rpc_failure" where
  "from_protocol display (ProtocolStore e) = from_store display e"
| "from_protocol display (MissingField field) = invalid_failure (''missing field: '' @ field)"
| "from_protocol display (InvalidField field) = invalid_failure (''invalid field: '' @ field)"
| "from_protocol display (Io m) = failure_of Internal ''request conversion failed'' None"
| "from_protocol display (InvalidFrameLength l m) = failure_of Internal ''request conversion failed'' None"
| "from_protocol display Decode = failure_of Internal ''request conversion failed'' None"

definition from_backend :: "(store_error \<Rightarrow> string) \<Rightarrow> backend_error \<Rightarrow> rpc_failure" where
  "from_backend display e =
     (case e of
        InvalidConfig m \<Rightarrow> failure_of Internal ''DBProxy backend is misconfigured'' None
      | Core e' \<Rightarrow> from_store display e'
      | Storage s \<Rightarrow>
          (case s of
             StorageCore e' \<Rightarrow> from_store display e'
           | _ \<Rightarrow> failure_of StorageUnavailable
                    ''storage operation failed; retry with the same idempotency key'' None)
      | Worker m \<Rightarrow> internal_failure ''DBProxy backend worker failed'')"

section \<open>Validators\<close>

definition validate_payload_size :: "string \<Rightarrow> nat \<Rightarrow> nat \<Rightarrow> (unit, rpc_failure) result" where
  "validate_payload_size field len maximum =
     (if maximum < len
      then Err (invalid_failure (field @ '' exceeds maxPayloadBytes ('' @ decimal len @ '' > '' @ decimal maximum @ '')''))
      else Ok ())"

definition validate_text_field :: "string \<Rightarrow> string \<Rightarrow> nat \<Rightarrow> (unit, rpc_failure) result" where
  "validate_text_field field v maximum =
     (if blank v \<or> maximum < length v
      then Err (invalid_failure (field @ '' is empty or exceeds '' @ decimal maximum @ '' bytes''))
      else Ok ())"

definition validate_snapshot_write_batch :: "snapshot_write list \<Rightarrow> (unit, rpc_failure) result" where
  "validate_snapshot_write_batch ws =
     (if card (set (map sw_record ws)) \<noteq> length ws
      then Err (invalid_failure ''snapshot batch contains duplicate records'')
      else if card (set (map sw_request_id ws)) \<noteq> length ws
      then Err (invalid_failure ''snapshot batch contains duplicate request ids'')
      else Ok ())"

definition validate_snapshot_payloads :: "snapshot_write list \<Rightarrow> nat \<Rightarrow> (unit, rpc_failure) result" where
  "validate_snapshot_payloads ws maximum =
     try_each (\<lambda>w. validate_payload_size ''snapshot payload'' (length (sw_payload w)) maximum) ws"

definition validate_transaction_payloads ::
    "transactional_record_write list \<Rightarrow> nat \<Rightarrow> (unit, rpc_failure) result" where
  "validate_transaction_payloads ws maximum =
     try_each (\<lambda>w. validate_payload_size ''transaction payload'' (length (rw_payload w)) maximum) ws"

lemma validate_payload_size_Ok [result_simps]:
  "validate_payload_size field len maximum = Ok u \<longleftrightarrow> len \<le> maximum"
  by (auto simp: validate_payload_size_def)

lemma validate_text_field_Ok [result_simps]:
  "validate_text_field field v maximum = Ok u \<longleftrightarrow> text_ok maximum v"
  by (auto simp: validate_text_field_def text_ok_def)

section \<open>Outcomes as responses\<close>

fun disposition_of :: "'r write_outcome \<Rightarrow> write_disposition" where
  "disposition_of (Applied r) = DispositionApplied"
| "disposition_of (Duplicate r) = DispositionDuplicate"

definition snapshot_outcome :: "snapshot_write_outcome \<Rightarrow> write_disposition \<times> revision" where
  "snapshot_outcome x = (disposition_of x, outcome_receipt x)"

definition transaction_outcome :: "transactional_write_outcome \<Rightarrow> write_disposition \<times> revision \<times> bytes" where
  "transaction_outcome x = (disposition_of x, fst (outcome_receipt x), snd (outcome_receipt x))"

definition multi_transaction_receipt :: "multi_record_transaction_receipt \<Rightarrow> wire_multi_receipt" where
  "multi_transaction_receipt r =
     \<lparr>wmr_operation_id = mr_operation_id r, wmr_records = map record_receipt_to_wire (mr_records r),
      wmr_result = mr_result r\<rparr>"

definition multi_transaction_outcome :: "multi_outcome \<Rightarrow> apply_multi_response" where
  "multi_transaction_outcome x =
     \<lparr>wmx_disposition = disposition_number (disposition_of x),
      wmx_records = map record_receipt_to_wire (fst (outcome_receipt x)),
      wmx_result = snd (outcome_receipt x)\<rparr>"

definition transaction_receipt_to_wire :: "transaction_receipt \<Rightarrow> wire_transaction_receipt" where
  "transaction_receipt_to_wire r =
     \<lparr>wxr_operation_id = tr_operation_id r, wxr_record = Some (record_key_to_wire (tr_record r)),
      wxr_new_revision = tr_new_revision r, wxr_result = tr_result r\<rparr>"

definition trade_transaction_outcome :: "trade_outcome \<Rightarrow> apply_trade_response" where
  "trade_transaction_outcome x =
     \<lparr>wtd_disposition = disposition_number (disposition_of x),
      wtd_receipt = Some (trade_receipt_to_wire (outcome_receipt x))\<rparr>"

section \<open>Read fences\<close>

definition meets_read_fence :: "snapshot_envelope option \<Rightarrow> u64 \<Rightarrow> bool" where
  "meets_read_fence s m \<longleftrightarrow> m = 0 \<or> (case s of None \<Rightarrow> False | Some e \<Rightarrow> m \<le> se_revision e)"

definition require_read_fence :: "snapshot_envelope option \<Rightarrow> u64 \<Rightarrow> (unit, rpc_failure) result" where
  "require_read_fence s m =
     (if meets_read_fence s m then Ok ()
      else Err (failure_of StorageUnavailable
        ''committed snapshot has not reached the requested revision; retry the read''
        (map_option se_revision s)))"


section \<open>Handlers\<close>

type_synonym ('s, 'a) rpc = "'s \<Rightarrow> 's \<times> ('a, rpc_failure) result option"

definition rpc_of :: "('a, rpc_failure) result \<Rightarrow> ('s, 'a) rpc" where
  "rpc_of r s = (s, Some r)"

definition rpc_bind :: "('s, 'a) rpc \<Rightarrow> ('a \<Rightarrow> ('s, 'b) rpc) \<Rightarrow> ('s, 'b) rpc" where
  "rpc_bind m f s =
     (case m s of
        (s', None) \<Rightarrow> (s', None)
      | (s', Some (Err e)) \<Rightarrow> (s', Some (Err e))
      | (s', Some (Ok x)) \<Rightarrow> f x s')"

text \<open>\<open>backend.f(..).await.map_err(RpcFailure::from_backend)\<close>\<close>

definition rpc_call :: "(store_error \<Rightarrow> string) \<Rightarrow> ('s, 'a) call \<Rightarrow> ('s, 'a) rpc" where
  "rpc_call display c s = (let (s', x) = c s in (s', map_option (map_err (from_backend display)) x))"

text \<open>\<open>field.ok_or_else(|| RpcFailure::invalid(message))?.try_into().map_err(RpcFailure::from_protocol)?\<close>\<close>

definition required_record :: "(store_error \<Rightarrow> string) \<Rightarrow> string \<Rightarrow> wire_record_key option \<Rightarrow>
    (record_key, rpc_failure) result" where
  "required_record display message w =
     and_then (ok_or (invalid_failure message) w) (\<lambda>k. map_err (from_protocol display) (record_key_of_wire k))"

definition handle_load_snapshot ::
    "(store_error \<Rightarrow> string) \<Rightarrow> 's db_backend \<Rightarrow> load_snapshot_request \<Rightarrow> ('s, response_body) rpc" where
  "handle_load_snapshot display be q =
     rpc_bind (rpc_of (required_record display ''load_snapshot.record is missing'' (wls_record q))) (\<lambda>r.
     rpc_bind (rpc_call display (if wls_allow_stale q then be_load_cached be r else be_load be r)) (\<lambda>cached.
     let minimum = (case wls_min_revision q of None \<Rightarrow> 0 | Some m \<Rightarrow> m) in
     rpc_bind (if wls_allow_stale q \<and> \<not> meets_read_fence cached minimum
               then rpc_call display (be_load be r) else rpc_of (Ok cached)) (\<lambda>found.
     rpc_bind (rpc_of (require_read_fence found minimum)) (\<lambda>_.
     rpc_of (Ok (LoadSnapshotResponse (map_option snapshot_to_wire found)))))))"

definition handle_load_multi_snapshot ::
    "(store_error \<Rightarrow> string) \<Rightarrow> 's db_backend \<Rightarrow> load_multi_snapshot_request \<Rightarrow> ('s, response_body) rpc" where
  "handle_load_multi_snapshot display be q =
     (if wlm_records q = [] then rpc_of (Err (invalid_failure ''load_multi_snapshot.records is empty''))
      else if MAX_BATCH_LOAD_RECORDS < length (wlm_records q)
      then rpc_of (Err (invalid_failure ''load_multi_snapshot.records exceeds the record limit''))
      else
        rpc_bind (rpc_of (map_err (from_protocol display) (try_map record_key_of_wire (wlm_records q)))) (\<lambda>rs.
        if card (set rs) \<noteq> length rs
        then rpc_of (Err (invalid_failure ''load_multi_snapshot.records contains duplicates''))
        else if wlm_min_revisions q \<noteq> [] \<and> length (wlm_min_revisions q) \<noteq> length rs
        then rpc_of (Err (invalid_failure ''min_revisions must be empty or match records''))
        else
          let minima = (if wlm_min_revisions q = [] then replicate (length rs) 0 else wlm_min_revisions q) in
          rpc_bind (rpc_call display
            (if wlm_allow_stale q then be_load_cached_multi be rs else be_load_multi be rs)) (\<lambda>cached.
          rpc_bind (if wlm_allow_stale q \<and> (\<exists>(s, m)\<in>set (zip cached minima). \<not> meets_read_fence s m)
                    then rpc_call display (be_load_multi be rs) else rpc_of (Ok cached)) (\<lambda>found.
          rpc_bind (rpc_of (try_each (\<lambda>(s, m). require_read_fence s m) (zip found minima))) (\<lambda>_.
          if length found \<noteq> length rs
          then rpc_of (Err (internal_failure ''backend returned a mismatched batch load result''))
          else rpc_of (Ok (LoadMultiSnapshotResponse (map (map_option snapshot_to_wire) found))))))))"

definition handle_save_snapshot :: "(store_error \<Rightarrow> string) \<Rightarrow> 's db_backend \<Rightarrow> nat \<Rightarrow>
    save_snapshot_request \<Rightarrow> ('s, response_body) rpc" where
  "handle_save_snapshot display be max_payload w =
     rpc_bind (rpc_of (validate_payload_size ''save_snapshot.payload'' (length (wss_payload w)) max_payload)) (\<lambda>_.
     rpc_bind (rpc_of (map_err (from_protocol display) (save_of_wire w))) (\<lambda>q.
     rpc_bind (rpc_call display (be_save be q)) (\<lambda>x.
     let (disposition, revision) = snapshot_outcome x in
     rpc_of (Ok (SaveSnapshotResponse
       \<lparr>wsr_disposition = disposition_number disposition, wsr_revision = revision\<rparr>)))))"

definition save_entry :: "(store_error \<Rightarrow> string) \<Rightarrow> (snapshot_write_outcome, backend_error) result \<Rightarrow>
    save_multi_entry" where
  "save_entry display x =
     (case x of
        Ok out \<Rightarrow>
          let (disposition, revision) = snapshot_outcome out in
          \<lparr>wsm_result = Some \<lparr>wsr_disposition = disposition_number disposition, wsr_revision = revision\<rparr>,
           wsm_error = None\<rparr>
      | Err e \<Rightarrow> \<lparr>wsm_result = None, wsm_error = Some (into_wire (from_backend display e))\<rparr>)"

definition handle_save_multi_snapshot :: "(store_error \<Rightarrow> string) \<Rightarrow> 's db_backend \<Rightarrow> nat \<Rightarrow>
    save_snapshot_request list \<Rightarrow> ('s, response_body) rpc" where
  "handle_save_multi_snapshot display be max_payload ws =
     (if ws = [] then rpc_of (Err (invalid_failure ''save_multi_snapshot.writes is empty''))
      else if MAX_BATCH_SNAPSHOT_WRITES < length ws
      then rpc_of (Err (invalid_failure ''save_multi_snapshot.writes exceeds the record limit''))
      else
        rpc_bind (rpc_of (map_err (from_protocol display) (try_map save_of_wire ws))) (\<lambda>qs.
        rpc_bind (rpc_of (validate_snapshot_write_batch qs)) (\<lambda>_.
        rpc_bind (rpc_of (validate_snapshot_payloads qs max_payload)) (\<lambda>_.
        rpc_bind (rpc_call display (be_save_multi be qs)) (\<lambda>xs.
        if length xs \<noteq> length qs
        then rpc_of (Err (internal_failure ''backend returned a mismatched batch save result''))
        else rpc_of (Ok (SaveMultiSnapshotResponse (map (save_entry display) xs))))))))"

definition handle_enqueue_snapshot :: "(store_error \<Rightarrow> string) \<Rightarrow> 's db_backend \<Rightarrow> nat \<Rightarrow>
    save_snapshot_request option \<Rightarrow> ('s, response_body) rpc" where
  "handle_enqueue_snapshot display be max_payload w =
     rpc_bind (rpc_of (and_then (ok_or (invalid_failure ''enqueue_snapshot.write is missing'') w)
       (\<lambda>v. map_err (from_protocol display) (save_of_wire v)))) (\<lambda>q.
     rpc_bind (rpc_of (validate_payload_size ''enqueue_snapshot.payload'' (length (sw_payload q)) max_payload)) (\<lambda>_.
     rpc_bind (rpc_call display (be_enqueue_snapshot be q)) (\<lambda>_.
     rpc_of (Ok (EnqueueSnapshotResponse True)))))"

definition enqueue_entry :: "(store_error \<Rightarrow> string) \<Rightarrow> (unit, backend_error) result \<Rightarrow> enqueue_multi_entry" where
  "enqueue_entry display x =
     (case x of
        Ok _ \<Rightarrow> \<lparr>wem_accepted = True, wem_error = None\<rparr>
      | Err e \<Rightarrow> \<lparr>wem_accepted = False, wem_error = Some (into_wire (from_backend display e))\<rparr>)"

definition handle_enqueue_multi_snapshot :: "(store_error \<Rightarrow> string) \<Rightarrow> 's db_backend \<Rightarrow> nat \<Rightarrow>
    save_snapshot_request list \<Rightarrow> ('s, response_body) rpc" where
  "handle_enqueue_multi_snapshot display be max_payload ws =
     (if ws = [] then rpc_of (Err (invalid_failure ''enqueue_multi_snapshot.writes is empty''))
      else if MAX_BATCH_SNAPSHOT_WRITES < length ws
      then rpc_of (Err (invalid_failure ''enqueue_multi_snapshot.writes exceeds the record limit''))
      else
        rpc_bind (rpc_of (map_err (from_protocol display) (try_map save_of_wire ws))) (\<lambda>qs.
        rpc_bind (rpc_of (validate_snapshot_write_batch qs)) (\<lambda>_.
        rpc_bind (rpc_of (validate_snapshot_payloads qs max_payload)) (\<lambda>_.
        rpc_bind (rpc_call display (be_enqueue_multi_snapshot be qs)) (\<lambda>xs.
        if length xs \<noteq> length qs
        then rpc_of (Err (internal_failure ''backend returned a mismatched batch enqueue result''))
        else rpc_of (Ok (EnqueueMultiSnapshotResponse (map (enqueue_entry display) xs))))))))"

definition handle_apply_transaction :: "(store_error \<Rightarrow> string) \<Rightarrow> 's db_backend \<Rightarrow> nat \<Rightarrow>
    apply_transaction_request \<Rightarrow> ('s, response_body) rpc" where
  "handle_apply_transaction display be max_payload w =
     rpc_bind (rpc_of (validate_payload_size ''apply_transaction.payload'' (length (wat_payload w)) max_payload)) (\<lambda>_.
     rpc_bind (rpc_of (validate_payload_size ''apply_transaction.result'' (length (wat_result w)) max_payload)) (\<lambda>_.
     rpc_bind (rpc_of (map_err (from_protocol display) (transaction_of_wire w))) (\<lambda>q.
     rpc_bind (rpc_call display (be_apply_transaction be q)) (\<lambda>x.
     let (disposition, revision, result) = transaction_outcome x in
     rpc_of (Ok (ApplyTransactionResponse
       \<lparr>war_disposition = disposition_number disposition, war_new_revision = revision, war_result = result\<rparr>))))))"

definition handle_load_transaction ::
    "(store_error \<Rightarrow> string) \<Rightarrow> 's db_backend \<Rightarrow> load_transaction_request \<Rightarrow> ('s, response_body) rpc" where
  "handle_load_transaction display be q =
     rpc_bind (rpc_of (validate_text_field ''load_transaction.operation_id'' (wlt_operation_id q) MAX_IDEMPOTENCY_KEY_BYTES)) (\<lambda>_.
     rpc_bind (rpc_of (required_record display ''load_transaction.record is missing'' (wlt_record q))) (\<lambda>r.
     rpc_bind (rpc_call display (be_load_transaction be (wlt_operation_id q) r)) (\<lambda>x.
     rpc_of (Ok (LoadTransactionResponse (map_option transaction_receipt_to_wire x))))))"

definition handle_commit_records :: "(store_error \<Rightarrow> string) \<Rightarrow> 's db_backend \<Rightarrow> nat \<Rightarrow>
    commit_records_request \<Rightarrow> ('s, response_body) rpc" where
  "handle_commit_records display be max_payload q =
     rpc_bind (rpc_of (validate_text_field ''commit.operation_id'' (wcr_operation_id q) MAX_IDEMPOTENCY_KEY_BYTES)) (\<lambda>_.
     if wcr_writes q = [] \<or> MAX_TRANSACTION_RECORDS < length (wcr_writes q) \<or>
        MAX_TRANSACTION_RECORDS < length (wcr_appends q) \<or> MAX_OUTBOX_EVENTS < length (wcr_outbox_events q)
     then rpc_of (Err (invalid_failure ''commit collection size exceeds limits''))
     else
       rpc_bind (rpc_of (map_err (from_protocol display) (try_map record_write_of_wire (wcr_writes q)))) (\<lambda>ws.
       rpc_bind (rpc_of (validate_transaction_payloads ws max_payload)) (\<lambda>_.
       rpc_bind (rpc_of (validate_payload_size ''commit.result'' (length (wcr_result q)) max_payload)) (\<lambda>_.
       rpc_bind (rpc_of (map_err (from_protocol display) (try_map append_of_wire (wcr_appends q)))) (\<lambda>as.
       rpc_bind (rpc_of (map_err (from_protocol display) (try_map event_of_wire (wcr_outbox_events q)))) (\<lambda>es.
       rpc_bind (rpc_of (try_each (\<lambda>a. validate_payload_size ''commit.append'' (length (ap_payload a)) max_payload) as)) (\<lambda>_.
       rpc_bind (rpc_of (try_each (\<lambda>e. validate_payload_size ''commit.event'' (length (oe_payload e)) max_payload) es)) (\<lambda>_.
       rpc_bind (rpc_call display (be_commit_records be
           \<lparr>mw_operation_id = wcr_operation_id q, mw_writes = ws, mw_result = wcr_result q\<rparr>
           \<lparr>ce_appends = as, ce_outbox_events = es\<rparr>)) (\<lambda>x.
       rpc_of (Ok (CommitRecordsResponse (multi_transaction_outcome x))))))))))))"

definition handle_apply_multi_transaction :: "(store_error \<Rightarrow> string) \<Rightarrow> 's db_backend \<Rightarrow> nat \<Rightarrow>
    apply_multi_transaction_request \<Rightarrow> ('s, response_body) rpc" where
  "handle_apply_multi_transaction display be max_payload q =
     rpc_bind (rpc_of (validate_text_field ''apply_multi_transaction.operation_id'' (wam_operation_id q) MAX_IDEMPOTENCY_KEY_BYTES)) (\<lambda>_.
     if wam_writes q = [] then rpc_of (Err (invalid_failure ''apply_multi_transaction.writes is empty''))
     else if MAX_TRANSACTION_RECORDS < length (wam_writes q)
     then rpc_of (Err (invalid_failure ''apply_multi_transaction.writes exceeds the record limit''))
     else
       rpc_bind (rpc_of (map_err (from_protocol display) (try_map record_write_of_wire (wam_writes q)))) (\<lambda>ws.
       rpc_bind (rpc_of (validate_transaction_payloads ws max_payload)) (\<lambda>_.
       rpc_bind (rpc_of (validate_payload_size ''apply_multi_transaction.result'' (length (wam_result q)) max_payload)) (\<lambda>_.
       rpc_bind (rpc_call display (be_apply_multi_transaction be
           \<lparr>mw_operation_id = wam_operation_id q, mw_writes = ws, mw_result = wam_result q\<rparr>)) (\<lambda>x.
       rpc_of (Ok (ApplyMultiTransactionResponse (multi_transaction_outcome x))))))))"

definition handle_load_multi_transaction ::
    "(store_error \<Rightarrow> string) \<Rightarrow> 's db_backend \<Rightarrow> load_multi_transaction_request \<Rightarrow> ('s, response_body) rpc" where
  "handle_load_multi_transaction display be q =
     rpc_bind (rpc_of (validate_text_field ''load_multi_transaction.operation_id'' (wlx_operation_id q) MAX_IDEMPOTENCY_KEY_BYTES)) (\<lambda>_.
     if wlx_records q = [] then rpc_of (Err (invalid_failure ''load_multi_transaction.records is empty''))
     else if MAX_TRANSACTION_RECORDS < length (wlx_records q)
     then rpc_of (Err (invalid_failure ''load_multi_transaction.records exceeds the record limit''))
     else
       rpc_bind (rpc_of (map_err (from_protocol display) (try_map record_key_of_wire (wlx_records q)))) (\<lambda>rs.
       rpc_bind (rpc_call display (be_load_multi_transaction be (wlx_operation_id q) rs)) (\<lambda>x.
       rpc_of (Ok (LoadMultiTransactionResponse (map_option multi_transaction_receipt x))))))"

definition validate_trade_payloads :: "apply_trade_transaction_request \<Rightarrow> nat \<Rightarrow> (unit, rpc_failure) result" where
  "validate_trade_payloads q max_payload =
     and_then (case wtx_transition q of
         None \<Rightarrow> Ok ()
       | Some t \<Rightarrow> validate_payload_size ''apply_trade_transaction.transition.payload'' (length (wtt_payload t)) max_payload) (\<lambda>_.
     and_then (try_each (\<lambda>w. validate_payload_size ''apply_trade_transaction.write.payload''
       (length (wrw_payload w)) max_payload) (wtx_writes q)) (\<lambda>_.
     and_then (try_each (\<lambda>p. validate_payload_size ''apply_trade_transaction.ledger_posting.metadata''
       (length (wlp_metadata p)) max_payload) (wtx_ledger_postings q)) (\<lambda>_.
     and_then (try_each (\<lambda>e. validate_payload_size ''apply_trade_transaction.outbox_event.payload''
       (length (woe_payload e)) max_payload) (wtx_outbox_events q)) (\<lambda>_.
     validate_payload_size ''apply_trade_transaction.result'' (length (wtx_result q)) max_payload))))"

definition handle_apply_trade_transaction :: "(store_error \<Rightarrow> string) \<Rightarrow> 's db_backend \<Rightarrow> nat \<Rightarrow>
    apply_trade_transaction_request \<Rightarrow> ('s, response_body) rpc" where
  "handle_apply_trade_transaction display be max_payload w =
     rpc_bind (rpc_of (validate_trade_payloads w max_payload)) (\<lambda>_.
     rpc_bind (rpc_of (map_err (from_protocol display) (trade_transaction_of_wire w))) (\<lambda>q.
     rpc_bind (rpc_call display (be_apply_trade_transaction be q)) (\<lambda>x.
     rpc_of (Ok (ApplyTradeTransactionResponse (trade_transaction_outcome x))))))"

definition handle_load_trade ::
    "(store_error \<Rightarrow> string) \<Rightarrow> 's db_backend \<Rightarrow> string \<Rightarrow> ('s, response_body) rpc" where
  "handle_load_trade display be i =
     rpc_bind (rpc_of (validate_text_field ''load_trade.trade_id'' i MAX_TRADE_ID_BYTES)) (\<lambda>_.
     rpc_bind (rpc_call display (be_load_trade be i)) (\<lambda>x.
     rpc_of (Ok (LoadTradeResponse (map_option trade_to_wire x)))))"

definition handle_load_trade_transaction ::
    "(store_error \<Rightarrow> string) \<Rightarrow> 's db_backend \<Rightarrow> load_trade_transaction_request \<Rightarrow> ('s, response_body) rpc" where
  "handle_load_trade_transaction display be q =
     rpc_bind (rpc_of (validate_text_field ''load_trade_transaction.operation_id'' (wlr_operation_id q) MAX_IDEMPOTENCY_KEY_BYTES)) (\<lambda>_.
     rpc_bind (rpc_of (validate_text_field ''load_trade_transaction.trade_id'' (wlr_trade_id q) MAX_TRADE_ID_BYTES)) (\<lambda>_.
     rpc_bind (rpc_call display (be_load_trade_transaction be (wlr_operation_id q) (wlr_trade_id q))) (\<lambda>x.
     rpc_of (Ok (LoadTradeTransactionResponse (map_option trade_receipt_to_wire x))))))"

section \<open>Dispatch\<close>

fun handle_body :: "(store_error \<Rightarrow> string) \<Rightarrow> 's db_backend \<Rightarrow> nat \<Rightarrow> request_body \<Rightarrow>
    ('s, response_body) rpc" where
  "handle_body display be max_payload (LoadSnapshot q) = handle_load_snapshot display be q"
| "handle_body display be max_payload (LoadMultiSnapshot q) = handle_load_multi_snapshot display be q"
| "handle_body display be max_payload (SaveSnapshot q) = handle_save_snapshot display be max_payload q"
| "handle_body display be max_payload (SaveMultiSnapshot qs) = handle_save_multi_snapshot display be max_payload qs"
| "handle_body display be max_payload (EnqueueSnapshot q) = handle_enqueue_snapshot display be max_payload q"
| "handle_body display be max_payload (EnqueueMultiSnapshot qs) =
     handle_enqueue_multi_snapshot display be max_payload qs"
| "handle_body display be max_payload (ApplyTransaction q) = handle_apply_transaction display be max_payload q"
| "handle_body display be max_payload (LoadTransaction q) = handle_load_transaction display be q"
| "handle_body display be max_payload (CommitRecords q) = handle_commit_records display be max_payload q"
| "handle_body display be max_payload (ApplyMultiTransaction q) =
     handle_apply_multi_transaction display be max_payload q"
| "handle_body display be max_payload (LoadMultiTransaction q) = handle_load_multi_transaction display be q"
| "handle_body display be max_payload (ApplyTradeTransaction q) =
     handle_apply_trade_transaction display be max_payload q"
| "handle_body display be max_payload (LoadTrade i) = handle_load_trade display be i"
| "handle_body display be max_payload (LoadTradeTransaction q) = handle_load_trade_transaction display be q"

definition dispatch_body :: "(store_error \<Rightarrow> string) \<Rightarrow> 's db_backend \<Rightarrow> nat \<Rightarrow> request_body option \<Rightarrow>
    ('s, response_body) rpc" where
  "dispatch_body display be max_payload body =
     rpc_bind (rpc_of (ok_or (invalid_failure ''request body is missing'') body))
       (handle_body display be max_payload)"

definition dispatch :: "(store_error \<Rightarrow> string) \<Rightarrow> 's db_backend \<Rightarrow> nat \<Rightarrow> request_envelope \<Rightarrow>
    's \<Rightarrow> 's \<times> response_envelope option" where
  "dispatch display be max_payload q s =
     (let (s', x) = dispatch_body display be max_payload (rq_body q) s in
      (s', map_option (\<lambda>r. case r of
           Ok body \<Rightarrow> \<lparr>rp_rpc_id = rq_rpc_id q, rp_error = None, rp_body = Some body\<rparr>
         | Err f \<Rightarrow> \<lparr>rp_rpc_id = rq_rpc_id q,
                    rp_error = Some (wire_error (rf_code f) (rf_public_message f) (rf_actual_revision f)),
                    rp_body = None\<rparr>) x))"

definition dispatch_isolated :: "(store_error \<Rightarrow> string) \<Rightarrow> 's db_backend \<Rightarrow> nat \<Rightarrow> request_envelope \<Rightarrow>
    's \<Rightarrow> 's \<times> server_frame" where
  "dispatch_isolated display be max_payload q s =
     (case dispatch display be max_payload q s of
        (s', Some response) \<Rightarrow> (s', ResponseFrame response)
      | (s', None) \<Rightarrow> (s', ResponseFrame
          \<lparr>rp_rpc_id = rq_rpc_id q,
           rp_error = Some (wire_error Internal
             ''DBProxy request handler failed; the outcome is unknown, retry with the same idempotency key'' None),
           rp_body = None\<rparr>))"

section \<open>Rules for handlers\<close>

lemma rpc_of_Ok_iff: "rpc_of r s = (s', Some (Ok x)) \<longleftrightarrow> s' = s \<and> r = Ok x"
  by (auto simp: rpc_of_def)

lemma rpc_bind_Ok_iff:
  "rpc_bind m f s = (s', Some (Ok y)) \<longleftrightarrow> (\<exists>s1 x. m s = (s1, Some (Ok x)) \<and> f x s1 = (s', Some (Ok y)))"
  by (auto simp: rpc_bind_def split: prod.splits option.splits result.splits)

lemma rpc_call_Ok_iff: "rpc_call display c s = (s', Some (Ok x)) \<longleftrightarrow> c s = (s', Some (Ok x))"
  by (auto simp: rpc_call_def map_err_Ok_iff split: prod.splits)

lemmas rpc_Ok = rpc_of_Ok_iff rpc_bind_Ok_iff rpc_call_Ok_iff

lemma rpc_if: "(if b then m else m') s = (if b then m s else m' s)"
  by simp

lemma rpc_bind_of [simp]:
  "rpc_bind (rpc_of (Ok x)) f = f x"
  "rpc_bind (rpc_of (Err e)) f = rpc_of (Err e)"
  by (auto simp: rpc_bind_def rpc_of_def)

text \<open>Every failure of a computation satisfies a predicate.\<close>

definition fails :: "(rpc_failure \<Rightarrow> bool) \<Rightarrow> ('s, 'a) rpc \<Rightarrow> bool" where
  "fails P m \<longleftrightarrow> (\<forall>s s' f. m s = (s', Some (Err f)) \<longrightarrow> P f)"

lemma fails_of: "(\<And>f. r = Err f \<Longrightarrow> P f) \<Longrightarrow> fails P (rpc_of r)"
  by (simp add: fails_def rpc_of_def)

lemma fails_bind: "fails P m \<Longrightarrow> (\<And>x. fails P (f x)) \<Longrightarrow> fails P (rpc_bind m f)"
  by (auto simp: fails_def rpc_bind_def split: prod.splits option.splits result.splits)

lemma fails_call: "(\<And>e. P (from_backend display e)) \<Longrightarrow> fails P (rpc_call display c)"
  by (auto simp: fails_def rpc_call_def map_err_Err_iff split: prod.splits)

lemma fails_if: "(b \<Longrightarrow> fails P m) \<Longrightarrow> (\<not> b \<Longrightarrow> fails P m') \<Longrightarrow> fails P (if b then m else m')"
  by simp

text \<open>A code of the protocol, never the reserved number zero.\<close>

definition specified :: "rpc_failure \<Rightarrow> bool" where
  "specified f \<longleftrightarrow> rf_code f \<noteq> ErrorUnspecified"

lemma specified_failure [simp]:
  "specified (invalid_failure m)" "specified (internal_failure m)" "specified (failure_of StorageUnavailable m a)"
  "specified (failure_of Internal m a)"
  by (simp_all add: specified_def invalid_failure_def internal_failure_def failure_of_def)

lemma from_store_specified [simp]: "specified (from_store display e)"
  by (cases e) (simp_all add: specified_def invalid_failure_def failure_of_def)

lemma from_protocol_specified [simp]: "specified (from_protocol display e)"
  by (cases e) simp_all

lemma from_backend_specified [simp]: "specified (from_backend display e)"
  by (simp add: from_backend_def split: backend_error.split storage_error.split)

lemma validators_specified:
  "validate_payload_size fld n m = Err f \<Longrightarrow> specified f"
  "validate_text_field fld v m = Err f \<Longrightarrow> specified f"
  "validate_snapshot_write_batch ws = Err f \<Longrightarrow> specified f"
  "require_read_fence sn k = Err f \<Longrightarrow> specified f"
  by (auto simp: validate_payload_size_def validate_text_field_def validate_snapshot_write_batch_def
      require_read_fence_def split: if_splits)

lemma each_specified:
  "(\<And>x f. g x = Err f \<Longrightarrow> specified f) \<Longrightarrow> try_each g xs = Err f \<Longrightarrow> specified f"
  by (auto dest: try_each_Err)

lemma batch_specified:
  "validate_snapshot_payloads ws m = Err f \<Longrightarrow> specified f"
  "validate_transaction_payloads rws m = Err f \<Longrightarrow> specified f"
  "validate_trade_payloads q m = Err f \<Longrightarrow> specified f"
  by (auto simp: validate_snapshot_payloads_def validate_transaction_payloads_def validate_trade_payloads_def
      and_then_Err_iff validators_specified dest!: try_each_Err split: option.splits)

lemma conversion_specified:
  "map_err (from_protocol display) r = Err f \<Longrightarrow> specified f"
  "required_record display m w = Err f \<Longrightarrow> specified f"
  "and_then (ok_or (invalid_failure msg) v) (\<lambda>x. map_err (from_protocol display) (g x)) = Err f \<Longrightarrow> specified f"
  by (auto simp: map_err_Err_iff required_record_def and_then_Err_iff ok_or_Err_iff)

lemmas fails_rules = fails_bind fails_if fails_of fails_call

lemmas handler_defs = handle_load_snapshot_def handle_load_multi_snapshot_def handle_save_snapshot_def
  handle_save_multi_snapshot_def handle_enqueue_snapshot_def handle_enqueue_multi_snapshot_def
  handle_apply_transaction_def handle_load_transaction_def handle_commit_records_def
  handle_apply_multi_transaction_def handle_load_multi_transaction_def handle_apply_trade_transaction_def
  handle_load_trade_def handle_load_trade_transaction_def

lemmas specified_facts = validators_specified batch_specified conversion_specified

lemma fence_each_specified:
  "try_each (\<lambda>p. require_read_fence (fst p) (snd p)) xs = Err f \<Longrightarrow> specified f"
  by (auto dest!: try_each_Err simp: validators_specified)

lemma payload_each_specified:
  "try_each (\<lambda>x. validate_payload_size fld (g x) m) xs = Err f \<Longrightarrow> specified f"
  by (auto dest!: try_each_Err simp: validators_specified)

lemma handle_body_specified: "fails specified (handle_body display be mx body)"
  by (cases body)
    (auto simp: handler_defs Let_def case_prod_unfold intro!: fails_rules
      dest: specified_facts fence_each_specified payload_each_specified)

section \<open>Responses match requests\<close>

fun answers :: "request_body \<Rightarrow> response_body \<Rightarrow> bool" where
  "answers (LoadSnapshot q) r = (case r of LoadSnapshotResponse x \<Rightarrow> True | _ \<Rightarrow> False)"
| "answers (LoadMultiSnapshot q) r = (case r of LoadMultiSnapshotResponse xs \<Rightarrow> length xs = length (wlm_records q) | _ \<Rightarrow> False)"
| "answers (SaveSnapshot q) r = (case r of SaveSnapshotResponse x \<Rightarrow> True | _ \<Rightarrow> False)"
| "answers (SaveMultiSnapshot qs) r = (case r of SaveMultiSnapshotResponse xs \<Rightarrow> length xs = length qs | _ \<Rightarrow> False)"
| "answers (EnqueueSnapshot q) r = (case r of EnqueueSnapshotResponse x \<Rightarrow> x | _ \<Rightarrow> False)"
| "answers (EnqueueMultiSnapshot qs) r = (case r of EnqueueMultiSnapshotResponse xs \<Rightarrow> length xs = length qs | _ \<Rightarrow> False)"
| "answers (ApplyTransaction q) r = (case r of ApplyTransactionResponse x \<Rightarrow> True | _ \<Rightarrow> False)"
| "answers (LoadTransaction q) r = (case r of LoadTransactionResponse x \<Rightarrow> True | _ \<Rightarrow> False)"
| "answers (CommitRecords q) r = (case r of CommitRecordsResponse x \<Rightarrow> True | _ \<Rightarrow> False)"
| "answers (ApplyMultiTransaction q) r = (case r of ApplyMultiTransactionResponse x \<Rightarrow> True | _ \<Rightarrow> False)"
| "answers (LoadMultiTransaction q) r = (case r of LoadMultiTransactionResponse x \<Rightarrow> True | _ \<Rightarrow> False)"
| "answers (ApplyTradeTransaction q) r = (case r of ApplyTradeTransactionResponse x \<Rightarrow> True | _ \<Rightarrow> False)"
| "answers (LoadTrade i) r = (case r of LoadTradeResponse x \<Rightarrow> True | _ \<Rightarrow> False)"
| "answers (LoadTradeTransaction q) r = (case r of LoadTradeTransactionResponse x \<Rightarrow> True | _ \<Rightarrow> False)"

lemma rpc_guard_Ok:
  "(if b then rpc_of (Err f) else m) s = (s', Some (Ok x)) \<longleftrightarrow> \<not> b \<and> m s = (s', Some (Ok x))"
  by (auto simp: rpc_of_def)

lemma handle_body_answers:
  "handle_body display be mx body s = (s', Some (Ok x)) \<Longrightarrow> answers body x"
  by (cases body)
    (auto simp: handler_defs Let_def case_prod_unfold rpc_Ok rpc_guard_Ok map_err_Ok_iff dest: try_map_Ok_length)

section \<open>Refusals\<close>

text \<open>The protocol errors the conversions produce: faults of the sender.\<close>

fun sender_fault :: "protocol_error \<Rightarrow> bool" where
  "sender_fault (MissingField f) = True"
| "sender_fault (InvalidField f) = True"
| "sender_fault (ProtocolStore e) = (case e of InvalidKey m \<Rightarrow> True | _ \<Rightarrow> False)"
| "sender_fault e = False"

lemma from_protocol_fault: "sender_fault e \<Longrightarrow> rf_code (from_protocol display e) = InvalidRequest"
  by (cases e) (auto simp: invalid_failure_def failure_of_def split: store_error.splits)

lemma validate_text_fault: "validate_text v fld n = Err e \<Longrightarrow> sender_fault e"
  by (auto simp: validate_text_def split: if_splits)

lemma record_key_fault: "record_key_of_wire w = Err e \<Longrightarrow> sender_fault e"
  by (auto simp: record_key_of_wire_def and_then_Err_iff map_err_Err_iff record_key_new_def Let_def
      dest: validate_text_fault split: if_splits)

lemma record_fault: "record_of_wire fld w = Err e \<Longrightarrow> sender_fault e"
  by (auto simp: record_of_wire_def and_then_Err_iff ok_or_Err_iff dest: record_key_fault)

lemma core_trade_state_fault: "core_trade_state v = Err e \<Longrightarrow> sender_fault e"
  by (auto simp: core_trade_state_def split: if_splits)

lemma transpose_state_fault: "transpose_state v = Err e \<Longrightarrow> sender_fault e"
  by (cases v) (auto simp: and_then_Err_iff dest: core_trade_state_fault)

lemmas field_faults = validate_text_fault record_key_fault record_fault core_trade_state_fault transpose_state_fault

lemma message_faults:
  "save_of_wire w1 = Err e \<Longrightarrow> sender_fault e"
  "transaction_of_wire w2 = Err e \<Longrightarrow> sender_fault e"
  "record_write_of_wire w3 = Err e \<Longrightarrow> sender_fault e"
  "append_of_wire w4 = Err e \<Longrightarrow> sender_fault e"
  "posting_of_wire w5 = Err e \<Longrightarrow> sender_fault e"
  "event_of_wire w6 = Err e \<Longrightarrow> sender_fault e"
  "transition_of_wire w7 = Err e \<Longrightarrow> sender_fault e"
  by (auto simp: save_of_wire_def transaction_of_wire_def record_write_of_wire_def append_of_wire_def
      posting_of_wire_def event_of_wire_def transition_of_wire_def and_then_Err_iff
      dest: field_faults split: if_splits)

lemma try_map_Err: "try_map f xs = Err e \<Longrightarrow> \<exists>x\<in>set xs. f x = Err e"
  by (induction xs) (auto simp: and_then_Err_iff)

lemma trade_transaction_fault: "trade_transaction_of_wire w = Err e \<Longrightarrow> sender_fault e"
  by (auto simp: trade_transaction_of_wire_def and_then_Err_iff ok_or_Err_iff
      dest!: try_map_Err dest: field_faults message_faults split: if_splits)

definition refuses :: "('s, 'a) rpc \<Rightarrow> bool" where
  "refuses m \<longleftrightarrow> (\<forall>s. \<exists>f. m s = (s, Some (Err f)) \<and> rf_code f = InvalidRequest)"

lemma refuses_of: "refuses (rpc_of r :: ('s, 'a) rpc) \<longleftrightarrow> (\<exists>f. r = Err f \<and> rf_code f = InvalidRequest)"
  by (auto simp: refuses_def rpc_of_def)

lemma refuses_bind:
  "refuses (rpc_bind (rpc_of r) k) \<longleftrightarrow> (case r of Ok x \<Rightarrow> refuses (k x) | Err f \<Rightarrow> rf_code f = InvalidRequest)"
  by (cases r) (simp_all add: refuses_of)

definition admissible_key :: "wire_record_key option \<Rightarrow> bool" where
  "admissible_key w = (case w of None \<Rightarrow> False | Some k \<Rightarrow> is_ok (record_key_of_wire k))"

definition admissible_saves :: "nat \<Rightarrow> save_snapshot_request list \<Rightarrow> bool" where
  "admissible_saves mx ws \<longleftrightarrow> ws \<noteq> [] \<and> length ws \<le> MAX_BATCH_SNAPSHOT_WRITES \<and>
     list_all (\<lambda>w. is_ok (save_of_wire w) \<and> length (wss_payload w) \<le> mx) ws \<and>
     distinct (map wss_record ws) \<and> distinct (map wss_request_id ws)"

definition admissible_writes :: "nat \<Rightarrow> wire_record_write list \<Rightarrow> bool" where
  "admissible_writes mx ws \<longleftrightarrow> ws \<noteq> [] \<and> length ws \<le> MAX_TRANSACTION_RECORDS \<and>
     list_all (\<lambda>w. is_ok (record_write_of_wire w) \<and> length (wrw_payload w) \<le> mx) ws"

definition admissible_trade :: "nat \<Rightarrow> apply_trade_transaction_request \<Rightarrow> bool" where
  "admissible_trade mx q \<longleftrightarrow> is_ok (trade_transaction_of_wire q) \<and>
     (case wtx_transition q of None \<Rightarrow> False | Some t \<Rightarrow> length (wtt_payload t) \<le> mx) \<and>
     list_all (\<lambda>w. length (wrw_payload w) \<le> mx) (wtx_writes q) \<and>
     list_all (\<lambda>p. length (wlp_metadata p) \<le> mx) (wtx_ledger_postings q) \<and>
     list_all (\<lambda>e. length (woe_payload e) \<le> mx) (wtx_outbox_events q) \<and> length (wtx_result q) \<le> mx"

text \<open>The requests the published limits allow.\<close>

fun admissible :: "nat \<Rightarrow> request_body \<Rightarrow> bool" where
  "admissible mx (LoadSnapshot q) = admissible_key (wls_record q)"
| "admissible mx (LoadMultiSnapshot q) \<longleftrightarrow>
     wlm_records q \<noteq> [] \<and> length (wlm_records q) \<le> MAX_BATCH_LOAD_RECORDS \<and>
     list_all (\<lambda>k. is_ok (record_key_of_wire k)) (wlm_records q) \<and> distinct (wlm_records q) \<and>
     (wlm_min_revisions q = [] \<or> length (wlm_min_revisions q) = length (wlm_records q))"
| "admissible mx (SaveSnapshot w) \<longleftrightarrow> length (wss_payload w) \<le> mx \<and> is_ok (save_of_wire w)"
| "admissible mx (SaveMultiSnapshot ws) = admissible_saves mx ws"
| "admissible mx (EnqueueSnapshot w) =
     (case w of None \<Rightarrow> False | Some v \<Rightarrow> is_ok (save_of_wire v) \<and> length (wss_payload v) \<le> mx)"
| "admissible mx (EnqueueMultiSnapshot ws) = admissible_saves mx ws"
| "admissible mx (ApplyTransaction w) \<longleftrightarrow>
     length (wat_payload w) \<le> mx \<and> length (wat_result w) \<le> mx \<and> is_ok (transaction_of_wire w)"
| "admissible mx (LoadTransaction q) \<longleftrightarrow>
     text_ok MAX_IDEMPOTENCY_KEY_BYTES (wlt_operation_id q) \<and> admissible_key (wlt_record q)"
| "admissible mx (CommitRecords q) \<longleftrightarrow>
     text_ok MAX_IDEMPOTENCY_KEY_BYTES (wcr_operation_id q) \<and> admissible_writes mx (wcr_writes q) \<and>
     length (wcr_result q) \<le> mx \<and> length (wcr_appends q) \<le> MAX_TRANSACTION_RECORDS \<and>
     list_all (\<lambda>a. is_ok (append_of_wire a) \<and> length (wap_payload a) \<le> mx) (wcr_appends q) \<and>
     length (wcr_outbox_events q) \<le> MAX_OUTBOX_EVENTS \<and>
     list_all (\<lambda>e. is_ok (event_of_wire e) \<and> length (woe_payload e) \<le> mx) (wcr_outbox_events q)"
| "admissible mx (ApplyMultiTransaction q) \<longleftrightarrow>
     text_ok MAX_IDEMPOTENCY_KEY_BYTES (wam_operation_id q) \<and> admissible_writes mx (wam_writes q) \<and>
     length (wam_result q) \<le> mx"
| "admissible mx (LoadMultiTransaction q) \<longleftrightarrow>
     text_ok MAX_IDEMPOTENCY_KEY_BYTES (wlx_operation_id q) \<and> wlx_records q \<noteq> [] \<and>
     length (wlx_records q) \<le> MAX_TRANSACTION_RECORDS \<and>
     list_all (\<lambda>k. is_ok (record_key_of_wire k)) (wlx_records q)"
| "admissible mx (ApplyTradeTransaction q) = admissible_trade mx q"
| "admissible mx (LoadTrade i) = text_ok MAX_TRADE_ID_BYTES i"
| "admissible mx (LoadTradeTransaction q) \<longleftrightarrow>
     text_ok MAX_IDEMPOTENCY_KEY_BYTES (wlr_operation_id q) \<and> text_ok MAX_TRADE_ID_BYTES (wlr_trade_id q)"

lemma invalid_code [simp]: "rf_code (invalid_failure m) = InvalidRequest"
  by (simp add: invalid_failure_def failure_of_def)

lemma validator_codes:
  "validate_payload_size fld n m = Err f \<Longrightarrow> rf_code f = InvalidRequest"
  "validate_text_field fld v m = Err f \<Longrightarrow> rf_code f = InvalidRequest"
  "validate_snapshot_write_batch ws = Err f \<Longrightarrow> rf_code f = InvalidRequest"
  by (auto simp: validate_payload_size_def validate_text_field_def validate_snapshot_write_batch_def
      split: if_splits)

lemma payload_list_codes:
  "try_each (\<lambda>x. validate_payload_size fld (g x) m) xs = Err f \<Longrightarrow> rf_code f = InvalidRequest"
  "validate_snapshot_payloads ws m = Err f \<Longrightarrow> rf_code f = InvalidRequest"
  "validate_transaction_payloads rws m = Err f \<Longrightarrow> rf_code f = InvalidRequest"
  by (auto simp: validate_snapshot_payloads_def validate_transaction_payloads_def validator_codes dest!: try_each_Err)

lemma trade_payload_codes: "validate_trade_payloads q m = Err f \<Longrightarrow> rf_code f = InvalidRequest"
  by (auto simp: validate_trade_payloads_def and_then_Err_iff validator_codes payload_list_codes split: option.splits)

lemma conversion_codes:
  "map_err (from_protocol display) (record_key_of_wire k) = Err f \<Longrightarrow> rf_code f = InvalidRequest"
  "map_err (from_protocol display) (save_of_wire w1) = Err f \<Longrightarrow> rf_code f = InvalidRequest"
  "map_err (from_protocol display) (transaction_of_wire w2) = Err f \<Longrightarrow> rf_code f = InvalidRequest"
  "map_err (from_protocol display) (trade_transaction_of_wire w3) = Err f \<Longrightarrow> rf_code f = InvalidRequest"
  "map_err (from_protocol display) (try_map record_key_of_wire ks) = Err f \<Longrightarrow> rf_code f = InvalidRequest"
  "map_err (from_protocol display) (try_map save_of_wire ss) = Err f \<Longrightarrow> rf_code f = InvalidRequest"
  "map_err (from_protocol display) (try_map record_write_of_wire ws) = Err f \<Longrightarrow> rf_code f = InvalidRequest"
  "map_err (from_protocol display) (try_map append_of_wire as) = Err f \<Longrightarrow> rf_code f = InvalidRequest"
  "map_err (from_protocol display) (try_map event_of_wire es) = Err f \<Longrightarrow> rf_code f = InvalidRequest"
  by (auto simp: map_err_Err_iff dest!: try_map_Err
      intro!: from_protocol_fault dest: record_key_fault message_faults trade_transaction_fault)

lemma required_record_code: "required_record display m w = Err f \<Longrightarrow> rf_code f = InvalidRequest"
  by (auto simp: required_record_def and_then_Err_iff ok_or_Err_iff conversion_codes)

lemmas refusal_codes = validator_codes payload_list_codes trade_payload_codes conversion_codes required_record_code

lemma is_ok_iff: "is_ok r \<longleftrightarrow> (\<exists>x. r = Ok x)"
  by (cases r) auto

lemma required_record_Ok: "required_record display m w = Ok r \<Longrightarrow> admissible_key w"
  by (auto simp: required_record_def admissible_key_def and_then_Ok_iff ok_or_Ok_iff map_err_Ok_iff is_ok_iff)

lemma record_key_to_wire_inj: "inj record_key_to_wire"
  by (rule injI) (simp add: record_key_to_wire_def record_key.equality)

lemma validate_batch_Ok: "validate_snapshot_write_batch ws = Ok u \<longleftrightarrow>
    distinct (map sw_record ws) \<and> distinct (map sw_request_id ws)"
proof -
  have "card (set (map g ws)) = length ws \<longleftrightarrow> distinct (map g ws)" for g :: "snapshot_write \<Rightarrow> 'z"
    using card_set_length [of "map g ws"] by simp
  from this [of sw_record] this [of sw_request_id] show ?thesis
    by (auto simp: validate_snapshot_write_batch_def)
qed

lemma saves_Ok:
  assumes "try_map save_of_wire ws = Ok qs" and "validate_snapshot_write_batch qs = Ok u"
    and "validate_snapshot_payloads qs mx = Ok u'" and "ws \<noteq> []" and "length ws \<le> MAX_BATCH_SNAPSHOT_WRITES"
  shows "admissible_saves mx ws"
proof -
  have ws: "ws = map save_to_wire qs" "list_all save_in_limits qs"
    using assms(1) by (simp_all add: save_codec.all_of_wire_iff)
  have m: "map wss_record ws = map (\<lambda>k. Some (record_key_to_wire k)) (map sw_record qs)"
    "map wss_request_id ws = map sw_request_id qs" by (simp_all add: ws(1) save_to_wire_def)
  have i: "inj (\<lambda>k. Some (record_key_to_wire k))"
    using record_key_to_wire_inj by (auto simp: inj_def)
  have d: "distinct (map sw_record qs)" "distinct (map sw_request_id qs)"
    using assms(2) by (simp_all add: validate_batch_Ok)
  have "distinct (map wss_record ws)"
    unfolding m(1) using d(1) inj_on_subset [OF i subset_UNIV] by (subst distinct_map) blast
  moreover have "distinct (map wss_request_id ws)" unfolding m(2) by (rule d(2))
  moreover have "list_all (\<lambda>w. is_ok (save_of_wire w) \<and> length (wss_payload w) \<le> mx) ws"
    using ws assms(3) by (auto simp: list_all_iff validate_snapshot_payloads_def try_each_Ok_iff
        validate_payload_size_Ok save_codec.of_wire_self save_to_wire_def [THEN arg_cong [of _ _ wss_payload]])
  ultimately show ?thesis using assms(4,5) by (simp add: admissible_saves_def)
qed

lemma writes_Ok:
  assumes "try_map record_write_of_wire ws = Ok qs" and "validate_transaction_payloads qs mx = Ok u'"
    and "ws \<noteq> []" and "length ws \<le> MAX_TRANSACTION_RECORDS"
  shows "admissible_writes mx ws"
proof -
  have ws: "ws = map record_write_to_wire qs" "list_all record_write_in_limits qs"
    using assms(1) by (simp_all add: write_codec.all_of_wire_iff)
  then have "list_all (\<lambda>w. is_ok (record_write_of_wire w) \<and> length (wrw_payload w) \<le> mx) ws"
    using assms(2) by (auto simp: list_all_iff validate_transaction_payloads_def try_each_Ok_iff
        validate_payload_size_Ok write_codec.of_wire_self
        record_write_to_wire_def [THEN arg_cong [of _ _ wrw_payload]])
  then show ?thesis using assms(3,4) by (simp add: admissible_writes_def)
qed

lemma refuses_guard:
  "rf_code f = InvalidRequest \<Longrightarrow> refuses (if b then rpc_of (Err f) else m) \<longleftrightarrow> b \<or> refuses m"
  by (simp add: refuses_of)

lemma refuses_bindI:
  assumes "\<And>f. r = Err f \<Longrightarrow> rf_code f = InvalidRequest" and "\<And>x. r = Ok x \<Longrightarrow> refuses (k x)"
  shows "refuses (rpc_bind (rpc_of r) k)"
  using assms by (cases r) (simp_all add: refuses_of)

lemma refuses_guardI: "rf_code f = InvalidRequest \<Longrightarrow> (\<not> b \<Longrightarrow> refuses m) \<Longrightarrow>
    refuses (if b then rpc_of (Err f) else m)"
  by (simp add: refuses_of)

lemma refuse_load_snapshot:
  "\<not> admissible_key (wls_record q) \<Longrightarrow> refuses (handle_load_snapshot display be q)"
  unfolding handle_load_snapshot_def
  by (rule refuses_bindI) (erule required_record_code, drule required_record_Ok, blast)

lemma refuse_load_transaction:
  assumes "\<not> (text_ok MAX_IDEMPOTENCY_KEY_BYTES (wlt_operation_id q) \<and> admissible_key (wlt_record q))"
  shows "refuses (handle_load_transaction display be q)"
  unfolding handle_load_transaction_def
  using assms by (intro refuses_bindI)
    (auto simp: validate_text_field_Ok refusal_codes dest: required_record_Ok)

lemma refuse_load_trade:
  "\<not> text_ok MAX_TRADE_ID_BYTES i \<Longrightarrow> refuses (handle_load_trade display be i)"
  unfolding handle_load_trade_def
  by (intro refuses_bindI) (auto simp: validate_text_field_Ok refusal_codes)

lemma refuse_load_trade_transaction:
  assumes "\<not> (text_ok MAX_IDEMPOTENCY_KEY_BYTES (wlr_operation_id q) \<and> text_ok MAX_TRADE_ID_BYTES (wlr_trade_id q))"
  shows "refuses (handle_load_trade_transaction display be q)"
  unfolding handle_load_trade_transaction_def
  using assms by (intro refuses_bindI) (auto simp: validate_text_field_Ok refusal_codes)

lemma keys_Ok:
  assumes "try_map record_key_of_wire ks = Ok rs"
  shows "list_all (\<lambda>k. is_ok (record_key_of_wire k)) ks"
    and "distinct ks \<longleftrightarrow> card (set rs) = length rs" and "length ks = length rs"
proof -
  have ks: "ks = map record_key_to_wire rs" "list_all key_in_limits rs"
    using assms by (simp_all add: key_codec.all_of_wire_iff)
  then show "list_all (\<lambda>k. is_ok (record_key_of_wire k)) ks"
    by (auto simp: list_all_iff key_codec.of_wire_self)
  have "inj_on record_key_to_wire (set rs)" using record_key_to_wire_inj by (rule inj_on_subset) simp
  then show "distinct ks \<longleftrightarrow> card (set rs) = length rs"
    by (simp add: ks(1) distinct_map card_set_length)
  show "length ks = length rs" by (simp add: ks(1))
qed

lemma refuse_load_multi:
  assumes "\<not> admissible mx (LoadMultiSnapshot q)"
  shows "refuses (handle_load_multi_snapshot display be q)"
  unfolding handle_load_multi_snapshot_def
  by (intro refuses_bindI refuses_guardI)
    (use assms keys_Ok in \<open>auto simp: refusal_codes map_err_Ok_iff not_less\<close>)

lemma refuse_load_multi_transaction:
  assumes "\<not> admissible mx (LoadMultiTransaction q)"
  shows "refuses (handle_load_multi_transaction display be q)"
  unfolding handle_load_multi_transaction_def
  by (intro refuses_bindI refuses_guardI)
    (use assms keys_Ok in \<open>auto simp: refusal_codes map_err_Ok_iff validate_text_field_Ok not_less\<close>)

lemma refuse_save:
  assumes "\<not> admissible mx (SaveSnapshot w)"
  shows "refuses (handle_save_snapshot display be mx w)"
  unfolding handle_save_snapshot_def
  by (intro refuses_bindI)
    (use assms in \<open>auto simp: refusal_codes map_err_Ok_iff validate_payload_size_Ok\<close>)

lemma refuse_apply_transaction:
  assumes "\<not> admissible mx (ApplyTransaction w)"
  shows "refuses (handle_apply_transaction display be mx w)"
  unfolding handle_apply_transaction_def
  by (intro refuses_bindI)
    (use assms in \<open>auto simp: refusal_codes map_err_Ok_iff validate_payload_size_Ok\<close>)

lemma refuse_enqueue:
  assumes "\<not> admissible mx (EnqueueSnapshot w)"
  shows "refuses (handle_enqueue_snapshot display be mx w)"
proof -
  have p: "sw_payload q = wss_payload v" if "save_of_wire v = Ok q" for v q
    using that by (simp add: save_of_wire_iff save_to_wire_def)
  show ?thesis
    unfolding handle_enqueue_snapshot_def
    by (intro refuses_bindI)
      (use assms in \<open>auto simp: refusal_codes map_err_Ok_iff validate_payload_size_Ok and_then_Ok_iff
        and_then_Err_iff ok_or_Ok_iff ok_or_Err_iff p\<close>)
qed

lemma refuse_batches:
  assumes "\<not> admissible_saves mx ws"
  shows "refuses (handle_save_multi_snapshot display be mx ws)"
    and "refuses (handle_enqueue_multi_snapshot display be mx ws)"
  unfolding handle_save_multi_snapshot_def handle_enqueue_multi_snapshot_def
  by (intro refuses_bindI refuses_guardI;
      use assms saves_Ok in \<open>auto simp: refusal_codes map_err_Ok_iff not_less\<close>)+

lemma refuse_apply_multi:
  assumes "\<not> admissible mx (ApplyMultiTransaction q)"
  shows "refuses (handle_apply_multi_transaction display be mx q)"
  unfolding handle_apply_multi_transaction_def
  by (intro refuses_bindI refuses_guardI)
    (use assms writes_Ok in \<open>auto simp: refusal_codes map_err_Ok_iff validate_text_field_Ok
      validate_payload_size_Ok not_less\<close>)

lemma appends_Ok:
  assumes "try_map append_of_wire ws = Ok as"
    and "try_each (\<lambda>a. validate_payload_size fld (length (ap_payload a)) mx) as = Ok u"
  shows "list_all (\<lambda>a. is_ok (append_of_wire a) \<and> length (wap_payload a) \<le> mx) ws"
  using assms by (auto simp: append_codec.all_of_wire_iff list_all_iff try_each_Ok_iff validate_payload_size_Ok
      append_codec.of_wire_self append_to_wire_def [THEN arg_cong [of _ _ wap_payload]])

lemma events_Ok:
  assumes "try_map event_of_wire ws = Ok es"
    and "try_each (\<lambda>e. validate_payload_size fld (length (oe_payload e)) mx) es = Ok u"
  shows "list_all (\<lambda>e. is_ok (event_of_wire e) \<and> length (woe_payload e) \<le> mx) ws"
  using assms by (auto simp: event_codec.all_of_wire_iff list_all_iff try_each_Ok_iff validate_payload_size_Ok
      event_codec.of_wire_self event_to_wire_def [THEN arg_cong [of _ _ woe_payload]])

lemma refuse_commit:
  assumes "\<not> admissible mx (CommitRecords q)"
  shows "refuses (handle_commit_records display be mx q)"
  unfolding handle_commit_records_def
  by (intro refuses_bindI refuses_guardI)
    (use assms writes_Ok appends_Ok events_Ok in \<open>auto simp: refusal_codes map_err_Ok_iff validate_text_field_Ok
      validate_payload_size_Ok not_less\<close>)

lemma refuse_trade:
  assumes "\<not> admissible_trade mx q"
  shows "refuses (handle_apply_trade_transaction display be mx q)"
proof -
  have t: "wtx_transition q \<noteq> None" if "trade_transaction_of_wire q = Ok x" for x
    using that by (simp add: trade_transaction_codec trade_transaction_to_wire_def)
  show ?thesis
    unfolding handle_apply_trade_transaction_def
    by (intro refuses_bindI)
      (use assms t in \<open>auto simp: refusal_codes map_err_Ok_iff validate_trade_payloads_def admissible_trade_def
        and_then_Ok_iff try_each_Ok_iff validate_payload_size_Ok list_all_iff split: option.splits\<close>)
qed

lemma handle_body_refuses: "\<not> admissible mx body \<Longrightarrow> refuses (handle_body display be mx body)"
  by (cases body)
    (simp_all add: refuse_load_snapshot refuse_load_transaction refuse_load_trade refuse_load_trade_transaction
      refuse_load_multi [of mx] refuse_load_multi_transaction [of mx] refuse_save refuse_apply_transaction refuse_enqueue
      refuse_batches refuse_apply_multi refuse_commit refuse_trade del: admissible.simps(2,9,11))

section \<open>Properties\<close>

lemma dispatch_response:
  "dispatch_isolated display be mx q s =
     (case dispatch_body display be mx (rq_body q) s of
        (s', Some (Ok body)) \<Rightarrow>
          (s', ResponseFrame \<lparr>rp_rpc_id = rq_rpc_id q, rp_error = None, rp_body = Some body\<rparr>)
      | (s', Some (Err f)) \<Rightarrow>
          (s', ResponseFrame \<lparr>rp_rpc_id = rq_rpc_id q, rp_error = Some (into_wire f), rp_body = None\<rparr>)
      | (s', None) \<Rightarrow>
          (s', ResponseFrame \<lparr>rp_rpc_id = rq_rpc_id q,
             rp_error = Some (wire_error Internal ''DBProxy request handler failed; the outcome is unknown, retry with the same idempotency key'' None),
             rp_body = None\<rparr>))"
  by (auto simp: dispatch_isolated_def dispatch_def Let_def into_wire_def split: prod.splits option.splits result.splits)

lemma error_number_zero: "error_number c = 0 \<longleftrightarrow> c = ErrorUnspecified"
  by (cases c) simp_all

text \<open>
  C31. Whatever the backend does, a panic included, every request gets exactly one response: it carries
  the identifier of the request, it holds either an error with a code of the protocol or a body and
  never both, the body is of the kind the request asked for, and a batch response has one entry per
  element of the batch.
\<close>

theorem rpc_response_matches:
  "case snd (dispatch_isolated display be mx q s) of
     ResponseFrame r \<Rightarrow> rp_rpc_id r = rq_rpc_id q \<and>
       (case (rp_error r, rp_body r) of
          (None, Some body) \<Rightarrow> (case rq_body q of Some asked \<Rightarrow> answers asked body | None \<Rightarrow> False)
        | (Some e, None) \<Rightarrow> re_code e \<noteq> 0
        | _ \<Rightarrow> False)
   | ServerHelloFrame h \<Rightarrow> False"
proof (cases "rq_body q")
  case None
  then show ?thesis
    by (simp add: dispatch_response dispatch_body_def rpc_of_def into_wire_def wire_error_def error_number_zero)
next
  case (Some body)
  obtain s' x where h: "handle_body display be mx body s = (s', x)" by (cases "handle_body display be mx body s")
  then have d: "dispatch_body display be mx (rq_body q) s = (s', x)" by (simp add: dispatch_body_def Some)
  show ?thesis
  proof (cases x)
    case None
    then show ?thesis by (simp add: dispatch_response d wire_error_def)
  next
    case (Some r)
    show ?thesis
    proof (cases r)
      case (Ok b)
      then show ?thesis
        using h \<open>x = Some r\<close> handle_body_answers [of display be mx body s s' b]
        by (simp add: dispatch_response d) (simp add: \<open>rq_body q = Some body\<close>)
    next
      case (Err f)
      then have "specified f" using handle_body_specified [of display be mx body] h \<open>x = Some r\<close>
        by (auto simp: fails_def)
      then show ?thesis using Err \<open>x = Some r\<close>
        by (simp add: dispatch_response d into_wire_def wire_error_def error_number_zero specified_def)
    qed
  qed
qed

text \<open>
  C32. A request outside the published limits, for any request kind and any backend, is answered with
  \<open>InvalidRequest\<close> before the backend is called: the state is the one before the request.
\<close>

theorem rpc_refusal_harmless:
  assumes "\<not> admissible mx body" and "rq_body q = Some body"
  shows "\<exists>e. dispatch_isolated display be mx q s =
      (s, ResponseFrame \<lparr>rp_rpc_id = rq_rpc_id q, rp_error = Some e, rp_body = None\<rparr>) \<and>
    re_code e = error_number InvalidRequest"
proof -
  obtain f where "handle_body display be mx body s = (s, Some (Err f))" "rf_code f = InvalidRequest"
    using handle_body_refuses [OF assms(1), of display be] by (auto simp: refuses_def)
  then show ?thesis by (simp add: dispatch_response dispatch_body_def assms(2) into_wire_def wire_error_def)
qed

theorem rpc_refusal_harmless_witness:
  "\<exists>e. dispatch_isolated (\<lambda>_. ''error'') (memory_calls demo_env) 4
      \<lparr>rq_rpc_id = 7, rq_body = Some (SaveMultiSnapshot [])\<rparr> demo_backend =
      (demo_backend, ResponseFrame \<lparr>rp_rpc_id = 7, rp_error = Some e, rp_body = None\<rparr>) \<and>
    re_code e = error_number InvalidRequest"
  using rpc_refusal_harmless [of 4 "SaveMultiSnapshot []" "\<lparr>rq_rpc_id = 7, rq_body = Some (SaveMultiSnapshot [])\<rparr>"]
  by (simp add: admissible_saves_def)












end
