(* ===== verification/Rpc_Memory.thy ===== *)
theory Rpc_Memory
  imports Rpc_Dispatch
begin

text \<open>
  The request dispatcher on top of the memory backend: every request of the protocol, on every state
  the backend can reach, is answered without a panic and moves the backend along a run of the
  operations of \<open>Memory_Backend\<close>. With the refinement of that theory, a write request on the wire is
  one step of the flat specification, and a repeated one is applied once.
\<close>

section \<open>Runs of the backend\<close>

definition evolves :: "mem_env \<Rightarrow> memory_backend \<Rightarrow> memory_backend \<Rightarrow> bool" where
  "evolves env b b' \<longleftrightarrow> (\<exists>qs xs. mem_run env b qs = Some (b', xs))"

lemma evolves_refl [simp]: "evolves env b b"
  unfolding evolves_def by (rule exI [of _ "[]"]) simp

lemma mem_run_append:
  "mem_run env b (qs @ ps) = (case mem_run env b qs of
     None \<Rightarrow> None
   | Some (b', xs) \<Rightarrow> map_option (\<lambda>(b'', ys). (b'', xs @ ys)) (mem_run env b' ps))"
  by (induction qs arbitrary: b) (auto simp: case_prod_unfold map_option_case split: option.splits)

lemma evolves_trans: "evolves env a b \<Longrightarrow> evolves env b c \<Longrightarrow> evolves env a c"
proof -
  assume "evolves env a b" "evolves env b c"
  then obtain qs xs ps ys where "mem_run env a qs = Some (b, xs)" "mem_run env b ps = Some (c, ys)"
    by (auto simp: evolves_def)
  then have "mem_run env a (qs @ ps) = Some (c, xs @ ys)" by (simp add: mem_run_append)
  then show ?thesis unfolding evolves_def by blast
qed

lemma evolves_step: "mem_step env b q = Some (b', x) \<Longrightarrow> evolves env b b'"
  unfolding evolves_def by (rule exI [of _ "[q]"]) simp

lemma evolves_ok: "evolves env b b' \<Longrightarrow> backend_ok b \<Longrightarrow> backend_ok b'"
  by (auto simp: evolves_def intro: mem_run_spec(1))

section \<open>Calls that neither panic nor leave the runs\<close>

definition safe_call :: "mem_env \<Rightarrow> (memory_backend \<Rightarrow> memory_backend \<times> 'x option) \<Rightarrow> bool" where
  "safe_call env c \<longleftrightarrow> (\<forall>b. backend_ok b \<longrightarrow> (\<exists>b' r. c b = (b', Some r) \<and> evolves env b b'))"

lemma safe_read: "safe_call env (read_call f)"
  by (simp add: safe_call_def read_call_def)

lemma safe_write: "(\<And>b. evolves env b (fst (f b))) \<Longrightarrow> safe_call env (write_call f)"
  by (simp add: safe_call_def write_call_def case_prod_unfold Let_def)

lemma safe_save: "safe_call env (write_call (\<lambda>b. mem_save env b q))"
  by (rule safe_write, rule evolves_step [of _ _ "SaveRequest q"]) (simp add: lift_outcome_def)

lemma safe_enqueue: "safe_call env (write_call (\<lambda>b. mem_enqueue_snapshot env b q))"
  by (rule safe_write) (auto simp: mem_enqueue_snapshot_def case_prod_unfold Let_def lift_outcome_def
      intro: evolves_step [of _ _ "SaveRequest q"])

lemma safe_transaction: "safe_call env (write_call (\<lambda>b. mem_apply_transaction env b q))"
  by (rule safe_write, rule evolves_step [of _ _ "TransactionRequest q"]) (simp add: lift_outcome_def)

lemma safe_panicking:
  assumes "\<And>b. mem_step env b q = map_option (lift_outcome g) (f b)"
  shows "safe_call env (panicking_call f)"
  unfolding safe_call_def
proof (intro allI impI)
  fix b
  assume "backend_ok b"
  then obtain br where "mem_step env b q = Some br" using mem_step_refines by blast
  then obtain b' x where fb: "f b = Some (b', x)" unfolding assms by auto
  then have "evolves env b b'" using assms [of b] by (intro evolves_step [of _ _ q]) (auto simp: lift_outcome_def)
  then show "\<exists>b' r. panicking_call f b = (b', Some r) \<and> evolves env b b'"
    using fb by (simp add: panicking_call_def)
qed

lemma safe_each:
  assumes "\<And>q. safe_call env (f q)"
  shows "safe_call env (each_call f qs)"
proof -
  have "\<exists>b' r. each_call f qs b = (b', Some r) \<and> evolves env b b'" if "backend_ok b" for b
    using that
  proof (induction qs arbitrary: b)
    case (Cons q qs)
    then obtain b1 x where q: "f q b = (b1, Some x)" "evolves env b b1"
      using assms [of q] by (auto simp: safe_call_def)
    then obtain b2 y where qs: "each_call f qs b1 = (b2, Some y)" "evolves env b1 b2"
      using Cons.IH [of b1] evolves_ok [OF q(2) Cons.prems] by blast
    then show ?case using q evolves_trans by (cases y) fastforce+
  qed simp
  then show ?thesis by (simp add: safe_call_def)
qed

lemma safe_rpc_of: "safe_call env (rpc_of r)"
  by (simp add: safe_call_def rpc_of_def)

lemma safe_rpc_call: "safe_call env c \<Longrightarrow> safe_call env (rpc_call display c)"
  by (auto simp: safe_call_def rpc_call_def case_prod_unfold)

lemma safe_rpc_bind:
  assumes "safe_call env m" and "\<And>x. safe_call env (f x)"
  shows "safe_call env (rpc_bind m f)"
  unfolding safe_call_def
proof (intro allI impI)
  fix b
  assume b: "backend_ok b"
  then obtain b1 r where m: "m b = (b1, Some r)" "evolves env b b1" using assms(1) by (auto simp: safe_call_def)
  show "\<exists>b' r. rpc_bind m f b = (b', Some r) \<and> evolves env b b'"
  proof (cases r)
    case (Ok x)
    obtain b2 r2 where "f x b1 = (b2, Some r2)" "evolves env b1 b2"
      using assms(2) [of x] evolves_ok [OF m(2) b] by (auto simp: safe_call_def)
    then show ?thesis using m Ok evolves_trans by (auto simp: rpc_bind_def)
  next
    case (Err e)
    then show ?thesis using m by (simp add: rpc_bind_def)
  qed
qed

lemma safe_if: "safe_call env m \<Longrightarrow> safe_call env m' \<Longrightarrow> safe_call env (if c then m else m')"
  by simp

lemma safe_load_multi: "safe_call env (\<lambda>b. (b, map_option Ok (mem_load_multi env b rs)))"
  by (simp add: safe_call_def mem_load_multi_eq)

lemma safe_memory:
  "safe_call env (be_load (memory_calls env) r)" "safe_call env (be_load_multi (memory_calls env) rs)"
  "safe_call env (be_load_cached (memory_calls env) r)" "safe_call env (be_load_cached_multi (memory_calls env) rs)"
  "safe_call env (be_save (memory_calls env) s)" "safe_call env (be_save_multi (memory_calls env) ss)"
  "safe_call env (be_enqueue_snapshot (memory_calls env) s)"
  "safe_call env (be_enqueue_multi_snapshot (memory_calls env) ss)"
  "safe_call env (be_apply_transaction (memory_calls env) t)"
  "safe_call env (be_load_transaction (memory_calls env) i r)"
  "safe_call env (be_apply_multi_transaction (memory_calls env) m)"
  "safe_call env (be_commit_records (memory_calls env) m eff)"
  "safe_call env (be_load_multi_transaction (memory_calls env) i rs)"
  "safe_call env (be_load_trade (memory_calls env) i)"
  "safe_call env (be_apply_trade_transaction (memory_calls env) d)"
  "safe_call env (be_load_trade_transaction (memory_calls env) i j)"
  by (simp_all add: memory_calls_def safe_read safe_save safe_enqueue safe_transaction safe_load_multi safe_each
      default_load_cached_def default_load_cached_multi_def default_save_multi_def default_enqueue_multi_snapshot_def
      mem_apply_multi_transaction_def
      safe_panicking [of env "CommitRequest m commit_effects_default" Committed]
      safe_panicking [of env "CommitRequest m eff" Committed] safe_panicking [of env "TradeRequest d" Traded])

lemmas safe_rules = safe_rpc_bind safe_rpc_of safe_rpc_call safe_if safe_memory

lemma handle_body_safe: "safe_call env (handle_body display (memory_calls env) mx body)"
  by (cases body) (auto simp: handler_defs Let_def case_prod_unfold intro!: safe_rules)

lemma dispatch_body_safe: "safe_call env (dispatch_body display (memory_calls env) mx body)"
  unfolding dispatch_body_def by (intro safe_rpc_bind safe_rpc_of handle_body_safe)

section \<open>Write requests as requests of the specification\<close>

fun decode_write :: "nat \<Rightarrow> request_body \<Rightarrow> mem_request option" where
  "decode_write mx (SaveSnapshot w) =
     (if mx < length (wss_payload w) then None
      else case save_of_wire w of Ok q \<Rightarrow> Some (SaveRequest q) | Err e \<Rightarrow> None)"
| "decode_write mx (ApplyTransaction w) =
     (if mx < length (wat_payload w) \<or> mx < length (wat_result w) then None
      else case transaction_of_wire w of Ok q \<Rightarrow> Some (TransactionRequest q) | Err e \<Rightarrow> None)"
| "decode_write mx (ApplyMultiTransaction w) =
     (if \<not> admissible mx (ApplyMultiTransaction w) then None
      else case try_map record_write_of_wire (wam_writes w) of
        Ok ws \<Rightarrow> Some (CommitRequest
          \<lparr>mw_operation_id = wam_operation_id w, mw_writes = ws, mw_result = wam_result w\<rparr> commit_effects_default)
      | Err e \<Rightarrow> None)"
| "decode_write mx (CommitRecords w) =
     (if \<not> admissible mx (CommitRecords w) then None
      else case (try_map record_write_of_wire (wcr_writes w), try_map append_of_wire (wcr_appends w),
                 try_map event_of_wire (wcr_outbox_events w)) of
        (Ok ws, Ok as, Ok es) \<Rightarrow> Some (CommitRequest
          \<lparr>mw_operation_id = wcr_operation_id w, mw_writes = ws, mw_result = wcr_result w\<rparr>
          \<lparr>ce_appends = as, ce_outbox_events = es\<rparr>)
      | _ \<Rightarrow> None)"
| "decode_write mx (ApplyTradeTransaction w) =
     (if \<not> admissible_trade mx w then None
      else case trade_transaction_of_wire w of Ok q \<Rightarrow> Some (TradeRequest q) | Err e \<Rightarrow> None)"
| "decode_write mx _ = None"

text \<open>The response that reports an outcome of the specification.\<close>

definition respond :: "request_body \<Rightarrow> mem_receipt write_outcome \<Rightarrow> response_body" where
  "respond body out =
     (let d = disposition_number (disposition_of out) in
      case outcome_receipt out of
        Saved v \<Rightarrow> SaveSnapshotResponse \<lparr>wsr_disposition = d, wsr_revision = v\<rparr>
      | Transacted (v, r) \<Rightarrow> ApplyTransactionResponse \<lparr>war_disposition = d, war_new_revision = v, war_result = r\<rparr>
      | Committed (rs, r) \<Rightarrow>
          let x = \<lparr>wmx_disposition = d, wmx_records = map record_receipt_to_wire rs, wmx_result = r\<rparr>
          in (case body of ApplyMultiTransaction q \<Rightarrow> ApplyMultiTransactionResponse x
              | _ \<Rightarrow> CommitRecordsResponse x)
      | Traded r \<Rightarrow> ApplyTradeTransactionResponse
          \<lparr>wtd_disposition = d, wtd_receipt = Some (trade_receipt_to_wire r)\<rparr>)"

definition rpc_reply :: "(store_error \<Rightarrow> string) \<Rightarrow> request_body \<Rightarrow> (mem_receipt write_outcome, store_error) result \<Rightarrow>
    (response_body, rpc_failure) result" where
  "rpc_reply display body x =
     (case x of Ok out \<Rightarrow> Ok (respond body out) | Err e \<Rightarrow> Err (from_store display e))"

lemma from_backend_Core [simp]: "from_backend display (Core e) = from_store display e"
  by (simp add: from_backend_def)

lemma rpc_call_write:
  "rpc_bind (rpc_call display (write_call f)) k b =
     (case f b of (b', Ok x) \<Rightarrow> k x b' | (b', Err e) \<Rightarrow> (b', Some (Err (from_store display e))))"
  by (simp add: rpc_bind_def rpc_call_def write_call_def Let_def split: prod.split result.split)

lemma rpc_call_panicking:
  "rpc_bind (rpc_call display (panicking_call f)) k b =
     (case f b of None \<Rightarrow> (b, None) | Some (b', Ok x) \<Rightarrow> k x b'
      | Some (b', Err e) \<Rightarrow> (b', Some (Err (from_store display e))))"
  by (simp add: rpc_bind_def rpc_call_def panicking_call_def Let_def split: prod.split result.split option.split)

lemma validate_payload_Ok: "n \<le> m \<Longrightarrow> validate_payload_size fld n m = Ok ()"
  by (simp add: validate_payload_size_Ok)

lemma validate_field_Ok: "text_ok m v \<Longrightarrow> validate_text_field fld v m = Ok ()"
  by (simp add: validate_text_field_Ok)

lemma admitted_writes:
  assumes "admissible_writes mx ws" and "try_map record_write_of_wire ws = Ok qs"
  shows "validate_transaction_payloads qs mx = Ok ()" and "ws \<noteq> []" and "\<not> MAX_TRANSACTION_RECORDS < length ws"
  using assms by (auto simp: admissible_writes_def write_codec.all_of_wire_iff validate_transaction_payloads_def
      try_each_Ok_iff validate_payload_size_Ok list_all_iff record_write_to_wire_def [THEN arg_cong [of _ _ wrw_payload]])

lemma admitted_appends:
  assumes "list_all (\<lambda>a. is_ok (append_of_wire a) \<and> length (wap_payload a) \<le> mx) ws"
    and "try_map append_of_wire ws = Ok as"
  shows "try_each (\<lambda>a. validate_payload_size fld (length (ap_payload a)) mx) as = Ok ()"
  using assms by (auto simp: append_codec.all_of_wire_iff try_each_Ok_iff validate_payload_size_Ok list_all_iff
      append_to_wire_def [THEN arg_cong [of _ _ wap_payload]])

lemma admitted_events:
  assumes "list_all (\<lambda>e. is_ok (event_of_wire e) \<and> length (woe_payload e) \<le> mx) ws"
    and "try_map event_of_wire ws = Ok es"
  shows "try_each (\<lambda>e. validate_payload_size fld (length (oe_payload e)) mx) es = Ok ()"
  using assms by (auto simp: event_codec.all_of_wire_iff try_each_Ok_iff validate_payload_size_Ok list_all_iff
      event_to_wire_def [THEN arg_cong [of _ _ woe_payload]])

lemma admitted_trade: "admissible_trade mx w \<Longrightarrow> validate_trade_payloads w mx = Ok ()"
  by (auto simp: admissible_trade_def validate_trade_payloads_def and_then_Ok_iff try_each_Ok_iff
      validate_payload_size_Ok list_all_iff split: option.splits)

lemmas reply_defs = rpc_reply_def respond_def lift_outcome_def rpc_of_def snapshot_outcome_def transaction_outcome_def
  multi_transaction_outcome_def trade_transaction_outcome_def Let_def

lemma disposition_lift [simp]: "disposition_of (map_write_outcome f x) = disposition_of x"
  "outcome_receipt (map_write_outcome f x) = f (outcome_receipt x)"
  by (cases x; simp)+

lemma handle_save_step:
  assumes "decode_write mx (SaveSnapshot w) = Some q"
  shows "handle_body display (memory_calls env) mx (SaveSnapshot w) b =
    (case mem_step env b q of None \<Rightarrow> (b, None)
     | Some (b', x) \<Rightarrow> (b', Some (rpc_reply display (SaveSnapshot w) x)))"
proof -
  obtain c where c: "save_of_wire w = Ok c" "q = SaveRequest c" "length (wss_payload w) \<le> mx"
    using assms by (auto split: if_splits result.splits)
  show ?thesis
    by (simp add: handle_save_snapshot_def c validate_payload_Ok memory_calls_def rpc_call_write)
      (simp add: reply_defs split: prod.split result.split)
qed

lemma handle_transaction_step:
  assumes "decode_write mx (ApplyTransaction w) = Some q"
  shows "handle_body display (memory_calls env) mx (ApplyTransaction w) b =
    (case mem_step env b q of None \<Rightarrow> (b, None)
     | Some (b', x) \<Rightarrow> (b', Some (rpc_reply display (ApplyTransaction w) x)))"
proof -
  obtain c where c: "transaction_of_wire w = Ok c" "q = TransactionRequest c" "length (wat_payload w) \<le> mx"
    "length (wat_result w) \<le> mx"
    using assms by (auto split: if_splits result.splits)
  show ?thesis
    by (simp add: handle_apply_transaction_def c validate_payload_Ok memory_calls_def rpc_call_write)
      (simp add: reply_defs split: prod.split result.split)
qed

lemma handle_multi_step:
  assumes "decode_write mx (ApplyMultiTransaction w) = Some q"
  shows "handle_body display (memory_calls env) mx (ApplyMultiTransaction w) b =
    (case mem_step env b q of None \<Rightarrow> (b, None)
     | Some (b', x) \<Rightarrow> (b', Some (rpc_reply display (ApplyMultiTransaction w) x)))"
proof -
  obtain ws where c: "try_map record_write_of_wire (wam_writes w) = Ok ws"
    "q = CommitRequest \<lparr>mw_operation_id = wam_operation_id w, mw_writes = ws, mw_result = wam_result w\<rparr> commit_effects_default"
    "admissible_writes mx (wam_writes w)" "length (wam_result w) \<le> mx"
    "text_ok MAX_IDEMPOTENCY_KEY_BYTES (wam_operation_id w)"
    using assms by (auto split: if_splits result.splits)
  show ?thesis
    by (simp add: handle_apply_multi_transaction_def c admitted_writes [OF c(3,1)] validate_payload_Ok validate_field_Ok
        memory_calls_def rpc_call_panicking mem_apply_multi_transaction_def)
      (simp add: reply_defs split: prod.split result.split option.split)
qed

lemma handle_commit_step:
  assumes "decode_write mx (CommitRecords w) = Some q"
  shows "handle_body display (memory_calls env) mx (CommitRecords w) b =
    (case mem_step env b q of None \<Rightarrow> (b, None)
     | Some (b', x) \<Rightarrow> (b', Some (rpc_reply display (CommitRecords w) x)))"
proof -
  obtain ws as es where c: "try_map record_write_of_wire (wcr_writes w) = Ok ws"
    "try_map append_of_wire (wcr_appends w) = Ok as" "try_map event_of_wire (wcr_outbox_events w) = Ok es"
    "q = CommitRequest \<lparr>mw_operation_id = wcr_operation_id w, mw_writes = ws, mw_result = wcr_result w\<rparr>
       \<lparr>ce_appends = as, ce_outbox_events = es\<rparr>"
    and ad: "admissible mx (CommitRecords w)"
    using assms by (auto split: if_splits result.splits)
  have d: "admissible_writes mx (wcr_writes w)" "length (wcr_result w) \<le> mx"
    "text_ok MAX_IDEMPOTENCY_KEY_BYTES (wcr_operation_id w)"
    "\<not> MAX_TRANSACTION_RECORDS < length (wcr_appends w)" "\<not> MAX_OUTBOX_EVENTS < length (wcr_outbox_events w)"
    "list_all (\<lambda>a. is_ok (append_of_wire a) \<and> length (wap_payload a) \<le> mx) (wcr_appends w)"
    "list_all (\<lambda>e. is_ok (event_of_wire e) \<and> length (woe_payload e) \<le> mx) (wcr_outbox_events w)"
    using ad by simp_all
  show ?thesis
    by (simp add: handle_commit_records_def c d(2-5) admitted_writes [OF d(1) c(1)] admitted_appends [OF d(6) c(2)]
        admitted_events [OF d(7) c(3)] validate_payload_Ok validate_field_Ok memory_calls_def rpc_call_panicking)
      (simp add: reply_defs split: prod.split result.split option.split)
qed

lemma handle_trade_step:
  assumes "decode_write mx (ApplyTradeTransaction w) = Some q"
  shows "handle_body display (memory_calls env) mx (ApplyTradeTransaction w) b =
    (case mem_step env b q of None \<Rightarrow> (b, None)
     | Some (b', x) \<Rightarrow> (b', Some (rpc_reply display (ApplyTradeTransaction w) x)))"
proof -
  obtain c where c: "trade_transaction_of_wire w = Ok c" "q = TradeRequest c" "admissible_trade mx w"
    using assms by (auto split: if_splits result.splits)
  show ?thesis
    by (simp add: handle_apply_trade_transaction_def c admitted_trade memory_calls_def rpc_call_panicking)
      (simp add: reply_defs split: prod.split result.split option.split)
qed

lemma handle_write_step:
  assumes "decode_write mx body = Some q"
  shows "dispatch_body display (memory_calls env) mx (Some body) b =
    (case mem_step env b q of None \<Rightarrow> (b, None) | Some (b', x) \<Rightarrow> (b', Some (rpc_reply display body x)))"
  unfolding dispatch_body_def ok_or.simps rpc_bind_of
  using assms by (cases body) (auto simp only: handle_save_step handle_transaction_step handle_multi_step
      handle_commit_step handle_trade_step decode_write.simps(6-) option.distinct(1))

lemma decode_admissible: "decode_write mx body = Some q \<Longrightarrow> admissible mx body"
  by (cases body) (auto simp: is_ok_iff split: if_splits result.splits)

section \<open>Sequences of requests on one backend\<close>

fun rpc_run :: "(store_error \<Rightarrow> string) \<Rightarrow> mem_env \<Rightarrow> nat \<Rightarrow> memory_backend \<Rightarrow> request_envelope list \<Rightarrow>
    memory_backend \<times> server_frame list" where
  "rpc_run display env mx b [] = (b, [])"
| "rpc_run display env mx b (q # qs) =
     (let (b', f) = dispatch_isolated display (memory_calls env) mx q b;
          (b'', fs) = rpc_run display env mx b' qs
      in (b'', f # fs))"

lemma dispatch_evolves:
  assumes "backend_ok b"
  shows "evolves env b (fst (dispatch_isolated display (memory_calls env) mx q b))"
proof -
  obtain b' r where "dispatch_body display (memory_calls env) mx (rq_body q) b = (b', Some r)" "evolves env b b'"
    using dispatch_body_safe [of env display mx "rq_body q"] assms by (auto simp: safe_call_def)
  then show ?thesis by (simp add: dispatch_response split: result.split)
qed

lemma rpc_run_evolves:
  "backend_ok b \<Longrightarrow> evolves env b (fst (rpc_run display env mx b qs))"
proof (induction qs arbitrary: b)
  case (Cons q qs)
  let ?b = "fst (dispatch_isolated display (memory_calls env) mx q b)"
  have "evolves env b ?b" using Cons.prems by (rule dispatch_evolves)
  moreover from this have "evolves env ?b (fst (rpc_run display env mx ?b qs))"
    using Cons evolves_ok by blast
  ultimately have "evolves env b (fst (rpc_run display env mx ?b qs))" by (rule evolves_trans)
  then show ?case by (simp add: case_prod_unfold Let_def)
qed simp

text \<open>Disposition of a response: the five writes that carry one.\<close>

fun response_disposition :: "response_body \<Rightarrow> i32 option" where
  "response_disposition (SaveSnapshotResponse x) = Some (wsr_disposition x)"
| "response_disposition (ApplyTransactionResponse x) = Some (war_disposition x)"
| "response_disposition (ApplyMultiTransactionResponse x) = Some (wmx_disposition x)"
| "response_disposition (CommitRecordsResponse x) = Some (wmx_disposition x)"
| "response_disposition (ApplyTradeTransactionResponse x) = Some (wtd_disposition x)"
| "response_disposition _ = None"

fun as_duplicate :: "response_body \<Rightarrow> response_body" where
  "as_duplicate (SaveSnapshotResponse x) = SaveSnapshotResponse (x\<lparr>wsr_disposition := 2\<rparr>)"
| "as_duplicate (ApplyTransactionResponse x) = ApplyTransactionResponse (x\<lparr>war_disposition := 2\<rparr>)"
| "as_duplicate (ApplyMultiTransactionResponse x) = ApplyMultiTransactionResponse (x\<lparr>wmx_disposition := 2\<rparr>)"
| "as_duplicate (CommitRecordsResponse x) = CommitRecordsResponse (x\<lparr>wmx_disposition := 2\<rparr>)"
| "as_duplicate (ApplyTradeTransactionResponse x) = ApplyTradeTransactionResponse (x\<lparr>wtd_disposition := 2\<rparr>)"
| "as_duplicate x = x"

lemma respond_disposition: "response_disposition (respond body out) = Some (disposition_number (disposition_of out))"
  by (auto simp: respond_def Let_def split: mem_receipt.splits prod.splits request_body.splits)

lemma respond_duplicate: "respond body (Duplicate r) = as_duplicate (respond body (Applied r))"
  by (auto simp: respond_def Let_def split: mem_receipt.splits prod.splits request_body.splits)

lemma mem_duplicate_same:
  assumes "mem_step env b q = Some (b', Ok (Duplicate r))"
  shows "b' = b"
proof (cases q)
  case (SaveRequest w)
  then have "mem_save env b w = (b', Ok (Duplicate r'))" if "r = Saved r'" for r'
    using assms that by (auto simp: lift_outcome_Duplicate)
  then show ?thesis using assms SaveRequest
    by (auto simp: lift_outcome_Duplicate mem_save_def Let_def split: if_splits option.splits result.splits)
next
  case (TransactionRequest w)
  then show ?thesis using assms
    by (auto simp: lift_outcome_Duplicate mem_apply_transaction_def Let_def split: if_splits option.splits result.splits)
next
  case (CommitRequest w eff)
  then have "\<exists>x. mem_commit_records env b w eff = Some (b', Ok (Duplicate x))"
    using assms by (auto simp: lift_outcome_Duplicate map_option_case split: option.splits)
  then show ?thesis
    by (auto simp: mem_commit_records_def Let_def split: if_splits option.splits result.splits)
next
  case (TradeRequest w)
  then have "\<exists>x. mem_apply_trade_transaction env b w = Some (b', Ok (Duplicate x))"
    using assms by (auto simp: lift_outcome_Duplicate map_option_case split: option.splits)
  then show ?thesis
    by (auto simp: mem_apply_trade_transaction_def Let_def split: if_splits option.splits result.splits)
qed

lemma try_map_all_ok: "list_all (\<lambda>x. is_ok (f x)) xs \<Longrightarrow> \<exists>ys. try_map f xs = Ok ys"
  by (induction xs) (auto simp: is_ok_iff)

lemma admissible_decodes:
  assumes "admissible mx body" and "answers body x" and "response_disposition x = Some d"
  shows "\<exists>q. decode_write mx body = Some q"
proof (cases body)
  case (ApplyMultiTransaction w)
  then have "\<exists>ws. try_map record_write_of_wire (wam_writes w) = Ok ws"
    using assms(1) by (intro try_map_all_ok) (simp add: admissible_writes_def list_all_iff)
  then show ?thesis using assms(1) ApplyMultiTransaction by auto
next
  case (CommitRecords w)
  then have "\<exists>ws. try_map record_write_of_wire (wcr_writes w) = Ok ws"
    "\<exists>as. try_map append_of_wire (wcr_appends w) = Ok as"
    "\<exists>es. try_map event_of_wire (wcr_outbox_events w) = Ok es"
    using assms(1) by (intro try_map_all_ok; simp add: admissible_writes_def list_all_iff)+
  then show ?thesis using assms(1) CommitRecords by auto
next
  case (ApplyTradeTransaction w)
  then show ?thesis using assms(1) by (auto simp: admissible_trade_def is_ok_iff)
qed (use assms in \<open>auto simp: is_ok_iff split: response_body.splits\<close>)

lemma written_decodes:
  assumes "dispatch_body display (memory_calls env) mx (Some body) b = (b', Some (Ok x))"
    and "response_disposition x = Some d"
  shows "\<exists>q. decode_write mx body = Some q"
proof -
  have h: "handle_body display (memory_calls env) mx body b = (b', Some (Ok x))"
    using assms(1) by (simp add: dispatch_body_def)
  have "admissible mx body"
  proof (rule ccontr)
    assume "\<not> admissible mx body"
    from handle_body_refuses [OF this, of display "memory_calls env"]
    have "\<exists>f. handle_body display (memory_calls env) mx body b = (b, Some (Err f))"
      unfolding refuses_def by blast
    with h show False by simp
  qed
  then show ?thesis using handle_body_answers [OF h] assms(2) by (rule admissible_decodes)
qed

lemma mem_retry_replays:
  assumes "memory_backend_new n = Some b0" and "evolves env b0 b1" and "mem_step env b1 q = Some (b2, Ok (Applied r))"
    and "evolves env b2 b3"
  shows "mem_step env b3 q = Some (b3, Ok (Duplicate r))"
proof -
  have ok1: "backend_ok b1" using evolves_ok [OF assms(2)] memory_backend_new_ok(1) [OF assms(1)] by blast
  have ok2: "backend_ok b2" using evolves_ok [OF evolves_step [OF assms(3)] ok1] .
  have ok3: "backend_ok b3" using evolves_ok [OF assms(4) ok2] .
  obtain qs xs where "mem_run env b0 qs = Some (b1, xs)" using assms(2) by (auto simp: evolves_def)
  from mem_run_new [OF assms(1) this] have "spec_ok (abs_spec env b1)"
    using spec.invar_run [OF spec_empty_ok(1), of "params env" qs] by simp
  moreover have "spec_step (params env) (abs_spec env b1) q = (abs_spec env b2, Ok (Applied r))"
    using mem_step_refines [OF ok1, of env q] assms(3) by (auto simp: refines_def prod_eq_iff)
  moreover obtain ps ys where "mem_run env b2 ps = Some (b3, ys)" using assms(4) by (auto simp: evolves_def)
  then have "run (spec_step (params env)) (abs_spec env b2) ps = (abs_spec env b3, ys)"
    by (rule mem_run_spec(2) [OF ok2])
  ultimately have "spec_step (params env) (abs_spec env b3) q = (abs_spec env b3, Ok (Duplicate r))"
    by (rule spec.retry_replays)
  then obtain b4 where "mem_step env b3 q = Some (b4, Ok (Duplicate r))"
    using mem_step_refines [OF ok3, of env q] by (auto simp: refines_def prod_eq_iff)
  then show ?thesis using mem_duplicate_same by blast
qed

section \<open>Properties\<close>

text \<open>
  C34. The server with the memory backend implements the flat specification on the wire: a write request
  within the limits, of any of the five kinds, is exactly one step of the specification. The answer
  is the response of the specification's outcome, or the public form of its error, and the state
  afterwards is the specification's.
\<close>

theorem rpc_writes_refine:
  assumes "backend_ok b" and "decode_write mx body = Some q"
  shows "\<exists>b'. backend_ok b' \<and>
    abs_spec env b' = fst (spec_step (params env) (abs_spec env b) q) \<and>
    dispatch_body display (memory_calls env) mx (Some body) b =
      (b', Some (rpc_reply display body (snd (spec_step (params env) (abs_spec env b) q))))"
proof -
  obtain b' x where "mem_step env b q = Some (b', x)" "refines env (b', x) (spec_step (params env) (abs_spec env b) q)"
    using mem_step_refines [OF assms(1), of env q] by fastforce
  then show ?thesis unfolding handle_write_step [OF assms(2)] by (auto simp: refines_def)
qed

definition wire_transaction :: apply_transaction_request where
  "wire_transaction = transaction_to_wire (demo_transaction ''op'' ''1'' 0)"

lemma wire_transaction_decodes:
  "decode_write 8 (ApplyTransaction wire_transaction) = Some (TransactionRequest (demo_transaction ''op'' ''1'' 0))"
proof -
  have "transaction_in_limits (demo_transaction ''op'' ''1'' 0)"
    by (simp add: transaction_in_limits_def demo_transaction_def text_ok_def limit_defs key_in_limits_def player_key_def)
  then have "transaction_of_wire wire_transaction = Ok (demo_transaction ''op'' ''1'' 0)"
    by (simp add: wire_transaction_def transaction_of_wire_iff)
  then show ?thesis by (simp add: wire_transaction_def transaction_to_wire_def demo_transaction_def)
qed

lemma demo_backend_ok: "backend_ok demo_backend" "abs_spec demo_env demo_backend = spec_empty"
  using memory_backend_new_ok [OF demo_backend_new] by simp_all

lemma wire_transaction_outcome:
  "snd (spec_step (params demo_env) spec_empty (TransactionRequest (demo_transaction ''op'' ''1'' 0))) =
     Ok (Applied (Transacted (1, [8])))"
  by (simp add: spec_eval)

theorem rpc_writes_refine_witness:
  "\<exists>b'. dispatch_body (\<lambda>_. ''error'') (memory_calls demo_env) 8 (Some (ApplyTransaction wire_transaction)) demo_backend =
     (b', Some (Ok (ApplyTransactionResponse \<lparr>war_disposition = 1, war_new_revision = 1, war_result = [8]\<rparr>)))"
  using rpc_writes_refine [OF demo_backend_ok(1) wire_transaction_decodes, of demo_env "\<lambda>_. ''error''"]
  by (auto simp: demo_backend_ok(2) wire_transaction_outcome rpc_reply_def respond_def simp del: spec_step.simps)

text \<open>
  C35. Exactly once over the network: on a server started with an empty memory backend, when a write was
  answered as applied, sending the same request again, after any other requests of any clients and
  under any request identifier, is answered with the same receipt marked as a duplicate and changes
  nothing.
\<close>

theorem rpc_exactly_once:
  assumes "memory_backend_new n = Some b0"
    and "rpc_run display env mx b0 before = (b1, fs1)"
    and "dispatch_isolated display (memory_calls env) mx q b1 =
      (b2, ResponseFrame \<lparr>rp_rpc_id = i, rp_error = None, rp_body = Some x\<rparr>)"
    and "response_disposition x = Some (disposition_number DispositionApplied)"
    and "rpc_run display env mx b2 between = (b3, fs3)"
    and "rq_body q' = rq_body q"
  shows "dispatch_isolated display (memory_calls env) mx q' b3 =
    (b3, ResponseFrame \<lparr>rp_rpc_id = rq_rpc_id q', rp_error = None, rp_body = Some (as_duplicate x)\<rparr>)"
proof -
  have ok0: "backend_ok b0" using memory_backend_new_ok(1) [OF assms(1)] .
  have e1: "evolves env b0 b1" using rpc_run_evolves [OF ok0, of env display mx before] assms(2) by simp
  have d: "dispatch_body display (memory_calls env) mx (rq_body q) b1 = (b2, Some (Ok x))"
    using assms(3) by (auto simp: dispatch_response split: prod.splits option.splits result.splits)
  then obtain body where body: "rq_body q = Some body" by (cases "rq_body q") (simp_all add: dispatch_body_def rpc_of_def)
  obtain w where w: "decode_write mx body = Some w"
    using written_decodes [OF d [unfolded body] assms(4)] by blast
  obtain out where s: "mem_step env b1 w = Some (b2, Ok out)" "x = respond body out"
    using d by (auto simp: body handle_write_step [OF w] rpc_reply_def split: option.splits result.splits)
  have "disposition_number (disposition_of out) = 1" using assms(4) s(2) by (simp add: respond_disposition)
  then obtain r where r: "out = Applied r" by (cases out) simp_all
  have "evolves env b2 b3"
    using rpc_run_evolves [OF evolves_ok [OF evolves_trans [OF e1 evolves_step [OF s(1)]] ok0], of env display mx between]
      assms(5) by simp
  from mem_retry_replays [OF assms(1) e1 s(1) [unfolded r] this]
  have "dispatch_body display (memory_calls env) mx (rq_body q') b3 = (b3, Some (Ok (respond body (Duplicate r))))"
    by (simp add: assms(6) body handle_write_step [OF w] rpc_reply_def)
  then show ?thesis by (simp add: dispatch_response s(2) r respond_duplicate)
qed

theorem rpc_exactly_once_witness:
  "\<exists>b. dispatch_isolated (\<lambda>_. ''error'') (memory_calls demo_env) 8
        \<lparr>rq_rpc_id = 3, rq_body = Some (ApplyTransaction wire_transaction)\<rparr> b =
      (b, ResponseFrame \<lparr>rp_rpc_id = 3, rp_error = None, rp_body =
         Some (ApplyTransactionResponse \<lparr>war_disposition = 2, war_new_revision = 1, war_result = [8]\<rparr>)\<rparr>)"
proof -
  let ?q = "\<lparr>rq_rpc_id = 1, rq_body = Some (ApplyTransaction wire_transaction)\<rparr>"
  let ?x = "ApplyTransactionResponse \<lparr>war_disposition = 1, war_new_revision = 1, war_result = [8]\<rparr>"
  obtain b2 where "mem_step demo_env demo_backend (TransactionRequest (demo_transaction ''op'' ''1'' 0)) =
      Some (b2, Ok (Applied (Transacted (1, [8]))))"
    using mem_step_refines [OF demo_backend_ok(1), of demo_env "TransactionRequest (demo_transaction ''op'' ''1'' 0)"]
      wire_transaction_outcome
    by (auto simp: refines_def demo_backend_ok(2) prod_eq_iff simp del: spec_step.simps mem_step.simps)
  then have d: "dispatch_isolated (\<lambda>_. ''error'') (memory_calls demo_env) 8 ?q demo_backend =
      (b2, ResponseFrame \<lparr>rp_rpc_id = 1, rp_error = None, rp_body = Some ?x\<rparr>)"
    by (simp add: dispatch_response handle_write_step [OF wire_transaction_decodes] rpc_reply_def respond_def)
  show ?thesis
    using rpc_exactly_once [OF demo_backend_new _ d, of "[]" "[]" "[]" b2 "[]"
        "\<lparr>rq_rpc_id = 3, rq_body = Some (ApplyTransaction wire_transaction)\<rparr>"]
    by auto
qed

end
