(* ===== verification/Request_Ordering.thy ===== *)
theory Request_Ordering
  imports Wire_Types "HOL-Library.AList"
begin

text \<open>
  Concurrent requests of one connection (\<open>order_keys\<close>, \<open>RequestOrdering\<close> and the tasks of
  \<open>serve_requests\<close> in \<open>crates/dbproxy-server/src/lib.rs\<close>). Every request is admitted in arrival
  order and gets the completion signals of the requests it must wait for; its task runs the handler
  when they are all finished.

  A completion channel is the arrival number of its request: \<open>has_changed\<close> succeeds as long as the
  sender lives, that is until the request is finished, and \<open>same_channel\<close> is equality. The iteration
  order of the hash set of keys is not fixed: the steps below take any list of the keys.
\<close>

section \<open>Ordering keys\<close>

datatype order_key =
    OrderRecord string string
  | OrderOperation string
  | OrderTrade string

definition record_keys :: "wire_record_key option \<Rightarrow> order_key set" where
  "record_keys w = (case w of None \<Rightarrow> {} | Some r \<Rightarrow> {OrderRecord (wk_namespace r) (wk_key r)})"

definition all_record_keys :: "wire_record_key option list \<Rightarrow> order_key set" where
  "all_record_keys ws = \<Union> (set (map record_keys ws))"

fun order_keys :: "request_body option \<Rightarrow> order_key set" where
  "order_keys None = {}"
| "order_keys (Some (LoadSnapshot q)) = record_keys (wls_record q)"
| "order_keys (Some (LoadMultiSnapshot q)) = all_record_keys (map Some (wlm_records q))"
| "order_keys (Some (SaveSnapshot q)) = record_keys (wss_record q)"
| "order_keys (Some (SaveMultiSnapshot qs)) = all_record_keys (map wss_record qs)"
| "order_keys (Some (EnqueueSnapshot q)) =
     record_keys (case q of None \<Rightarrow> None | Some w \<Rightarrow> wss_record w)"
| "order_keys (Some (EnqueueMultiSnapshot qs)) = all_record_keys (map wss_record qs)"
| "order_keys (Some (ApplyTransaction q)) =
     insert (OrderOperation (wat_operation_id q)) (record_keys (wat_record q))"
| "order_keys (Some (LoadTransaction q)) =
     insert (OrderOperation (wlt_operation_id q)) (record_keys (wlt_record q))"
| "order_keys (Some (ApplyMultiTransaction q)) =
     insert (OrderOperation (wam_operation_id q)) (all_record_keys (map wrw_record (wam_writes q)))"
| "order_keys (Some (CommitRecords q)) =
     insert (OrderOperation (wcr_operation_id q)) (all_record_keys (map wrw_record (wcr_writes q)))"
| "order_keys (Some (LoadMultiTransaction q)) =
     insert (OrderOperation (wlx_operation_id q)) (all_record_keys (map Some (wlx_records q)))"
| "order_keys (Some (ApplyTradeTransaction q)) =
     insert (OrderOperation (wtx_operation_id q))
       ((case wtx_transition q of None \<Rightarrow> {} | Some t \<Rightarrow> {OrderTrade (wtt_trade_id t)}) \<union>
        all_record_keys (map wrw_record (wtx_writes q)))"
| "order_keys (Some (LoadTrade i)) = {OrderTrade i}"
| "order_keys (Some (LoadTradeTransaction q)) =
     {OrderOperation (wlr_operation_id q), OrderTrade (wlr_trade_id q)}"

section \<open>Admission\<close>

definition ORDERING_PRUNE_FLOOR :: nat where
  "ORDERING_PRUNE_FLOOR = 1024"

record request_ordering =
  ro_tails :: "(order_key \<times> nat) list"
  ro_prune_at :: nat

definition ordering_default :: request_ordering where
  "ordering_default = \<lparr>ro_tails = [], ro_prune_at = ORDERING_PRUNE_FLOOR\<rparr>"

text \<open>The loop over the keys, with the requests that are not finished as \<open>alive\<close>.\<close>

fun admit_keys :: "(nat \<Rightarrow> bool) \<Rightarrow> nat \<Rightarrow> order_key list \<Rightarrow> (order_key \<times> nat) list \<Rightarrow> nat list \<Rightarrow>
    (order_key \<times> nat) list \<times> nat list" where
  "admit_keys alive me [] tails predecessors = (tails, predecessors)"
| "admit_keys alive me (k # ks) tails predecessors =
     admit_keys alive me ks (AList.update k me tails)
       (case map_of tails k of
          None \<Rightarrow> predecessors
        | Some previous \<Rightarrow>
            if alive previous \<and> previous \<notin> set predecessors then predecessors @ [previous] else predecessors)"

definition admit :: "(nat \<Rightarrow> bool) \<Rightarrow> nat \<Rightarrow> order_key list \<Rightarrow> request_ordering \<Rightarrow> request_ordering \<times> nat list" where
  "admit alive me keys ord =
     (let (tails, predecessors) = admit_keys alive me keys (ro_tails ord) []
      in if ro_prune_at ord < length tails
         then let kept = filter (\<lambda>(k, tail). alive tail) tails
              in (\<lparr>ro_tails = kept, ro_prune_at = max (length kept * 2) ORDERING_PRUNE_FLOOR\<rparr>, predecessors)
         else (\<lparr>ro_tails = tails, ro_prune_at = ro_prune_at ord\<rparr>, predecessors))"

lemma admit_keys_tails:
  "map_of (fst (admit_keys alive me ks tails ps)) k = (if k \<in> set ks then Some me else map_of tails k)"
  by (induction alive me ks tails ps rule: admit_keys.induct) (auto simp: update_conv')

lemma admit_keys_predecessors:
  "distinct ks \<Longrightarrow> set (snd (admit_keys alive me ks tails ps)) =
     set ps \<union> {t. alive t \<and> (\<exists>k\<in>set ks. map_of tails k = Some t)}"
proof (induction ks arbitrary: tails ps)
  case (Cons k ks)
  then have "set (snd (admit_keys alive me ks (AList.update k me tails) qs)) =
      set qs \<union> {t. alive t \<and> (\<exists>k\<in>set ks. map_of tails k = Some t)}" for qs
    by (force simp: update_conv')
  then show ?case by (auto split: option.splits)
qed simp

lemma admit_keys_distinct:
  "distinct (map fst tails) \<Longrightarrow> distinct (map fst (fst (admit_keys alive me ks tails ps)))"
  by (induction alive me ks tails ps rule: admit_keys.induct) (auto simp: distinct_update)

lemma map_of_filter_distinct:
  "distinct (map fst xs) \<Longrightarrow> map_of (filter (\<lambda>(k, v). P v) xs) k =
     (case map_of xs k of None \<Rightarrow> None | Some v \<Rightarrow> if P v then Some v else None)"
  by (induction xs) (auto split: option.splits simp: map_of_eq_None_iff [symmetric] image_iff)

lemma admit_tails:
  assumes "distinct (map fst (ro_tails ord))" and "admit alive me ks ord = (ord', ps)"
  shows "distinct (map fst (ro_tails ord'))"
    and "map_of (ro_tails ord') k = Some t \<Longrightarrow> (if k \<in> set ks then t = me else map_of (ro_tails ord) k = Some t)"
    and "map_of (ro_tails ord') k = None \<Longrightarrow> alive me \<Longrightarrow>
      k \<notin> set ks \<and> (case map_of (ro_tails ord) k of None \<Rightarrow> True | Some u \<Rightarrow> \<not> alive u)"
    and "length (ro_tails ord') \<le> ro_prune_at ord'"
proof -
  define tails where "tails = fst (admit_keys alive me ks (ro_tails ord) [])"
  have d: "distinct (map fst tails)" using assms(1) by (simp add: tails_def admit_keys_distinct)
  have m: "map_of tails k = (if k \<in> set ks then Some me else map_of (ro_tails ord) k)"
    by (simp add: tails_def admit_keys_tails)
  have ord: "ro_tails ord' = (if ro_prune_at ord < length tails then filter (\<lambda>(k, t). alive t) tails else tails)"
    "ro_prune_at ord' = (if ro_prune_at ord < length tails
       then max (length (filter (\<lambda>(k, t). alive t) tails) * 2) ORDERING_PRUNE_FLOOR else ro_prune_at ord)"
    using assms(2) by (auto simp: admit_def tails_def case_prod_unfold Let_def split: if_splits)
  show "distinct (map fst (ro_tails ord'))" using d by (simp add: ord distinct_map_filter)
  show "map_of (ro_tails ord') k = Some t \<Longrightarrow> (if k \<in> set ks then t = me else map_of (ro_tails ord) k = Some t)"
    using m by (auto simp: ord map_of_filter_distinct [OF d] split: if_splits option.splits)
  show "map_of (ro_tails ord') k = None \<Longrightarrow> alive me \<Longrightarrow>
      k \<notin> set ks \<and> (case map_of (ro_tails ord) k of None \<Rightarrow> True | Some u \<Rightarrow> \<not> alive u)"
    using m by (auto simp: ord map_of_filter_distinct [OF d] split: if_splits option.splits)
  show "length (ro_tails ord') \<le> ro_prune_at ord'" by (simp add: ord le_max_iff_disj)
qed

lemma admit_predecessors:
  "distinct ks \<Longrightarrow> admit alive me ks ord = (ord', ps) \<Longrightarrow>
     set ps = {t. alive t \<and> (\<exists>k\<in>set ks. map_of (ro_tails ord) k = Some t)}"
  using admit_keys_predecessors [of ks alive me "ro_tails ord" "[]"]
  by (auto simp: admit_def case_prod_unfold Let_def split: if_splits)

section \<open>The tasks of a connection\<close>

record connection =
  cn_ordering :: request_ordering
  cn_keys :: "order_key list list"
  cn_waiting :: "(nat \<times> nat list) list"
  cn_running :: "nat list"

text \<open>
  The requests admitted so far are numbered by their position in \<open>cn_keys\<close>. One is alive from its
  admission until its completion signal is dropped.
\<close>

definition connection_new :: connection where
  "connection_new = \<lparr>cn_ordering = ordering_default, cn_keys = [], cn_waiting = [], cn_running = []\<rparr>"

definition alive :: "connection \<Rightarrow> nat \<Rightarrow> bool" where
  "alive c i \<longleftrightarrow> i \<in> fst ` set (cn_waiting c) \<or> i \<in> set (cn_running c)"

datatype conn_event = Admitted "request_body option" | Started nat | Finished nat

text \<open>
  A request is read when a permit is free; its task starts the handler once every predecessor has
  dropped its signal, and drops its own signal when the handler returned. The permit is returned with
  the signal, which is earlier than the source does it and so allows more interleavings.
\<close>

inductive conn_step :: "nat \<Rightarrow> connection \<Rightarrow> conn_event \<Rightarrow> connection \<Rightarrow> bool" for limit where
  admitted: "conn_step limit c (Admitted body)
      (c\<lparr>cn_ordering := ord', cn_keys := cn_keys c @ [ks], cn_waiting := cn_waiting c @ [(me, ps)]\<rparr>)"
    if "length (cn_waiting c) + length (cn_running c) < limit"
      and "set ks = order_keys body" and "distinct ks" and "me = length (cn_keys c)"
      and "admit (\<lambda>i. alive c i \<or> i = me) me ks (cn_ordering c) = (ord', ps)"
| started: "conn_step limit c (Started i)
      (c\<lparr>cn_waiting := filter (\<lambda>w. fst w \<noteq> i) (cn_waiting c), cn_running := i # cn_running c\<rparr>)"
    if "(i, ps) \<in> set (cn_waiting c)" and "\<forall>p\<in>set ps. \<not> alive c p"
| finished: "conn_step limit c (Finished i) (c\<lparr>cn_running := remove1 i (cn_running c)\<rparr>)"
    if "i \<in> set (cn_running c)"

inductive conn_run :: "nat \<Rightarrow> connection \<Rightarrow> conn_event list \<Rightarrow> connection \<Rightarrow> bool" for limit where
  stop: "conn_run limit c [] c"
| step: "conn_run limit c (es @ [e]) c''" if "conn_run limit c es c'" and "conn_step limit c' e c''"


definition has_key :: "connection \<Rightarrow> order_key \<Rightarrow> nat \<Rightarrow> bool" where
  "has_key c k i \<longleftrightarrow> i < length (cn_keys c) \<and> k \<in> set (cn_keys c ! i)"

section \<open>Invariant\<close>

text \<open>
  The tails name the latest request of each key, or forget a key all of whose requests are finished;
  the requests that were started wait for nobody; and the predecessors of a waiting request include,
  for each key, one at or after every unfinished earlier request of that key.
\<close>

definition tails_ok :: "connection \<Rightarrow> bool" where
  "tails_ok c \<longleftrightarrow> distinct (map fst (ro_tails (cn_ordering c))) \<and>
     (\<forall>k. case map_of (ro_tails (cn_ordering c)) k of
        Some t \<Rightarrow> has_key c k t \<and> (\<forall>i. has_key c k i \<longrightarrow> i \<le> t)
      | None \<Rightarrow> (\<forall>i. has_key c k i \<longrightarrow> \<not> alive c i))"

definition tasks_ok :: "connection \<Rightarrow> bool" where
  "tasks_ok c \<longleftrightarrow> distinct (map fst (cn_waiting c) @ cn_running c) \<and>
     (\<forall>i. alive c i \<longrightarrow> i < length (cn_keys c)) \<and>
     (\<forall>(j, ps)\<in>set (cn_waiting c). \<forall>p\<in>set ps. p < j)"

definition serial :: "connection \<Rightarrow> bool" where
  "serial c \<longleftrightarrow> (\<forall>i j k. i < j \<and> has_key c k i \<and> has_key c k j \<and> alive c i \<longrightarrow> j \<in> fst ` set (cn_waiting c))"

definition covered :: "connection \<Rightarrow> bool" where
  "covered c \<longleftrightarrow> (\<forall>(j, ps)\<in>set (cn_waiting c). \<forall>i k. i < j \<and> has_key c k i \<and> has_key c k j \<and> alive c i \<longrightarrow>
     (\<exists>p\<in>set ps. i \<le> p \<and> has_key c k p))"

definition conn_ok :: "connection \<Rightarrow> bool" where
  "conn_ok c \<longleftrightarrow> tails_ok c \<and> tasks_ok c \<and> serial c \<and> covered c"

lemma conn_ok_new: "conn_ok connection_new"
  by (simp add: conn_ok_def connection_new_def tails_ok_def tasks_ok_def serial_def covered_def ordering_default_def
      alive_def has_key_def)

inductive_cases admittedE: "conn_step limit c (Admitted body) c'"
inductive_cases startedE: "conn_step limit c (Started i) c'"
inductive_cases finishedE: "conn_step limit c (Finished i) c'"

lemma waiting_not_running:
  assumes "tasks_ok c" and "i \<in> fst ` set (cn_waiting c)"
  shows "i \<notin> set (cn_running c)"
  using assms by (auto simp: tasks_ok_def)

lemma tails_at:
  assumes "tails_ok c"
  shows "case map_of (ro_tails (cn_ordering c)) k of
      Some t \<Rightarrow> has_key c k t \<and> (\<forall>i. has_key c k i \<longrightarrow> i \<le> t)
    | None \<Rightarrow> (\<forall>i. has_key c k i \<longrightarrow> \<not> alive c i)"
  using assms unfolding tails_ok_def by blast

lemma tails_Some: "tails_ok c \<Longrightarrow> map_of (ro_tails (cn_ordering c)) k = Some t \<Longrightarrow>
    has_key c k t \<and> (\<forall>i. has_key c k i \<longrightarrow> i \<le> t)"
  using tails_at [of c k] by simp

lemma tails_None: "tails_ok c \<Longrightarrow> map_of (ro_tails (cn_ordering c)) k = None \<Longrightarrow> has_key c k i \<Longrightarrow> \<not> alive c i"
  using tails_at [of c k] by simp

lemma serialD:
  "serial c \<Longrightarrow> i < j \<Longrightarrow> has_key c k i \<Longrightarrow> has_key c k j \<Longrightarrow> alive c i \<Longrightarrow> j \<in> fst ` set (cn_waiting c)"
  by (auto simp: serial_def)

text \<open>The latest request of a key is alive while any request of the key is.\<close>

lemma latest_alive:
  assumes "conn_ok c" and "has_key c k i" and "alive c i" and "has_key c k t" and "i \<le> t"
  shows "alive c t"
proof (cases "i = t")
  case True
  then show ?thesis using assms(3) by simp
next
  case False
  then have "t \<in> fst ` set (cn_waiting c)"
    using assms by (intro serialD [of c i t k]) (auto simp: conn_ok_def)
  then show ?thesis by (simp add: alive_def)
qed

lemma finished_ok:
  assumes c: "conn_ok c" and st: "conn_step limit c (Finished i) c'"
  shows "conn_ok c'"
proof -
  from st have c': "c' = c\<lparr>cn_running := remove1 i (cn_running c)\<rparr>" by (rule finishedE)
  have a: "alive c' j \<Longrightarrow> alive c j" for j by (auto simp: alive_def c' dest: set_remove1_subset [THEN subsetD])
  have k: "has_key c' = has_key c" by (simp add: has_key_def c' fun_eq_iff)
  have w: "cn_waiting c' = cn_waiting c" "cn_ordering c' = cn_ordering c" "cn_keys c' = cn_keys c" by (simp_all add: c')
  have "tails_ok c'" using c a unfolding conn_ok_def tails_ok_def k w by (fastforce split: option.splits)
  moreover have "tasks_ok c'" using c a unfolding conn_ok_def tasks_ok_def w
    by (auto simp: c' distinct_remove1 dest: set_remove1_subset [THEN subsetD])
  moreover have "serial c'" using c a unfolding conn_ok_def serial_def k w by blast
  moreover have "covered c'" using c a unfolding conn_ok_def covered_def k w by fast
  ultimately show ?thesis by (simp add: conn_ok_def)
qed

lemma started_unblocked:
  assumes c: "conn_ok c" and j: "(j, ps) \<in> set (cn_waiting c)" and ps: "\<forall>p\<in>set ps. \<not> alive c p"
    and i: "i < j" "has_key c k i" "has_key c k j"
  shows "\<not> alive c i"
proof
  assume a: "alive c i"
  then obtain p where p: "p \<in> set ps" "i \<le> p" "has_key c k p"
    using c j i unfolding conn_ok_def covered_def by fast
  then have "alive c p" using latest_alive [OF c i(2) a p(3,2)] by blast
  then show False using ps p(1) by blast
qed

lemma started_ok:
  assumes c: "conn_ok c" and st: "conn_step limit c (Started j) c'"
  shows "conn_ok c'"
proof -
  from st obtain ps where j: "(j, ps) \<in> set (cn_waiting c)" and ps: "\<forall>p\<in>set ps. \<not> alive c p"
    and c': "c' = c\<lparr>cn_waiting := filter (\<lambda>w. fst w \<noteq> j) (cn_waiting c), cn_running := j # cn_running c\<rparr>"
    by (rule startedE)
  have "j \<in> fst ` set (cn_waiting c)" using j by force
  then have a: "alive c' i = alive c i" for i by (auto simp: alive_def c')
  have k: "has_key c' = has_key c" by (simp add: has_key_def c' fun_eq_iff)
  have w: "cn_ordering c' = cn_ordering c" "cn_keys c' = cn_keys c" by (simp_all add: c')
  have sub: "set (cn_waiting c') \<subseteq> set (cn_waiting c)" by (auto simp: c')
  have "tails_ok c'" using c unfolding conn_ok_def tails_ok_def k w a by blast
  moreover have "tasks_ok c'" using c a sub \<open>j \<in> fst ` set (cn_waiting c)\<close> unfolding conn_ok_def tasks_ok_def w
    by (auto simp: c' distinct_map_filter)
  moreover have "serial c'"
    unfolding serial_def k a
  proof (intro allI impI, elim conjE)
    fix i l q
    assume h: "i < l" "has_key c q i" "has_key c q l" "alive c i"
    then have "l \<in> fst ` set (cn_waiting c)" using c by (intro serialD) (auto simp: conn_ok_def)
    moreover have "l \<noteq> j" using started_unblocked [OF c j ps] h by blast
    ultimately show "l \<in> fst ` set (cn_waiting c')" by (force simp: c')
  qed
  moreover have "covered c'" using c sub unfolding conn_ok_def covered_def k a by fast
  ultimately show ?thesis by (simp add: conn_ok_def)
qed

lemma admitted_ok:
  assumes c: "conn_ok c" and st: "conn_step limit c (Admitted body) c'"
  shows "conn_ok c'"
proof -
  from st obtain ks me ord' ps where d: "distinct ks" and me: "me = length (cn_keys c)"
    and ad: "admit (\<lambda>i. alive c i \<or> i = me) me ks (cn_ordering c) = (ord', ps)"
    and c': "c' = c\<lparr>cn_ordering := ord', cn_keys := cn_keys c @ [ks], cn_waiting := cn_waiting c @ [(me, ps)]\<rparr>"
    by (elim admittedE) blast
  let ?T = "map_of (ro_tails (cn_ordering c))"
  have k: "has_key c' q i \<longleftrightarrow> has_key c q i \<or> i = me \<and> q \<in> set ks" for q i
    by (auto simp: has_key_def c' me nth_append less_Suc_eq)
  have a: "alive c' i \<longleftrightarrow> alive c i \<or> i = me" for i by (auto simp: alive_def c')
  have less: "has_key c q i \<Longrightarrow> i < me" "alive c i \<Longrightarrow> i < me" for q i
    using c by (auto simp: has_key_def me conn_ok_def tasks_ok_def)
  have td: "distinct (map fst (ro_tails (cn_ordering c)))"
    and tS: "?T q = Some t \<Longrightarrow> has_key c q t \<and> (\<forall>i. has_key c q i \<longrightarrow> i \<le> t)"
    and tN: "?T q = None \<Longrightarrow> has_key c q i \<Longrightarrow> \<not> alive c i" for q t i
    using c by (simp add: conn_ok_def tails_ok_def, (use c tails_Some tails_None in \<open>simp only: conn_ok_def, blast\<close>)+)
  note at = admit_tails [OF td ad]
  have preds: "set ps = {t. alive c t \<and> (\<exists>q\<in>set ks. ?T q = Some t)}"
  proof -
    have "?T q \<noteq> Some me" for q using tS [of q me] less(1) [of q me] by auto
    then show ?thesis using admit_predecessors [OF d ad] by auto
  qed
  have "tails_ok c'"
    unfolding tails_ok_def
  proof (intro conjI allI)
    show "distinct (map fst (ro_tails (cn_ordering c')))" using at(1) by (simp add: c')
    fix q
    show "case map_of (ro_tails (cn_ordering c')) q of
        Some t \<Rightarrow> has_key c' q t \<and> (\<forall>i. has_key c' q i \<longrightarrow> i \<le> t)
      | None \<Rightarrow> (\<forall>i. has_key c' q i \<longrightarrow> \<not> alive c' i)"
    proof (cases "map_of (ro_tails ord') q")
      case (Some t)
      then show ?thesis using at(2) [OF Some] tS less(1) [THEN less_imp_le]
        by (auto simp: c' k [unfolded c'] split: if_splits)
    next
      case None
      then have n: "q \<notin> set ks" "case ?T q of None \<Rightarrow> True | Some u \<Rightarrow> \<not> (alive c u \<or> u = me)"
        using at(3) [OF None] by simp_all
      have "\<not> alive c i" if i: "has_key c q i" for i
      proof (cases "?T q")
        case (Some u)
        then show ?thesis using n(2) latest_alive [OF c i, of u] tS [OF Some] i by auto
      qed (use tN i in blast)
      then show ?thesis using None n(1) less by (auto simp: c' k [unfolded c'] a [unfolded c'])
    qed
  qed
  moreover have "tasks_ok c'"
    using c less preds tS unfolding conn_ok_def tasks_ok_def
    by (auto simp: c' me a [unfolded c' me] alive_def less_Suc_eq split: prod.splits)
  moreover have "serial c'"
    unfolding serial_def
  proof (intro allI impI, elim conjE)
    fix i j q
    assume h: "i < j" "has_key c' q i" "has_key c' q j" "alive c' i"
    show "j \<in> fst ` set (cn_waiting c')"
    proof (cases "j = me")
      case False
      then have "j < me" using h(3) less k by blast
      then have "has_key c q i" "has_key c q j" "alive c i" using h k a by auto
      then have "j \<in> fst ` set (cn_waiting c)" using c h(1) by (intro serialD) (auto simp: conn_ok_def)
      then show ?thesis by (auto simp: c')
    qed (simp add: c')
  qed
  moreover have "covered c'"
    unfolding covered_def
  proof (clarify)
    fix j qs i q
    assume j: "(j, qs) \<in> set (cn_waiting c')" and h: "i < j" "has_key c' q i" "has_key c' q j" "alive c' i"
    show "\<exists>p\<in>set qs. i \<le> p \<and> has_key c' q p"
    proof (cases "(j, qs) \<in> set (cn_waiting c)")
      case True
      then have "j < me" using less(2) by (force simp: alive_def)
      then have "has_key c q i" "has_key c q j" "alive c i" using h k a by auto
      then obtain p where "p \<in> set qs" "i \<le> p" "has_key c q p"
        using c True h(1) unfolding conn_ok_def covered_def by fast
      then show ?thesis using k by blast
    next
      case False
      then have jq: "j = me" "qs = ps" using j by (auto simp: c')
      then have i: "has_key c q i" "alive c i" "q \<in> set ks" using h k a less(1) [of q me] by auto
      then obtain t where t: "?T q = Some t" using tN by (cases "?T q") auto
      then have "has_key c q t" "i \<le> t" using tS i(1) by auto
      moreover from this have "alive c t" using latest_alive [OF c i(1,2)] by blast
      ultimately show ?thesis using jq preds t i(3) k by blast
    qed
  qed
  ultimately show ?thesis by (simp add: conn_ok_def)
qed

lemma conn_step_ok: "conn_ok c \<Longrightarrow> conn_step limit c e c' \<Longrightarrow> conn_ok c'"
  by (cases e) (auto intro: admitted_ok started_ok finished_ok)

lemma conn_run_ok: "conn_run limit c es c' \<Longrightarrow> conn_ok c \<Longrightarrow> conn_ok c'"
  by (induction rule: conn_run.induct) (auto intro: conn_step_ok)

section \<open>Progress\<close>

definition unfinished :: "connection \<Rightarrow> nat" where
  "unfinished c = 2 * length (cn_waiting c) + length (cn_running c)"

fun is_admission :: "conn_event \<Rightarrow> bool" where
  "is_admission (Admitted body) = True"
| "is_admission _ = False"

lemma step_decreases:
  assumes "conn_step limit c e c'" and "\<not> is_admission e"
  shows "unfinished c' < unfinished c"
proof (cases e)
  case (Started i)
  then obtain ps where "(i, ps) \<in> set (cn_waiting c)" and
    c': "c' = c\<lparr>cn_waiting := filter (\<lambda>w. fst w \<noteq> i) (cn_waiting c), cn_running := i # cn_running c\<rparr>"
    using startedE [OF assms(1) [unfolded Started]] by metis
  then have "length (cn_waiting c') < length (cn_waiting c)"
    using length_filter_less [of "(i, ps)" "cn_waiting c" "\<lambda>w. fst w \<noteq> i"] by simp
  then show ?thesis by (simp add: unfinished_def c')
next
  case (Finished i)
  then have i: "i \<in> set (cn_running c)" and c': "c' = c\<lparr>cn_running := remove1 i (cn_running c)\<rparr>"
    using finishedE [OF assms(1) [unfolded Finished]] by metis+
  have "length (cn_running c) - Suc 0 < length (cn_running c)" using length_pos_if_in_set [OF i] by simp
  then show ?thesis using i by (simp add: unfinished_def c' length_remove1)
qed (use assms(2) in simp)

lemma some_step:
  assumes c: "conn_ok c" and "unfinished c \<noteq> 0"
  shows "\<exists>e c'. conn_step limit c e c' \<and> \<not> is_admission e"
proof (cases "cn_running c")
  case (Cons i rest)
  then have "conn_step limit c (Finished i) (c\<lparr>cn_running := remove1 i (cn_running c)\<rparr>)"
    by (intro finished) simp
  then show ?thesis by force
next
  case Nil
  define ids where "ids = fst ` set (cn_waiting c)"
  have ids: "finite ids" "ids \<noteq> {}" using assms(2) Nil by (auto simp: ids_def unfinished_def)
  obtain ps where j: "(Min ids, ps) \<in> set (cn_waiting c)" using Min_in [OF ids] by (auto simp: ids_def)
  have "\<not> alive c p" if p: "p \<in> set ps" for p
  proof
    assume "alive c p"
    then have "Min ids \<le> p" using Nil ids(1) by (auto simp: alive_def ids_def intro!: Min_le)
    moreover have "p < Min ids" using c j p by (auto simp: conn_ok_def tasks_ok_def)
    ultimately show False by simp
  qed
  then have "conn_step limit c (Started (Min ids)) (c\<lparr>cn_waiting := filter (\<lambda>w. fst w \<noteq> Min ids) (cn_waiting c),
      cn_running := Min ids # cn_running c\<rparr>)"
    using j by (intro started) auto
  then show ?thesis by force
qed

lemma conn_run_append: "conn_run limit b fs c \<Longrightarrow> conn_run limit a es b \<Longrightarrow> conn_run limit a (es @ fs) c"
proof (induction rule: conn_run.induct)
  case (step b fs c e d)
  then have "conn_run limit a ((es @ fs) @ [e]) d" by (intro conn_run.step) auto
  then show ?case by simp
qed simp

lemma drains:
  "conn_ok c \<Longrightarrow> \<exists>es c'. conn_run limit c es c' \<and> unfinished c' = 0 \<and> list_all (\<lambda>e. \<not> is_admission e) es"
proof (induction "unfinished c" arbitrary: c rule: less_induct)
  case less
  show ?case
  proof (cases "unfinished c = 0")
    case True
    then show ?thesis by (intro exI [of _ "[]"] exI [of _ c]) (simp add: stop)
  next
    case False
    then obtain e c1 where e: "conn_step limit c e c1" "\<not> is_admission e" using some_step [OF less.prems] by blast
    then obtain es c' where es: "conn_run limit c1 es c'" "unfinished c' = 0" "list_all (\<lambda>e. \<not> is_admission e) es"
      using less.hyps [OF step_decreases [OF e] conn_step_ok [OF less.prems e(1)]] by blast
    have "conn_run limit c [e] c1" using conn_run.step [OF stop e(1)] by simp
    then have "conn_run limit c ([e] @ es) c'" using conn_run_append [OF es(1)] by blast
    then show ?thesis using es e(2) by (intro exI [of _ "[e] @ es"] exI [of _ c']) simp
  qed
qed

lemma conn_run_bound:
  "conn_run limit c es c' \<Longrightarrow> list_all (\<lambda>e. \<not> is_admission e) es \<Longrightarrow> length es + unfinished c' \<le> unfinished c"
proof (induction rule: conn_run.induct)
  case (step c es c' e c'')
  then have "unfinished c'' < unfinished c'" using step_decreases by simp
  then show ?case using step by simp
qed simp


section \<open>Properties\<close>


text \<open>Two requests for one trade: the second waits for the first and runs after it.\<close>

definition demo_ordering :: "nat \<Rightarrow> request_ordering" where
  "demo_ordering n = \<lparr>ro_tails = [(OrderTrade ''t'', n)], ro_prune_at = ORDERING_PRUNE_FLOOR\<rparr>"

definition demo_connection :: "(nat \<times> nat list) list \<Rightarrow> nat list \<Rightarrow> connection" where
  "demo_connection ws rs = \<lparr>cn_ordering = demo_ordering 1, cn_keys = [[OrderTrade ''t''], [OrderTrade ''t'']],
     cn_waiting = ws, cn_running = rs\<rparr>"

lemma demo_admissions:
  "conn_run 2 connection_new ([] @ [Admitted (Some (LoadTrade ''t''))] @ [Admitted (Some (LoadTrade ''t''))])
     (demo_connection [(0, []), (1, [0])] [])"
proof -
  let ?q = "Some (LoadTrade ''t'')" and ?k = "[OrderTrade ''t'']"
  let ?c = "\<lparr>cn_ordering = demo_ordering 0, cn_keys = [?k], cn_waiting = [(0, [])], cn_running = []\<rparr>"
  have "conn_step 2 connection_new (Admitted ?q) (connection_new\<lparr>cn_ordering := demo_ordering 0,
      cn_keys := cn_keys connection_new @ [?k], cn_waiting := cn_waiting connection_new @ [(0, [])]\<rparr>)"
    by (rule admitted)
      (simp_all add: connection_new_def ordering_default_def admit_def demo_ordering_def ORDERING_PRUNE_FLOOR_def)
  then have 1: "conn_step 2 connection_new (Admitted ?q) ?c" by (simp add: connection_new_def)
  have "conn_step 2 ?c (Admitted ?q) (?c\<lparr>cn_ordering := demo_ordering 1, cn_keys := cn_keys ?c @ [?k],
      cn_waiting := cn_waiting ?c @ [(1, [0])]\<rparr>)"
    by (rule admitted) (simp_all add: alive_def admit_def demo_ordering_def ORDERING_PRUNE_FLOOR_def)
  then have 2: "conn_step 2 ?c (Admitted ?q) (demo_connection [(0, []), (1, [0])] [])"
    by (simp add: demo_connection_def)
  show ?thesis using conn_run.step [OF conn_run.step [OF stop 1] 2] by simp
qed



text \<open>
  C37. The ordering never deadlocks: in every reachable state all admitted requests can still finish, and
  however the tasks are scheduled they do so within two steps per waiting and one per running
  request, with some step always possible before.
\<close>

theorem requests_all_finish:
  assumes "conn_run limit connection_new es c"
  shows "(\<exists>fs c'. conn_run limit c fs c' \<and> unfinished c' = 0 \<and> list_all (\<lambda>e. \<not> is_admission e) fs) \<and>
    (\<forall>fs c'. conn_run limit c fs c' \<and> list_all (\<lambda>e. \<not> is_admission e) fs \<longrightarrow>
       length fs + unfinished c' \<le> unfinished c \<and>
       (unfinished c' = 0 \<or> (\<exists>e c''. conn_step limit c' e c'' \<and> \<not> is_admission e)))"
proof -
  have c: "conn_ok c" using conn_run_ok [OF assms conn_ok_new] .
  show ?thesis using drains [OF c, of limit] conn_run_bound conn_run_ok [OF _ c] some_step by blast
qed

theorem requests_all_finish_witness:
  "\<exists>fs c'. conn_run 2 (demo_connection [(0, []), (1, [0])] []) fs c' \<and> unfinished c' = 0"
  using requests_all_finish [OF demo_admissions] by blast

end
