(* ===== verification/Connection.thy ===== *)
theory Connection
  imports Protocol
begin

text \<open>
  Starting a server and a connection (\<open>crates/dbproxy-server/src/lib.rs\<close> and \<open>tenancy.rs\<close>): the checks
  of the server and tenant configuration, the constant-time token comparison, and the handshake of
  \<open>handle_connection\<close> up to the point where requests are served.

  A backend object is a number, so that \<open>Arc::ptr_eq\<close> is equality; a tenant's semaphore is its
  number of free permits. The largest permit count of the semaphore package is the parameter
  \<open>max_permits\<close>, the fingerprint of the generated schema the parameter \<open>fingerprint\<close>. Sockets,
  timers and metrics are not modelled: the first frame arrives as the result of reading it, or as a
  timeout.
\<close>

unbundle bit_operations_syntax

section \<open>Token comparison\<close>

definition get_or_default :: "bytes \<Rightarrow> nat \<Rightarrow> u8" where
  "get_or_default xs i = (if i < length xs then xs ! i else 0)"

definition constant_time_token_eq :: "bytes \<Rightarrow> bytes \<Rightarrow> bool" where
  "constant_time_token_eq expected actual =
     (let difference = (of_nat (length expected) XOR of_nat (length actual) :: u64);
          maximum = max (length expected) (length actual)
      in foldl (\<lambda>d i. d OR ucast (get_or_default expected i XOR get_or_default actual i)) difference [0..<maximum] = 0)"

lemma or_eq_zero: "(a :: 'a :: len word) OR b = 0 \<longleftrightarrow> a = 0 \<and> b = 0"
  by (auto simp: bit_eq_iff bit_simps)

lemma xor_eq_zero: "(a :: 'a :: len word) XOR b = 0 \<longleftrightarrow> a = b"
  by (auto simp: bit_eq_iff bit_simps)

lemma ucast_byte_zero: "(ucast (a :: u8) :: u64) = 0 \<longleftrightarrow> a = 0"
proof
  assume z: "(ucast a :: u64) = 0"
  show "a = 0"
  proof (rule bit_word_eqI)
    fix n
    assume "n < LENGTH(8)"
    then have "bit a n = bit (ucast a :: u64) n" by (simp add: bit_simps)
    then show "bit a n = bit (0 :: u8) n" by (simp add: z)
  qed
qed simp

lemma fold_or_zero: "foldl (\<lambda>d i. d OR f i) (a :: u64) xs = 0 \<longleftrightarrow> a = 0 \<and> (\<forall>i\<in>set xs. f i = 0)"
  by (induction xs arbitrary: a) (auto simp: or_eq_zero)

lemma constant_time_token_eq_iff:
  assumes "length expected < 2 ^ 64" and "length actual < 2 ^ 64"
  shows "constant_time_token_eq expected actual \<longleftrightarrow> expected = actual"
proof -
  have l: "(of_nat (length expected) :: u64) = of_nat (length actual) \<longleftrightarrow> length expected = length actual"
    using assms by (simp add: word_of_nat_eq_iff take_bit_nat_eq_self)
  show ?thesis
    using l by (auto simp: constant_time_token_eq_def Let_def fold_or_zero xor_eq_zero ucast_byte_zero get_or_default_def
        intro: nth_equalityI)
qed

section \<open>Server configuration\<close>

definition DEFAULT_MAX_CONNECTIONS :: nat where "DEFAULT_MAX_CONNECTIONS = 256"
definition DEFAULT_MAX_IN_FLIGHT_PER_CONNECTION :: nat where "DEFAULT_MAX_IN_FLIGHT_PER_CONNECTION = 64"
definition MAX_IN_FLIGHT_PER_CONNECTION :: nat where "MAX_IN_FLIGHT_PER_CONNECTION = 4096"
definition PROTOCOL_VERSION :: u32 where "PROTOCOL_VERSION = 2"

record server_config =
  sc_auth_token :: string
  sc_max_frame_bytes :: nat
  sc_max_payload_bytes :: nat
  sc_max_connections :: nat
  sc_max_in_flight_per_connection :: nat

datatype server_error = ServerInvalidConfig string

definition server_config_new :: "string \<Rightarrow> server_config" where
  "server_config_new token =
     \<lparr>sc_auth_token = token, sc_max_frame_bytes = DEFAULT_MAX_FRAME_BYTES,
      sc_max_payload_bytes = DEFAULT_MAX_PAYLOAD_BYTES, sc_max_connections = DEFAULT_MAX_CONNECTIONS,
      sc_max_in_flight_per_connection = DEFAULT_MAX_IN_FLIGHT_PER_CONNECTION\<rparr>"

definition server_config_validate :: "nat \<Rightarrow> server_config \<Rightarrow> (unit, server_error) result" where
  "server_config_validate max_permits c =
     (if \<not> (1 \<le> sc_max_connections c \<and> sc_max_connections c \<le> max_permits)
      then Err (ServerInvalidConfig ''max connections is outside the supported range'')
      else if \<not> (1 \<le> sc_max_in_flight_per_connection c \<and>
                 sc_max_in_flight_per_connection c \<le> MAX_IN_FLIGHT_PER_CONNECTION)
      then Err (ServerInvalidConfig ''max in-flight requests per connection is outside the supported range'')
      else if \<not> (16 \<le> length (sc_auth_token c) \<and> length (sc_auth_token c) \<le> MAX_AUTH_TOKEN_BYTES)
      then Err (ServerInvalidConfig ''auth token length is outside 16..=512 bytes'')
      else if sc_max_frame_bytes c = 0 then Err (ServerInvalidConfig ''max frame bytes is zero'')
      else if sc_max_payload_bytes c = 0 then Err (ServerInvalidConfig ''max payload bytes is zero'')
      else if sc_max_frame_bytes c < sc_max_payload_bytes c
      then Err (ServerInvalidConfig ''max payload bytes exceeds max frame bytes'')
      else Ok ())"

section \<open>Tenants\<close>

record tenant_backend =
  tb_id :: string
  tb_token :: string
  tb_backend :: nat
  tb_slots :: nat

definition is_ascii_lowercase :: "char \<Rightarrow> bool" where
  "is_ascii_lowercase c \<longleftrightarrow> 97 \<le> (of_char c :: nat) \<and> (of_char c :: nat) \<le> 122"

definition is_ascii_digit :: "char \<Rightarrow> bool" where
  "is_ascii_digit c \<longleftrightarrow> 48 \<le> (of_char c :: nat) \<and> (of_char c :: nat) \<le> 57"

definition valid_tenant_id :: "string \<Rightarrow> bool" where
  "valid_tenant_id i \<longleftrightarrow> i \<noteq> [] \<and> length i \<le> 64 \<and> is_ascii_lowercase (i ! 0) \<and>
     list_all (\<lambda>c. is_ascii_lowercase c \<or> is_ascii_digit c \<or> c = CHR ''-'' \<or> c = CHR ''.'') i"

definition tenant_backend_new :: "nat \<Rightarrow> string \<Rightarrow> string \<Rightarrow> nat \<Rightarrow> nat \<Rightarrow> (tenant_backend, server_error) result" where
  "tenant_backend_new max_permits i token backend max_connections =
     (if \<not> valid_tenant_id i then Err (ServerInvalidConfig ''invalid tenant id'')
      else if \<not> (16 \<le> length token \<and> length token \<le> MAX_AUTH_TOKEN_BYTES)
      then Err (ServerInvalidConfig ''invalid tenant token length'')
      else if \<not> (1 \<le> max_connections \<and> max_connections \<le> max_permits)
      then Err (ServerInvalidConfig ''invalid tenant connection limit'')
      else Ok \<lparr>tb_id = i, tb_token = token, tb_backend = backend, tb_slots = max_connections\<rparr>)"

text \<open>The two loops of \<open>validate_tenants\<close>: each tenant against all before it.\<close>

definition check_tenant_pair :: "tenant_backend \<Rightarrow> tenant_backend \<Rightarrow> (unit, server_error) result" where
  "check_tenant_pair t other =
     (if tb_id t = tb_id other \<or> constant_time_token_eq (str_bytes (tb_token t)) (str_bytes (tb_token other))
      then Err (ServerInvalidConfig ''duplicate tenant identity or credential'')
      else if tb_backend t = tb_backend other
      then Err (ServerInvalidConfig ''tenants cannot share a backend object'')
      else Ok ())"

fun check_tenants :: "tenant_backend list \<Rightarrow> tenant_backend list \<Rightarrow> (unit, server_error) result" where
  "check_tenants before [] = Ok ()"
| "check_tenants before (t # ts) =
     and_then (try_each (check_tenant_pair t) before) (\<lambda>_. check_tenants (before @ [t]) ts)"

definition validate_tenants :: "tenant_backend list \<Rightarrow> (unit, server_error) result" where
  "validate_tenants ts =
     (if ts = [] \<or> 64 < length ts then Err (ServerInvalidConfig ''expected 1..=64 tenants'')
      else check_tenants [] ts)"

section \<open>Handshake\<close>

datatype connection_error =
    ConnectionProtocol protocol_error
  | ClosedBeforeHandshake
  | HandshakeTimeout
  | MissingHandshake

datatype first_read = TimedOut | FirstRead "(client_frame option, protocol_error) result"

text \<open>
  The outcome of the handshake: a failed connection, a rejection that is written to the client, or the
  acceptance with the backend that serves the connection and the tenants with the permit taken.
\<close>

datatype handshake =
    HandshakeFailed connection_error
  | HandshakeRejected server_hello
  | HandshakeAccepted server_hello nat "tenant_backend list"

definition hello_rejection :: "string \<Rightarrow> error_code \<Rightarrow> string \<Rightarrow> server_hello" where
  "hello_rejection fingerprint code message =
     \<lparr>sh_protocol_version = PROTOCOL_VERSION, sh_protocol_fingerprint = fingerprint, sh_accepted = False,
      sh_error = Some \<lparr>re_code = error_number code, re_message = message, re_actual_revision = None\<rparr>,
      sh_supports_outbox_relay = False\<rparr>"

text \<open>The loop over the tenants keeps the last one whose token matches.\<close>

definition select_tenant :: "tenant_backend list \<Rightarrow> string \<Rightarrow> nat option" where
  "select_tenant ts token =
     foldl (\<lambda>selected i. if constant_time_token_eq (str_bytes (tb_token (ts ! i))) (str_bytes token)
                         then Some i else selected) None [0..<length ts]"

definition acquire_slot :: "tenant_backend list \<Rightarrow> nat \<Rightarrow> tenant_backend list option" where
  "acquire_slot ts i =
     (if tb_slots (ts ! i) = 0 then None else Some (ts[i := (ts ! i)\<lparr>tb_slots := tb_slots (ts ! i) - 1\<rparr>]))"

definition check_hello :: "string \<Rightarrow> server_config \<Rightarrow> nat \<Rightarrow> tenant_backend list \<Rightarrow> client_hello \<Rightarrow> handshake" where
  "check_hello fingerprint cfg backend ts hello =
     (if ch_protocol_version hello \<noteq> PROTOCOL_VERSION \<or>
         \<not> is_compatible_protocol_fingerprint fingerprint (ch_protocol_fingerprint hello)
      then HandshakeRejected (hello_rejection fingerprint ProtocolMismatch
        ''DBProxy protocol version or fingerprint does not match'')
      else if MAX_AUTH_TOKEN_BYTES < length (ch_auth_token hello)
      then HandshakeRejected (hello_rejection fingerprint Unauthorized ''DBProxy authentication failed'')
      else
        let selected = select_tenant ts (ch_auth_token hello) in
        if ts \<noteq> [] \<and> selected = None \<or>
           ts = [] \<and> \<not> constant_time_token_eq (str_bytes (sc_auth_token cfg)) (str_bytes (ch_auth_token hello))
        then HandshakeRejected (hello_rejection fingerprint Unauthorized ''DBProxy authentication failed'')
        else if blank (ch_client_name hello) \<or> MAX_CLIENT_NAME_BYTES < length (ch_client_name hello)
        then HandshakeRejected (hello_rejection fingerprint InvalidRequest
          ''DBProxy client name is empty or too long'')
        else
          let accepted = \<lparr>sh_protocol_version = PROTOCOL_VERSION,
                sh_protocol_fingerprint = ch_protocol_fingerprint hello, sh_accepted = True,
                sh_error = None, sh_supports_outbox_relay = True\<rparr> in
          case selected of
            None \<Rightarrow> HandshakeAccepted accepted backend ts
          | Some i \<Rightarrow>
              (case acquire_slot ts i of
                 None \<Rightarrow> HandshakeRejected (hello_rejection fingerprint StorageUnavailable
                   ''Tenant connection capacity exhausted'')
               | Some ts' \<Rightarrow> HandshakeAccepted accepted (tb_backend (ts ! i)) ts'))"

definition handle_connection :: "string \<Rightarrow> server_config \<Rightarrow> nat \<Rightarrow> tenant_backend list \<Rightarrow> first_read \<Rightarrow> handshake" where
  "handle_connection fingerprint cfg backend ts first =
     (case first of
        TimedOut \<Rightarrow> HandshakeFailed HandshakeTimeout
      | FirstRead (Err e) \<Rightarrow> HandshakeFailed (ConnectionProtocol e)
      | FirstRead (Ok None) \<Rightarrow> HandshakeFailed ClosedBeforeHandshake
      | FirstRead (Ok (Some EmptyClientFrame)) \<Rightarrow> HandshakeFailed MissingHandshake
      | FirstRead (Ok (Some (RequestFrame q))) \<Rightarrow> HandshakeFailed MissingHandshake
      | FirstRead (Ok (Some (ClientHelloFrame hello))) \<Rightarrow> check_hello fingerprint cfg backend ts hello)"

section \<open>Binding\<close>

record db_proxy_server =
  ds_config :: server_config
  ds_backend :: nat
  ds_tenants :: "tenant_backend list"

definition server_bind :: "nat \<Rightarrow> server_config \<Rightarrow> nat \<Rightarrow> (db_proxy_server, server_error) result" where
  "server_bind max_permits cfg backend =
     and_then (server_config_validate max_permits cfg) (\<lambda>_.
     Ok \<lparr>ds_config = cfg, ds_backend = backend, ds_tenants = []\<rparr>)"

definition server_bind_tenants :: "nat \<Rightarrow> server_config \<Rightarrow> tenant_backend list \<Rightarrow> (db_proxy_server, server_error) result" where
  "server_bind_tenants max_permits cfg ts =
     and_then (validate_tenants ts) (\<lambda>_.
     and_then (server_bind max_permits (cfg\<lparr>sc_auth_token := ''unused-multi-tenant-placeholder''\<rparr>)
       (tb_backend (ts ! 0))) (\<lambda>server.
     Ok (server\<lparr>ds_tenants := ts\<rparr>)))"

section \<open>Facts\<close>

lemma str_bytes_inj: "str_bytes s = str_bytes t \<longleftrightarrow> s = t"
proof -
  have "inj (\<lambda>c :: char. (of_nat (of_char c) :: u8))"
  proof (rule injI)
    fix c d :: char
    assume "(of_nat (of_char c) :: u8) = of_nat (of_char d)"
    then have "(of_char c :: nat) mod 256 = of_char d mod 256" by (simp add: word_of_nat_eq_iff take_bit_nat_def)
    then show "c = d" by simp
  qed
  then show ?thesis by (simp add: str_bytes_def inj_map_eq_map)
qed

lemma token_eq_iff:
  assumes "length a \<le> MAX_AUTH_TOKEN_BYTES" and "length b \<le> MAX_AUTH_TOKEN_BYTES"
  shows "constant_time_token_eq (str_bytes a) (str_bytes b) \<longleftrightarrow> a = b"
  using assms by (subst constant_time_token_eq_iff) (simp_all add: str_bytes_inj, simp_all add: str_bytes_def MAX_AUTH_TOKEN_BYTES_def)

definition token_sized :: "tenant_backend \<Rightarrow> bool" where
  "token_sized t \<longleftrightarrow> length (tb_token t) \<le> MAX_AUTH_TOKEN_BYTES"

lemma tenant_backend_new_sized: "tenant_backend_new n i tok b m = Ok t \<Longrightarrow> token_sized t"
  by (auto simp: tenant_backend_new_def token_sized_def split: if_splits)

lemma check_pair_Ok:
  assumes "token_sized t" and "token_sized u"
  shows "check_tenant_pair t u = Ok () \<longleftrightarrow> tb_id t \<noteq> tb_id u \<and> tb_token t \<noteq> tb_token u \<and> tb_backend t \<noteq> tb_backend u"
  using assms by (simp add: check_tenant_pair_def token_sized_def token_eq_iff)

lemma check_tenants_Ok:
  assumes "\<forall>t\<in>set (before @ ts). token_sized t"
  shows "check_tenants before ts = Ok () \<longleftrightarrow>
    (\<forall>i < length ts. \<forall>u\<in>set (before @ take i ts). check_tenant_pair (ts ! i) u = Ok ())"
  using assms
proof (induction ts arbitrary: before)
  case (Cons t ts)
  have "check_tenants before (t # ts) = Ok () \<longleftrightarrow>
      (\<forall>u\<in>set before. check_tenant_pair t u = Ok ()) \<and> check_tenants (before @ [t]) ts = Ok ()"
    by (auto simp: and_then_Ok_iff try_each_Ok_iff)
  also have "\<dots> \<longleftrightarrow> (\<forall>i < length (t # ts). \<forall>u\<in>set (before @ take i (t # ts)). check_tenant_pair ((t # ts) ! i) u = Ok ())"
    using Cons by (auto simp: less_Suc_eq_0_disj)
  finally show ?case .
qed simp

lemma distinct_map_less: "distinct (map f xs) \<longleftrightarrow> (\<forall>i < length xs. \<forall>j < i. f (xs ! i) \<noteq> f (xs ! j))"
proof
  assume "distinct (map f xs)"
  then show "\<forall>i < length xs. \<forall>j < i. f (xs ! i) \<noteq> f (xs ! j)"
    by (auto simp: distinct_conv_nth)
next
  assume a: "\<forall>i < length xs. \<forall>j < i. f (xs ! i) \<noteq> f (xs ! j)"
  have "f (xs ! i) \<noteq> f (xs ! j)" if "i < length xs" "j < length xs" "i \<noteq> j" for i j
    using a that by (cases "j < i") (auto simp: not_less eq_commute [of "f (xs ! i)"])
  then show "distinct (map f xs)" by (simp add: distinct_conv_nth)
qed

text \<open>Valid tenants have their own identity, credential and backend each.\<close>

lemma validate_tenants_Ok:
  assumes "list_all token_sized ts"
  shows "validate_tenants ts = Ok () \<longleftrightarrow> ts \<noteq> [] \<and> length ts \<le> 64 \<and>
    distinct (map tb_id ts) \<and> distinct (map tb_token ts) \<and> distinct (map tb_backend ts)"
proof -
  have sz: "token_sized (ts ! i)" if "i < length ts" for i using assms that by (simp add: list_all_length)
  have "check_tenants [] ts = Ok () \<longleftrightarrow> (\<forall>i < length ts. \<forall>j < i. check_tenant_pair (ts ! i) (ts ! j) = Ok ())"
  proof -
    have "(\<forall>u\<in>set (take i ts). Q u) \<longleftrightarrow> (\<forall>j < i. Q (ts ! j))" if "i < length ts" for i Q
      using that by (auto simp: set_conv_nth)
    then show ?thesis using assms check_tenants_Ok [of "[]" ts] by (simp add: list_all_iff)
  qed
  also have "\<dots> \<longleftrightarrow> (\<forall>i < length ts. \<forall>j < i. tb_id (ts ! i) \<noteq> tb_id (ts ! j) \<and>
      tb_token (ts ! i) \<noteq> tb_token (ts ! j) \<and> tb_backend (ts ! i) \<noteq> tb_backend (ts ! j))"
    using sz by (simp add: check_pair_Ok cong: conj_cong)
  also have "\<dots> \<longleftrightarrow> distinct (map tb_id ts) \<and> distinct (map tb_token ts) \<and> distinct (map tb_backend ts)"
    unfolding distinct_map_less by blast
  finally show ?thesis by (auto simp: validate_tenants_def not_less)
qed

lemma select_loop:
  "foldl (\<lambda>selected i. if P i then Some i else selected) acc [0..<n] =
     (if \<exists>i<n. P i then Some (GREATEST i. i < n \<and> P i) else acc)"
proof (induction n)
  case (Suc n)
  show ?case
  proof (cases "P n")
    case True
    then have "(GREATEST i. i < Suc n \<and> P i) = n" by (intro Greatest_equality) auto
    then show ?thesis using True by auto
  next
    case False
    then have "i < Suc n \<and> P i \<longleftrightarrow> i < n \<and> P i" for i by (auto simp: less_Suc_eq)
    then show ?thesis using Suc False by (auto simp: less_Suc_eq)
  qed
qed simp

lemma select_tenant_eq:
  assumes "list_all token_sized ts" and "length token \<le> MAX_AUTH_TOKEN_BYTES" and "distinct (map tb_token ts)"
  shows "select_tenant ts token = Some i \<longleftrightarrow> i < length ts \<and> tb_token (ts ! i) = token"
proof -
  let ?P = "\<lambda>i. constant_time_token_eq (str_bytes (tb_token (ts ! i))) (str_bytes token)"
  have m: "?P i \<longleftrightarrow> tb_token (ts ! i) = token" if "i < length ts" for i
    using assms(1,2) that by (simp add: token_eq_iff list_all_length token_sized_def)
  have u: "(GREATEST k. k < length ts \<and> ?P k) = i" if "i < length ts" "tb_token (ts ! i) = token" for i
  proof (rule Greatest_equality)
    fix y
    assume y: "y < length ts \<and> ?P y"
    then have "tb_token (ts ! y) = token" using m [of y] by blast
    then have "map tb_token ts ! y = map tb_token ts ! i" using y that by simp
    then have "y = i" using nth_eq_iff_index_eq [OF assms(3), of y i] y that by simp
    then show "y \<le> i" by simp
  qed (use that m [of i] in blast)
  have s: "select_tenant ts token = (if \<exists>i<length ts. ?P i then Some (GREATEST i. i < length ts \<and> ?P i) else None)"
    unfolding select_tenant_def by (rule select_loop)
  show "select_tenant ts token = Some i \<longleftrightarrow> i < length ts \<and> tb_token (ts ! i) = token"
    using s m u by auto
qed

section \<open>Properties\<close>

definition accepted_hello :: "client_hello \<Rightarrow> server_hello" where
  "accepted_hello hello = \<lparr>sh_protocol_version = PROTOCOL_VERSION,
     sh_protocol_fingerprint = ch_protocol_fingerprint hello, sh_accepted = True, sh_error = None,
     sh_supports_outbox_relay = True\<rparr>"

text \<open>What a client must present before any request of it is served.\<close>

definition hello_ok :: "string \<Rightarrow> client_hello \<Rightarrow> bool" where
  "hello_ok fingerprint hello \<longleftrightarrow> ch_protocol_version hello = PROTOCOL_VERSION \<and>
     is_compatible_protocol_fingerprint fingerprint (ch_protocol_fingerprint hello) \<and>
     text_ok MAX_CLIENT_NAME_BYTES (ch_client_name hello)"

definition take_permit :: "tenant_backend list \<Rightarrow> nat \<Rightarrow> tenant_backend list" where
  "take_permit ts i = ts[i := (ts ! i)\<lparr>tb_slots := tb_slots (ts ! i) - 1\<rparr>]"

lemma handle_connection_accepts:
  "handle_connection fingerprint cfg backend ts first = HandshakeAccepted h b ts' \<longleftrightarrow>
     (\<exists>hello. first = FirstRead (Ok (Some (ClientHelloFrame hello))) \<and>
        check_hello fingerprint cfg backend ts hello = HandshakeAccepted h b ts')"
  by (auto simp: handle_connection_def split: first_read.splits result.splits option.splits client_frame.splits)

lemma check_hello_single:
  assumes "length (sc_auth_token cfg) \<le> MAX_AUTH_TOKEN_BYTES"
  shows "check_hello fingerprint cfg backend [] hello = HandshakeAccepted h b ts' \<longleftrightarrow>
    hello_ok fingerprint hello \<and> ch_auth_token hello = sc_auth_token cfg \<and>
    h = accepted_hello hello \<and> b = backend \<and> ts' = []"
  using assms token_eq_iff [of "sc_auth_token cfg" "ch_auth_token hello"]
  by (auto simp: check_hello_def select_tenant_def hello_ok_def text_ok_def accepted_hello_def Let_def not_less
      split: if_splits)

lemma check_hello_tenants:
  assumes ts: "list_all token_sized ts" "distinct (map tb_token ts)" "ts \<noteq> []"
  shows "check_hello fingerprint cfg backend ts hello = HandshakeAccepted h b ts' \<longleftrightarrow>
    hello_ok fingerprint hello \<and> (\<exists>i < length ts. tb_token (ts ! i) = ch_auth_token hello \<and> 0 < tb_slots (ts ! i) \<and>
      h = accepted_hello hello \<and> b = tb_backend (ts ! i) \<and> ts' = take_permit ts i)"
proof (cases "length (ch_auth_token hello) \<le> MAX_AUTH_TOKEN_BYTES")
  case False
  then have "\<not> (\<exists>i < length ts. tb_token (ts ! i) = ch_auth_token hello)"
    using ts(1) by (auto simp: list_all_length token_sized_def)
  then show ?thesis using False by (auto simp: check_hello_def)
next
  case True
  note sel = select_tenant_eq [OF ts(1) True ts(2)]
  show ?thesis
  proof (cases "select_tenant ts (ch_auth_token hello)")
    case None
    then have "\<not> (\<exists>i < length ts. tb_token (ts ! i) = ch_auth_token hello)" using sel by simp
    then show ?thesis using None ts(3) by (auto simp: check_hello_def Let_def)
  next
    case (Some i)
    then have i: "i < length ts" "tb_token (ts ! i) = ch_auth_token hello" using sel by simp_all
    have u: "j = i" if "j < length ts" "tb_token (ts ! j) = ch_auth_token hello" for j
      using that sel [of j] Some by simp
    have "check_hello fingerprint cfg backend ts hello = HandshakeAccepted h b ts' \<longleftrightarrow>
        hello_ok fingerprint hello \<and> 0 < tb_slots (ts ! i) \<and> h = accepted_hello hello \<and>
        b = tb_backend (ts ! i) \<and> ts' = take_permit ts i"
      using True Some ts(3)
      by (auto simp: check_hello_def hello_ok_def text_ok_def accepted_hello_def acquire_slot_def take_permit_def
          Let_def not_less split: if_splits)
    moreover have "(\<exists>j < length ts. tb_token (ts ! j) = ch_auth_token hello \<and> Q j) \<longleftrightarrow> Q i" for Q
      using i u by blast
    ultimately show ?thesis by simp
  qed
qed

lemma map_update_same: "i < length xs \<Longrightarrow> f y = f (xs ! i) \<Longrightarrow> map f (xs[i := y]) = map f xs"
  by (rule nth_equalityI) (auto simp: nth_list_update)

lemma take_permit_keeps:
  assumes "i < length ts"
  shows "map tb_token (take_permit ts i) = map tb_token ts" "map tb_id (take_permit ts i) = map tb_id ts"
    "map tb_backend (take_permit ts i) = map tb_backend ts" "length (take_permit ts i) = length ts"
  using assms by (simp_all add: take_permit_def map_update_same)

text \<open>
  C38. A connection is served exactly when its first frame is a hello with the right version, a
  compatible fingerprint, a proper client name and the right secret: the configured token on a
  single-tenant server, the token of a tenant that has a free connection permit on a multi-tenant
  one, which then serves it from its own backend. The placeholder token of a multi-tenant server
  opens nothing.
\<close>

theorem handshake_accepts_iff:
  assumes "server_bind max_permits cfg backend = Ok single" and "server_bind_tenants max_permits cfg2 ts = Ok multi"
    and "list_all token_sized ts"
  shows "(handle_connection fp (ds_config single) (ds_backend single) (ds_tenants single) first = HandshakeAccepted h b ts' \<longleftrightarrow>
      (\<exists>hello. first = FirstRead (Ok (Some (ClientHelloFrame hello))) \<and> hello_ok fp hello \<and>
         ch_auth_token hello = sc_auth_token cfg \<and> h = accepted_hello hello \<and> b = backend \<and> ts' = [])) \<and>
    (handle_connection fp (ds_config multi) (ds_backend multi) (ds_tenants multi) first = HandshakeAccepted h b ts' \<longleftrightarrow>
      (\<exists>hello. first = FirstRead (Ok (Some (ClientHelloFrame hello))) \<and> hello_ok fp hello \<and>
         (\<exists>i < length ts. tb_token (ts ! i) = ch_auth_token hello \<and> 0 < tb_slots (ts ! i) \<and> h = accepted_hello hello \<and>
            b = tb_backend (ts ! i) \<and> ts' = take_permit ts i)))"
proof -
  have s: "ds_config single = cfg" "ds_backend single = backend" "ds_tenants single = []"
    and v: "server_config_validate max_permits cfg = Ok ()"
    using assms(1) by (auto simp: server_bind_def and_then_Ok_iff)
  have len: "length (sc_auth_token cfg) \<le> MAX_AUTH_TOKEN_BYTES"
    using v by (auto simp: server_config_validate_def split: if_splits)
  have m: "ds_tenants multi = ts" and vt: "validate_tenants ts = Ok ()"
    using assms(2) by (auto simp: server_bind_tenants_def and_then_Ok_iff)
  have "distinct (map tb_token ts)" "ts \<noteq> []" using vt assms(3) by (auto simp: validate_tenants_Ok)
  note multi = check_hello_tenants [OF assms(3) this]
  show ?thesis
    unfolding handle_connection_accepts s m check_hello_single [OF len] multi by (intro conjI refl)
qed

definition demo_hello :: "string \<Rightarrow> client_hello" where
  "demo_hello token = \<lparr>ch_protocol_version = 2, ch_protocol_fingerprint = ''f'', ch_auth_token = token, ch_client_name = ''game''\<rparr>"

definition demo_tenants :: "tenant_backend list" where
  "demo_tenants = [\<lparr>tb_id = ''a'', tb_token = ''aaaaaaaaaaaaaaaa'', tb_backend = 1, tb_slots = 1\<rparr>,
     \<lparr>tb_id = ''b'', tb_token = ''bbbbbbbbbbbbbbbb'', tb_backend = 2, tb_slots = 3\<rparr>]"

lemma demo_tenants_sized: "list_all token_sized demo_tenants"
  by (simp add: demo_tenants_def token_sized_def MAX_AUTH_TOKEN_BYTES_def)

lemma demo_tenants_valid: "validate_tenants demo_tenants = Ok ()"
  using validate_tenants_Ok [OF demo_tenants_sized] by (simp add: demo_tenants_def)

lemma demo_config_valid:
  "16 \<le> length token \<Longrightarrow> length token \<le> 512 \<Longrightarrow> server_config_validate 1000 (server_config_new token) = Ok ()"
  by (simp add: server_config_validate_def server_config_new_def DEFAULT_MAX_CONNECTIONS_def
      DEFAULT_MAX_IN_FLIGHT_PER_CONNECTION_def MAX_IN_FLIGHT_PER_CONNECTION_def MAX_AUTH_TOKEN_BYTES_def
      DEFAULT_MAX_FRAME_BYTES_def DEFAULT_MAX_PAYLOAD_BYTES_def)

lemma demo_hello_ok: "hello_ok ''f'' (demo_hello token)"
  by (simp add: hello_ok_def demo_hello_def PROTOCOL_VERSION_def is_compatible_protocol_fingerprint_def text_ok_def
      MAX_CLIENT_NAME_BYTES_def)

theorem handshake_accepts_iff_witness:
  "\<exists>server. server_bind_tenants 1000 (server_config_new ''bbbbbbbbbbbbbbbb'') demo_tenants = Ok server \<and>
     handle_connection ''f'' (ds_config server) (ds_backend server) (ds_tenants server)
       (FirstRead (Ok (Some (ClientHelloFrame (demo_hello ''bbbbbbbbbbbbbbbb''))))) =
     HandshakeAccepted (accepted_hello (demo_hello ''bbbbbbbbbbbbbbbb'')) 2 (take_permit demo_tenants 1)"
proof -
  have token: "(server_config_new t)\<lparr>sc_auth_token := u\<rparr> = server_config_new u" for t u by (simp add: server_config_new_def)
  obtain single where s: "server_bind 1000 (server_config_new ''bbbbbbbbbbbbbbbb'') 9 = Ok single"
    by (simp add: server_bind_def demo_config_valid)
  obtain server where m: "server_bind_tenants 1000 (server_config_new ''bbbbbbbbbbbbbbbb'') demo_tenants = Ok server"
    by (simp add: server_bind_tenants_def server_bind_def demo_tenants_valid token demo_config_valid)
  have "\<exists>i < length demo_tenants. tb_token (demo_tenants ! i) = ch_auth_token (demo_hello ''bbbbbbbbbbbbbbbb'') \<and>
      0 < tb_slots (demo_tenants ! i) \<and> 2 = tb_backend (demo_tenants ! i) \<and>
      take_permit demo_tenants 1 = take_permit demo_tenants i"
    by (rule exI [of _ 1]) (simp add: demo_tenants_def demo_hello_def)
  then show ?thesis
    using handshake_accepts_iff [OF s m demo_tenants_sized, of "''f''"
        "FirstRead (Ok (Some (ClientHelloFrame (demo_hello ''bbbbbbbbbbbbbbbb''))))"] m demo_hello_ok by blast
qed

text \<open>
  C39. Tenants are isolated: of two connections accepted one after the other on the same multi-tenant
  server, both use the same backend exactly when they presented the same token; accepting a
  connection takes one permit of its own tenant and leaves the tenants valid, so this holds for every
  later connection too.
\<close>

theorem tenant_isolation:
  assumes "validate_tenants ts = Ok ()" and "list_all token_sized ts"
    and "handle_connection fp cfg be ts (FirstRead (Ok (Some (ClientHelloFrame hello1)))) = HandshakeAccepted h1 b1 ts1"
    and "handle_connection fp cfg be ts1 (FirstRead (Ok (Some (ClientHelloFrame hello2)))) = HandshakeAccepted h2 b2 ts2"
  shows "(b1 = b2 \<longleftrightarrow> ch_auth_token hello1 = ch_auth_token hello2) \<and>
    validate_tenants ts2 = Ok () \<and> list_all token_sized ts2 \<and>
    sum_list (map tb_slots ts2) + 2 = sum_list (map tb_slots ts)"
proof -
  have d: "ts \<noteq> []" "length ts \<le> 64" "distinct (map tb_id ts)" "distinct (map tb_token ts)" "distinct (map tb_backend ts)"
    using assms(1,2) by (simp_all add: validate_tenants_Ok)
  obtain i where i: "i < length ts" "tb_token (ts ! i) = ch_auth_token hello1" "0 < tb_slots (ts ! i)"
    "b1 = tb_backend (ts ! i)" "ts1 = take_permit ts i"
    using assms(3) unfolding handle_connection_accepts check_hello_tenants [OF assms(2) d(4,1)] by blast
  note k1 = take_permit_keeps [OF i(1)]
  have sized: "list_all token_sized us" if "map tb_token us = map tb_token ts" for us
  proof -
    have e: "list_all token_sized vs \<longleftrightarrow> list_all (\<lambda>t. length t \<le> MAX_AUTH_TOKEN_BYTES) (map tb_token vs)" for vs
      by (simp add: list_all_iff token_sized_def)
    show ?thesis using assms(2) unfolding e that .
  qed
  have ts1: "list_all token_sized ts1" "distinct (map tb_token ts1)" "ts1 \<noteq> []"
    using sized k1 d i(5) by auto
  obtain j where j: "j < length ts1" "tb_token (ts1 ! j) = ch_auth_token hello2" "0 < tb_slots (ts1 ! j)"
    "b2 = tb_backend (ts1 ! j)" "ts2 = take_permit ts1 j"
    using assms(4) unfolding handle_connection_accepts check_hello_tenants [OF ts1] by blast
  note k2 = take_permit_keeps [OF j(1)]
  have at: "tb_token (ts1 ! j) = map tb_token ts ! j" "tb_backend (ts1 ! j) = map tb_backend ts ! j" "j < length ts"
    using k1 j(1) i(5) by (metis nth_map)+
  have iff: "b1 = b2 \<longleftrightarrow> ch_auth_token hello1 = ch_auth_token hello2"
    using nth_eq_iff_index_eq [OF d(4), of i j] nth_eq_iff_index_eq [OF d(5), of i j] i j at by simp
  have sum: "sum_list (map tb_slots (take_permit us n)) + 1 = sum_list (map tb_slots us)"
    if "n < length us" "0 < tb_slots (us ! n)" for us n
    using that member_le_sum_list [of "tb_slots (us ! n)" "map tb_slots us"]
    by (simp add: take_permit_def map_update sum_list_update)
  have "validate_tenants ts2 = Ok ()" "list_all token_sized ts2"
    using sized [of ts2] k1 k2 i(5) j(5) d validate_tenants_Ok [of ts2] by auto
  then show ?thesis using iff sum [OF i(1,3)] sum [OF j(1,3)] i(5) j(5) by simp
qed

theorem tenant_isolation_witness:
  "((1 :: nat) = 2 \<longleftrightarrow> ch_auth_token (demo_hello ''aaaaaaaaaaaaaaaa'') = ch_auth_token (demo_hello ''bbbbbbbbbbbbbbbb'')) \<and>
   validate_tenants (take_permit (take_permit demo_tenants 0) 1) = Ok ()"
proof -
  have d: "distinct (map tb_token demo_tenants)" "demo_tenants \<noteq> []" by (simp_all add: demo_tenants_def)
  have 1: "handle_connection ''f'' cfg 0 demo_tenants (FirstRead (Ok (Some (ClientHelloFrame (demo_hello ''aaaaaaaaaaaaaaaa''))))) =
      HandshakeAccepted (accepted_hello (demo_hello ''aaaaaaaaaaaaaaaa'')) 1 (take_permit demo_tenants 0)" for cfg
    unfolding handle_connection_accepts check_hello_tenants [OF demo_tenants_sized d]
    using demo_hello_ok by (auto simp: demo_hello_def demo_tenants_def intro!: exI [of _ 0])
  let ?ts = "take_permit demo_tenants 0"
  have t: "list_all token_sized ?ts" "distinct (map tb_token ?ts)" "?ts \<noteq> []"
    by (simp_all add: demo_tenants_def take_permit_def token_sized_def MAX_AUTH_TOKEN_BYTES_def)
  have 2: "handle_connection ''f'' cfg 0 ?ts (FirstRead (Ok (Some (ClientHelloFrame (demo_hello ''bbbbbbbbbbbbbbbb''))))) =
      HandshakeAccepted (accepted_hello (demo_hello ''bbbbbbbbbbbbbbbb'')) 2 (take_permit ?ts 1)" for cfg
    unfolding handle_connection_accepts check_hello_tenants [OF t]
    using demo_hello_ok by (auto simp: demo_hello_def demo_tenants_def take_permit_def intro!: exI [of _ 1])
  show ?thesis using tenant_isolation [OF demo_tenants_valid demo_tenants_sized 1 2] by blast
qed

end
