(* ===== verification/Cache_Policy.thy ===== *)
theory Cache_Policy
  imports Storage_Types
begin

text \<open>
  The policies of the cached read path of \<open>crates/dbproxy-storage/src/lib.rs\<close>: the configuration
  records with their validation, the lifetimes of cache entries, the cache keys, and the circuit
  breaker around fallback reads as a state machine.

  A \<open>Duration\<close> is its number of nanoseconds and an \<open>Instant\<close> the nanoseconds since some origin; the
  clock is an argument of the operations that read it. The standard library's hasher, whose algorithm
  is unspecified, is the parameter \<open>hash\<close>.
\<close>

section \<open>Durations\<close>

type_synonym duration = nat
type_synonym instant = nat

definition from_millis :: "nat \<Rightarrow> duration" where
  "from_millis n = n * 1000000"

definition as_millis :: "duration \<Rightarrow> nat" where
  "as_millis d = d div 1000000"

definition u64_max :: nat where "u64_max = 2 ^ 64 - 1"
definition i64_max :: nat where "i64_max = 2 ^ 63 - 1"

text \<open>\<open>u64::try_from(d.as_millis()).unwrap_or(u64::MAX)\<close>\<close>

definition millis_u64 :: "duration \<Rightarrow> nat" where
  "millis_u64 d = min (as_millis d) u64_max"

definition duration_millis :: "duration \<Rightarrow> nat" where
  "duration_millis d = min (millis_u64 d) i64_max"

definition sat_add :: "nat \<Rightarrow> nat \<Rightarrow> nat" where
  "sat_add a b = min (a + b) u64_max"

section \<open>Configuration\<close>

record cache_fallback_config =
  cf_max_concurrent :: nat
  cf_timeout :: duration

definition cache_fallback_config_default :: cache_fallback_config where
  "cache_fallback_config_default = \<lparr>cf_max_concurrent = 16, cf_timeout = from_millis 2000\<rparr>"

definition cache_fallback_config_validate ::
    "cache_fallback_config \<Rightarrow> (cache_fallback_config, storage_error) result" where
  "cache_fallback_config_validate c =
     (if cf_max_concurrent c = 0 then Err InvalidCacheFallbackConcurrency
      else if cf_timeout c = 0 then Err InvalidCacheFallbackTimeout
      else Ok c)"

record circuit_config =
  ci_failure_threshold :: u32
  ci_cooldown :: duration

definition circuit_config_default :: circuit_config where
  "circuit_config_default = \<lparr>ci_failure_threshold = 5, ci_cooldown = from_millis 5000\<rparr>"

definition circuit_config_validate :: "circuit_config \<Rightarrow> (circuit_config, storage_error) result" where
  "circuit_config_validate c =
     (if ci_failure_threshold c = 0 then Err InvalidCacheFallbackCircuitThreshold
      else if ci_cooldown c = 0 then Err InvalidCacheFallbackCircuitCooldown
      else Ok c)"

definition cooldown_ms :: "circuit_config \<Rightarrow> nat" where
  "cooldown_ms c = max (millis_u64 (ci_cooldown c)) 1"

record fallback_lock_config =
  fl_lease :: duration
  fl_wait :: duration
  fl_poll_interval :: duration

definition fallback_lock_config_default :: fallback_lock_config where
  "fallback_lock_config_default =
     \<lparr>fl_lease = from_millis 3000, fl_wait = from_millis 1000, fl_poll_interval = from_millis 25\<rparr>"

definition fallback_lock_config_validate ::
    "fallback_lock_config \<Rightarrow> (fallback_lock_config, storage_error) result" where
  "fallback_lock_config_validate c =
     (if fl_lease c = 0 then Err InvalidCacheFallbackLockLease
      else if fl_wait c = 0 then Err InvalidCacheFallbackLockWait
      else if fl_poll_interval c = 0 then Err InvalidCacheFallbackLockPoll
      else Ok c)"

definition lease_ms :: "fallback_lock_config \<Rightarrow> nat" where
  "lease_ms c = max (millis_u64 (fl_lease c)) 1"

record snapshot_cache_config =
  ca_ttl :: duration
  ca_ttl_jitter :: duration
  ca_negative_ttl :: duration
  ca_stale_while_revalidate :: duration

definition snapshot_cache_config_default :: snapshot_cache_config where
  "snapshot_cache_config_default =
     \<lparr>ca_ttl = from_millis 300000, ca_ttl_jitter = from_millis 30000, ca_negative_ttl = from_millis 5000,
      ca_stale_while_revalidate = from_millis 30000\<rparr>"

definition snapshot_cache_config_validate ::
    "snapshot_cache_config \<Rightarrow> (snapshot_cache_config, storage_error) result" where
  "snapshot_cache_config_validate c = (if ca_ttl c = 0 then Err InvalidCacheTtl else Ok c)"

definition jitter_ms :: "(record_key \<Rightarrow> nat) \<Rightarrow> snapshot_cache_config \<Rightarrow> record_key \<Rightarrow> nat" where
  "jitter_ms hash c r =
     (let jitter = duration_millis (ca_ttl_jitter c)
      in if jitter = 0 then 0 else hash r mod sat_add jitter 1)"

definition fresh_ttl_ms :: "(record_key \<Rightarrow> nat) \<Rightarrow> snapshot_cache_config \<Rightarrow> record_key \<Rightarrow> nat" where
  "fresh_ttl_ms hash c r = max (sat_add (duration_millis (ca_ttl c)) (jitter_ms hash c r)) 1"

definition hard_ttl_ms :: "(record_key \<Rightarrow> nat) \<Rightarrow> snapshot_cache_config \<Rightarrow> record_key \<Rightarrow> nat" where
  "hard_ttl_ms hash c r =
     max (sat_add (fresh_ttl_ms hash c r) (duration_millis (ca_stale_while_revalidate c))) 1"

text \<open>
  The lifetimes of an entry: its fresh period is the configured one plus at most the jitter, it is
  readable for the stale period after that, and no sum wraps around. The source keeps each duration
  below \<open>i64::MAX\<close> milliseconds, so the sum of three of them can exceed the 64-bit range; the
  saturating additions then keep the hard lifetime at its maximum.
\<close>

lemma ttl_bounds:
  "duration_millis (ca_ttl c) \<le> fresh_ttl_ms hash c r"
  "fresh_ttl_ms hash c r \<le> max (duration_millis (ca_ttl c) + duration_millis (ca_ttl_jitter c)) 1"
  "fresh_ttl_ms hash c r \<le> hard_ttl_ms hash c r" "hard_ttl_ms hash c r \<le> u64_max" "0 < fresh_ttl_ms hash c r"
proof -
  have d: "duration_millis d \<le> i64_max" for d by (simp add: duration_millis_def)
  have "jitter_ms hash c r \<le> duration_millis (ca_ttl_jitter c)"
  proof (cases "duration_millis (ca_ttl_jitter c) = 0")
    case False
    have "hash r mod sat_add (duration_millis (ca_ttl_jitter c)) 1 < sat_add (duration_millis (ca_ttl_jitter c)) 1"
      by (intro mod_less_divisor) (simp add: sat_add_def u64_max_def)
    then show ?thesis using False by (simp add: jitter_ms_def sat_add_def)
  qed (simp add: jitter_ms_def)
  note j = this
  have s: "sat_add (duration_millis (ca_ttl c)) (jitter_ms hash c r) = duration_millis (ca_ttl c) + jitter_ms hash c r"
    using j d [of "ca_ttl c"] d [of "ca_ttl_jitter c"] by (simp add: sat_add_def i64_max_def u64_max_def)
  show "duration_millis (ca_ttl c) \<le> fresh_ttl_ms hash c r"
    "fresh_ttl_ms hash c r \<le> max (duration_millis (ca_ttl c) + duration_millis (ca_ttl_jitter c)) 1"
    "0 < fresh_ttl_ms hash c r"
    using j by (auto simp: fresh_ttl_ms_def s)
  have "fresh_ttl_ms hash c r \<le> u64_max"
    by (simp add: fresh_ttl_ms_def sat_add_def u64_max_def)
  then show "fresh_ttl_ms hash c r \<le> hard_ttl_ms hash c r" by (auto simp: hard_ttl_ms_def sat_add_def)
  show "hard_ttl_ms hash c r \<le> u64_max" by (simp add: hard_ttl_ms_def sat_add_def u64_max_def)
qed

section \<open>Keys\<close>

definition cache_key :: "record_key \<Rightarrow> string" where
  "cache_key r = ''dbproxy:snapshot:'' @ decimal (length (namespace r)) @ '':'' @ namespace r @ '':'' @
     decimal (length (key r)) @ '':'' @ key r"

definition revision_key :: "record_key \<Rightarrow> string" where
  "revision_key r = cache_key r @ '':revision''"

definition freshness_key :: "record_key \<Rightarrow> string" where
  "freshness_key r = cache_key r @ '':fresh-until''"

definition negative_key :: "record_key \<Rightarrow> string" where
  "negative_key r = cache_key r @ '':negative''"

definition fallback_lock_key :: "record_key \<Rightarrow> string" where
  "fallback_lock_key r = cache_key r @ '':fallback-lock''"

text \<open>The five keys that the cache of one record uses in Redis.\<close>

definition redis_keys :: "record_key \<Rightarrow> string list" where
  "redis_keys r = [cache_key r, revision_key r, freshness_key r, negative_key r, fallback_lock_key r]"

fun lock_components :: "string list \<Rightarrow> string" where
  "lock_components [] = []"
| "lock_components (c # cs) = decimal (length c) @ '':'' @ c @ '':'' @ lock_components cs"

definition advisory_lock_key :: "string \<Rightarrow> string list \<Rightarrow> string" where
  "advisory_lock_key scope components =
     decimal (length scope) @ '':'' @ scope @ '':'' @ lock_components components"

text \<open>A decimal length and a colon can be read off the front of a string.\<close>

lemma decimal_no_colon: "CHR '':'' \<notin> set (decimal n)"
proof
  assume "CHR '':'' \<in> set (decimal n)"
  then obtain d where "d < 10" "CHR '':'' = digit_char d" using decimal_digits by blast
  then have "digit_value (CHR '':'') = Some d" using digit_value_digit_char by simp
  then show False by (simp add: digit_value_def)
qed

lemma colon_prefix:
  "c \<notin> set xs \<Longrightarrow> c \<notin> set ys \<Longrightarrow> xs @ c # s = ys @ c # t \<Longrightarrow> xs = ys \<and> s = t"
proof (induction xs arbitrary: ys)
  case Nil
  then show ?case by (cases ys) auto
next
  case (Cons x xs)
  then show ?case by (cases ys) auto
qed

lemma length_prefix:
  assumes "decimal (length a) @ CHR '':'' # a @ s = decimal (length b) @ CHR '':'' # b @ t"
  shows "a = b \<and> s = t"
proof -
  have "decimal (length a) = decimal (length b) \<and> a @ s = b @ t"
    using assms by (intro colon_prefix [of "CHR '':''"]) (auto simp: decimal_no_colon)
  moreover from this have "length a = length b" using decimal_inject by blast
  ultimately show ?thesis by simp
qed

lemma cache_key_suffix:
  assumes "cache_key r @ s = cache_key q @ t"
  shows "r = q \<and> s = t"
proof -
  have "decimal (length (namespace r)) @ CHR '':'' # namespace r @ (CHR '':'' # decimal (length (key r)) @ CHR '':'' # key r @ s) =
      decimal (length (namespace q)) @ CHR '':'' # namespace q @ (CHR '':'' # decimal (length (key q)) @ CHR '':'' # key q @ t)"
    using assms by (simp add: cache_key_def)
  from length_prefix [OF this] have ns: "namespace r = namespace q" and
    k: "decimal (length (key r)) @ CHR '':'' # key r @ s = decimal (length (key q)) @ CHR '':'' # key q @ t" by auto
  from length_prefix [OF k] ns show ?thesis by (simp add: record_key.equality)
qed

lemma cache_key_append_eq [simp]: "cache_key r @ s = cache_key q @ t \<longleftrightarrow> r = q \<and> s = t"
  using cache_key_suffix by blast

lemma cache_key_eq_append [simp]:
  "cache_key r = cache_key q @ t \<longleftrightarrow> r = q \<and> t = []"
  "cache_key r @ t = cache_key q \<longleftrightarrow> r = q \<and> t = []"
  "cache_key r = cache_key q \<longleftrightarrow> r = q"
  using cache_key_append_eq [of r "[]" q t] cache_key_append_eq [of r t q "[]"] cache_key_append_eq [of r "[]" q "[]"]
  by auto

lemma distinct_redis_keys: "distinct (redis_keys r)"
  by (simp add: redis_keys_def revision_key_def freshness_key_def negative_key_def fallback_lock_key_def)

lemma redis_keys_disjoint: "set (redis_keys r) \<inter> set (redis_keys q) = {} \<longleftrightarrow> r \<noteq> q"
  by (cases "r = q")
    (simp_all add: redis_keys_def revision_key_def freshness_key_def negative_key_def fallback_lock_key_def)

lemma lock_components_inj: "lock_components xs = lock_components ys \<Longrightarrow> xs = ys"
proof (induction xs arbitrary: ys)
  case Nil
  then show ?case by (cases ys) auto
next
  case (Cons x xs)
  then obtain y zs where ys: "ys = y # zs" by (cases ys) auto
  have "decimal (length x) @ CHR '':'' # x @ (CHR '':'' # lock_components xs) =
      decimal (length y) @ CHR '':'' # y @ (CHR '':'' # lock_components zs)"
    using Cons.prems by (simp add: ys)
  from length_prefix [OF this] show ?case using Cons.IH by (simp add: ys)
qed

section \<open>Circuit breaker\<close>

datatype circuit_state =
    CircuitClosed u32 u64
  | CircuitOpen instant u64
  | CircuitHalfOpen u64

datatype circuit_permit = PermitClosed u64 | PermitHalfOpen u64

record fallback_circuit =
  fc_state :: circuit_state
  fc_failure_threshold :: u32
  fc_cooldown :: duration
  fc_cooldown_ms :: nat

definition circuit_new :: "circuit_config \<Rightarrow> (fallback_circuit, storage_error) result" where
  "circuit_new config =
     and_then (circuit_config_validate config) (\<lambda>c.
     Ok \<lparr>fc_state = CircuitClosed 0 0, fc_failure_threshold = ci_failure_threshold c, fc_cooldown = ci_cooldown c,
         fc_cooldown_ms = cooldown_ms c\<rparr>)"

definition circuit_allow :: "instant \<Rightarrow> fallback_circuit \<Rightarrow> fallback_circuit \<times> (circuit_permit, storage_error) result" where
  "circuit_allow now c =
     (case fc_state c of
        CircuitClosed n g \<Rightarrow> (c, Ok (PermitClosed g))
      | CircuitOpen opened_at g \<Rightarrow>
          let elapsed = now - opened_at in
          if fc_cooldown c \<le> elapsed then (c\<lparr>fc_state := CircuitHalfOpen g\<rparr>, Ok (PermitHalfOpen g))
          else (c, Err (CacheFallbackCircuitOpen (of_nat (millis_u64 (fc_cooldown c - elapsed)))))
      | CircuitHalfOpen g \<Rightarrow> (c, Err (CacheFallbackCircuitOpen (of_nat (fc_cooldown_ms c)))))"

definition circuit_succeeded :: "circuit_permit \<Rightarrow> fallback_circuit \<Rightarrow> fallback_circuit" where
  "circuit_succeeded permit c =
     (case (permit, fc_state c) of
        (PermitClosed p, CircuitClosed n g) \<Rightarrow> if p = g then c\<lparr>fc_state := CircuitClosed 0 g\<rparr> else c
      | (PermitHalfOpen p, CircuitHalfOpen g) \<Rightarrow>
          if p = g then c\<lparr>fc_state := CircuitClosed 0 (saturating_add g 1)\<rparr> else c
      | _ \<Rightarrow> c)"

definition saturating_inc :: "u32 \<Rightarrow> u32" where
  "saturating_inc n = (if n = - 1 then n else n + 1)"

definition circuit_failed :: "instant \<Rightarrow> circuit_permit \<Rightarrow> fallback_circuit \<Rightarrow> fallback_circuit" where
  "circuit_failed now permit c =
     (case (permit, fc_state c) of
        (PermitHalfOpen p, CircuitHalfOpen g) \<Rightarrow>
          if p = g then c\<lparr>fc_state := CircuitOpen now (saturating_add g 1)\<rparr> else c
      | (PermitClosed p, CircuitClosed n g) \<Rightarrow>
          if p = g then
            let failures = saturating_inc n in
            if fc_failure_threshold c \<le> failures
            then c\<lparr>fc_state := CircuitOpen now (saturating_add g 1)\<rparr>
            else c\<lparr>fc_state := CircuitClosed failures g\<rparr>
          else c
      | _ \<Rightarrow> c)"

text \<open>
  Uses of one breaker in the order in which they take its lock. Every event carries the time at which
  it happens; a caller may report any permit, also an old one.
\<close>

datatype circuit_event = AskPermit instant | Success instant circuit_permit | Failure instant circuit_permit

fun event_time :: "circuit_event \<Rightarrow> instant" where
  "event_time (AskPermit t) = t"
| "event_time (Success t p) = t"
| "event_time (Failure t p) = t"

fun circuit_step :: "fallback_circuit \<Rightarrow> circuit_event \<Rightarrow> fallback_circuit \<times> (circuit_permit, storage_error) result option" where
  "circuit_step c (AskPermit t) = (let (c', r) = circuit_allow t c in (c', Some r))"
| "circuit_step c (Success t p) = (circuit_succeeded p c, None)"
| "circuit_step c (Failure t p) = (circuit_failed t p c, None)"

definition probes :: "(circuit_permit, storage_error) result option \<Rightarrow> bool" where
  "probes r \<longleftrightarrow> (\<exists>g. r = Some (Ok (PermitHalfOpen g)))"

text \<open>Since a probe at time \<open>t\<close> the breaker has not been open from before it.\<close>

definition probed_at :: "instant \<Rightarrow> fallback_circuit \<Rightarrow> bool" where
  "probed_at t c \<longleftrightarrow> (case fc_state c of CircuitOpen o' g \<Rightarrow> t \<le> o' | _ \<Rightarrow> True)"

lemma circuit_step_cooldown: "fc_cooldown (fst (circuit_step c e)) = fc_cooldown c"
  by (cases e) (auto simp: circuit_allow_def circuit_succeeded_def circuit_failed_def Let_def
      split: circuit_state.splits circuit_permit.splits)

lemma probe_step:
  "circuit_step c e = (c', r) \<Longrightarrow> probes r \<Longrightarrow> probed_at t c'"
  by (cases e) (auto simp: probes_def probed_at_def circuit_allow_def Let_def
      split: circuit_state.splits if_splits)

lemma probed_step:
  assumes "probed_at t c" and "circuit_step c e = (c', r)" and "t \<le> event_time e"
  shows "probed_at t c'" and "probes r \<Longrightarrow> t + fc_cooldown c \<le> event_time e"
proof -
  show "probed_at t c'"
    using assms by (cases e) (auto simp: probed_at_def circuit_allow_def circuit_succeeded_def circuit_failed_def Let_def
        split: circuit_state.splits circuit_permit.splits if_splits)
  show "probes r \<Longrightarrow> t + fc_cooldown c \<le> event_time e"
    using assms by (cases e) (auto simp: probes_def probed_at_def circuit_allow_def Let_def
        split: circuit_state.splits if_splits)
qed

lemma probed_run:
  assumes "probed_at t c" and "run circuit_step c es = (c', rs)" and "\<forall>e\<in>set es. t \<le> event_time e"
    and "j < length es" and "probes (rs ! j)"
  shows "t + fc_cooldown c \<le> event_time (es ! j)"
  using assms
proof (induction es arbitrary: c c' rs j)
  case (Cons e es)
  obtain c1 r where s: "circuit_step c e = (c1, r)" by fastforce
  obtain c2 qs where q: "run circuit_step c1 es = (c2, qs)" by fastforce
  have rs: "rs = r # qs" using Cons.prems(2) s q by simp
  show ?case
  proof (cases j)
    case 0
    then show ?thesis using probed_step(2) [OF Cons.prems(1) s] Cons.prems rs by simp
  next
    case (Suc i)
    have "probed_at t c1" using probed_step(1) [OF Cons.prems(1) s] Cons.prems(3) by simp
    moreover have "fc_cooldown c1 = fc_cooldown c" using circuit_step_cooldown [of c e] s by simp
    ultimately show ?thesis using Cons.IH [of c1 c2 qs i] q Cons.prems rs Suc by simp
  qed
qed simp

lemma run_split:
  "run f s (es @ e # es') = (let (s1, rs) = run f s es; (s2, r) = f s1 e; (s3, rs') = run f s2 es' in (s3, rs @ r # rs'))"
  by (simp add: run_append case_prod_unfold Let_def)

section \<open>Properties\<close>

text \<open>
  C9. Keys in Redis and advisory locks in PostgreSQL never collide, whatever characters the names
  contain: for any list of records, their cache entries, revision markers, freshness markers, negative
  entries and fallback locks are pairwise different keys exactly when the records are pairwise
  different, and two advisory lock keys are equal only for the same scope and the same components.
\<close>

theorem keys_never_collide:
  "(distinct (concat (map redis_keys rs)) \<longleftrightarrow> distinct rs) \<and>
   (advisory_lock_key scope xs = advisory_lock_key scope' ys \<longleftrightarrow> scope = scope' \<and> xs = ys)"
proof
  show "distinct (concat (map redis_keys rs)) \<longleftrightarrow> distinct rs"
  proof (induction rs)
    case (Cons r rs)
    have "set (redis_keys r) \<inter> set (concat (map redis_keys rs)) = {} \<longleftrightarrow> r \<notin> set rs"
      using redis_keys_disjoint [of r] by auto
    then show ?case using Cons by (auto simp: distinct_redis_keys)
  qed simp
  show "advisory_lock_key scope xs = advisory_lock_key scope' ys \<longleftrightarrow> scope = scope' \<and> xs = ys"
  proof
    assume "advisory_lock_key scope xs = advisory_lock_key scope' ys"
    then have "decimal (length scope) @ CHR '':'' # scope @ (CHR '':'' # lock_components xs) =
        decimal (length scope') @ CHR '':'' # scope' @ (CHR '':'' # lock_components ys)"
      by (simp add: advisory_lock_key_def)
    from length_prefix [OF this] show "scope = scope' \<and> xs = ys" using lock_components_inj by auto
  qed simp
qed

text \<open>
  C40. The circuit breaker admits at most one probe per cooldown: in any sequence of uses of a new
  breaker in the order of time, with failures, successes and outdated reports mixed in any way, two
  probe permits are at least the configured cooldown apart.
\<close>

theorem circuit_probe_rate:
  assumes "circuit_new config = Ok c" and "run circuit_step c es = (c', rs)"
    and "sorted (map event_time es)" and "i < j" and "j < length es" and "probes (rs ! i)" and "probes (rs ! j)"
  shows "event_time (es ! i) + ci_cooldown config \<le> event_time (es ! j)"
proof -
  define e where "e = es ! i"
  have es: "es = take i es @ e # drop (Suc i) es" unfolding e_def using assms(4,5) by (intro id_take_nth_drop) simp
  obtain c1 rs1 where r1: "run circuit_step c (take i es) = (c1, rs1)" by fastforce
  obtain c2 r where r2: "circuit_step c1 e = (c2, r)" by fastforce
  obtain c3 rs3 where r3: "run circuit_step c2 (drop (Suc i) es) = (c3, rs3)" by fastforce
  have "run circuit_step c (take i es @ e # drop (Suc i) es) = (c3, rs1 @ r # rs3)"
    by (simp add: run_split r1 r2 r3)
  then have rs: "rs = rs1 @ r # rs3" using assms(2) es by simp
  have l: "length rs1 = i" using run_length [of circuit_step c "take i es"] r1 assms(4,5) by simp
  have cool: "fc_cooldown (fst (run circuit_step c qs)) = fc_cooldown c" for qs
    by (rule run_invariant [where I = "\<lambda>x. fc_cooldown x = fc_cooldown c"]) (simp_all add: circuit_step_cooldown)
  have "fc_cooldown c2 = ci_cooldown config"
    using cool [of "take i es"] r1 circuit_step_cooldown [of c1 e] r2 assms(1)
    by (auto simp: circuit_new_def and_then_Ok_iff circuit_config_validate_def split: if_splits)
  moreover have "probed_at (event_time e) c2" using probe_step [OF r2] assms(6) by (simp add: rs l nth_append)
  moreover have "\<forall>d\<in>set (drop (Suc i) es). event_time e \<le> event_time d"
  proof -
    have "sorted (map event_time (take i es @ e # drop (Suc i) es))" using assms(3) es by simp
    then show ?thesis by (simp add: sorted_append)
  qed
  moreover have "probes (rs3 ! (j - Suc i))" using assms(4,7) by (simp add: rs l nth_append nth_Cons')
  ultimately have "event_time e + ci_cooldown config \<le> event_time (drop (Suc i) es ! (j - Suc i))"
    using probed_run [of "event_time e" c2 "drop (Suc i) es" c3 rs3 "j - Suc i"] r3 assms(4,5) by simp
  then show ?thesis using assms(4,5) by (simp add: e_def)
qed

definition demo_circuit :: fallback_circuit where
  "demo_circuit = \<lparr>fc_state = CircuitClosed 0 0, fc_failure_threshold = 1, fc_cooldown = 10, fc_cooldown_ms = 1\<rparr>"

definition demo_uses :: "circuit_event list" where
  "demo_uses = [AskPermit 0, Failure 1 (PermitClosed 0), AskPermit 5, AskPermit 11, Failure 12 (PermitHalfOpen 1),
     AskPermit 13, AskPermit 22]"

theorem circuit_probe_rate_witness:
  "event_time (demo_uses ! 3) + 10 \<le> event_time (demo_uses ! 6)"
proof -
  have n: "circuit_new \<lparr>ci_failure_threshold = 1, ci_cooldown = 10\<rparr> = Ok demo_circuit"
    by (simp add: circuit_new_def circuit_config_validate_def demo_circuit_def cooldown_ms_def millis_u64_def as_millis_def)
  obtain c' rs where r: "run circuit_step demo_circuit demo_uses = (c', rs)" by fastforce
  then have p: "probes (rs ! 3)" "probes (rs ! 6)"
    by (auto simp: demo_uses_def demo_circuit_def circuit_allow_def circuit_failed_def saturating_inc_def
        saturating_add_def probes_def)
  show ?thesis
    using circuit_probe_rate [OF n r, of 3 6] p by (simp add: demo_uses_def)
qed

text \<open>
  A probe whose caller is cancelled between taking the permit and reporting it leaves the breaker half
  open, and no later use of it is admitted: every request for a permit is refused as long as nobody
  reports that permit.
\<close>

lemma lost_probe_refuses_forever:
  assumes "fc_state c = CircuitHalfOpen g" and "run circuit_step c (map AskPermit ts) = (c', rs)"
  shows "c' = c \<and> (\<forall>r\<in>set rs. r = Some (Err (CacheFallbackCircuitOpen (of_nat (fc_cooldown_ms c)))))"
  using assms(2)
proof (induction ts arbitrary: rs)
  case (Cons t ts)
  have s: "circuit_step c (AskPermit t) = (c, Some (Err (CacheFallbackCircuitOpen (of_nat (fc_cooldown_ms c)))))"
    using assms(1) by (simp add: circuit_allow_def)
  obtain c1 qs where "run circuit_step c (map AskPermit ts) = (c1, qs)" by fastforce
  then show ?case using Cons s by auto
qed simp

end
