(* ===== verification/Retry_Policy.thy ===== *)
theory Retry_Policy
  imports Server_Backend
begin

text \<open>
  The retry policy of the durable queue workers, \<open>RetryWorkerPolicy\<close> of
  \<open>crates/dbproxy-server/src/lib.rs\<close>: its validation, the capped exponential delay of both queues and
  the jittered delay of the outbox. Delays are milliseconds in 64-bit words, as in the source; the
  properties read them as natural numbers and so show that nothing wraps around. The SHA-256 of the
  \<open>sha2\<close> package is the parameter \<open>sha256\<close>, about which nothing is assumed.
\<close>

section \<open>The policy\<close>

record retry_worker_policy =
  rp_lease_ms :: u64
  rp_base_retry_delay_ms :: u64
  rp_max_retry_delay_ms :: u64
  rp_max_attempts :: u32

definition policy_validate :: "retry_worker_policy \<Rightarrow> (retry_worker_policy, backend_error) result" where
  "policy_validate p =
     (if rp_lease_ms p = 0 \<or> rp_base_retry_delay_ms p = 0 \<or>
         rp_max_retry_delay_ms p < rp_base_retry_delay_ms p \<or> rp_max_attempts p = 0
      then Err (InvalidConfig ''durable retry worker policy is invalid'')
      else Ok p)"

definition retry_delay_ms :: "retry_worker_policy \<Rightarrow> u64 \<Rightarrow> u64" where
  "retry_delay_ms p previous_attempts =
     (let exponent = unat (min previous_attempts 20) in
      min (saturating_mul (rp_base_retry_delay_ms p) (push_bit exponent 1)) (rp_max_retry_delay_ms p))"

definition div_ceil2 :: "u64 \<Rightarrow> u64" where
  "div_ceil2 a = (if 0 < a mod 2 then a div 2 + 1 else a div 2)"

fun from_le_bytes :: "bytes \<Rightarrow> u64" where
  "from_le_bytes [] = 0"
| "from_le_bytes (b # bs) = ucast b + push_bit 8 (from_le_bytes bs)"

definition outbox_retry_delay_ms ::
    "(bytes \<Rightarrow> bytes) \<Rightarrow> retry_worker_policy \<Rightarrow> string \<Rightarrow> u64 \<Rightarrow> u64" where
  "outbox_retry_delay_ms sha256 p event_id attempt =
     (let cap = retry_delay_ms p attempt;
          floor = div_ceil2 cap;
          digest = sha256 (str_bytes (event_id @ ''/'' @ decimal (unat attempt)));
          entropy = from_le_bytes (take 8 digest)
      in floor + entropy mod (cap - floor + 1))"

section \<open>The delays as numbers\<close>

lemma unat_u64_bound: "unat (a :: u64) < 2 ^ 64"
  using unsigned_less [of a] by simp

lemma unat_min: "unat (min a b) = min (unat a) (unat (b :: u64))"
  by (simp add: min_def word_le_nat_alt)

lemma unat_saturating_mul: "unat (saturating_mul a b) = min (unat a * unat b) (2 ^ 64 - 1)"
proof (cases "unat a * unat b < 2 ^ 64")
  case True
  then show ?thesis by (simp add: saturating_mul_def unat_word_ariths)
next
  case False
  then show ?thesis by (simp add: saturating_mul_def unsigned_minus_1_eq_mask mask_eq_exp_minus_1)
qed

lemma unat_power_of_two:
  assumes "e \<le> 20"
  shows "unat (2 ^ e :: u64) = 2 ^ e"
proof -
  have "(2 :: nat) ^ e \<le> 2 ^ 20" using assms by (intro power_increasing) simp_all
  then have "(2 :: nat) ^ e < 2 ^ 64" by simp
  then have "unat (word_of_nat (2 ^ e) :: u64) = 2 ^ e" by (simp only: unat_of_nat) simp
  then show ?thesis by simp
qed

lemma retry_delay_value:
  "unat (retry_delay_ms p n) =
     min (unat (rp_base_retry_delay_ms p) * 2 ^ min (unat n) 20) (unat (rp_max_retry_delay_ms p))"
proof -
  have "unat (rp_max_retry_delay_ms p) \<le> 2 ^ 64 - 1"
    using unat_u64_bound [of "rp_max_retry_delay_ms p"] by simp
  moreover have "unat (min n 20) = min (unat n) 20" by (simp add: unat_min)
  ultimately show ?thesis
    by (simp add: retry_delay_ms_def unat_min unat_saturating_mul unat_power_of_two Let_def)
qed

lemma unat_div_ceil2: "unat (div_ceil2 a) = (unat a + 1) div 2"
proof -
  have d: "unat (a div 2) = unat a div 2" by (simp add: unat_div)
  then have "unat (a div 2) + 1 < 2 ^ 64" using unat_u64_bound [of a] by simp
  then have "unat (a div 2 + 1) = unat a div 2 + 1" unfolding unat_word_ariths(1) d by simp
  moreover have "0 < a mod 2 \<longleftrightarrow> unat a mod 2 = 1"
    by (simp add: word_less_nat_alt unat_mod)
  ultimately show ?thesis by (simp add: div_ceil2_def unat_div) presburger
qed

lemma outbox_delay_value:
  obtains e where "unat (outbox_retry_delay_ms sha256 p i n) =
     (unat (retry_delay_ms p n) + 1) div 2 + e mod (unat (retry_delay_ms p n) div 2 + 1)"
proof -
  define cap where "cap = retry_delay_ms p n"
  define entropy where "entropy = from_le_bytes (take 8 (sha256 (str_bytes (i @ ''/'' @ decimal (unat n)))))"
  define half where "half = unat cap div 2"
  have c: "unat cap < 2 ^ 64" by (rule unat_u64_bound)
  have "div_ceil2 cap \<le> cap" by (simp add: word_le_nat_alt unat_div_ceil2)
  then have "unat (cap - div_ceil2 cap) = half"
    by (simp add: unat_sub unat_div_ceil2 half_def)
  then have s: "unat (cap - div_ceil2 cap + 1) = half + 1"
    using c by (simp add: unat_word_ariths half_def)
  have "unat (entropy mod (cap - div_ceil2 cap + 1)) = unat entropy mod (half + 1)"
    using s by (simp add: unat_mod)
  moreover have "(unat cap + 1) div 2 + unat entropy mod (half + 1) < 2 ^ 64"
  proof -
    have "unat entropy mod (half + 1) \<le> half" by simp
    then show ?thesis using c unfolding half_def by linarith
  qed
  moreover have "outbox_retry_delay_ms sha256 p i n = div_ceil2 cap + entropy mod (cap - div_ceil2 cap + 1)"
    unfolding outbox_retry_delay_ms_def Let_def cap_def entropy_def ..
  ultimately have "unat (outbox_retry_delay_ms sha256 p i n) = (unat cap + 1) div 2 + unat entropy mod (half + 1)"
    unfolding unat_div_ceil2 [symmetric] by (simp add: unat_word_ariths(1) unat_div_ceil2)
  then show ?thesis using that by (simp add: half_def cap_def)
qed

section \<open>Property\<close>

text \<open>
  C30. Under a policy that passes validation, the delay before a retry is the base delay doubled for
  every previous attempt, up to the configured maximum: it is never below the base, never above the
  maximum, never falls from one attempt to the next, and reaches the maximum when twenty doublings
  reach it. The jittered delay of the outbox lies between half of it, rounded up, and all of it,
  whatever the digest is. None of the 64-bit computations wraps around.
\<close>

theorem retry_delays_bounded:
  assumes "policy_validate p = Ok q"
  shows "q = p \<and>
     unat (retry_delay_ms p n) = min (unat (rp_base_retry_delay_ms p) * 2 ^ min (unat n) 20) (unat (rp_max_retry_delay_ms p)) \<and>
     rp_base_retry_delay_ms p \<le> retry_delay_ms p n \<and> retry_delay_ms p n \<le> rp_max_retry_delay_ms p \<and>
     (n \<le> m \<longrightarrow> retry_delay_ms p n \<le> retry_delay_ms p m) \<and>
     unat (retry_delay_ms p n) \<le> 2 * unat (outbox_retry_delay_ms sha256 p i n) \<and>
     outbox_retry_delay_ms sha256 p i n \<le> retry_delay_ms p n \<and> 0 < outbox_retry_delay_ms sha256 p i n"
proof -
  let ?b = "unat (rp_base_retry_delay_ms p)" and ?m = "unat (rp_max_retry_delay_ms p)"
  have q: "q = p" and "?b \<le> ?m" and b: "0 < ?b"
    using assms by (auto simp: policy_validate_def word_less_nat_alt unat_gt_0 split: if_splits)
  moreover have "?b \<le> ?b * 2 ^ min (unat n) 20" by simp
  ultimately have low: "?b \<le> unat (retry_delay_ms p n)" by (simp add: retry_delay_value)
  have mono: "retry_delay_ms p n \<le> retry_delay_ms p m" if "n \<le> m"
  proof -
    have "(2 :: nat) ^ min (unat n) 20 \<le> 2 ^ min (unat m) 20"
      using that by (intro power_increasing) (auto simp: word_le_nat_alt)
    then have "?b * 2 ^ min (unat n) 20 \<le> ?b * 2 ^ min (unat m) 20" by simp
    then show ?thesis unfolding word_le_nat_alt retry_delay_value by linarith
  qed
  obtain e where e: "unat (outbox_retry_delay_ms sha256 p i n) =
      (unat (retry_delay_ms p n) + 1) div 2 + e mod (unat (retry_delay_ms p n) div 2 + 1)"
    by (rule outbox_delay_value)
  moreover have "e mod (unat (retry_delay_ms p n) div 2 + 1) \<le> unat (retry_delay_ms p n) div 2" by simp
  ultimately have "unat (retry_delay_ms p n) \<le> 2 * unat (outbox_retry_delay_ms sha256 p i n)"
    and "unat (outbox_retry_delay_ms sha256 p i n) \<le> unat (retry_delay_ms p n)"
    and "0 < unat (outbox_retry_delay_ms sha256 p i n)"
    using low b by linarith+
  then show ?thesis using q low mono by (simp add: word_le_nat_alt word_less_nat_alt retry_delay_value)
qed

theorem retry_delays_bounded_witness:
  "retry_delay_ms \<lparr>rp_lease_ms = 1000, rp_base_retry_delay_ms = 100, rp_max_retry_delay_ms = 5000, rp_max_attempts = 8\<rparr> 3
     \<le> retry_delay_ms \<lparr>rp_lease_ms = 1000, rp_base_retry_delay_ms = 100, rp_max_retry_delay_ms = 5000, rp_max_attempts = 8\<rparr> 9 \<and>
   unat (retry_delay_ms \<lparr>rp_lease_ms = 1000, rp_base_retry_delay_ms = 100, rp_max_retry_delay_ms = 5000, rp_max_attempts = 8\<rparr> 3) = 800"
proof -
  let ?p = "\<lparr>rp_lease_ms = 1000, rp_base_retry_delay_ms = 100, rp_max_retry_delay_ms = 5000, rp_max_attempts = 8\<rparr>"
  have "policy_validate ?p = Ok ?p" by (simp add: policy_validate_def)
  from retry_delays_bounded [OF this, of 3 9] show ?thesis by simp
qed

end
