(* ===== verification/Lease_Contract.thy ===== *)
theory Lease_Contract
  imports Storage_Types
begin

text \<open>
  What the durable queues in PostgreSQL share: the outcome of a statement that may fail before or after
  it took effect, the validation of a worker, and the contract of leases with fencing tokens as the
  locale \<open>lease_fencing\<close>. What a caller concludes from the contract is proved once here; the outbox
  (\<open>Outbox_Queue\<close>) and the cache repair queue (\<open>Cache_Repair\<close>) discharge it.

  A timestamp is its number of microseconds, the resolution of PostgreSQL. \<open>BIGINT\<close> columns are integers;
  the sequences and counters among them would need \<open>2 ^ 63\<close> operations to overflow.
\<close>

section \<open>Statements\<close>

type_synonym timestamp = nat

definition interval_ms :: "int \<Rightarrow> timestamp" where
  "interval_ms n = nat (n * 1000)"

text \<open>
  A statement succeeds, fails without effect, or takes effect while its answer is lost with the
  connection: the caller sees an error in both of the last cases.
\<close>

datatype pg_outcome = Executed | FailedBefore storage_error | FailedAfter storage_error

fun pg_call :: "pg_outcome \<Rightarrow> ('s \<Rightarrow> 's \<times> 'a) \<Rightarrow> 's \<Rightarrow> 's \<times> ('a, storage_error) result" where
  "pg_call Executed f s = (let (s', a) = f s in (s', Ok a))"
| "pg_call (FailedBefore e) f s = (s, Err e)"
| "pg_call (FailedAfter e) f s = (fst (f s), Err e)"

lemma pg_call_cases:
  obtains "fst (pg_call pg f s) = s" "\<exists>e. snd (pg_call pg f s) = Err e"
  | "fst (pg_call pg f s) = fst (f s)" "snd (pg_call pg f s) = Ok (snd (f s)) \<or> (\<exists>e. snd (pg_call pg f s) = Err e)"
  by (cases pg) (auto simp: case_prod_unfold Let_def)

lemma pg_call_Ok: "pg_call pg f s = (s', Ok a) \<Longrightarrow> f s = (s', a)"
  by (cases pg) (auto simp: case_prod_unfold Let_def)

lemma pg_call_state: "fst (pg_call pg f s) = s \<or> fst (pg_call pg f s) = fst (f s)"
  by (cases pg) (auto simp: case_prod_unfold Let_def)

lemma try_map_member: "try_map f xs = Ok ys \<Longrightarrow> y \<in> set ys \<Longrightarrow> \<exists>x\<in>set xs. f x = Ok y"
  by (induction xs arbitrary: ys) (auto simp: and_then_Ok_iff)

text \<open>\<open>UPDATE ... WHERE\<close> with the number of the rows it changed.\<close>

definition update_where :: "('r \<Rightarrow> bool) \<Rightarrow> ('r \<Rightarrow> 'r) \<Rightarrow> 'r list \<Rightarrow> 'r list \<times> nat" where
  "update_where P f rows = (map (\<lambda>r. if P r then f r else r) rows, length (filter P rows))"

definition validate_worker :: "string \<Rightarrow> u64 \<Rightarrow> (unit, storage_error) result" where
  "validate_worker worker_id lease_ms =
     (if blank worker_id then Err InvalidQueueWorker
      else if lease_ms = 0 then Err InvalidQueueLease
      else Ok ())"

text \<open>
  \<open>error.chars().take(MAX_ERROR_CHARS)\<close>: strings are UTF-8, so a character ends before the next byte that
  is not a continuation byte.
\<close>

definition MAX_ERROR_CHARS :: nat where "MAX_ERROR_CHARS = 1024"

definition continuation_byte :: "char \<Rightarrow> bool" where
  "continuation_byte c \<longleftrightarrow> (of_char c :: nat) div 64 = 2"

fun take_chars :: "nat \<Rightarrow> string \<Rightarrow> string" where
  "take_chars n [] = []"
| "take_chars 0 (c # cs) = []"
| "take_chars (Suc n) (c # cs) =
     c # takeWhile continuation_byte cs @ take_chars n (dropWhile continuation_byte cs)"

definition bounded_error :: "string \<Rightarrow> string" where
  "bounded_error error = take_chars MAX_ERROR_CHARS error"

definition i64_try_from :: "u64 \<Rightarrow> storage_error \<Rightarrow> (int, storage_error) result" where
  "i64_try_from n e = (if uint n < 2 ^ 63 then Ok (uint n) else Err e)"

definition u64_try_from :: "int \<Rightarrow> storage_error \<Rightarrow> (u64, storage_error) result" where
  "u64_try_from n e = (if 0 \<le> n then Ok (of_int n) else Err e)"

section \<open>Positions in a run\<close>

lemma run_nth:
  assumes "run f s qs = (s', rs)" and "j < length qs"
  shows "rs ! j = snd (f (fst (run f s (take j qs))) (qs ! j))"
proof -
  have q: "qs = take j qs @ qs ! j # drop (Suc j) qs" using assms(2) by (rule id_take_nth_drop)
  have "snd (run f s (take j qs @ qs ! j # drop (Suc j) qs)) ! j = snd (f (fst (run f s (take j qs))) (qs ! j))"
    using run_length [of f s "take j qs"] assms(2) by (simp add: run_append case_prod_unfold Let_def nth_append)
  then show ?thesis using q assms(1) by (metis snd_conv)
qed

lemma run_take_Suc:
  "j < length qs \<Longrightarrow> fst (run f s (take (Suc j) qs)) = fst (f (fst (run f s (take j qs))) (qs ! j))"
  by (simp add: take_Suc_conv_app_nth run_append case_prod_unfold Let_def)

lemma run_take_later:
  assumes "i \<le> j"
  obtains qs' where "fst (run f s (take j qs)) = fst (run f (fst (run f s (take i qs))) qs')"
proof -
  have "take j qs = take i qs @ drop i (take j qs)"
    using append_take_drop_id [of i "take j qs"] assms by (simp add: min.absorb1)
  then have "fst (run f s (take j qs)) = fst (run f (fst (run f s (take i qs))) (drop i (take j qs)))"
    by (metis (no_types, lifting) run_append case_prod_unfold fst_conv)
  then show ?thesis using that by blast
qed

section \<open>The contract of fenced leases\<close>

text \<open>
  \<open>granted\<close> are the leases a step hands out, \<open>settled\<close> the lease whose holder a step lets finish,
  \<open>live s l\<close> says that the table still carries the lease and \<open>issued s l\<close> that its token is not a
  future one.
\<close>

locale lease_fencing =
  fixes step :: "'s \<Rightarrow> 'q \<Rightarrow> 's \<times> 'r"
    and invariant :: "'s \<Rightarrow> bool"
    and live :: "'s \<Rightarrow> 'l \<Rightarrow> bool"
    and issued :: "'s \<Rightarrow> 'l \<Rightarrow> bool"
    and granted :: "'r \<Rightarrow> 'l set"
    and settled :: "'q \<Rightarrow> 'r \<Rightarrow> 'l option"
    and item :: "'l \<Rightarrow> 'k"
  assumes invariant_step: "invariant s \<Longrightarrow> invariant (fst (step s q))"
    and issued_step: "invariant s \<Longrightarrow> issued s l \<Longrightarrow> issued (fst (step s q)) l"
    and dead_stays_dead: "invariant s \<Longrightarrow> issued s l \<Longrightarrow> \<not> live s l \<Longrightarrow> \<not> live (fst (step s q)) l"
    and granted_live: "invariant s \<Longrightarrow> l \<in> granted (snd (step s q)) \<Longrightarrow> live (fst (step s q)) l"
    and granted_issued: "invariant s \<Longrightarrow> l \<in> granted (snd (step s q)) \<Longrightarrow> issued (fst (step s q)) l"
    and granted_fresh: "invariant s \<Longrightarrow> l \<in> granted (snd (step s q)) \<Longrightarrow> \<not> issued s l"
    and live_unique: "invariant s \<Longrightarrow> live s l \<Longrightarrow> live s l' \<Longrightarrow> item l = item l' \<Longrightarrow> l = l'"
    and settled_live: "invariant s \<Longrightarrow> settled q (snd (step s q)) = Some l \<Longrightarrow> live s l \<and> \<not> live (fst (step s q)) l"
begin

lemma run_keeps:
  assumes "invariant s" and "issued s l"
  shows "invariant (fst (run step s qs)) \<and> issued (fst (run step s qs)) l \<and>
    (\<not> live s l \<longrightarrow> \<not> live (fst (run step s qs)) l)"
  using assms
proof (induction qs arbitrary: s)
  case (Cons q qs)
  then show ?case
    using invariant_step [OF Cons.prems(1)] issued_step [OF Cons.prems] dead_stays_dead [OF Cons.prems, of q]
    by (auto simp: case_prod_unfold Let_def)
qed simp

lemma live_backwards:
  assumes "invariant s" and "issued s l" and "live (fst (run step s qs)) l"
  shows "live s l"
  using run_keeps [OF assms(1,2)] assms(3) by blast

lemma settled_needs_live:
  assumes "invariant s" and "issued s l" and "run step s qs = (s', rs)" and "j < length qs"
    and "settled (qs ! j) (rs ! j) = Some l"
  shows "live s l"
  using assms
proof (induction qs arbitrary: s rs j)
  case (Cons q qs)
  obtain s1 r where q: "step s q = (s1, r)" by fastforce
  obtain rs' where qs: "run step s1 qs = (s', rs')" and rs: "rs = r # rs'"
    using Cons.prems(3) q by (auto split: prod.splits)
  show ?case
  proof (cases j)
    case 0
    then show ?thesis using settled_live [OF Cons.prems(1), of q l] Cons.prems(5) q rs by simp
  next
    case (Suc i)
    have "live s1 l"
      using Cons.IH [OF _ _ qs, of i] invariant_step [OF Cons.prems(1), of q] issued_step [OF Cons.prems(1,2), of q]
        Cons.prems(4,5) q rs Suc by simp
    then show ?thesis using dead_stays_dead [OF Cons.prems(1,2), of q] q by auto
  qed
qed simp

text \<open>Between the grant of a lease and its settlement nobody else holds or settles its item.\<close>

lemma settled_exclusive:
  assumes "invariant s" and "issued s l" and "run step s qs = (s', rs)" and "m < j" and "j < length qs"
    and "settled (qs ! j) (rs ! j) = Some l"
  shows "(\<forall>l'\<in>granted (rs ! m). item l' \<noteq> item l) \<and>
    (\<forall>l'. settled (qs ! m) (rs ! m) = Some l' \<longrightarrow> item l' \<noteq> item l)"
  using assms
proof (induction qs arbitrary: s rs m j)
  case (Cons q qs)
  obtain s1 r where q: "step s q = (s1, r)" by fastforce
  obtain rs' where qs: "run step s1 qs = (s', rs')" and rs: "rs = r # rs'"
    using Cons.prems(3) q by (auto split: prod.splits)
  obtain i where j: "j = Suc i" using Cons.prems(4) by (cases j) auto
  have s1: "invariant s1" "issued s1 l"
    using invariant_step [OF Cons.prems(1), of q] issued_step [OF Cons.prems(1,2), of q] q by simp_all
  have at: "i < length qs" "settled (qs ! i) (rs' ! i) = Some l" using Cons.prems(5,6) by (simp_all add: j rs)
  show ?case
  proof (cases m)
    case 0
    have l1: "live s1 l" using settled_needs_live [OF s1 qs at] .
    have l0: "live s l" using dead_stays_dead [OF Cons.prems(1,2), of q] l1 q by auto
    have "item l' \<noteq> item l" if "l' \<in> granted r" for l'
      using granted_live [OF Cons.prems(1), of l' q] granted_fresh [OF Cons.prems(1), of l' q]
        live_unique [OF s1(1) l1, of l'] Cons.prems(2) q that by force
    moreover have "item l' \<noteq> item l" if "settled q r = Some l'" for l'
      using settled_live [OF Cons.prems(1), of q l'] live_unique [OF Cons.prems(1) l0, of l'] l1 q that by force
    ultimately show ?thesis by (simp add: 0 rs)
  next
    case (Suc k)
    then show ?thesis using Cons.IH [OF s1 qs _ at, of k] Cons.prems(4) by (simp add: rs j)
  qed
qed simp

theorem exclusive_until_settled:
  assumes "invariant s" and "run step s qs = (s', rs)" and "i < m" and "m < j" and "j < length qs"
    and "l \<in> granted (rs ! i)" and "settled (qs ! j) (rs ! j) = Some l"
  shows "(\<forall>l'\<in>granted (rs ! m). item l' \<noteq> item l) \<and>
    (\<forall>l'. settled (qs ! m) (rs ! m) = Some l' \<longrightarrow> item l' \<noteq> item l)"
  using assms
proof (induction qs arbitrary: s rs i m j)
  case (Cons q qs)
  obtain s1 r where q: "step s q = (s1, r)" by fastforce
  obtain rs' where qs: "run step s1 qs = (s', rs')" and rs: "rs = r # rs'"
    using Cons.prems(2) q by (auto split: prod.splits)
  obtain m' j' where j: "j = Suc j'" and m: "m = Suc m'" using Cons.prems(3,4) by (cases j; cases m) auto
  have s1: "invariant s1" using invariant_step [OF Cons.prems(1), of q] q by simp
  show ?case
  proof (cases i)
    case 0
    then have "issued s1 l" using granted_issued [OF Cons.prems(1), of l q] Cons.prems(6) q rs by simp
    then show ?thesis
      using settled_exclusive [OF s1 _ qs, of l m' j'] Cons.prems(4,5,7) by (simp add: rs j m)
  next
    case (Suc k)
    then show ?thesis
      using Cons.IH [OF s1 qs, of k m' j'] Cons.prems(3-7) by (simp add: rs j m)
  qed
qed simp

text \<open>A lease is settled at most once.\<close>

theorem settled_at_most_once:
  assumes "invariant s" and "run step s qs = (s', rs)" and "i < m" and "m < j" and "j < length qs"
    and "l \<in> granted (rs ! i)" and "settled (qs ! m) (rs ! m) = Some l"
  shows "settled (qs ! j) (rs ! j) \<noteq> Some l"
  using exclusive_until_settled [OF assms(1-6)] assms(7) by blast

end

end
