(* ===== verification/Outbox_Queue.thy ===== *)
theory Outbox_Queue
  imports Lease_Contract Relay_Core Cache_Policy
begin

text \<open>
  The transactional outbox in PostgreSQL: \<open>outbox.rs\<close>, \<open>outbox_claim.sql\<close>, \<open>outbox_admin.rs\<close>,
  \<open>relay.rs\<close> and the event part of \<open>commit.rs\<close> in \<open>crates/dbproxy-storage/src\<close>. The tables are lists of
  rows; a statement is a function on them. Its clocks (\<open>statement_timestamp\<close> and \<open>clock_timestamp\<close>,
  read once) and the rows that other transactions hold locked at that moment are arguments, so the
  properties hold for every schedule of the workers.
\<close>

section \<open>Tables\<close>

record outbox_row =
  ob_event_id :: string
  ob_operation_id :: string
  ob_trade_id :: "string option"
  ob_topic :: string
  ob_partition_key :: string
  ob_payload :: bytes
  ob_occurred_at :: int
  ob_producer :: string
  ob_publisher_id :: string
  ob_destination :: string
  ob_enqueue_order :: nat
  ob_available_at :: timestamp
  ob_attempt_count :: int
  ob_lease_owner :: "string option"
  ob_lease_until :: "timestamp option"
  ob_lease_token :: int
  ob_expired_leases :: int
  ob_last_error :: "string option"
  ob_published_at :: "timestamp option"
  ob_dead_lettered_at :: "timestamp option"

record outbox_route =
  or_producer :: string
  or_version :: u32
  or_publisher :: string
  or_destination :: string

record outbox_audit =
  oa_event_id :: string
  oa_operator :: string
  oa_reason :: string
  oa_prior_attempts :: int
  oa_prior_error :: "string option"

record outbox_db =
  od_rows :: "outbox_row list"
  od_routes :: "(string \<times> outbox_route) list"
  od_publishers :: "(string \<times> string) list"
  od_audit :: "outbox_audit list"

record outbox_lease =
  ol_event :: outbox_event
  ol_operation_id :: string
  ol_trade_id :: string
  ol_attempt_count :: u64
  ol_producer :: string
  ol_publisher_id :: string
  ol_destination :: string
  ol_lease_token :: int
  ol_lease_owner :: string

section \<open>Routes\<close>

definition route_key :: "outbox_route \<Rightarrow> string" where
  "route_key route = RELAY_TOPIC_PREFIX @ or_producer route @ ''.'' @ decimal (unat (or_version route))"

definition valid_route_id :: "string \<Rightarrow> bool" where
  "valid_route_id i \<longleftrightarrow> i \<noteq> [] \<and> length i \<le> 64 \<and> i \<noteq> ''legacy'' \<and>
     list_all (\<lambda>b. is_ascii_alphanumeric b \<or> b \<in> set ''_-'') i"

definition register_publisher :: "string \<Rightarrow> string \<Rightarrow> outbox_db \<Rightarrow> outbox_db \<times> (unit, storage_error) result" where
  "register_publisher i fingerprint db =
     (let publishers = (if map_of (od_publishers db) i = None
                        then od_publishers db @ [(i, fingerprint)] else od_publishers db)
      in if map_of publishers i \<noteq> Some fingerprint
         then (db, Err (QueueProtocol ''publisher endpoint changed; use a new publisher ID''))
         else (db\<lparr>od_publishers := publishers\<rparr>, Ok ()))"

definition route_refused :: "outbox_route \<Rightarrow> bool" where
  "route_refused route \<longleftrightarrow>
     \<not> valid_route_id (or_producer route) \<or> \<not> valid_route_id (or_publisher route) \<or>
     or_version route = 0 \<or> blank (or_destination route) \<or> length (or_destination route) > 256 \<or>
     has_control (or_destination route) \<or> prefix ''dbproxy:outbox:'' (or_destination route)"

definition register_route :: "outbox_route \<Rightarrow> outbox_db \<Rightarrow> outbox_db \<times> (unit, storage_error) result" where
  "register_route route db =
     (if route_refused route
      then (db, Err (QueueProtocol ''invalid or reserved outbox route''))
      else let k = route_key route;
               routes = (if map_of (od_routes db) k = None then od_routes db @ [(k, route)] else od_routes db)
           in case map_of routes k of
                None \<Rightarrow> (db, Err (QueueProtocol ''outbox route changed; increment its version''))
              | Some row \<Rightarrow>
                  if or_publisher row \<noteq> or_publisher route \<or> or_destination row \<noteq> or_destination route
                  then (db, Err (QueueProtocol ''outbox route changed; increment its version''))
                  else (db\<lparr>od_routes := routes\<rparr>, Ok ()))"

definition ensure_unregistered_routes :: "string list \<Rightarrow> outbox_db \<Rightarrow> (unit, storage_error) result" where
  "ensure_unregistered_routes ks db =
     (if ks = [] then Ok ()
      else if list_ex (\<lambda>(k, _). k \<in> set ks) (od_routes db)
      then Err (QueueProtocol ''cannot disable an existing route through a future declaration; route retirement requires an explicit migration'')
      else Ok ())"

definition required_publishers :: "outbox_db \<Rightarrow> string set" where
  "required_publishers db =
     or_publisher ` snd ` set (od_routes db) \<union>
     ob_publisher_id ` set (filter (\<lambda>r. ob_published_at r = None) (od_rows db))"

section \<open>Insertion\<close>

text \<open>
  The trigger \<open>dbproxy_resolve_outbox_route\<close>: producer, publisher and destination of a new row, or an
  exception.
\<close>

definition resolve_outbox_route :: "(string \<times> outbox_route) list \<Rightarrow> string \<Rightarrow> (string \<times> string \<times> string) option" where
  "resolve_outbox_route routes topic =
     (if prefix ''dbproxy.relay.v1.'' topic
      then map_option (\<lambda>r. (or_producer r, or_publisher r, or_destination r)) (map_of routes topic)
      else Some (''legacy'', ''legacy'', ''dbproxy:outbox:'' @ topic))"

text \<open>
  \<open>lock_partitions\<close>: the advisory locks a transaction takes before it inserts its events, in order.
  The scope of a relay event is its resolved destination, that of another event its topic.
\<close>

definition lock_scope :: "json_codec \<Rightarrow> (string \<times> outbox_route) list \<Rightarrow> outbox_event \<Rightarrow> (string, storage_error) result" where
  "lock_scope c routes event =
     and_then (map_err StorageCore (from_outbox c event)) (\<lambda>envelope.
       if envelope \<noteq> None
       then and_then (ok_or (StorageCore (InvalidOutboxEvent ''unknown outbox source or route version''))
                        (map_of routes (oe_topic event)))
              (\<lambda>row. Ok (advisory_lock_key ''relay-destination'' [or_publisher row, or_destination row]))
       else Ok (oe_topic event))"

definition lock_partitions :: "json_codec \<Rightarrow> (string \<times> outbox_route) list \<Rightarrow> outbox_event list \<Rightarrow> (string list, storage_error) result" where
  "lock_partitions c routes events =
     and_then (try_map (\<lambda>event. and_then (lock_scope c routes event)
                 (\<lambda>route. Ok (route, oe_partition_key event))) events) (\<lambda>pairs.
       Ok (map (\<lambda>(scope, partition). advisory_lock_key ''outbox-partition'' [scope, partition])
             (sorted_list_of_set (set pairs))))"

text \<open>
  One insertion of \<open>persist\<close>: \<open>ON CONFLICT DO NOTHING\<close> turned into an error. The sequence behind
  \<open>enqueue_order\<close> gives \<open>order\<close>.
\<close>

definition outbox_insert :: "nat \<Rightarrow> timestamp \<Rightarrow> string \<Rightarrow> string option \<Rightarrow> outbox_event \<Rightarrow> outbox_db \<Rightarrow>
    outbox_db \<times> (unit, storage_error) result" where
  "outbox_insert order now operation_id trade_id event db =
     (if unat (oe_occurred_at_unix_ms event) \<ge> 2 ^ 63
      then (db, Err (PersistenceProtocol ''event timestamp exceeds i64''))
      else case resolve_outbox_route (od_routes db) (oe_topic event) of
        None \<Rightarrow> (db, Err (Postgres (Some ''P0001'')))
      | Some (producer, publisher, destination) \<Rightarrow>
          if list_ex (\<lambda>r. ob_event_id r = oe_event_id event) (od_rows db)
          then (db, Err (StorageCore (OutboxEventConflict (oe_event_id event))))
          else (db\<lparr>od_rows := od_rows db @
            [\<lparr>ob_event_id = oe_event_id event, ob_operation_id = operation_id, ob_trade_id = trade_id,
              ob_topic = oe_topic event, ob_partition_key = oe_partition_key event,
              ob_payload = oe_payload event, ob_occurred_at = uint (oe_occurred_at_unix_ms event),
              ob_producer = producer, ob_publisher_id = publisher, ob_destination = destination,
              ob_enqueue_order = order, ob_available_at = now, ob_attempt_count = 0,
              ob_lease_owner = None, ob_lease_until = None, ob_lease_token = 0, ob_expired_leases = 0,
              ob_last_error = None, ob_published_at = None, ob_dead_lettered_at = None\<rparr>]\<rparr>, Ok ()))"

section \<open>The claim statement\<close>

definition sql_eligible :: "timestamp \<Rightarrow> timestamp \<Rightarrow> string option \<Rightarrow> outbox_row \<Rightarrow> bool" where
  "sql_eligible stmt now publisher r \<longleftrightarrow>
     ob_published_at r = None \<and> ob_dead_lettered_at r = None \<and> ob_available_at r \<le> stmt \<and>
     (case publisher of None \<Rightarrow> True | Some p \<Rightarrow> ob_publisher_id r = p) \<and>
     (case ob_lease_until r of None \<Rightarrow> True | Some t \<Rightarrow> t \<le> now)"

definition outbox_group :: "outbox_row \<Rightarrow> string \<times> string \<times> string" where
  "outbox_group r = (ob_publisher_id r, ob_destination r, ob_partition_key r)"

definition sql_shortlist :: "timestamp \<Rightarrow> timestamp \<Rightarrow> string option \<Rightarrow> nat \<Rightarrow> outbox_row list \<Rightarrow> string list" where
  "sql_shortlist stmt now publisher maximum rows =
     map ob_event_id (take (max 32 maximum)
       (filter (sql_eligible stmt now publisher) (sort_key ob_enqueue_order rows)))"

definition sql_has_prior :: "outbox_row list \<Rightarrow> outbox_row \<Rightarrow> bool" where
  "sql_has_prior rows r \<longleftrightarrow>
     list_ex (\<lambda>p. outbox_group p = outbox_group r \<and> ob_published_at p = None \<and>
       ob_enqueue_order p < ob_enqueue_order r) rows"

definition sql_fast :: "timestamp \<Rightarrow> timestamp \<Rightarrow> (string \<Rightarrow> bool) \<Rightarrow> string option \<Rightarrow> nat \<Rightarrow> outbox_row list \<Rightarrow> outbox_row list" where
  "sql_fast stmt now locked publisher maximum rows =
     take maximum (filter (\<lambda>r. ob_event_id r \<in> set (sql_shortlist stmt now publisher maximum rows) \<and>
         sql_eligible stmt now publisher r \<and> \<not> sql_has_prior rows r \<and> \<not> locked (ob_event_id r))
       (sort_key ob_enqueue_order rows))"

text \<open>The grouped subquery: the least order among the unpublished rows of the group, if any.\<close>

definition sql_group_min :: "string option \<Rightarrow> outbox_row list \<Rightarrow> string \<times> string \<times> string \<Rightarrow> nat option" where
  "sql_group_min publisher rows g =
     (case map ob_enqueue_order (filter (\<lambda>p. outbox_group p = g \<and> ob_published_at p = None \<and>
             (case publisher of None \<Rightarrow> True | Some i \<Rightarrow> ob_publisher_id p = i)) rows) of
        [] \<Rightarrow> None
      | n # ns \<Rightarrow> Some (fold min ns n))"

definition sql_fallback :: "timestamp \<Rightarrow> timestamp \<Rightarrow> (string \<Rightarrow> bool) \<Rightarrow> string option \<Rightarrow> nat \<Rightarrow> outbox_row list \<Rightarrow> outbox_row list" where
  "sql_fallback stmt now locked publisher maximum rows =
     take maximum (filter (\<lambda>r. sql_eligible stmt now publisher r \<and>
         sql_fast stmt now locked publisher maximum rows = [] \<and>
         sql_shortlist stmt now publisher maximum rows \<noteq> [] \<and>
         \<not> (case sql_group_min publisher rows (outbox_group r) of
              None \<Rightarrow> False | Some n \<Rightarrow> n < ob_enqueue_order r) \<and>
         \<not> locked (ob_event_id r))
       (sort_key ob_enqueue_order rows))"

definition lease_row :: "string \<Rightarrow> int \<Rightarrow> timestamp \<Rightarrow> outbox_row \<Rightarrow> outbox_row" where
  "lease_row worker duration now r =
     r\<lparr>ob_lease_owner := Some worker, ob_lease_token := ob_lease_token r + 1,
       ob_expired_leases := ob_expired_leases r + (if ob_lease_until r \<noteq> None then 1 else 0),
       ob_lease_until := Some (now + interval_ms duration)\<rparr>"

definition sql_claim :: "string \<Rightarrow> int \<Rightarrow> string option \<Rightarrow> nat \<Rightarrow> timestamp \<Rightarrow> timestamp \<Rightarrow> (string \<Rightarrow> bool) \<Rightarrow>
    outbox_db \<Rightarrow> outbox_db \<times> outbox_row list" where
  "sql_claim worker duration publisher maximum stmt now locked db =
     (let rows = od_rows db;
          candidates = sql_fast stmt now locked publisher maximum rows @
            sql_fallback stmt now locked publisher maximum rows;
          chosen = map ob_event_id candidates
      in (db\<lparr>od_rows := fst (update_where (\<lambda>r. ob_event_id r \<in> set chosen) (lease_row worker duration now) rows)\<rparr>,
          map (lease_row worker duration now) candidates))"

section \<open>Queue operations\<close>

definition outbox_lease_of_row :: "string \<Rightarrow> outbox_row \<Rightarrow> (outbox_lease, storage_error) result" where
  "outbox_lease_of_row worker r =
     and_then (u64_try_from (ob_occurred_at r) (QueueProtocol ''outbox timestamp is negative'')) (\<lambda>occurred_at.
     and_then (u64_try_from (ob_attempt_count r) (QueueProtocol ''outbox attempt count is negative'')) (\<lambda>attempt_count.
       Ok \<lparr>ol_event = \<lparr>oe_event_id = ob_event_id r, oe_topic = ob_topic r, oe_partition_key = ob_partition_key r,
             oe_payload = ob_payload r, oe_occurred_at_unix_ms = occurred_at\<rparr>,
           ol_operation_id = ob_operation_id r,
           ol_trade_id = (case ob_trade_id r of None \<Rightarrow> [] | Some t \<Rightarrow> t),
           ol_attempt_count = attempt_count, ol_producer = ob_producer r, ol_publisher_id = ob_publisher_id r,
           ol_destination = ob_destination r, ol_lease_token = ob_lease_token r, ol_lease_owner = worker\<rparr>))"

record db_call =
  dc_pg :: pg_outcome
  dc_stmt :: timestamp
  dc_now :: timestamp
  dc_locked :: "string \<Rightarrow> bool"

definition claim_batch_for_publisher :: "db_call \<Rightarrow> string \<Rightarrow> u64 \<Rightarrow> string option \<Rightarrow> nat \<Rightarrow> outbox_db \<Rightarrow>
    outbox_db \<times> (outbox_lease list, storage_error) result" where
  "claim_batch_for_publisher call worker duration publisher maximum db =
     (case and_then (validate_worker worker duration) (\<lambda>_.
            and_then (ensure (1 \<le> maximum \<and> maximum \<le> 64)
              (QueueProtocol ''outbox claim batch must contain 1..=64 items'')) (\<lambda>_.
              i64_try_from duration (QueueProtocol ''lease duration is too large''))) of
        Err e \<Rightarrow> (db, Err e)
      | Ok ms \<Rightarrow>
          let (db', r) = pg_call (dc_pg call)
                (sql_claim worker ms publisher maximum (dc_stmt call) (dc_now call) (dc_locked call)) db
          in (db', and_then r (try_map (outbox_lease_of_row worker))))"

definition claim_for_publisher :: "db_call \<Rightarrow> string \<Rightarrow> u64 \<Rightarrow> string option \<Rightarrow> outbox_db \<Rightarrow>
    outbox_db \<times> (outbox_lease option, storage_error) result" where
  "claim_for_publisher call worker duration publisher db =
     (let (db', r) = claim_batch_for_publisher call worker duration publisher 1 db
      in (db', and_then r (\<lambda>ls. Ok (if ls = [] then None else Some (last ls)))))"

definition outbox_claim :: "db_call \<Rightarrow> string \<Rightarrow> u64 \<Rightarrow> outbox_db \<Rightarrow> outbox_db \<times> (outbox_lease option, storage_error) result" where
  "outbox_claim call worker duration db = claim_for_publisher call worker duration None db"

text \<open>The condition of both settling statements: the row still carries this lease, and it has time left.\<close>

definition sql_holds :: "timestamp \<Rightarrow> outbox_lease \<Rightarrow> outbox_row \<Rightarrow> bool" where
  "sql_holds now lease r \<longleftrightarrow>
     ob_event_id r = oe_event_id (ol_event lease) \<and> ob_lease_owner r = Some (ol_lease_owner lease) \<and>
     ob_published_at r = None \<and> ob_lease_token r = ol_lease_token lease \<and>
     (case ob_lease_until r of None \<Rightarrow> False | Some t \<Rightarrow> now < t)"

definition publish_row :: "timestamp \<Rightarrow> outbox_row \<Rightarrow> outbox_row" where
  "publish_row now r =
     r\<lparr>ob_published_at := Some now, ob_lease_owner := None, ob_lease_until := None, ob_last_error := None\<rparr>"

definition fail_row :: "timestamp \<Rightarrow> string \<Rightarrow> int \<Rightarrow> int \<Rightarrow> outbox_row \<Rightarrow> outbox_row" where
  "fail_row now error delay maximum r =
     r\<lparr>ob_attempt_count := ob_attempt_count r + 1, ob_last_error := Some error,
       ob_lease_owner := None, ob_lease_until := None,
       ob_available_at := (if ob_attempt_count r + 1 \<ge> maximum then ob_available_at r else now + interval_ms delay),
       ob_dead_lettered_at := (if ob_attempt_count r + 1 \<ge> maximum then Some now else None)\<rparr>"

definition sql_update :: "(outbox_row \<Rightarrow> bool) \<Rightarrow> (outbox_row \<Rightarrow> outbox_row) \<Rightarrow> outbox_db \<Rightarrow> outbox_db \<times> nat" where
  "sql_update P f db = (let (rows, n) = update_where P f (od_rows db) in (db\<lparr>od_rows := rows\<rparr>, n))"

definition outbox_acknowledge :: "db_call \<Rightarrow> outbox_lease \<Rightarrow> outbox_db \<Rightarrow> outbox_db \<times> (bool, storage_error) result" where
  "outbox_acknowledge call lease db =
     (let (db', r) = pg_call (dc_pg call) (sql_update (sql_holds (dc_now call) lease) (publish_row (dc_now call))) db
      in (db', and_then r (\<lambda>updated. Ok (updated = 1))))"

definition outbox_fail :: "db_call \<Rightarrow> outbox_lease \<Rightarrow> string \<Rightarrow> u64 \<Rightarrow> u32 \<Rightarrow> outbox_db \<Rightarrow>
    outbox_db \<times> (bool, storage_error) result" where
  "outbox_fail call lease error retry_delay max_attempts db =
     (if max_attempts = 0 then (db, Err (QueueProtocol ''maximum attempts must be greater than zero''))
      else case i64_try_from retry_delay (QueueProtocol ''retry delay is too large'') of
        Err e \<Rightarrow> (db, Err e)
      | Ok delay \<Rightarrow>
          let (db', r) = pg_call (dc_pg call) (sql_update (sql_holds (dc_now call) lease)
                (fail_row (dc_now call) (bounded_error error) delay (uint max_attempts))) db
          in (db', and_then r (\<lambda>updated. Ok (updated = 1))))"

section \<open>Administration\<close>

definition retry_text_ok :: "string \<Rightarrow> bool" where
  "retry_text_ok value \<longleftrightarrow> \<not> (blank value \<or> length value > 512 \<or> has_control value)"

definition sql_retry_dead :: "string \<Rightarrow> string \<Rightarrow> string \<Rightarrow> timestamp \<Rightarrow> outbox_db \<Rightarrow> outbox_db \<times> bool" where
  "sql_retry_dead event_id operator reason now db =
     (case find (\<lambda>r. ob_event_id r = event_id \<and> ob_published_at r = None \<and> ob_dead_lettered_at r \<noteq> None \<and>
             (case ob_lease_until r of None \<Rightarrow> True | Some t \<Rightarrow> t \<le> now)) (od_rows db) of
        None \<Rightarrow> (db, False)
      | Some row \<Rightarrow>
          (db\<lparr>od_audit := od_audit db @ [\<lparr>oa_event_id = event_id, oa_operator = operator, oa_reason = reason,
                 oa_prior_attempts = ob_attempt_count row, oa_prior_error = ob_last_error row\<rparr>],
              od_rows := fst (update_where (\<lambda>r. ob_event_id r = event_id)
                (\<lambda>r. r\<lparr>ob_attempt_count := 0, ob_available_at := now, ob_lease_owner := None, ob_lease_until := None,
                       ob_last_error := None, ob_dead_lettered_at := None, ob_lease_token := ob_lease_token r + 1\<rparr>)
                (od_rows db))\<rparr>, True))"

definition retry_dead_letter :: "db_call \<Rightarrow> string \<Rightarrow> string \<Rightarrow> string \<Rightarrow> outbox_db \<Rightarrow> outbox_db \<times> (bool, storage_error) result" where
  "retry_dead_letter call event_id operator reason db =
     (if \<not> list_all retry_text_ok [event_id, operator, reason]
      then (db, Err (QueueProtocol ''invalid outbox retry ID, operator or reason''))
      else pg_call (dc_pg call) (sql_retry_dead event_id operator reason (dc_now call)) db)"

definition requeue_dead_letter :: "db_call \<Rightarrow> string \<Rightarrow> outbox_db \<Rightarrow> outbox_db \<times> (bool, storage_error) result" where
  "requeue_dead_letter call event_id db =
     retry_dead_letter call event_id ''legacy-api'' ''Explicit retry through the compatibility API'' db"

definition dead_letter_ids :: "outbox_db \<Rightarrow> string list" where
  "dead_letter_ids db =
     take 100 (map ob_event_id (sort_key (\<lambda>r. (the (ob_dead_lettered_at r), ob_event_id r))
       (filter (\<lambda>r. ob_dead_lettered_at r \<noteq> None) (od_rows db))))"

section \<open>Runs\<close>

text \<open>
  The calls of all workers, administrators and committing transactions, in the order in which the
  database executes their statements.
\<close>

datatype outbox_op =
    Insert nat timestamp string "string option" outbox_event
  | ClaimBatch db_call string u64 "string option" nat
  | Acknowledge db_call outbox_lease
  | FailLease db_call outbox_lease string u64 u32
  | RetryDead db_call string string string
  | RegisterRoute outbox_route

datatype outbox_reply =
    Done "(unit, storage_error) result"
  | Claimed "(outbox_lease list, storage_error) result"
  | Settled "(bool, storage_error) result"
  | Retried "(bool, storage_error) result"

fun outbox_step :: "outbox_db \<Rightarrow> outbox_op \<Rightarrow> outbox_db \<times> outbox_reply" where
  "outbox_step db (Insert order now operation_id trade_id event) =
     map_prod id Done (outbox_insert order now operation_id trade_id event db)"
| "outbox_step db (ClaimBatch call worker ms publisher maximum) =
     map_prod id Claimed (claim_batch_for_publisher call worker ms publisher maximum db)"
| "outbox_step db (Acknowledge call lease) = map_prod id Settled (outbox_acknowledge call lease db)"
| "outbox_step db (FailLease call lease error delay maximum) =
     map_prod id Settled (outbox_fail call lease error delay maximum db)"
| "outbox_step db (RetryDead call event_id operator reason) =
     map_prod id Retried (retry_dead_letter call event_id operator reason db)"
| "outbox_step db (RegisterRoute route) = map_prod id Done (register_route route db)"

definition outbox_new :: outbox_db where
  "outbox_new = \<lparr>od_rows = [], od_routes = [], od_publishers = [], od_audit = []\<rparr>"

subsection \<open>How rows change\<close>

text \<open>
  A row keeps its identity, its group and its place; what was published stays published; and it changes
  only by losing its lease or by getting a new token.
\<close>

definition row_evolves :: "outbox_row \<Rightarrow> outbox_row \<Rightarrow> bool" where
  "row_evolves r r' \<longleftrightarrow>
     ob_event_id r' = ob_event_id r \<and> outbox_group r' = outbox_group r \<and>
     ob_enqueue_order r' = ob_enqueue_order r \<and> ob_lease_token r \<le> ob_lease_token r' \<and>
     (ob_published_at r \<noteq> None \<longrightarrow> ob_published_at r' = ob_published_at r) \<and>
     (r' = r \<or> ob_lease_owner r' = None \<or> ob_lease_token r < ob_lease_token r')"

lemma row_evolves_refl [simp]: "row_evolves r r"
  by (simp add: row_evolves_def)

lemma lease_row_evolves: "row_evolves r (lease_row w ms now r)"
  by (simp add: row_evolves_def lease_row_def outbox_group_def)

lemma publish_row_evolves: "ob_published_at r = None \<Longrightarrow> row_evolves r (publish_row now r)"
  by (simp add: row_evolves_def publish_row_def outbox_group_def)

lemma fail_row_evolves: "row_evolves r (fail_row now e d m r)"
  by (simp add: row_evolves_def fail_row_def outbox_group_def)

definition rows_evolve :: "outbox_row list \<Rightarrow> outbox_row list \<Rightarrow> bool" where
  "rows_evolve rows rows' \<longleftrightarrow>
     (\<exists>f new. rows' = map f rows @ new \<and> (\<forall>r\<in>set rows. row_evolves r (f r)) \<and>
        (\<forall>n\<in>set new. ob_event_id n \<notin> ob_event_id ` set rows \<and> ob_lease_owner n = None \<and> ob_published_at n = None) \<and>
        distinct (map ob_event_id new))"

lemma rows_evolve_map: "(\<And>r. r \<in> set rows \<Longrightarrow> row_evolves r (f r)) \<Longrightarrow> rows_evolve rows (map f rows)"
  unfolding rows_evolve_def by (intro exI [of _ f] exI [of _ "[]"]) simp

lemma rows_evolve_refl: "rows_evolve rows rows"
  using rows_evolve_map [of rows id] by simp

lemma update_where_evolves:
  "(\<And>r. P r \<Longrightarrow> row_evolves r (f r)) \<Longrightarrow> rows_evolve rows (fst (update_where P f rows))"
  unfolding update_where_def by (simp add: rows_evolve_map)

lemma pg_call_evolves:
  "rows_evolve (od_rows db) (od_rows (fst (f db))) \<Longrightarrow> rows_evolve (od_rows db) (od_rows (fst (pg_call pg f db)))"
  using pg_call_state [of pg f db] rows_evolve_refl by (elim disjE) simp_all

lemma list_ex_key: "list_ex (\<lambda>r. f r = i) rows \<longleftrightarrow> i \<in> f ` set rows"
  by (auto simp: list_ex_iff)

lemma outbox_step_evolves: "rows_evolve (od_rows db) (od_rows (fst (outbox_step db op)))"
proof (cases op)
  case (Insert order now oid tid event)
  show ?thesis
  proof (cases "od_rows (fst (outbox_step db op)) = od_rows db")
    case True
    then show ?thesis by (simp add: rows_evolve_refl)
  next
    case False
    then obtain n where n: "od_rows (fst (outbox_step db op)) = od_rows db @ [n]" "ob_event_id n \<notin> ob_event_id ` set (od_rows db)"
      "ob_lease_owner n = None" "ob_published_at n = None"
      by (auto simp: Insert outbox_insert_def list_ex_key split: if_splits option.splits)
    then show ?thesis unfolding rows_evolve_def by (intro exI [of _ id] exI [of _ "[n]"]) simp
  qed
next
  case (ClaimBatch call w ms p m)
  have "rows_evolve (od_rows db) (od_rows (fst (sql_claim w k p m stmt now l db)))" for k stmt now l
    by (simp add: sql_claim_def Let_def update_where_evolves lease_row_evolves)
  then show ?thesis
    by (simp add: ClaimBatch claim_batch_for_publisher_def case_prod_unfold Let_def rows_evolve_refl pg_call_evolves
        split: result.splits)
next
  case (Acknowledge call l)
  have "rows_evolve (od_rows db) (od_rows (fst (sql_update (sql_holds now l) (publish_row now) db)))" for now
    by (auto simp: sql_update_def sql_holds_def case_prod_unfold Let_def intro!: update_where_evolves publish_row_evolves)
  then show ?thesis
    by (simp add: Acknowledge outbox_acknowledge_def case_prod_unfold Let_def pg_call_evolves)
next
  case (FailLease call l e d m)
  have "rows_evolve (od_rows db) (od_rows (fst (sql_update (sql_holds now l) (fail_row now e k j) db)))" for now e k j
    by (simp add: sql_update_def case_prod_unfold Let_def update_where_evolves fail_row_evolves)
  then show ?thesis
    by (simp add: FailLease outbox_fail_def case_prod_unfold Let_def rows_evolve_refl pg_call_evolves
        split: result.splits)
next
  case (RetryDead call i oper reason)
  have "rows_evolve (od_rows db) (od_rows (fst (sql_retry_dead i oper reason now db)))" for now
    by (auto simp: sql_retry_dead_def rows_evolve_refl row_evolves_def outbox_group_def
        intro!: update_where_evolves split: option.splits)
  then show ?thesis
    by (simp add: RetryDead retry_dead_letter_def rows_evolve_refl pg_call_evolves)
next
  case (RegisterRoute route)
  then show ?thesis by (auto simp: register_route_def Let_def rows_evolve_refl split: option.splits)
qed

definition outbox_ok :: "outbox_db \<Rightarrow> bool" where
  "outbox_ok db \<longleftrightarrow> distinct (map ob_event_id (od_rows db))"

lemma outbox_ok_new [simp]: "outbox_ok outbox_new"
  by (simp add: outbox_ok_def outbox_new_def)

lemma rows_evolve_ids:
  assumes "rows_evolve rows rows'" and "distinct (map ob_event_id rows)"
  shows "distinct (map ob_event_id rows')"
proof -
  obtain f new where f: "rows' = map f rows @ new" "\<forall>r\<in>set rows. row_evolves r (f r)"
    "\<forall>n\<in>set new. ob_event_id n \<notin> ob_event_id ` set rows" "distinct (map ob_event_id new)"
    using assms(1) unfolding rows_evolve_def by blast
  have "map ob_event_id (map f rows) = map ob_event_id rows" using f(2) by (simp add: row_evolves_def)
  then have d: "distinct (map ob_event_id (map f rows))" and e: "set (map ob_event_id (map f rows)) = ob_event_id ` set rows"
    using assms(2) by (metis, metis set_map)
  have "x \<notin> ob_event_id ` set rows" if "x \<in> ob_event_id ` set new" for x using that f(3) by (elim imageE) simp
  then have "set (map ob_event_id (map f rows)) \<inter> ob_event_id ` set new = {}" unfolding e by blast
  then show ?thesis using d f(1,4) by simp
qed

lemma outbox_ok_step: "outbox_ok db \<Longrightarrow> outbox_ok (fst (outbox_step db op))"
  unfolding outbox_ok_def by (rule rows_evolve_ids [OF outbox_step_evolves])

lemma rows_evolve_new:
  assumes "rows_evolve rows rows'" and "r' \<in> set rows'"
  obtains r where "r \<in> set rows" "row_evolves r r'"
  | "ob_lease_owner r' = None" "ob_published_at r' = None" "ob_event_id r' \<notin> ob_event_id ` set rows"
  using assms unfolding rows_evolve_def by fastforce

lemma rows_evolve_old:
  assumes "rows_evolve rows rows'" and "r \<in> set rows"
  obtains r' where "r' \<in> set rows'" "row_evolves r r'"
  using assms unfolding rows_evolve_def by fastforce

lemma same_event: "outbox_ok db \<Longrightarrow> r \<in> set (od_rows db) \<Longrightarrow> p \<in> set (od_rows db) \<Longrightarrow>
    ob_event_id r = ob_event_id p \<Longrightarrow> r = p"
  unfolding outbox_ok_def by (auto simp: distinct_map inj_on_def)

section \<open>Fencing\<close>

text \<open>The ticket of a lease: its event, its token and its owner.\<close>

type_synonym ticket = "string \<times> int \<times> string"

definition ticket :: "outbox_lease \<Rightarrow> ticket" where
  "ticket l = (oe_event_id (ol_event l), ol_lease_token l, ol_lease_owner l)"

definition holds_ticket :: "outbox_row \<Rightarrow> ticket \<Rightarrow> bool" where
  "holds_ticket r = (\<lambda>(i, t, w). ob_event_id r = i \<and> ob_lease_owner r = Some w \<and> ob_lease_token r = t \<and>
     ob_published_at r = None)"

definition outbox_live :: "outbox_db \<Rightarrow> ticket \<Rightarrow> bool" where
  "outbox_live db t \<longleftrightarrow> (\<exists>r\<in>set (od_rows db). holds_ticket r t)"

definition outbox_issued :: "outbox_db \<Rightarrow> ticket \<Rightarrow> bool" where
  "outbox_issued db = (\<lambda>(i, t, w). \<exists>r\<in>set (od_rows db). ob_event_id r = i \<and> t \<le> ob_lease_token r)"

fun leases_of :: "outbox_reply \<Rightarrow> outbox_lease list" where
  "leases_of (Claimed (Ok ls)) = ls"
| "leases_of _ = []"

definition granted_tickets :: "outbox_reply \<Rightarrow> ticket set" where
  "granted_tickets r = ticket ` set (leases_of r)"

fun settled_ticket :: "outbox_op \<Rightarrow> outbox_reply \<Rightarrow> ticket option" where
  "settled_ticket (Acknowledge call l) (Settled (Ok True)) = Some (ticket l)"
| "settled_ticket (FailLease call l e d m) (Settled (Ok True)) = Some (ticket l)"
| "settled_ticket _ _ = None"

lemma evolves_issued:
  assumes "rows_evolve (od_rows db) (od_rows db')" and "outbox_issued db t"
  shows "outbox_issued db' t"
proof -
  obtain i k w where t: "t = (i, k, w)" by (cases t)
  then obtain r where r: "r \<in> set (od_rows db)" "ob_event_id r = i" "k \<le> ob_lease_token r"
    using assms(2) by (auto simp: outbox_issued_def)
  obtain r' where "r' \<in> set (od_rows db')" "row_evolves r r'" using rows_evolve_old [OF assms(1) r(1)] .
  then show ?thesis using r by (force simp: outbox_issued_def t row_evolves_def)
qed

lemma evolves_holds:
  assumes ok: "outbox_ok db" and ev: "rows_evolve (od_rows db) (od_rows db')" and "outbox_issued db t"
    and r': "r' \<in> set (od_rows db')" "holds_ticket r' t"
  shows "r' \<in> set (od_rows db)"
proof -
  obtain i k w where t: "t = (i, k, w)" by (cases t)
  then obtain p where p: "p \<in> set (od_rows db)" "ob_event_id p = i" "k \<le> ob_lease_token p"
    using assms(3) by (auto simp: outbox_issued_def)
  show ?thesis
  proof (cases rule: rows_evolve_new [OF ev r'(1)])
    case (1 r)
    then have "r = p" using same_event [OF ok 1(1) p(1)] r'(2) p(2) by (simp add: holds_ticket_def t row_evolves_def)
    then have "r' = r" using 1(2) r'(2) p(3) by (auto simp: row_evolves_def holds_ticket_def t)
    then show ?thesis using 1(1) by simp
  next
    case 2
    then show ?thesis using r'(2) by (simp add: holds_ticket_def t)
  qed
qed

lemma evolves_dead:
  assumes "outbox_ok db" and "rows_evolve (od_rows db) (od_rows db')" and "outbox_issued db t" and "outbox_live db' t"
  shows "outbox_live db t"
  using assms(4) evolves_holds [OF assms(1-3)] by (auto simp: outbox_live_def)

lemma claim_batch_Ok:
  assumes "claim_batch_for_publisher call w ms p m db = (db', Ok ls)"
  obtains k where "i64_try_from ms (QueueProtocol ''lease duration is too large'') = Ok k" "1 \<le> m" "m \<le> 64"
    "fst (sql_claim w k p m (dc_stmt call) (dc_now call) (dc_locked call) db) = db'"
    "try_map (outbox_lease_of_row w) (snd (sql_claim w k p m (dc_stmt call) (dc_now call) (dc_locked call) db)) = Ok ls"
proof -
  obtain k where k: "i64_try_from ms (QueueProtocol ''lease duration is too large'') = Ok k" "1 \<le> m" "m \<le> 64"
    and c: "(let (db', r) = pg_call (dc_pg call) (sql_claim w k p m (dc_stmt call) (dc_now call) (dc_locked call)) db
       in (db', and_then r (try_map (outbox_lease_of_row w)))) = (db', Ok ls)"
    using assms unfolding claim_batch_for_publisher_def
    by (simp add: result_simps split: result.splits)
  obtain rows where "pg_call (dc_pg call) (sql_claim w k p m (dc_stmt call) (dc_now call) (dc_locked call)) db = (db', Ok rows)"
    and "try_map (outbox_lease_of_row w) rows = Ok ls"
    using c by (auto simp: and_then_Ok_iff Let_def split: prod.splits)
  from that [OF k] pg_call_Ok [OF this(1)] this(2) show ?thesis by simp
qed

text \<open>The rows the claim statement chooses: unpublished, without a live lease, at the head of their group.\<close>

lemma group_min_iff:
  "(case sql_group_min p rows (outbox_group r) of None \<Rightarrow> False | Some n \<Rightarrow> n < ob_enqueue_order r) \<longleftrightarrow>
     (\<exists>q\<in>set rows. outbox_group q = outbox_group r \<and> ob_published_at q = None \<and>
        (case p of None \<Rightarrow> True | Some i \<Rightarrow> ob_publisher_id q = i) \<and> ob_enqueue_order q < ob_enqueue_order r)"
proof -
  define os where "os = map ob_enqueue_order (filter (\<lambda>q. outbox_group q = outbox_group r \<and> ob_published_at q = None \<and>
             (case p of None \<Rightarrow> True | Some i \<Rightarrow> ob_publisher_id q = i)) rows)"
  have fold_less: "fold min ns n < k \<longleftrightarrow> (\<exists>x\<in>set (n # ns). x < k)" for ns and n k :: nat
    by (induction ns arbitrary: n) (auto simp: min_less_iff_disj)
  have "(case sql_group_min p rows (outbox_group r) of None \<Rightarrow> False | Some n \<Rightarrow> n < ob_enqueue_order r) \<longleftrightarrow>
      (\<exists>x\<in>set os. x < ob_enqueue_order r)"
    unfolding sql_group_min_def os_def [symmetric] by (cases os) (simp_all add: fold_less)
  then show ?thesis by (auto simp: os_def)
qed

lemma candidate_row:
  assumes "r \<in> set (sql_fast stmt now l p m rows) \<or> r \<in> set (sql_fallback stmt now l p m rows)"
  shows "r \<in> set rows \<and> sql_eligible stmt now p r \<and> \<not> sql_has_prior rows r \<and> \<not> l (ob_event_id r)"
  using assms
proof
  assume "r \<in> set (sql_fast stmt now l p m rows)"
  then show ?thesis unfolding sql_fast_def by (auto dest!: in_set_takeD)
next
  assume "r \<in> set (sql_fallback stmt now l p m rows)"
  then have a: "r \<in> set rows" "sql_eligible stmt now p r" "\<not> l (ob_event_id r)"
    and g: "\<not> (case sql_group_min p rows (outbox_group r) of None \<Rightarrow> False | Some n \<Rightarrow> n < ob_enqueue_order r)"
    unfolding sql_fallback_def by (auto dest!: in_set_takeD)
  have "case p of None \<Rightarrow> True | Some i \<Rightarrow> ob_publisher_id q = i" if "outbox_group q = outbox_group r" for q
    using a(2) that by (auto simp: sql_eligible_def outbox_group_def split: option.splits)
  then show ?thesis using a g unfolding group_min_iff by (auto simp: sql_has_prior_def list_ex_iff)
qed

lemma claimed_row:
  assumes ok: "outbox_ok db" and c: "claim_batch_for_publisher call w ms p m db = (db', Ok ls)" and l: "l \<in> set ls"
  obtains r k where "r \<in> set (od_rows db)" "sql_eligible (dc_stmt call) (dc_now call) p r" "\<not> sql_has_prior (od_rows db) r"
    "i64_try_from ms (QueueProtocol ''lease duration is too large'') = Ok k"
    "lease_row w k (dc_now call) r \<in> set (od_rows db')"
    "outbox_lease_of_row w (lease_row w k (dc_now call) r) = Ok l"
proof -
  obtain k where k: "i64_try_from ms (QueueProtocol ''lease duration is too large'') = Ok k"
    and s: "fst (sql_claim w k p m (dc_stmt call) (dc_now call) (dc_locked call) db) = db'"
    and t: "try_map (outbox_lease_of_row w) (snd (sql_claim w k p m (dc_stmt call) (dc_now call) (dc_locked call) db)) = Ok ls"
    by (rule claim_batch_Ok [OF c]) blast
  obtain q where q: "q \<in> set (snd (sql_claim w k p m (dc_stmt call) (dc_now call) (dc_locked call) db))" "outbox_lease_of_row w q = Ok l"
    using try_map_member [OF t l] by blast
  then obtain r where r: "q = lease_row w k (dc_now call) r"
    "r \<in> set (sql_fast (dc_stmt call) (dc_now call) (dc_locked call) p m (od_rows db)) \<or>
     r \<in> set (sql_fallback (dc_stmt call) (dc_now call) (dc_locked call) p m (od_rows db))"
    by (auto simp: sql_claim_def Let_def)
  note cr = candidate_row [OF r(2)]
  have "lease_row w k (dc_now call) r \<in> set (od_rows db')"
    unfolding s [symmetric] using cr r(2) by (auto simp: sql_claim_def Let_def update_where_def image_iff)
  then show ?thesis using that [OF _ _ _ k] cr q r(1) by blast
qed

lemma lease_of_row_fields:
  assumes "outbox_lease_of_row w r = Ok l"
  shows "ticket l = (ob_event_id r, ob_lease_token r, w)" and "0 \<le> ob_attempt_count r"
    and "ol_attempt_count l = of_int (ob_attempt_count r)"
    and "(ol_publisher_id l, ol_destination l, oe_partition_key (ol_event l)) = outbox_group r"
  using assms
  by (auto simp: outbox_lease_of_row_def and_then_Ok_iff u64_try_from_def ticket_def outbox_group_def split: if_splits)

lemma lease_row_simps [simp]:
  "ob_event_id (lease_row w k now r) = ob_event_id r" "outbox_group (lease_row w k now r) = outbox_group r"
  "ob_lease_token (lease_row w k now r) = ob_lease_token r + 1" "ob_lease_owner (lease_row w k now r) = Some w"
  "ob_published_at (lease_row w k now r) = ob_published_at r" "ob_attempt_count (lease_row w k now r) = ob_attempt_count r"
  "ob_lease_until (lease_row w k now r) = Some (now + interval_ms k)"
  by (simp_all add: lease_row_def outbox_group_def)

lemma granted_reply:
  assumes "outbox_ok db" and "t \<in> granted_tickets (snd (outbox_step db op))"
  obtains r k now where "r \<in> set (od_rows db)" "ob_published_at r = None"
    "lease_row (snd (snd t)) k now r \<in> set (od_rows (fst (outbox_step db op)))" "fst t = ob_event_id r" "fst (snd t) = ob_lease_token r + 1"
proof -
  obtain call w ms p m ls l where op: "op = ClaimBatch call w ms p m" and l: "l \<in> set ls" "t = ticket l"
    and c: "snd (claim_batch_for_publisher call w ms p m db) = Ok ls"
    using assms(2) by (cases op; cases "snd (outbox_step db op)" rule: leases_of.cases)
      (auto simp: granted_tickets_def map_prod_def case_prod_unfold)
  have c: "claim_batch_for_publisher call w ms p m db = (fst (outbox_step db op), Ok ls)"
    using c by (simp add: op prod_eq_iff)
  obtain r k where "r \<in> set (od_rows db)" "sql_eligible (dc_stmt call) (dc_now call) p r"
    "lease_row w k (dc_now call) r \<in> set (od_rows (fst (outbox_step db op)))"
    "outbox_lease_of_row w (lease_row w k (dc_now call) r) = Ok l"
    by (rule claimed_row [OF assms(1) c l(1)])
  then show ?thesis
    using that [of r k "dc_now call"] lease_of_row_fields(1) l(2) by (auto simp: sql_eligible_def)
qed

lemma settle_count:
  assumes "sql_update P f db = (db', Suc 0)"
  obtains r where "r \<in> set (od_rows db)" "P r" "f r \<in> set (od_rows db')" "\<And>q. q \<in> set (od_rows db) \<Longrightarrow> P q \<Longrightarrow> q = r"
proof -
  have n: "length (filter P (od_rows db)) = Suc 0" and d: "od_rows db' = map (\<lambda>r. if P r then f r else r) (od_rows db)"
    using assms by (auto simp: sql_update_def update_where_def)
  then obtain r where f: "filter P (od_rows db) = [r]" by (auto simp: length_Suc_conv)
  then have r: "r \<in> set (od_rows db)" "P r" by (auto simp: filter_eq_Cons_iff)
  have "q = r" if "q \<in> set (od_rows db)" "P q" for q
  proof -
    have "q \<in> set (filter P (od_rows db))" using that by simp
    then show ?thesis unfolding f by simp
  qed
  moreover have "f r \<in> set (od_rows db')" using r d by force
  ultimately show ?thesis using that r by blast
qed

lemma settle_live:
  assumes ok: "outbox_ok db" and u: "sql_update (sql_holds now l) f db = (db', Suc 0)"
    and f: "\<And>r. ob_lease_owner (f r) = None"
  shows "outbox_live db (ticket l) \<and> \<not> outbox_live db' (ticket l)"
proof -
  obtain r where r: "r \<in> set (od_rows db)" "sql_holds now l r"
    by (rule settle_count [OF u])
  have d: "od_rows db' = map (\<lambda>r. if sql_holds now l r then f r else r) (od_rows db)"
    using u by (auto simp: sql_update_def update_where_def)
  have "\<not> holds_ticket r' (ticket l)" if r': "r' \<in> set (od_rows db')" for r'
  proof -
    obtain q where q: "q \<in> set (od_rows db)" "r' = (if sql_holds now l q then f q else q)" using r' d by auto
    show ?thesis
    proof (cases "sql_holds now l q")
      case True
      then show ?thesis using q(2) f by (simp add: holds_ticket_def ticket_def)
    next
      case False
      then have "ob_event_id q \<noteq> ob_event_id r" using same_event [OF ok q(1) r(1)] r(2) by auto
      then show ?thesis using q(2) False r(2) by (simp add: holds_ticket_def ticket_def sql_holds_def)
    qed
  qed
  then show ?thesis using r by (auto simp: outbox_live_def holds_ticket_def ticket_def sql_holds_def)
qed

lemma settled_step:
  assumes ok: "outbox_ok db" and "settled_ticket op (snd (outbox_step db op)) = Some t"
  obtains now l f where "t = ticket l" "sql_update (sql_holds now l) f db = (fst (outbox_step db op), Suc 0)"
    "\<And>r. ob_lease_owner (f r) = None"
proof -
  note cases = assms(2)
  show ?thesis
  proof (cases op)
    case (Acknowledge call l)
    have t: "t = ticket l" and "snd (outbox_acknowledge call l db) = Ok True"
      using cases by (auto simp: Acknowledge elim: settled_ticket.elims)
    then have "pg_call (dc_pg call) (sql_update (sql_holds (dc_now call) l) (publish_row (dc_now call))) db =
        (fst (outbox_step db op), Ok 1)"
      by (auto simp: Acknowledge outbox_acknowledge_def case_prod_unfold Let_def and_then_Ok_iff prod_eq_iff)
    from that [OF t] pg_call_Ok [OF this] show ?thesis by (simp add: publish_row_def)
  next
    case (FailLease call l e d m)
    have t: "t = ticket l" and s: "snd (outbox_fail call l e d m db) = Ok True"
      using cases by (auto simp: FailLease elim: settled_ticket.elims)
    obtain k where "pg_call (dc_pg call) (sql_update (sql_holds (dc_now call) l)
        (fail_row (dc_now call) (bounded_error e) k (uint m))) db = (fst (outbox_step db op), Ok 1)"
      using s by (auto simp: FailLease outbox_fail_def case_prod_unfold Let_def and_then_Ok_iff prod_eq_iff
          split: if_splits result.splits)
    from that [OF t] pg_call_Ok [OF this] show ?thesis by (simp add: fail_row_def)
  qed (use cases in \<open>auto elim: settled_ticket.elims\<close>)
qed

interpretation ob: lease_fencing outbox_step outbox_ok outbox_live outbox_issued granted_tickets settled_ticket fst
proof
  fix db op t t'
  show "outbox_ok db \<Longrightarrow> outbox_ok (fst (outbox_step db op))" by (rule outbox_ok_step)
  show "outbox_issued db t \<Longrightarrow> outbox_issued (fst (outbox_step db op)) t"
    by (rule evolves_issued [OF outbox_step_evolves])
  assume ok: "outbox_ok db"
  show "outbox_issued db t \<Longrightarrow> \<not> outbox_live db t \<Longrightarrow> \<not> outbox_live (fst (outbox_step db op)) t"
    using evolves_dead [OF ok outbox_step_evolves] by blast
  show "outbox_live db t \<Longrightarrow> outbox_live db t' \<Longrightarrow> fst t = fst t' \<Longrightarrow> t = t'"
    using same_event [OF ok] by (auto simp: outbox_live_def holds_ticket_def case_prod_unfold prod_eq_iff) (metis option.inject)+
  show "settled_ticket op (snd (outbox_step db op)) = Some t \<Longrightarrow>
      outbox_live db t \<and> \<not> outbox_live (fst (outbox_step db op)) t"
    using settle_live [OF ok] by (auto elim!: settled_step [OF ok])
  assume g: "t \<in> granted_tickets (snd (outbox_step db op))"
  obtain i k w where t: "t = (i, k, w)" by (cases t)
  obtain r ms now where r: "r \<in> set (od_rows db)" "ob_published_at r = None"
    "lease_row w ms now r \<in> set (od_rows (fst (outbox_step db op)))" "i = ob_event_id r" "k = ob_lease_token r + 1"
    by (rule granted_reply [OF ok g]) (simp add: t)
  show "outbox_live (fst (outbox_step db op)) t"
    unfolding outbox_live_def by (rule bexI [OF _ r(3)]) (simp add: t holds_ticket_def r)
  show "outbox_issued (fst (outbox_step db op)) t"
    unfolding outbox_issued_def t using r by (auto intro!: bexI [OF _ r(3)])
  show "\<not> outbox_issued db t"
  proof
    assume "outbox_issued db t"
    then obtain q where "q \<in> set (od_rows db)" "ob_event_id q = i" "k \<le> ob_lease_token q" by (auto simp: outbox_issued_def t)
    then show False using same_event [OF ok _ r(1), of q] r(4,5) by simp
  qed
qed

section \<open>Order within a group\<close>

text \<open>
  A row is engaged when a worker holds a lease of it or it is published. In every group only a row
  whose predecessors are all published is engaged.
\<close>

definition engaged :: "outbox_row \<Rightarrow> bool" where
  "engaged r \<longleftrightarrow> ob_lease_owner r \<noteq> None \<or> ob_published_at r \<noteq> None"

definition head_of_line :: "outbox_row list \<Rightarrow> bool" where
  "head_of_line rows \<longleftrightarrow>
     (\<forall>r\<in>set rows. \<forall>p\<in>set rows. outbox_group p = outbox_group r \<and> ob_enqueue_order p < ob_enqueue_order r \<and>
        engaged r \<longrightarrow> ob_published_at p \<noteq> None)"

definition group_orders :: "outbox_row list \<Rightarrow> bool" where
  "group_orders rows \<longleftrightarrow>
     (\<forall>r\<in>set rows. \<forall>p\<in>set rows. outbox_group p = outbox_group r \<and> ob_enqueue_order p = ob_enqueue_order r \<longrightarrow>
        ob_event_id p = ob_event_id r)"

text \<open>
  A transaction draws the order of an event while it holds the advisory lock of the event's group
  (\<open>lock_partitions\<close>) and keeps the lock until it commits: the order exceeds those of the rows of the
  group that are there.
\<close>

fun in_group_order :: "outbox_db \<Rightarrow> outbox_op \<Rightarrow> bool" where
  "in_group_order db (Insert order now operation_id trade_id event) \<longleftrightarrow>
     (case resolve_outbox_route (od_routes db) (oe_topic event) of
        None \<Rightarrow> True
      | Some (producer, publisher, destination) \<Rightarrow>
          list_all (\<lambda>r. outbox_group r = (publisher, destination, oe_partition_key event) \<longrightarrow>
            ob_enqueue_order r < order) (od_rows db))"
| "in_group_order db _ \<longleftrightarrow> True"

fun scheduled :: "outbox_db \<Rightarrow> outbox_op list \<Rightarrow> bool" where
  "scheduled db [] \<longleftrightarrow> True"
| "scheduled db (op # ops) \<longleftrightarrow> in_group_order db op \<and> scheduled (fst (outbox_step db op)) ops"

definition engages_heads :: "outbox_row list \<Rightarrow> outbox_row list \<Rightarrow> bool" where
  "engages_heads rows rows' \<longleftrightarrow>
     (\<forall>r\<in>set rows. \<forall>r'\<in>set rows'. ob_event_id r' = ob_event_id r \<and> engaged r' \<longrightarrow> engaged r \<or> \<not> sql_has_prior rows r)"

lemma engages_heads_refl: "outbox_ok db \<Longrightarrow> engages_heads (od_rows db) (od_rows db)"
  unfolding engages_heads_def using same_event by blast

lemma engages_heads_update:
  assumes ok: "outbox_ok db"
    and f: "\<And>q. q \<in> set (od_rows db) \<Longrightarrow> P q \<Longrightarrow> ob_event_id (f q) = ob_event_id q \<and>
      (engaged (f q) \<longrightarrow> engaged q \<or> \<not> sql_has_prior (od_rows db) q)"
  shows "engages_heads (od_rows db) (fst (update_where P f (od_rows db)))"
  unfolding engages_heads_def
proof (intro ballI impI)
  fix r r' assume r: "r \<in> set (od_rows db)" and "r' \<in> set (fst (update_where P f (od_rows db)))"
    and e: "ob_event_id r' = ob_event_id r \<and> engaged r'"
  then obtain q where q: "q \<in> set (od_rows db)" "r' = (if P q then f q else q)" by (auto simp: update_where_def)
  then have "ob_event_id q = ob_event_id r" using f [OF q(1)] e by (auto split: if_splits)
  then have "q = r" using same_event [OF ok q(1) r] by simp
  then show "engaged r \<or> \<not> sql_has_prior (od_rows db) r" using q f e by (auto split: if_splits)
qed

lemma pg_call_engages:
  "outbox_ok db \<Longrightarrow> engages_heads (od_rows db) (od_rows (fst (f db))) \<Longrightarrow>
     engages_heads (od_rows db) (od_rows (fst (pg_call pg f db)))"
  using pg_call_state [of pg f db] engages_heads_refl by (elim disjE) simp_all

lemma outbox_step_engages:
  assumes ok: "outbox_ok db"
  shows "engages_heads (od_rows db) (od_rows (fst (outbox_step db op)))"
proof (cases op)
  case (Insert order now oid tid event)
  show ?thesis
  proof (cases "od_rows (fst (outbox_step db op)) = od_rows db")
    case True
    then show ?thesis by (simp add: engages_heads_refl [OF ok])
  next
    case False
    then obtain n where "od_rows (fst (outbox_step db op)) = od_rows db @ [n]" "ob_event_id n \<notin> ob_event_id ` set (od_rows db)"
      by (auto simp: Insert outbox_insert_def list_ex_key split: if_splits option.splits)
    then show ?thesis using engages_heads_refl [OF ok] by (auto simp: engages_heads_def)
  qed
next
  case (ClaimBatch call w ms p m)
  have "engages_heads (od_rows db) (od_rows (fst (sql_claim w k p m stmt now l db)))" for k stmt now l
  proof -
    have "ob_event_id (lease_row w k now q) = ob_event_id q \<and> (engaged (lease_row w k now q) \<longrightarrow> engaged q \<or> \<not> sql_has_prior (od_rows db) q)"
      if q: "q \<in> set (od_rows db)" and qc: "ob_event_id q \<in> set (map ob_event_id (sql_fast stmt now l p m (od_rows db) @ sql_fallback stmt now l p m (od_rows db)))" for q
    proof -
      obtain c where c: "c \<in> set (sql_fast stmt now l p m (od_rows db)) \<or> c \<in> set (sql_fallback stmt now l p m (od_rows db))"
        "ob_event_id q = ob_event_id c" using qc by auto
      then show ?thesis using candidate_row [OF c(1)] same_event [OF ok q, of c] by simp
    qed
    then show ?thesis unfolding sql_claim_def Let_def by (simp add: engages_heads_update [OF ok])
  qed
  then show ?thesis
    by (simp add: ClaimBatch claim_batch_for_publisher_def case_prod_unfold Let_def engages_heads_refl [OF ok]
        pg_call_engages [OF ok] split: result.splits)
next
  case (Acknowledge call l)
  have "engages_heads (od_rows db) (od_rows (fst (sql_update (sql_holds now l) (publish_row now) db)))" for now
    by (auto simp: sql_update_def case_prod_unfold Let_def publish_row_def sql_holds_def engaged_def
        intro!: engages_heads_update [OF ok])
  then show ?thesis
    by (simp add: Acknowledge outbox_acknowledge_def case_prod_unfold Let_def pg_call_engages [OF ok])
next
  case (FailLease call l e d m)
  have "engages_heads (od_rows db) (od_rows (fst (sql_update (sql_holds now l) (fail_row now e k j) db)))" for now e k j
    by (auto simp: sql_update_def case_prod_unfold Let_def fail_row_def sql_holds_def engaged_def
        intro!: engages_heads_update [OF ok])
  then show ?thesis
    by (simp add: FailLease outbox_fail_def case_prod_unfold Let_def engages_heads_refl [OF ok] pg_call_engages [OF ok]
        split: result.splits)
next
  case (RetryDead call i oper reason)
  have "engages_heads (od_rows db) (od_rows (fst (sql_retry_dead i oper reason now db)))" for now
    by (auto simp: sql_retry_dead_def engages_heads_refl [OF ok] engaged_def
        intro!: engages_heads_update [OF ok] split: option.splits)
  then show ?thesis
    by (simp add: RetryDead retry_dead_letter_def engages_heads_refl [OF ok] pg_call_engages [OF ok])
next
  case (RegisterRoute route)
  then show ?thesis by (auto simp: register_route_def Let_def engages_heads_refl [OF ok] split: option.splits)
qed

lemma update_where_ids:
  "(\<And>q. P q \<Longrightarrow> ob_event_id (f q) = ob_event_id q) \<Longrightarrow> ob_event_id ` set (fst (update_where P f rows)) = ob_event_id ` set rows"
  by (induction rows) (auto simp: update_where_def)

lemma pg_call_ids:
  "ob_event_id ` set (od_rows (fst (f db))) = ob_event_id ` set (od_rows db) \<Longrightarrow>
     ob_event_id ` set (od_rows (fst (pg_call pg f db))) = ob_event_id ` set (od_rows db)"
  using pg_call_state [of pg f db] by (elim disjE) simp_all

lemma only_insert_adds:
  assumes "\<And>order now oid tid event. op \<noteq> Insert order now oid tid event"
  shows "ob_event_id ` set (od_rows (fst (outbox_step db op))) = ob_event_id ` set (od_rows db)"
proof (cases op)
  case (ClaimBatch call w ms p m)
  show ?thesis
    by (simp add: ClaimBatch claim_batch_for_publisher_def sql_claim_def case_prod_unfold Let_def pg_call_ids
        update_where_ids split: result.splits)
next
  case (Acknowledge call l)
  show ?thesis
    by (simp add: Acknowledge outbox_acknowledge_def sql_update_def publish_row_def case_prod_unfold Let_def pg_call_ids
        update_where_ids)
next
  case (FailLease call l e d m)
  show ?thesis
    by (simp add: FailLease outbox_fail_def sql_update_def fail_row_def case_prod_unfold Let_def pg_call_ids
        update_where_ids split: result.splits)
next
  case (RetryDead call i oper reason)
  show ?thesis
    by (simp add: RetryDead retry_dead_letter_def sql_retry_dead_def pg_call_ids update_where_ids split: option.splits)
next
  case (RegisterRoute route)
  then show ?thesis by (simp add: register_route_def Let_def split: option.splits)
qed (use assms in blast)

lemma new_rows_last:
  assumes "in_group_order db op" and "n \<in> set (od_rows (fst (outbox_step db op)))"
    and "ob_event_id n \<notin> ob_event_id ` set (od_rows db)" and "r \<in> set (od_rows db)" and "outbox_group r = outbox_group n"
  shows "ob_enqueue_order r < ob_enqueue_order n"
proof (cases op)
  case (Insert order now oid tid event)
  obtain producer publisher destination where
    res: "resolve_outbox_route (od_routes db) (oe_topic event) = Some (producer, publisher, destination)"
    and n: "outbox_group n = (publisher, destination, oe_partition_key event)" "ob_enqueue_order n = order"
    using assms(2,3) by (auto simp: Insert outbox_insert_def outbox_group_def split: if_splits option.splits)
  then show ?thesis using assms(1,4,5) by (simp add: Insert list_all_iff)
qed (use only_insert_adds [of op db] assms(2,3) in blast)+

lemma outbox_step_order:
  assumes ok: "outbox_ok db" and hol: "head_of_line (od_rows db)" and op: "in_group_order db op"
  shows "head_of_line (od_rows (fst (outbox_step db op)))"
  unfolding head_of_line_def
proof (intro ballI impI)
  let ?rows = "od_rows (fst (outbox_step db op))"
  fix r' p' assume r': "r' \<in> set ?rows" and p': "p' \<in> set ?rows"
    and a: "outbox_group p' = outbox_group r' \<and> ob_enqueue_order p' < ob_enqueue_order r' \<and> engaged r'"
  note ev = outbox_step_evolves [of db op]
  obtain r where r: "r \<in> set (od_rows db)" "row_evolves r r'"
    by (rule rows_evolve_new [OF ev r']) (use a in \<open>auto simp: engaged_def\<close>)
  show "ob_published_at p' \<noteq> None"
  proof (cases rule: rows_evolve_new [OF ev p'])
    case (1 p)
    have g: "outbox_group p = outbox_group r" "ob_enqueue_order p < ob_enqueue_order r"
      using a r(2) 1(2) by (auto simp: row_evolves_def)
    have "engaged r \<or> \<not> sql_has_prior (od_rows db) r"
      using outbox_step_engages [OF ok, of op] r r' a unfolding engages_heads_def row_evolves_def by blast
    then have "ob_published_at p \<noteq> None"
    proof
      assume "engaged r"
      then show ?thesis using hol g r(1) 1(1) by (simp add: head_of_line_def)
    next
      assume "\<not> sql_has_prior (od_rows db) r"
      then show ?thesis using g 1(1) by (auto simp: sql_has_prior_def list_ex_iff)
    qed
    then show ?thesis using 1(2) by (simp add: row_evolves_def)
  next
    case 2
    have "ob_enqueue_order r < ob_enqueue_order p'"
      using new_rows_last [OF op p' 2(3) r(1)] a r(2) by (simp add: row_evolves_def)
    then show ?thesis using a r(2) by (simp add: row_evolves_def)
  qed
qed

lemma single_new_row:
  assumes "n \<in> set (od_rows (fst (outbox_step db op)))" and "ob_event_id n \<notin> ob_event_id ` set (od_rows db)"
    and "n' \<in> set (od_rows (fst (outbox_step db op)))" and "ob_event_id n' \<notin> ob_event_id ` set (od_rows db)"
  shows "ob_event_id n = ob_event_id n'"
proof (cases op)
  case (Insert order now oid tid event)
  then show ?thesis using assms by (auto simp: outbox_insert_def split: if_splits option.splits)
qed (use only_insert_adds [of op db] assms in blast)+

lemma outbox_step_orders:
  assumes orders: "group_orders (od_rows db)" and op: "in_group_order db op"
  shows "group_orders (od_rows (fst (outbox_step db op)))"
  unfolding group_orders_def
proof (intro ballI impI)
  let ?rows = "od_rows (fst (outbox_step db op))"
  fix r' p' assume r': "r' \<in> set ?rows" and p': "p' \<in> set ?rows"
    and a: "outbox_group p' = outbox_group r' \<and> ob_enqueue_order p' = ob_enqueue_order r'"
  note ev = outbox_step_evolves [of db op]
  show "ob_event_id p' = ob_event_id r'"
  proof (cases rule: rows_evolve_new [OF ev p'])
    case p: (1 p)
    show ?thesis
    proof (cases rule: rows_evolve_new [OF ev r'])
      case (1 r)
      then show ?thesis using orders p a unfolding group_orders_def row_evolves_def by metis
    next
      case 2
      then show ?thesis using new_rows_last [OF op r' 2(3) p(1)] p(2) a by (simp add: row_evolves_def)
    qed
  next
    case p: 2
    show ?thesis
    proof (cases rule: rows_evolve_new [OF ev r'])
      case (1 r)
      then show ?thesis using new_rows_last [OF op p' p(3) 1(1)] a by (simp add: row_evolves_def)
    next
      case 2
      show ?thesis using single_new_row [OF p' p(3) r' 2(3)] .
    qed
  qed
qed

lemma run_order:
  assumes "outbox_ok db" and "head_of_line (od_rows db)" and "group_orders (od_rows db)" and "scheduled db ops"
  shows "outbox_ok (fst (run outbox_step db ops)) \<and> head_of_line (od_rows (fst (run outbox_step db ops))) \<and>
    group_orders (od_rows (fst (run outbox_step db ops)))"
  using assms
proof (induction ops arbitrary: db)
  case (Cons op ops)
  then show ?case
    using Cons.IH [OF outbox_ok_step [OF Cons.prems(1)] outbox_step_order [OF Cons.prems(1,2)] outbox_step_orders [OF Cons.prems(3)]]
    by (simp add: case_prod_unfold Let_def)
qed simp

lemma order_new: "head_of_line (od_rows outbox_new)" "group_orders (od_rows outbox_new)"
  by (simp_all add: outbox_new_def head_of_line_def group_orders_def)

text \<open>
  The advisory locks cover the groups: two events whose rows would get the same publisher, destination
  and partition wait for the same lock, as long as no route uses the publisher \<open>legacy\<close>, which
  \<open>register_route\<close> refuses.
\<close>

definition routes_ok :: "(string \<times> outbox_route) list \<Rightarrow> bool" where
  "routes_ok routes \<longleftrightarrow> list_all (\<lambda>(k, r). or_publisher r \<noteq> ''legacy'') routes"

lemma register_route_ok:
  assumes "routes_ok (od_routes db)" and "register_route route db = (db', x)"
  shows "routes_ok (od_routes db')"
proof -
  have "db' = db \<or> \<not> route_refused route \<and>
      (od_routes db' = od_routes db \<or> od_routes db' = od_routes db @ [(route_key route, route)])"
    using assms(2) by (auto simp: register_route_def Let_def split: if_splits option.splits)
  then show ?thesis using assms(1) by (auto simp: routes_ok_def route_refused_def valid_route_id_def)
qed

lemma same_group_same_lock:
  assumes routes: "routes_ok routes"
    and e: "resolve_outbox_route routes (oe_topic e) = Some (pr, pub, dest)" "lock_scope c routes e = Ok scope"
    and f: "resolve_outbox_route routes (oe_topic f) = Some (pr', pub, dest)" "lock_scope c routes f = Ok scope'"
    and "oe_partition_key e = oe_partition_key f"
  shows "advisory_lock_key ''outbox-partition'' [scope, oe_partition_key e] =
    advisory_lock_key ''outbox-partition'' [scope', oe_partition_key f]"
proof -
  have legacy: "or_publisher r \<noteq> ''legacy''" if "map_of routes k = Some r" for k r
    using routes map_of_SomeD [OF that] by (auto simp: routes_ok_def list_all_iff)
  have scope: "if prefix RELAY_TOPIC_PREFIX (oe_topic x) then s = advisory_lock_key ''relay-destination'' [pu, de] \<and> pu \<noteq> ''legacy''
      else s = oe_topic x \<and> pu = ''legacy'' \<and> de = ''dbproxy:outbox:'' @ oe_topic x"
    if "resolve_outbox_route routes (oe_topic x) = Some (p, pu, de)" "lock_scope c routes x = Ok s" for x p pu de s
    using that legacy
    by (auto simp: resolve_outbox_route_def lock_scope_def RELAY_TOPIC_PREFIX_def from_outbox_def result_simps
        split: if_splits)
  show ?thesis using scope [OF e] scope [OF f] assms(6) by (auto split: if_splits)
qed

section \<open>Published events\<close>

definition is_published :: "outbox_db \<Rightarrow> string \<Rightarrow> bool" where
  "is_published db i \<longleftrightarrow> (\<exists>r\<in>set (od_rows db). ob_event_id r = i \<and> ob_published_at r \<noteq> None)"

lemma is_published_run: "is_published db i \<Longrightarrow> is_published (fst (run outbox_step db ops)) i"
proof (rule run_invariant [where I = "\<lambda>db. is_published db i"])
  fix db op assume "is_published db i"
  then obtain r where r: "r \<in> set (od_rows db)" "ob_event_id r = i" "ob_published_at r \<noteq> None"
    by (auto simp: is_published_def)
  obtain r' where "r' \<in> set (od_rows (fst (outbox_step db op)))" "row_evolves r r'"
    by (rule rows_evolve_old [OF outbox_step_evolves r(1)])
  then show "is_published (fst (outbox_step db op)) i" using r by (auto simp: is_published_def row_evolves_def)
qed

lemma published_not_granted:
  assumes ok: "outbox_ok db" and "is_published db i" and "l \<in> set (leases_of (snd (outbox_step db op)))"
  shows "oe_event_id (ol_event l) \<noteq> i"
proof -
  have "ticket l \<in> granted_tickets (snd (outbox_step db op))" using assms(3) by (simp add: granted_tickets_def)
  then obtain r where r: "r \<in> set (od_rows db)" "ob_published_at r = None" "oe_event_id (ol_event l) = ob_event_id r"
    by (rule granted_reply [OF ok]) (simp add: ticket_def)
  show ?thesis
  proof
    assume "oe_event_id (ol_event l) = i"
    then obtain q where "q \<in> set (od_rows db)" "ob_event_id q = ob_event_id r" "ob_published_at q \<noteq> None"
      using assms(2) r(3) by (auto simp: is_published_def)
    then show False using same_event [OF ok _ r(1)] r(2) by metis
  qed
qed

lemma acknowledged_published:
  assumes ok: "outbox_ok db" and "outbox_acknowledge call l db = (db', Ok True)"
  shows "is_published db' (oe_event_id (ol_event l))"
proof -
  have "pg_call (dc_pg call) (sql_update (sql_holds (dc_now call) l) (publish_row (dc_now call))) db = (db', Ok 1)"
    using assms(2) by (auto simp: outbox_acknowledge_def Let_def and_then_Ok_iff split: prod.splits)
  from pg_call_Ok [OF this] have u: "sql_update (sql_holds (dc_now call) l) (publish_row (dc_now call)) db = (db', Suc 0)" by simp
  obtain r where r: "sql_holds (dc_now call) l r" "publish_row (dc_now call) r \<in> set (od_rows db')"
    by (rule settle_count [OF u])
  show ?thesis unfolding is_published_def
    by (rule bexI [OF _ r(2)]) (use r(1) in \<open>simp add: publish_row_def sql_holds_def\<close>)
qed

section \<open>Properties\<close>

text \<open>
  C5. Leases of the outbox are fenced: in any interleaving of commits, claims, acknowledgements,
  failures and administrative retries by any number of workers, with statements failing before or
  after their effect, a worker whose settlement of a lease succeeds has been the only holder of the
  event since the lease was granted, nobody else settled the event in between, and the same lease
  never settles again. Once an acknowledgement succeeded, the event is never leased again.
\<close>

theorem outbox_leases_fenced:
  assumes "run outbox_step outbox_new ops = (db, rs)" and "i < j" and "j < length ops"
    and "l \<in> set (leases_of (rs ! i))" and "settled_ticket (ops ! j) (rs ! j) = Some (ticket l)"
  shows "(\<forall>m. i < m \<and> m < j \<longrightarrow>
      (\<forall>l'\<in>set (leases_of (rs ! m)). oe_event_id (ol_event l') \<noteq> oe_event_id (ol_event l)) \<and>
      (\<forall>t. settled_ticket (ops ! m) (rs ! m) = Some t \<longrightarrow> fst t \<noteq> oe_event_id (ol_event l))) \<and>
    (\<forall>m. j < m \<and> m < length ops \<longrightarrow> settled_ticket (ops ! m) (rs ! m) \<noteq> Some (ticket l) \<and>
      ((\<exists>call. ops ! j = Acknowledge call l) \<longrightarrow>
        (\<forall>l'\<in>set (leases_of (rs ! m)). oe_event_id (ol_event l') \<noteq> oe_event_id (ol_event l))))"
proof -
  have g: "ticket l \<in> granted_tickets (rs ! i)" using assms(4) by (simp add: granted_tickets_def)
  have item: "fst (ticket l') = oe_event_id (ol_event l')" for l' by (simp add: ticket_def)
  note excl = ob.exclusive_until_settled [OF outbox_ok_new assms(1) _ _ assms(3) g assms(5), unfolded item]
  have "oe_event_id (ol_event l') \<noteq> oe_event_id (ol_event l)" if "i < m" "m < j" "l' \<in> set (leases_of (rs ! m))" for m l'
  proof -
    have "ticket l' \<in> granted_tickets (rs ! m)" using that(3) by (simp add: granted_tickets_def)
    then show ?thesis using excl [OF that(1,2)] item [of l'] by metis
  qed
  moreover have "fst t \<noteq> oe_event_id (ol_event l)" if "i < m" "m < j" "settled_ticket (ops ! m) (rs ! m) = Some t" for m t
    using excl [OF that(1,2)] that(3) by blast
  moreover have "settled_ticket (ops ! m) (rs ! m) \<noteq> Some (ticket l)" if "j < m" "m < length ops" for m
    using ob.settled_at_most_once [OF outbox_ok_new assms(1,2) that g assms(5)] .
  moreover have "oe_event_id (ol_event l') \<noteq> oe_event_id (ol_event l)"
    if m: "j < m" "m < length ops" "ops ! j = Acknowledge call l" and l': "l' \<in> set (leases_of (rs ! m))" for m call l'
  proof -
    define at where "at k = fst (run outbox_step outbox_new (take k ops))" for k
    have ok: "outbox_ok (at k)" for k unfolding at_def by (rule run_invariant [OF outbox_ok_step outbox_ok_new])
    have "rs ! j = snd (outbox_step (at j) (ops ! j))" using run_nth [OF assms(1,3)] by (simp add: at_def)
    then have "outbox_acknowledge call l (at j) = (at (Suc j), Ok True)"
      using assms(5) m(3) run_take_Suc [OF assms(3), of outbox_step outbox_new]
      by (auto simp: at_def prod_eq_iff elim: settled_ticket.elims)
    then have p: "is_published (at (Suc j)) (oe_event_id (ol_event l))" by (rule acknowledged_published [OF ok])
    obtain qs where "at m = fst (run outbox_step (at (Suc j)) qs)"
      using run_take_later [of "Suc j" m outbox_step outbox_new ops] m(1) unfolding at_def by auto
    then have "is_published (at m) (oe_event_id (ol_event l))" using is_published_run [OF p] by simp
    moreover have "rs ! m = snd (outbox_step (at m) (ops ! m))" using run_nth [OF assms(1) m(2)] by (simp add: at_def)
    ultimately show ?thesis using published_not_granted [OF ok] l' by simp
  qed
  ultimately show ?thesis by blast
qed

text \<open>
  One event, leased by a first worker, leased again by a second one after the lease expired, and
  acknowledged by both: only the second acknowledgement counts.
\<close>

definition demo_event :: "string \<Rightarrow> outbox_event" where
  "demo_event i = \<lparr>oe_event_id = i, oe_topic = ''t'', oe_partition_key = ''p'', oe_payload = [], oe_occurred_at_unix_ms = 5\<rparr>"

definition demo_call :: "timestamp \<Rightarrow> db_call" where
  "demo_call now = \<lparr>dc_pg = Executed, dc_stmt = now, dc_now = now, dc_locked = (\<lambda>i. False)\<rparr>"

definition demo_lease :: "string \<Rightarrow> string \<Rightarrow> int \<Rightarrow> outbox_lease" where
  "demo_lease i w token = \<lparr>ol_event = demo_event i, ol_operation_id = ''op'', ol_trade_id = [], ol_attempt_count = 0,
     ol_producer = ''legacy'', ol_publisher_id = ''legacy'', ol_destination = ''dbproxy:outbox:t'',
     ol_lease_token = token, ol_lease_owner = w\<rparr>"

definition demo_ops :: "outbox_op list" where
  "demo_ops = [Insert 2 0 ''op'' None (demo_event ''e1''), Insert 3 0 ''op'' None (demo_event ''e2''),
     ClaimBatch (demo_call 10) ''w1'' 1 None 8, ClaimBatch (demo_call 5000) ''w2'' 1 None 8,
     Acknowledge (demo_call 5001) (demo_lease ''e1'' ''w1'' 1), Acknowledge (demo_call 5002) (demo_lease ''e1'' ''w2'' 2),
     ClaimBatch (demo_call 6000) ''w1'' 1 None 8]"

definition demo_row :: "string \<Rightarrow> nat \<Rightarrow> string option \<Rightarrow> timestamp option \<Rightarrow> int \<Rightarrow> int \<Rightarrow> timestamp option \<Rightarrow> outbox_row" where
  "demo_row i n owner until token expired published =
     \<lparr>ob_event_id = i, ob_operation_id = ''op'', ob_trade_id = None, ob_topic = ''t'', ob_partition_key = ''p'',
      ob_payload = [], ob_occurred_at = 5, ob_producer = ''legacy'', ob_publisher_id = ''legacy'',
      ob_destination = ''dbproxy:outbox:t'', ob_enqueue_order = n, ob_available_at = 0, ob_attempt_count = 0,
      ob_lease_owner = owner, ob_lease_until = until, ob_lease_token = token, ob_expired_leases = expired,
      ob_last_error = None, ob_published_at = published, ob_dead_lettered_at = None\<rparr>"

definition demo_db :: "outbox_row list \<Rightarrow> outbox_db" where
  "demo_db rows = outbox_new\<lparr>od_rows := rows\<rparr>"

lemma demo_row_simps [simp]:
  "ob_event_id (demo_row i n ow un tk ex pb) = i" "ob_enqueue_order (demo_row i n ow un tk ex pb) = n"
  "ob_lease_owner (demo_row i n ow un tk ex pb) = ow" "ob_lease_until (demo_row i n ow un tk ex pb) = un"
  "ob_lease_token (demo_row i n ow un tk ex pb) = tk" "ob_published_at (demo_row i n ow un tk ex pb) = pb"
  "ob_dead_lettered_at (demo_row i n ow un tk ex pb) = None" "ob_available_at (demo_row i n ow un tk ex pb) = 0"
  "outbox_group (demo_row i n ow un tk ex pb) = (''legacy'', ''dbproxy:outbox:t'', ''p'')"
  "lease_row w k now (demo_row i n ow un tk ex pb) =
     demo_row i n (Some w) (Some (now + interval_ms k)) (tk + 1) (ex + (if un = None then 0 else 1)) pb"
  "publish_row now (demo_row i n ow un tk ex pb) = demo_row i n None None tk ex (Some now)"
  "outbox_lease_of_row w (demo_row i n ow un tk ex pb) = Ok (demo_lease i w tk)"
  by (simp_all add: demo_row_def lease_row_def publish_row_def outbox_lease_of_row_def u64_try_from_def demo_lease_def
      demo_event_def outbox_group_def)

lemma demo_db_simps [simp]:
  "od_rows (demo_db rows) = rows" "demo_db rows\<lparr>od_rows := rows'\<rparr> = demo_db rows'"
  by (simp_all add: demo_db_def outbox_new_def)

lemma demo_insert [simp]:
  "i \<notin> ob_event_id ` set rows \<Longrightarrow> outbox_insert n 0 ''op'' None (demo_event i) (demo_db rows) =
     (demo_db (rows @ [demo_row i n None None 0 0 None]), Ok ())"
  by (simp add: outbox_insert_def demo_event_def demo_db_def demo_row_def outbox_new_def resolve_outbox_route_def list_ex_key)

lemma fallback_Nil: "sql_fast stmt now l p m rows \<noteq> [] \<Longrightarrow> sql_fallback stmt now l p m rows = []"
  by (simp add: sql_fallback_def)

lemma demo_fast:
  "case un of None \<Rightarrow> True | Some t \<Rightarrow> t \<le> now \<Longrightarrow>
     sql_fast now now (\<lambda>i. False) None 8 [demo_row ''e1'' 2 ow un tk ex None, demo_row ''e2'' 3 None None 0 0 None] =
       [demo_row ''e1'' 2 ow un tk ex None]"
  "case un of None \<Rightarrow> True | Some t \<Rightarrow> t \<le> now \<Longrightarrow>
     sql_fast now now (\<lambda>i. False) None 8 [demo_row ''e1'' 2 None None tk ex (Some t), demo_row ''e2'' 3 ow un tk' ex' None] =
       [demo_row ''e2'' 3 ow un tk' ex' None]"
  by (simp_all add: sql_fast_def sql_shortlist_def sql_eligible_def sql_has_prior_def)

lemma demo_claim:
  assumes "\<not> blank w" and "sql_fast now now (\<lambda>i. False) None 8 rows = [demo_row i n ow un tk ex None]"
  shows "claim_batch_for_publisher (demo_call now) w 1 None 8 (demo_db rows) =
    (demo_db (map (\<lambda>r. if ob_event_id r = i then lease_row w 1 now r else r) rows), Ok [demo_lease i w (tk + 1)])"
  using assms
  by (simp add: claim_batch_for_publisher_def validate_worker_def ensure_def i64_try_from_def demo_call_def
      sql_claim_def fallback_Nil update_where_def)

lemma demo_outbox_run:
  "map leases_of (snd (run outbox_step outbox_new demo_ops)) =
     [[], [], [demo_lease ''e1'' ''w1'' 1], [demo_lease ''e1'' ''w2'' 2], [], [], [demo_lease ''e2'' ''w1'' 1]]"
   "map (\<lambda>(q, r). settled_ticket q r) (zip demo_ops (snd (run outbox_step outbox_new demo_ops))) =
     [None, None, None, None, None, Some (ticket (demo_lease ''e1'' ''w2'' 2)), None]"
   "scheduled outbox_new demo_ops"
   "leases_of (snd (outbox_step (fst (run outbox_step outbox_new demo_ops)) (ClaimBatch (demo_call 9000) ''w2'' 1 None 8))) =
     [demo_lease ''e2'' ''w2'' 2]"
proof -
  have new: "outbox_new = demo_db []" by (simp add: demo_db_def outbox_new_def)
  have i: "oe_event_id (ol_event (demo_lease i w t)) = i" "ol_lease_token (demo_lease i w t) = t" "ol_lease_owner (demo_lease i w t) = w" for i w t
    by (simp_all add: demo_lease_def demo_event_def)
  note ev = demo_ops_def new demo_claim demo_fast outbox_acknowledge_def sql_update_def update_where_def sql_holds_def
    demo_call_def [of 5001] demo_call_def [of 5002] interval_ms_def i
  have e: "oe_topic (demo_event i) = ''t''" "oe_partition_key (demo_event i) = ''p''" "od_routes (demo_db rows) = []" for i rows
    by (simp_all add: demo_event_def demo_db_def outbox_new_def)
  show "map leases_of (snd (run outbox_step outbox_new demo_ops)) =
     [[], [], [demo_lease ''e1'' ''w1'' 1], [demo_lease ''e1'' ''w2'' 2], [], [], [demo_lease ''e2'' ''w1'' 1]]"
    by (simp add: ev)
  show "map (\<lambda>(q, r). settled_ticket q r) (zip demo_ops (snd (run outbox_step outbox_new demo_ops))) =
     [None, None, None, None, None, Some (ticket (demo_lease ''e1'' ''w2'' 2)), None]"
    by (simp add: ev)
  show "scheduled outbox_new demo_ops"
    by (simp add: ev resolve_outbox_route_def e)
  show "leases_of (snd (outbox_step (fst (run outbox_step outbox_new demo_ops)) (ClaimBatch (demo_call 9000) ''w2'' 1 None 8))) =
     [demo_lease ''e2'' ''w2'' 2]"
    by (simp add: ev)
qed

theorem outbox_leases_fenced_witness:
  "settled_ticket (demo_ops ! 4) (snd (run outbox_step outbox_new demo_ops) ! 4) \<noteq> Some (ticket (demo_lease ''e1'' ''w2'' 2)) \<and>
   ''e1'' \<notin> set (map (\<lambda>l. oe_event_id (ol_event l)) (leases_of (snd (run outbox_step outbox_new demo_ops) ! 6)))"
proof -
  obtain db rs where r: "run outbox_step outbox_new demo_ops = (db, rs)" by fastforce
  have i: "oe_event_id (ol_event (demo_lease e w t)) = e" for e w t by (simp add: demo_lease_def demo_event_def)
  have op: "demo_ops ! 5 = Acknowledge (demo_call 5002) (demo_lease ''e1'' ''w2'' 2)" by (simp add: demo_ops_def)
  have len: "length demo_ops = 7" by (simp add: demo_ops_def)
  then have rl: "length rs = 7" using run_length [of outbox_step outbox_new demo_ops] r by simp
  have "demo_lease ''e1'' ''w2'' 2 \<in> set (leases_of (rs ! 3))"
    using arg_cong [OF demo_outbox_run(1), of "\<lambda>x. x ! 3"] r rl by simp
  moreover have "settled_ticket (demo_ops ! 5) (rs ! 5) = Some (ticket (demo_lease ''e1'' ''w2'' 2))"
    using arg_cong [OF demo_outbox_run(2), of "\<lambda>x. x ! 5"] r rl len by simp
  moreover have "\<exists>call. demo_ops ! 5 = Acknowledge call (demo_lease ''e1'' ''w2'' 2)" unfolding op by blast
  moreover note f = outbox_leases_fenced [OF r, of 3 5 "demo_lease ''e1'' ''w2'' 2"]
  ultimately have "\<forall>t. settled_ticket (demo_ops ! 4) (rs ! 4) = Some t \<longrightarrow> fst t \<noteq> ''e1''"
    and "\<forall>l'\<in>set (leases_of (rs ! 6)). oe_event_id (ol_event l') \<noteq> ''e1''"
    using spec [OF conjunct1 [OF f], of 4] spec [OF conjunct2 [OF f], of 6] len i by simp_all
  then show ?thesis using r i by (auto simp: ticket_def)
qed

lemma leased_row:
  assumes ok: "outbox_ok db" and l: "l \<in> set (leases_of (snd (outbox_step db claim)))"
  shows "\<exists>r\<in>set (od_rows db). ob_event_id r = oe_event_id (ol_event l) \<and> ob_published_at r = None \<and>
    outbox_group r = (ol_publisher_id l, ol_destination l, oe_partition_key (ol_event l)) \<and> \<not> sql_has_prior (od_rows db) r"
proof -
  obtain call w ms p m ls where op: "claim = ClaimBatch call w ms p m" and ls: "l \<in> set ls"
    and "snd (claim_batch_for_publisher call w ms p m db) = Ok ls"
    using l by (cases claim; cases "snd (outbox_step db claim)" rule: leases_of.cases) (auto simp: case_prod_unfold)
  then have c: "claim_batch_for_publisher call w ms p m db = (fst (outbox_step db claim), Ok ls)" by (simp add: prod_eq_iff)
  obtain r k where r: "r \<in> set (od_rows db)" "sql_eligible (dc_stmt call) (dc_now call) p r" "\<not> sql_has_prior (od_rows db) r"
    "outbox_lease_of_row w (lease_row w k (dc_now call) r) = Ok l"
    by (rule claimed_row [OF ok c ls])
  then show ?thesis
    using lease_of_row_fields(1,4) [OF r(4)] by (intro bexI [OF _ r(1)]) (simp add: sql_eligible_def ticket_def)
qed

text \<open>
  C16. Events of one group (publisher, destination and partition) are delivered strictly in their order:
  in every reachable state a published or leased event has only published predecessors in its group,
  so the published events of a group are a prefix of it and no two workers hold unpublished events of
  one group; and whatever claim comes next, each event it hands out is the first unpublished one of its
  group, and no other event of that group is handed out with it. A dead letter thus blocks its followers
  until it is retried.
\<close>

theorem outbox_group_order:
  assumes "scheduled outbox_new ops" and "run outbox_step outbox_new ops = (db, rs)"
  shows "(\<forall>r\<in>set (od_rows db). \<forall>p\<in>set (od_rows db). outbox_group p = outbox_group r \<and>
      ob_enqueue_order p < ob_enqueue_order r \<and> engaged r \<longrightarrow> ob_published_at p \<noteq> None) \<and>
    (\<forall>l\<in>set (leases_of (snd (outbox_step db claim))).
       (\<exists>r\<in>set (od_rows db). ob_event_id r = oe_event_id (ol_event l) \<and> ob_published_at r = None \<and>
          (\<forall>p\<in>set (od_rows db). outbox_group p = outbox_group r \<and> ob_enqueue_order p < ob_enqueue_order r \<longrightarrow>
             ob_published_at p \<noteq> None)) \<and>
       (\<forall>l'\<in>set (leases_of (snd (outbox_step db claim))).
          (ol_publisher_id l', ol_destination l', oe_partition_key (ol_event l')) =
          (ol_publisher_id l, ol_destination l, oe_partition_key (ol_event l)) \<longrightarrow>
          oe_event_id (ol_event l') = oe_event_id (ol_event l)))"
proof -
  have ok: "outbox_ok db" and hol: "head_of_line (od_rows db)" and orders: "group_orders (od_rows db)"
    using run_order [OF outbox_ok_new _ _ assms(1)] order_new assms(2) by simp_all
  note row = leased_row [OF ok]
  have no_prior: "ob_published_at p \<noteq> None"
    if "\<not> sql_has_prior (od_rows db) r" "p \<in> set (od_rows db)" "outbox_group p = outbox_group r" "ob_enqueue_order p < ob_enqueue_order r" for r p
    using that by (auto simp: sql_has_prior_def list_ex_iff)
  have same: "oe_event_id (ol_event l') = oe_event_id (ol_event l)"
    if l: "l \<in> set (leases_of (snd (outbox_step db claim)))" "l' \<in> set (leases_of (snd (outbox_step db claim)))"
      and g: "(ol_publisher_id l', ol_destination l', oe_partition_key (ol_event l')) =
        (ol_publisher_id l, ol_destination l, oe_partition_key (ol_event l))" for l l'
  proof -
    obtain r where r: "r \<in> set (od_rows db)" "ob_event_id r = oe_event_id (ol_event l)" "ob_published_at r = None"
      "outbox_group r = (ol_publisher_id l, ol_destination l, oe_partition_key (ol_event l))" "\<not> sql_has_prior (od_rows db) r"
      using row [OF l(1)] by blast
    obtain r' where r': "r' \<in> set (od_rows db)" "ob_event_id r' = oe_event_id (ol_event l')" "ob_published_at r' = None"
      "outbox_group r' = (ol_publisher_id l', ol_destination l', oe_partition_key (ol_event l'))" "\<not> sql_has_prior (od_rows db) r'"
      using row [OF l(2)] by blast
    have gg: "outbox_group r' = outbox_group r" using r(4) r'(4) g by simp
    then have "ob_enqueue_order r' = ob_enqueue_order r"
      using no_prior [OF r(5) r'(1)] no_prior [OF r'(5) r(1)] r(3) r'(3) by (metis linorder_neqE_nat)
    then show ?thesis using orders gg r(1,2) r'(1,2) unfolding group_orders_def by metis
  qed
  show ?thesis
  proof (intro conjI)
    show "\<forall>r\<in>set (od_rows db). \<forall>p\<in>set (od_rows db). outbox_group p = outbox_group r \<and>
        ob_enqueue_order p < ob_enqueue_order r \<and> engaged r \<longrightarrow> ob_published_at p \<noteq> None"
      using hol by (simp add: head_of_line_def)
  qed (use row no_prior same in blast)
qed

theorem outbox_group_order_witness:
  "\<exists>r. r \<in> set (od_rows (fst (run outbox_step outbox_new demo_ops))) \<and> ob_event_id r = ''e2'' \<and> ob_published_at r = None"
proof -
  let ?claim = "ClaimBatch (demo_call 9000) ''w2'' 1 None 8"
  have "demo_lease ''e2'' ''w2'' 2 \<in> set (leases_of (snd (outbox_step (fst (run outbox_step outbox_new demo_ops)) ?claim)))"
    unfolding demo_outbox_run(4) by simp
  from bspec [OF conjunct2 [OF outbox_group_order [OF demo_outbox_run(3) prod.collapse [symmetric]]] this]
  show ?thesis by (auto simp: demo_lease_def demo_event_def)
qed

end
