(* ===== verification/Outbox_Worker.thy ===== *)
theory Outbox_Worker
  imports Outbox_Queue Retry_Policy
begin

text \<open>
  The worker that publishes outbox events, \<open>crates/dbproxy-server/src/outbox_worker.rs\<close>, and one round
  of the loop that drives it (\<open>run_durable_queue_worker\<close> of \<open>lib.rs\<close>).

  A worker makes several calls to the database. Before the \<open>n\<close>-th one the other workers, administrators
  and committing transactions execute the operations \<open>we_others env n\<close>; \<open>we_call env n\<close> holds the
  clocks of the call and whether it fails. A publisher is a function of the messages: it answers, or it
  does not answer in time (\<open>None\<close>). SHA-256 is a parameter.
\<close>

section \<open>Publishers\<close>

datatype publish_error = Transient string | Permanent string

definition publish_error_text :: "publish_error \<Rightarrow> string" where
  "publish_error_text e =
     (case e of Transient m \<Rightarrow> ''transient publisher failure: '' @ m | Permanent m \<Rightarrow> ''invalid publication: '' @ m)"

record publish_message =
  pm_event :: outbox_event
  pm_destination :: string
  pm_operation_id :: string
  pm_trade_id :: string

type_synonym publication = "(string, publish_error) result"

record publisher =
  pb_publish :: "publish_message \<Rightarrow> publication option"
  pb_publish_batch :: "publish_message list \<Rightarrow> publication list option"

definition message_of :: "outbox_lease \<Rightarrow> publish_message" where
  "message_of lease = \<lparr>pm_event = ol_event lease, pm_destination = ol_destination lease,
     pm_operation_id = ol_operation_id lease, pm_trade_id = ol_trade_id lease\<rparr>"

text \<open>The default \<open>publish_batch\<close> of the trait: one message after the other.\<close>

fun default_publish_batch :: "(publish_message \<Rightarrow> publication) \<Rightarrow> publish_message list \<Rightarrow> publication list" where
  "default_publish_batch publish [] = []"
| "default_publish_batch publish (m # ms) = publish m # default_publish_batch publish ms"

section \<open>The worker\<close>

definition OUTBOX_PUBLISH_BATCH_SIZE :: nat where "OUTBOX_PUBLISH_BATCH_SIZE = 16"

datatype process_outcome = QueueEmpty | Committed | RetryScheduled | DeadLettered | LeaseLost

record worker_env =
  we_call :: "nat \<Rightarrow> db_call"
  we_others :: "nat \<Rightarrow> outbox_op list"
  we_sha256 :: "bytes \<Rightarrow> bytes"

definition others :: "worker_env \<Rightarrow> nat \<Rightarrow> outbox_db \<Rightarrow> outbox_db" where
  "others env n db = fst (run outbox_step db (we_others env n))"

definition failure_attempts :: "publish_error \<Rightarrow> retry_worker_policy \<Rightarrow> u32" where
  "failure_attempts error policy = (case error of Permanent m \<Rightarrow> 1 | Transient m \<Rightarrow> rp_max_attempts policy)"

definition finish_outbox_publication :: "worker_env \<Rightarrow> nat \<Rightarrow> retry_worker_policy \<Rightarrow> outbox_lease \<Rightarrow> publication \<Rightarrow>
    outbox_db \<Rightarrow> outbox_db \<times> (process_outcome, backend_error) result" where
  "finish_outbox_publication env n policy lease publication db =
     (case publication of
        Ok receipt \<Rightarrow>
          let (db', r) = outbox_acknowledge (we_call env n) lease (others env n db)
          in (db', and_then (map_err Storage r) (\<lambda>acknowledged. Ok (if acknowledged then Committed else LeaseLost)))
      | Err error \<Rightarrow>
          let max_attempts = failure_attempts error policy;
              dead_lettered = (ucast max_attempts \<le> saturating_add (ol_attempt_count lease) 1);
              retry_delay = outbox_retry_delay_ms (we_sha256 env) policy (oe_event_id (ol_event lease)) (ol_attempt_count lease);
              (db', r) = outbox_fail (we_call env n) lease (publish_error_text error)
                retry_delay max_attempts (others env n db)
          in (db', and_then (map_err Storage r) (\<lambda>settled.
                Ok (if \<not> settled then LeaseLost else if dead_lettered then DeadLettered else RetryScheduled))))"

definition process_outbox_once :: "worker_env \<Rightarrow> (string \<Rightarrow> publisher option) \<Rightarrow> string \<Rightarrow> retry_worker_policy \<Rightarrow>
    outbox_db \<Rightarrow> outbox_db \<times> (process_outcome, backend_error) result" where
  "process_outbox_once env publishers worker policy db =
     (case policy_validate policy of
        Err e \<Rightarrow> (db, Err e)
      | Ok policy \<Rightarrow>
          let (db, r) = outbox_claim (we_call env 0) worker (rp_lease_ms policy) (others env 0 db)
          in case r of
            Err e \<Rightarrow> (db, Err (Storage e))
          | Ok None \<Rightarrow> (db, Ok QueueEmpty)
          | Ok (Some lease) \<Rightarrow>
              (case publishers (ol_publisher_id lease) of
                 None \<Rightarrow> (db, Err (InvalidConfig ''outbox publisher is missing''))
               | Some p \<Rightarrow>
                   let publication =
                     (case pb_publish p (message_of lease) of
                        None \<Rightarrow> Err (Transient ''publication deadline exceeded; result may be unknown'')
                      | Some x \<Rightarrow> x)
                   in finish_outbox_publication env 1 policy lease publication db))"

fun finish_batch :: "worker_env \<Rightarrow> nat \<Rightarrow> retry_worker_policy \<Rightarrow> (outbox_lease \<times> publication) list \<Rightarrow> outbox_db \<Rightarrow>
    outbox_db \<times> (process_outcome, backend_error) result list" where
  "finish_batch env n policy [] db = (db, [])"
| "finish_batch env n policy ((lease, publication) # rest) db =
     (let (db, r) = finish_outbox_publication env n policy lease publication db;
          (db, rs) = finish_batch env (Suc n) policy rest db
      in (db, r # rs))"

definition batch_publications :: "publication list option \<Rightarrow> outbox_lease list \<Rightarrow> publication list" where
  "batch_publications published leases =
     (case published of
        Some results \<Rightarrow>
          if length results = length leases then results
          else map (\<lambda>l. Err (Transient ''batch publication incomplete; result may be unknown'')) leases
      | None \<Rightarrow> map (\<lambda>l. Err (Transient ''batch publication incomplete; result may be unknown'')) leases)"

definition process_outbox_batch :: "worker_env \<Rightarrow> (string \<Rightarrow> publisher option) \<Rightarrow> string \<Rightarrow> retry_worker_policy \<Rightarrow>
    outbox_db \<Rightarrow> outbox_db \<times> ((process_outcome, backend_error) result list, backend_error) result" where
  "process_outbox_batch env publishers worker policy db =
     (case policy_validate policy of
        Err e \<Rightarrow> (db, Err e)
      | Ok policy \<Rightarrow>
          let (db, r) = outbox_claim (we_call env 0) worker (rp_lease_ms policy) (others env 0 db)
          in case r of
            Err e \<Rightarrow> (db, Err (Storage e))
          | Ok None \<Rightarrow> (db, Ok [])
          | Ok (Some first) \<Rightarrow>
              (case publishers (ol_publisher_id first) of
                 None \<Rightarrow> (db, Err (InvalidConfig ''outbox publisher is missing''))
               | Some p \<Rightarrow>
                   let (db, r) = claim_batch_for_publisher (we_call env 1) worker (rp_lease_ms policy)
                         (Some (ol_publisher_id first)) (OUTBOX_PUBLISH_BATCH_SIZE - 1) (others env 1 db)
                   in case r of
                     Err e \<Rightarrow> (db, Err (Storage e))
                   | Ok rest \<Rightarrow>
                       let leases = first # rest;
                           publications = batch_publications (pb_publish_batch p (map message_of leases)) leases;
                           (db, outcomes) = finish_batch env 2 policy (zip leases publications) db
                       in (db, Ok outcomes)))"

section \<open>The loop\<close>

datatype queue_metric = MetricCommitted | MetricRetryScheduled | MetricDeadLettered | MetricLeaseLost | MetricEmpty
  | MetricRetryableConflict | MetricFailure

fun classify_outcome :: "(process_outcome, backend_error) result \<Rightarrow> queue_metric \<times> bool" where
  "classify_outcome (Ok Committed) = (MetricCommitted, False)"
| "classify_outcome (Ok RetryScheduled) = (MetricRetryScheduled, False)"
| "classify_outcome (Ok DeadLettered) = (MetricDeadLettered, False)"
| "classify_outcome (Ok LeaseLost) = (MetricLeaseLost, False)"
| "classify_outcome (Ok QueueEmpty) = (MetricEmpty, True)"
| "classify_outcome (Err error) =
     (case error of
        Storage e \<Rightarrow> if is_retryable_conflict e then (MetricRetryableConflict, True) else (MetricFailure, True)
      | _ \<Rightarrow> (MetricFailure, True))"

text \<open>One round of the loop: what it counts and how long it then sleeps, if at all, in milliseconds.\<close>

definition round_outcomes :: "((process_outcome, backend_error) result list, backend_error) result \<Rightarrow>
    (process_outcome, backend_error) result list" where
  "round_outcomes r = (case r of Ok outcomes \<Rightarrow> if outcomes = [] then [Ok QueueEmpty] else outcomes | Err e \<Rightarrow> [Err e])"

fun worker_round :: "retry_worker_policy \<Rightarrow> u64 \<Rightarrow> (process_outcome, backend_error) result list \<Rightarrow> u64 option \<Rightarrow>
    queue_metric list \<times> u64 option" where
  "worker_round policy idle_delay [] idle = ([], idle)"
| "worker_round policy idle_delay (outcome # outcomes) idle =
     (let (metric, should_idle) = classify_outcome outcome;
          idle = (if should_idle
                  then Some (if metric = MetricFailure \<or> metric = MetricRetryableConflict
                             then rp_base_retry_delay_ms policy else idle_delay)
                  else idle);
          (ms, idle) = worker_round policy idle_delay outcomes idle
      in (metric # ms, idle))"

section \<open>What a settlement does\<close>

text \<open>A lease that was granted and not tampered with: while its row carries it, the attempts agree.\<close>

definition lease_accurate :: "outbox_lease \<Rightarrow> outbox_db \<Rightarrow> bool" where
  "lease_accurate l db \<longleftrightarrow> outbox_ok db \<and> outbox_issued db (ticket l) \<and>
     (\<forall>r\<in>set (od_rows db). holds_ticket r (ticket l) \<longrightarrow>
        0 \<le> ob_attempt_count r \<and> of_int (ob_attempt_count r) = ol_attempt_count l)"

lemma accurate_run: "lease_accurate l db \<Longrightarrow> lease_accurate l (fst (run outbox_step db ops))"
proof (rule run_invariant [where I = "lease_accurate l"])
  fix db op assume a: "lease_accurate l db"
  then have ok: "outbox_ok db" and i: "outbox_issued db (ticket l)" by (auto simp: lease_accurate_def)
  show "lease_accurate l (fst (outbox_step db op))"
    using a outbox_ok_step [OF ok] evolves_issued [OF outbox_step_evolves i] evolves_holds [OF ok outbox_step_evolves i]
    by (auto simp: lease_accurate_def)
qed

lemma granted_accurate:
  assumes ok: "outbox_ok db" and l: "l \<in> set (leases_of (snd (outbox_step db op)))"
  shows "lease_accurate l (fst (outbox_step db op))"
proof -
  let ?db = "fst (outbox_step db op)"
  obtain call w ms p m ls where op: "op = ClaimBatch call w ms p m" and ls: "l \<in> set ls"
    and "snd (claim_batch_for_publisher call w ms p m db) = Ok ls"
    using l by (cases op; cases "snd (outbox_step db op)" rule: leases_of.cases) (auto simp: case_prod_unfold)
  then have c: "claim_batch_for_publisher call w ms p m db = (?db, Ok ls)" by (simp add: prod_eq_iff)
  obtain r k where r: "lease_row w k (dc_now call) r \<in> set (od_rows ?db)"
    "outbox_lease_of_row w (lease_row w k (dc_now call) r) = Ok l"
    by (rule claimed_row [OF ok c ls])
  note f = lease_of_row_fields [OF r(2)]
  have "q = lease_row w k (dc_now call) r" if "q \<in> set (od_rows ?db)" "holds_ticket q (ticket l)" for q
    using same_event [OF outbox_ok_step [OF ok] that(1) r(1)] that(2) f(1) by (simp add: holds_ticket_def)
  moreover have "outbox_issued ?db (ticket l)"
    unfolding outbox_issued_def f(1) by (auto intro!: bexI [OF _ r(1)])
  ultimately show ?thesis using f(2,3) outbox_ok_step [OF ok] unfolding lease_accurate_def by metis
qed

lemma granted_accurate_run:
  assumes "run outbox_step outbox_new ops = (db, rs)" and "i < length ops" and "l \<in> set (leases_of (rs ! i))"
  shows "lease_accurate l db"
proof -
  define at where "at k = fst (run outbox_step outbox_new (take k ops))" for k
  have ok: "outbox_ok (at k)" for k unfolding at_def by (rule run_invariant [OF outbox_ok_step outbox_ok_new])
  have "lease_accurate l (at (Suc i))"
    using granted_accurate [OF ok, of l i "ops ! i"] run_nth [OF assms(1,2)] assms(3) run_take_Suc [OF assms(2), of outbox_step outbox_new]
    by (simp add: at_def)
  moreover obtain qs where "at (length ops) = fst (run outbox_step (at (Suc i)) qs)"
    using run_take_later [of "Suc i" "length ops" outbox_step outbox_new ops] assms(2) unfolding at_def by auto
  ultimately have "lease_accurate l (at (length ops))" using accurate_run by simp
  then show ?thesis using assms(1) by (simp add: at_def)
qed

text \<open>Exactly the row of the lease changes, and it becomes one with the property \<open>Q\<close>.\<close>

definition row_becomes :: "outbox_lease \<Rightarrow> (outbox_row \<Rightarrow> outbox_row \<Rightarrow> bool) \<Rightarrow> outbox_db \<Rightarrow> outbox_db \<Rightarrow> bool" where
  "row_becomes l Q db db' \<longleftrightarrow>
     (\<exists>r r'. r \<in> set (od_rows db) \<and> holds_ticket r (ticket l) \<and> Q r r' \<and>
        db' = db\<lparr>od_rows := map (\<lambda>q. if q = r then r' else q) (od_rows db)\<rparr>)"

lemma row_becomes_mono:
  "row_becomes l Q db db' \<Longrightarrow> (\<And>r r'. Q r r' \<Longrightarrow> R r r') \<Longrightarrow> row_becomes l R db db'"
  unfolding row_becomes_def by blast

lemma settle_update:
  assumes ok: "outbox_ok db" and "sql_update (sql_holds now l) f db = (db', n)"
  shows "n = 1 \<Longrightarrow> row_becomes l (\<lambda>r r'. r' = f r) db db'" and "n \<noteq> 1 \<Longrightarrow> db' = db"
proof -
  have d: "db' = db\<lparr>od_rows := map (\<lambda>q. if sql_holds now l q then f q else q) (od_rows db)\<rparr>"
    and n: "n = length (filter (sql_holds now l) (od_rows db))"
    using assms(2) by (auto simp: sql_update_def update_where_def)
  show "row_becomes l (\<lambda>r r'. r' = f r) db db'" if "n = 1"
  proof -
    have u: "sql_update (sql_holds now l) f db = (db', Suc 0)" using assms(2) that by simp
    show ?thesis
    proof (rule settle_count [OF u])
      fix r assume r: "r \<in> set (od_rows db)" "sql_holds now l r" and one: "\<And>q. q \<in> set (od_rows db) \<Longrightarrow> sql_holds now l q \<Longrightarrow> q = r"
      have "map (\<lambda>q. if sql_holds now l q then f q else q) (od_rows db) = map (\<lambda>q. if q = r then f r else q) (od_rows db)"
      proof (rule map_cong [OF refl])
        fix q assume q: "q \<in> set (od_rows db)"
        show "(if sql_holds now l q then f q else q) = (if q = r then f r else q)"
        proof (cases "q = r")
          case False
          then have "\<not> sql_holds now l q" using one [OF q] by blast
          then show ?thesis using False by simp
        qed (simp add: r(2))
      qed
      moreover have "holds_ticket r (ticket l)" using r(2) by (simp add: sql_holds_def holds_ticket_def ticket_def)
      ultimately show ?thesis unfolding row_becomes_def d using r(1) by (intro exI [of _ r] exI [of _ "f r"]) simp
    qed
  qed
  show "db' = db" if "n \<noteq> 1"
  proof -
    have "\<not> sql_holds now l q" if q: "q \<in> set (od_rows db)" for q
    proof
      assume h: "sql_holds now l q"
      have "distinct (filter (sql_holds now l) (od_rows db))" using ok by (auto simp: outbox_ok_def distinct_map)
      moreover have "p = q" if p: "p \<in> set (filter (sql_holds now l) (od_rows db))" for p
        by (rule same_event [OF ok _ q]) (use p h in \<open>simp_all add: sql_holds_def\<close>)
      then have "set (filter (sql_holds now l) (od_rows db)) \<subseteq> {q}" by blast
      then have "set (filter (sql_holds now l) (od_rows db)) = {q}" using h q by (intro equalityI) simp_all
      ultimately have "length (filter (sql_holds now l) (od_rows db)) = 1"
        using distinct_card [of "filter (sql_holds now l) (od_rows db)"] by simp
      then show False using \<open>n \<noteq> 1\<close> n by simp
    qed
    then have "map (\<lambda>q. if sql_holds now l q then f q else q) (od_rows db) = od_rows db" by (simp add: map_idI)
    then show ?thesis using d by simp
  qed
qed

lemma acknowledge_settles:
  assumes ok: "outbox_ok db" and "outbox_acknowledge call l db = (db', Ok b)"
  shows "if b then row_becomes l (\<lambda>r r'. r' = publish_row (dc_now call) r) db db' else db' = db"
proof -
  obtain n where p: "pg_call (dc_pg call) (sql_update (sql_holds (dc_now call) l) (publish_row (dc_now call))) db = (db', Ok n)"
    and b: "b = (n = 1)"
    using assms(2) by (auto simp: outbox_acknowledge_def Let_def and_then_Ok_iff split: prod.splits)
  then show ?thesis using settle_update [OF ok pg_call_Ok [OF p]] by auto
qed

lemma fail_settles:
  assumes ok: "outbox_ok db" and "outbox_fail call l e delay m db = (db', Ok b)"
  shows "if b then row_becomes l (\<lambda>r r'. r' = fail_row (dc_now call) (bounded_error e) (uint delay) (uint m) r) db db' else db' = db"
proof -
  obtain n where p: "pg_call (dc_pg call) (sql_update (sql_holds (dc_now call) l)
      (fail_row (dc_now call) (bounded_error e) (uint delay) (uint m))) db = (db', Ok n)"
    and b: "b = (n = 1)"
    using assms(2) by (auto simp: outbox_fail_def i64_try_from_def Let_def and_then_Ok_iff split: prod.splits if_splits)
  then show ?thesis using settle_update [OF ok pg_call_Ok [OF p]] by auto
qed

text \<open>The worker's own decision on dead letters agrees with the one of the statement.\<close>

lemma dead_letter_agrees:
  assumes "0 \<le> a" and "a < 2 ^ 63" and "of_int a = (n :: u64)"
  shows "ucast (m :: u32) \<le> saturating_add n 1 \<longleftrightarrow> uint m \<le> a + 1"
proof -
  have "uint (word_of_int a :: u64) = a" using assms(1,2) by (simp add: unsigned_of_int take_bit_int_eq_self)
  then have n: "uint n = a" using assms(3) by simp
  have "unat n = nat a" using n by (simp add: unat_eq_nat_uint)
  then have "unat n + unat (1 :: u64) < 2 ^ 64" using assms(1,2) by simp
  then have s: "saturating_add n 1 = n + 1" by (simp only: saturating_add_def if_True)
  have "uint (n + 1) = a + 1" using n assms(1,2) by (simp add: uint_word_ariths)
  moreover have "take_bit 64 (uint m) = uint m"
    by (rule take_bit_int_eq_self) (use uint_bounded [of m] in simp_all)
  ultimately show ?thesis unfolding s word_le_def by (simp add: unsigned_ucast_eq)
qed

lemma failed_publication:
  assumes acc: "lease_accurate lease (others env n db)"
    and bound: "\<forall>r\<in>set (od_rows (others env n db)). ob_attempt_count r < 2 ^ 63"
    and fin: "finish_outbox_publication env n policy lease (Err e) db = (db', Ok outcome)"
  shows "outcome = LeaseLost \<and> db' = others env n db \<or>
    outcome = DeadLettered \<and>
      row_becomes lease (\<lambda>r r'. ob_published_at r' = None \<and> ob_dead_lettered_at r' = Some (dc_now (we_call env n)) \<and>
          ob_attempt_count r' = ob_attempt_count r + 1 \<and>
          ((\<exists>m. e = Permanent m) \<or> uint (rp_max_attempts policy) \<le> ob_attempt_count r'))
        (others env n db) db' \<or>
    outcome = RetryScheduled \<and> (\<exists>m. e = Transient m) \<and>
      row_becomes lease (\<lambda>r r'. ob_published_at r' = None \<and> ob_dead_lettered_at r' = None \<and>
          ob_attempt_count r' = ob_attempt_count r + 1 \<and> ob_attempt_count r' < uint (rp_max_attempts policy) \<and>
          ob_available_at r' = dc_now (we_call env n) +
            interval_ms (uint (outbox_retry_delay_ms (we_sha256 env) policy (oe_event_id (ol_event lease)) (ol_attempt_count lease))))
        (others env n db) db'"
proof -
  have ok: "outbox_ok (others env n db)" using acc by (simp add: lease_accurate_def)
  let ?m = "failure_attempts e policy"
  let ?delay = "outbox_retry_delay_ms (we_sha256 env) policy (oe_event_id (ol_event lease)) (ol_attempt_count lease)"
  let ?f = "fail_row (dc_now (we_call env n)) (bounded_error (publish_error_text e)) (uint ?delay) (uint ?m)"
  obtain b where f: "outbox_fail (we_call env n) lease (publish_error_text e) ?delay ?m (others env n db) = (db', Ok b)"
    and o: "outcome = (if \<not> b then LeaseLost
      else if ucast ?m \<le> saturating_add (ol_attempt_count lease) 1 then DeadLettered else RetryScheduled)"
    using fin by (auto simp: finish_outbox_publication_def Let_def result_simps split: prod.splits)
  show ?thesis
  proof (cases b)
    case True
    obtain r r' where r: "r \<in> set (od_rows (others env n db))" "holds_ticket r (ticket lease)" "r' = ?f r"
      "db' = (others env n db)\<lparr>od_rows := map (\<lambda>q. if q = r then r' else q) (od_rows (others env n db))\<rparr>"
      using fail_settles [OF ok f] True by (auto simp: row_becomes_def)
    have dead: "ucast ?m \<le> saturating_add (ol_attempt_count lease) 1 \<longleftrightarrow> uint ?m \<le> ob_attempt_count r + 1"
      using dead_letter_agrees [of "ob_attempt_count r" "ol_attempt_count lease" ?m] acc r(1,2) bound
      by (simp add: lease_accurate_def)
    have un: "ob_published_at r = None" using r(2) by (simp add: holds_ticket_def case_prod_unfold)
    have becomes: "row_becomes lease Q (others env n db) db'" if "Q r r'" for Q
      unfolding row_becomes_def using r that by (intro exI [of _ r] exI [of _ r']) simp
    show ?thesis
    proof (cases "uint ?m \<le> ob_attempt_count r + 1")
      case True
      then show ?thesis using o dead un \<open>b\<close>
        by (auto simp: failure_attempts_def r(3) fail_row_def split: publish_error.splits intro!: becomes)
    next
      case False
      then have "0 \<le> ob_attempt_count r" using acc r(1,2) by (simp add: lease_accurate_def)
      then obtain m where "e = Transient m" using False by (cases e) (auto simp: failure_attempts_def)
      then show ?thesis using o dead un \<open>b\<close> False
        by (auto simp: failure_attempts_def r(3) fail_row_def intro!: becomes)
    qed
  qed (use fail_settles [OF ok f] o in simp)
qed

section \<open>Property\<close>

text \<open>
  C29. The outcome a worker reports is what happened in the outbox, whatever other workers did before it
  reached the database: \<open>Committed\<close> means the publisher confirmed the event and it is now marked as
  published; \<open>RetryScheduled\<close> that the failure was transient, counted, and the event is available again
  after the delay of the policy; \<open>DeadLettered\<close> that the failure was permanent or the last allowed
  attempt and the event is set aside unpublished; \<open>LeaseLost\<close> that the worker changed nothing. No other
  event is touched. (The database keeps the attempt count below \<open>2 ^ 63\<close>.)
\<close>

theorem outbox_outcome_true:
  assumes "run outbox_step outbox_new ops = (db, rs)" and "i < length ops" and "lease \<in> set (leases_of (rs ! i))"
    and "\<forall>r\<in>set (od_rows (others env n db)). ob_attempt_count r < 2 ^ 63"
    and "finish_outbox_publication env n policy lease publication db = (db', Ok outcome)"
  shows "(case outcome of
      QueueEmpty \<Rightarrow> False
    | Committed \<Rightarrow> is_ok publication \<and>
        row_becomes lease (\<lambda>r r'. ob_published_at r' = Some (dc_now (we_call env n))) (others env n db) db'
    | RetryScheduled \<Rightarrow> (\<exists>m. publication = Err (Transient m)) \<and>
        row_becomes lease (\<lambda>r r'. ob_published_at r' = None \<and> ob_dead_lettered_at r' = None \<and>
            ob_attempt_count r' = ob_attempt_count r + 1 \<and> ob_attempt_count r' < uint (rp_max_attempts policy) \<and>
            ob_available_at r' = dc_now (we_call env n) +
              interval_ms (uint (outbox_retry_delay_ms (we_sha256 env) policy (oe_event_id (ol_event lease)) (ol_attempt_count lease))))
          (others env n db) db'
    | DeadLettered \<Rightarrow> (\<exists>e. publication = Err e \<and>
        row_becomes lease (\<lambda>r r'. ob_published_at r' = None \<and> ob_dead_lettered_at r' = Some (dc_now (we_call env n)) \<and>
            ob_attempt_count r' = ob_attempt_count r + 1 \<and>
            ((\<exists>m. e = Permanent m) \<or> uint (rp_max_attempts policy) \<le> ob_attempt_count r'))
          (others env n db) db')
    | LeaseLost \<Rightarrow> db' = others env n db)"
proof -
  have acc: "lease_accurate lease (others env n db)"
    unfolding others_def by (rule accurate_run [OF granted_accurate_run [OF assms(1-3)]])
  then have ok: "outbox_ok (others env n db)" by (simp add: lease_accurate_def)
  show ?thesis
  proof (cases publication)
    case (Ok receipt)
    obtain b where "outbox_acknowledge (we_call env n) lease (others env n db) = (db', Ok b)"
      and "outcome = (if b then Committed else LeaseLost)"
      using assms(5) by (auto simp: Ok finish_outbox_publication_def result_simps split: prod.splits)
    with acknowledge_settles [OF ok this(1)] show ?thesis
      by (cases b) (simp_all add: Ok row_becomes_mono publish_row_def)
  next
    case (Err e)
    from failed_publication [OF acc assms(4) assms(5) [unfolded Err]] show ?thesis
      unfolding Err by (elim disjE conjE) simp_all
  qed
qed

definition demo_env :: worker_env where
  "demo_env = \<lparr>we_call = (\<lambda>n. demo_call 20), we_others = (\<lambda>n. []), we_sha256 = (\<lambda>b. b)\<rparr>"

definition demo_policy :: retry_worker_policy where
  "demo_policy = \<lparr>rp_lease_ms = 1, rp_base_retry_delay_ms = 1, rp_max_retry_delay_ms = 8, rp_max_attempts = 3\<rparr>"

definition demo_leased :: outbox_db where
  "demo_leased = demo_db [demo_row ''e1'' 2 (Some ''w1'') (Some 1010) 1 0 None, demo_row ''e2'' 3 None None 0 0 None]"

lemma demo_leased_run:
  "run outbox_step outbox_new (take 3 demo_ops) = (demo_leased, [Done (Ok ()), Done (Ok ()), Claimed (Ok [demo_lease ''e1'' ''w1'' 1])])"
proof -
  have new: "outbox_new = demo_db []" by (simp add: demo_db_def outbox_new_def)
  show ?thesis by (simp add: demo_ops_def new demo_claim demo_fast demo_leased_def interval_ms_def)
qed

theorem outbox_outcome_true_witness:
  "\<exists>db'. row_becomes (demo_lease ''e1'' ''w1'' 1) (\<lambda>r r'. ob_published_at r' = Some 20) demo_leased db'"
proof -
  have o: "others demo_env 0 demo_leased = demo_leased" by (simp add: others_def demo_env_def)
  have c: "we_call demo_env 0 = demo_call 20" by (simp add: demo_env_def)
  have l: "oe_event_id (ol_event (demo_lease i w t)) = i" "ol_lease_token (demo_lease i w t) = t"
    "ol_lease_owner (demo_lease i w t) = w" for i w t
    by (simp_all add: demo_lease_def demo_event_def)
  have a: "ob_attempt_count (demo_row i n ow un tk ex pb) = 0" for i n ow un tk ex pb by (simp add: demo_row_def)
  obtain db' where f: "finish_outbox_publication demo_env 0 demo_policy (demo_lease ''e1'' ''w1'' 1) (Ok ''1-0'') demo_leased = (db', Ok Committed)"
    unfolding finish_outbox_publication_def o c
    by (simp add: demo_leased_def outbox_acknowledge_def sql_update_def update_where_def sql_holds_def l demo_call_def)
  have b: "\<forall>r\<in>set (od_rows (others demo_env 0 demo_leased)). ob_attempt_count r < 2 ^ 63"
    unfolding o by (simp add: demo_leased_def a)
  have "2 < length (take 3 demo_ops)" by (simp add: demo_ops_def)
  from outbox_outcome_true [OF demo_leased_run this _ b f] show ?thesis by (auto simp: o c demo_call_def)
qed

end
