(* ===== verification/Cache_Repair.thy ===== *)
theory Cache_Repair
  imports Lease_Contract Retry_Policy Outbox_Worker "HOL-Library.AList"
begin

text \<open>
  The durable queue of cache repairs in PostgreSQL (\<open>cache_repair.rs\<close>, \<open>cache_repair_claim.sql\<close> of
  \<open>crates/dbproxy-storage/src\<close>), the in-memory hints that clear it (\<open>cache_ack.rs\<close>) and the worker round
  \<open>process_cache_repair_once\<close> of \<open>crates/dbproxy-server/src/lib.rs\<close>.

  As in \<open>Outbox_Queue\<close>, the clocks of a call and the rows locked by others are arguments. A settling call
  is a transaction of two statements: it locks the row at \<open>dc_stmt\<close> and changes it at \<open>dc_now\<close>.
\<close>

section \<open>Table\<close>

record repair_row =
  cq_record :: record_key
  cq_target :: int
  cq_requested_at :: timestamp
  cq_available_at :: timestamp
  cq_attempt_count :: int
  cq_lease_owner :: "string option"
  cq_lease_until :: "timestamp option"
  cq_lease_token :: int
  cq_last_error :: "string option"
  cq_dead_lettered_at :: "timestamp option"

record repair_db =
  rd_rows :: "repair_row list"
  rd_sequence :: int

record repair_lease =
  rl_record :: record_key
  rl_target :: u64
  rl_attempt_count :: u64
  rl_lease_token :: int
  rl_lease_owner :: string

record repair_call =
  rc_pg :: pg_outcome
  rc_stmt :: timestamp
  rc_now :: timestamp
  rc_locked :: "record_key \<Rightarrow> bool"

definition required_revision_to_i64 :: "record_key \<Rightarrow> u64 \<Rightarrow> (int, storage_error) result" where
  "required_revision_to_i64 record revision = i64_try_from revision (RevisionTooLarge record)"

definition revision_from_i64 :: "record_key \<Rightarrow> int \<Rightarrow> (u64, storage_error) result" where
  "revision_from_i64 record n = (if n < 0 then Err (InvalidRevision record (of_int n)) else Ok (of_int n))"

section \<open>Requests and hints\<close>

definition sql_enqueue :: "record_key \<Rightarrow> int \<Rightarrow> timestamp \<Rightarrow> repair_db \<Rightarrow> repair_db \<times> unit" where
  "sql_enqueue record target now db =
     (if list_ex (\<lambda>r. cq_record r = record) (rd_rows db)
      then (db\<lparr>rd_rows := map (\<lambda>r. if cq_record r = record then r\<lparr>cq_target := max (cq_target r) target\<rparr> else r) (rd_rows db)\<rparr>, ())
      else (db\<lparr>rd_rows := rd_rows db @
        [\<lparr>cq_record = record, cq_target = target, cq_requested_at = now, cq_available_at = now, cq_attempt_count = 0,
          cq_lease_owner = None, cq_lease_until = None, cq_lease_token = 0, cq_last_error = None,
          cq_dead_lettered_at = None\<rparr>]\<rparr>, ()))"

definition repair_enqueue :: "repair_call \<Rightarrow> record_key \<Rightarrow> u64 \<Rightarrow> repair_db \<Rightarrow> repair_db \<times> (unit, storage_error) result" where
  "repair_enqueue call record target_revision db =
     (case required_revision_to_i64 record target_revision of
        Err e \<Rightarrow> (db, Err e)
      | Ok target \<Rightarrow> pg_call (rc_pg call) (sql_enqueue record target (rc_now call)) db)"

definition delete_where :: "(repair_row \<Rightarrow> bool) \<Rightarrow> repair_db \<Rightarrow> repair_db \<times> nat" where
  "delete_where P db = (db\<lparr>rd_rows := filter (\<lambda>r. \<not> P r) (rd_rows db)\<rparr>, length (filter P (rd_rows db)))"

definition acknowledge_cached :: "repair_call \<Rightarrow> record_key \<Rightarrow> u64 \<Rightarrow> repair_db \<Rightarrow> repair_db \<times> (bool, storage_error) result" where
  "acknowledge_cached call record cached_revision db =
     (case required_revision_to_i64 record cached_revision of
        Err e \<Rightarrow> (db, Err e)
      | Ok cached \<Rightarrow>
          let (db', r) = pg_call (rc_pg call) (delete_where (\<lambda>r. cq_record r = record \<and> cq_target r \<le> cached)) db
          in (db', and_then r (\<lambda>removed. Ok (removed = 1))))"

definition acknowledge_cached_revisions :: "repair_call \<Rightarrow> (record_key \<times> u64) list \<Rightarrow> repair_db \<Rightarrow>
    repair_db \<times> (nat, storage_error) result" where
  "acknowledge_cached_revisions call targets db =
     (if targets = [] then (db, Ok 0)
      else case try_map (\<lambda>(record, revision). required_revision_to_i64 record revision) targets of
        Err e \<Rightarrow> (db, Err e)
      | Ok revisions \<Rightarrow>
          pg_call (rc_pg call) (delete_where (\<lambda>r. \<not> rc_locked call (cq_record r) \<and>
            list_ex (\<lambda>(record, cached). cq_record r = record \<and> cq_target r \<le> cached)
              (zip (map fst targets) revisions))) db)"

definition acknowledge_cached_multi :: "repair_call \<Rightarrow> snapshot_envelope list \<Rightarrow> repair_db \<Rightarrow>
    repair_db \<times> (nat, storage_error) result" where
  "acknowledge_cached_multi call snapshots =
     acknowledge_cached_revisions call (map (\<lambda>s. (se_record s, se_revision s)) snapshots)"

text \<open>
  The hints: a bounded map from records to the highest revision the cache is known to hold. The order
  in which a \<open>HashMap\<close> lists its keys is unspecified; nothing below depends on the one chosen here.
\<close>

definition CAPACITY :: nat where "CAPACITY = 1024"
definition BATCH_SIZE :: nat where "BATCH_SIZE = 128"

type_synonym hints = "(record_key \<times> u64) list"

definition hint_record :: "record_key \<Rightarrow> u64 \<Rightarrow> hints \<Rightarrow> hints" where
  "hint_record k revision pending =
     (case map_of pending k of
        Some current \<Rightarrow> AList.update k (max current revision) pending
      | None \<Rightarrow> if length pending < CAPACITY then pending @ [(k, revision)] else pending)"

definition hint_take_batch :: "hints \<Rightarrow> hints \<times> (record_key \<times> u64) list" where
  "hint_take_batch pending = (drop BATCH_SIZE pending, take BATCH_SIZE pending)"

definition hint_flush :: "repair_call \<Rightarrow> hints \<Rightarrow> repair_db \<Rightarrow> hints \<times> repair_db \<times> (nat, storage_error) result" where
  "hint_flush call pending db =
     (let (pending', targets) = hint_take_batch pending
      in if targets = [] then (pending', db, Ok 0)
         else let (db', r) = acknowledge_cached_revisions call targets db in (pending', db', r))"

section \<open>Leases\<close>

definition repair_order :: "repair_row \<Rightarrow> timestamp \<times> string \<times> string" where
  "repair_order r = (cq_requested_at r, namespace (cq_record r), key (cq_record r))"

definition repair_choice :: "timestamp \<Rightarrow> (record_key \<Rightarrow> bool) \<Rightarrow> (timestamp option \<Rightarrow> bool) \<Rightarrow> repair_row list \<Rightarrow> repair_row list" where
  "repair_choice stmt locked lease rows =
     take 1 (filter (\<lambda>r. cq_dead_lettered_at r = None \<and> cq_available_at r \<le> stmt \<and> lease (cq_lease_until r) \<and>
       \<not> locked (cq_record r)) (sort_key repair_order rows))"

definition sql_repair_claim :: "string \<Rightarrow> int \<Rightarrow> timestamp \<Rightarrow> timestamp \<Rightarrow> (record_key \<Rightarrow> bool) \<Rightarrow> repair_db \<Rightarrow>
    repair_db \<times> repair_row option" where
  "sql_repair_claim worker ms stmt now locked db =
     (let unleased = repair_choice stmt locked (\<lambda>t. t = None) (rd_rows db);
          expired = repair_choice stmt locked (\<lambda>t. case t of None \<Rightarrow> False | Some u \<Rightarrow> u \<le> stmt) (rd_rows db)
      in case take 1 (sort_key repair_order (unleased @ expired)) of
           [] \<Rightarrow> (db, None)
         | candidate # _ \<Rightarrow>
             let token = rd_sequence db + 1;
                 grant = (\<lambda>r. r\<lparr>cq_lease_owner := Some worker, cq_lease_token := token,
                                cq_lease_until := Some (now + interval_ms ms)\<rparr>)
             in (db\<lparr>rd_rows := map (\<lambda>r. if cq_record r = cq_record candidate then grant r else r) (rd_rows db),
                    rd_sequence := token\<rparr>, Some (grant candidate)))"

definition repair_lease_of_row :: "string \<Rightarrow> repair_row \<Rightarrow> (repair_lease, storage_error) result" where
  "repair_lease_of_row worker r =
     and_then (map_err StorageCore (record_key_new (namespace (cq_record r)) (key (cq_record r)))) (\<lambda>record.
     and_then (u64_try_from (cq_attempt_count r) (QueueProtocol ''cache repair attempt count is negative'')) (\<lambda>attempts.
     and_then (revision_from_i64 record (cq_target r)) (\<lambda>target.
       Ok \<lparr>rl_record = record, rl_target = target, rl_attempt_count = attempts,
           rl_lease_token = cq_lease_token r, rl_lease_owner = worker\<rparr>)))"

definition repair_claim :: "repair_call \<Rightarrow> string \<Rightarrow> u64 \<Rightarrow> repair_db \<Rightarrow> repair_db \<times> (repair_lease option, storage_error) result" where
  "repair_claim call worker ms db =
     (case and_then (validate_worker worker ms) (\<lambda>_. i64_try_from ms (QueueProtocol ''lease duration is too large'')) of
        Err e \<Rightarrow> (db, Err e)
      | Ok n \<Rightarrow>
          let (db', r) = pg_call (rc_pg call) (sql_repair_claim worker n (rc_stmt call) (rc_now call) (rc_locked call)) db
          in (db', and_then r (\<lambda>row. case row of None \<Rightarrow> Ok None
               | Some x \<Rightarrow> and_then (repair_lease_of_row worker x) (\<lambda>l. Ok (Some l)))))"

definition repair_holds :: "timestamp \<Rightarrow> repair_lease \<Rightarrow> repair_row \<Rightarrow> bool" where
  "repair_holds now lease r \<longleftrightarrow>
     cq_record r = rl_record lease \<and> cq_lease_owner r = Some (rl_lease_owner lease) \<and>
     cq_lease_token r = rl_lease_token lease \<and> (case cq_lease_until r of None \<Rightarrow> False | Some t \<Rightarrow> now < t)"

definition repair_update :: "(repair_row \<Rightarrow> bool) \<Rightarrow> (repair_row \<Rightarrow> repair_row) \<Rightarrow> repair_db \<Rightarrow> repair_db \<times> nat" where
  "repair_update P f db = (let (rows, n) = update_where P f (rd_rows db) in (db\<lparr>rd_rows := rows\<rparr>, n))"

text \<open>\<open>lock_lease\<close>: the target of the row that still carries the lease, locked.\<close>

definition lock_lease :: "timestamp \<Rightarrow> repair_lease \<Rightarrow> repair_db \<Rightarrow> int option" where
  "lock_lease now lease db = map_option cq_target (find (repair_holds now lease) (rd_rows db))"

definition sql_repair_ack :: "repair_lease \<Rightarrow> int \<Rightarrow> int option \<Rightarrow> timestamp \<Rightarrow> timestamp \<Rightarrow> repair_db \<Rightarrow> repair_db \<times> bool" where
  "sql_repair_ack lease target repaired locked_at now db =
     (case lock_lease locked_at lease db of
        None \<Rightarrow> (db, False)
      | Some current \<Rightarrow>
          let covered = (case repaired of None \<Rightarrow> current = target | Some revision \<Rightarrow> current \<le> revision);
              (db', settled) =
                (if covered then delete_where (repair_holds now lease) db
                 else repair_update (repair_holds now lease) (\<lambda>r. r\<lparr>cq_lease_owner := None, cq_lease_until := None\<rparr>) db)
          in (db', settled = 1))"

definition repair_acknowledge :: "repair_call \<Rightarrow> repair_lease \<Rightarrow> u64 option \<Rightarrow> repair_db \<Rightarrow> repair_db \<times> (bool, storage_error) result" where
  "repair_acknowledge call lease repaired_revision db =
     (case and_then (required_revision_to_i64 (rl_record lease) (rl_target lease)) (\<lambda>target.
            and_then (case repaired_revision of
                None \<Rightarrow> Ok None
              | Some revision \<Rightarrow> and_then (required_revision_to_i64 (rl_record lease) revision) (\<lambda>n. Ok (Some n)))
              (\<lambda>repaired. Ok (target, repaired))) of
        Err e \<Rightarrow> (db, Err e)
      | Ok (target, repaired) \<Rightarrow>
          pg_call (rc_pg call) (sql_repair_ack lease target repaired (rc_stmt call) (rc_now call)) db)"

definition sql_repair_fail :: "repair_lease \<Rightarrow> string \<Rightarrow> int \<Rightarrow> int \<Rightarrow> timestamp \<Rightarrow> timestamp \<Rightarrow> repair_db \<Rightarrow> repair_db \<times> bool" where
  "sql_repair_fail lease error delay maximum locked_at now db =
     (case lock_lease locked_at lease db of
        None \<Rightarrow> (db, False)
      | Some _ \<Rightarrow>
          let (db', updated) = repair_update (repair_holds now lease)
                (\<lambda>r. r\<lparr>cq_attempt_count := cq_attempt_count r + 1, cq_last_error := Some error,
                       cq_lease_owner := None, cq_lease_until := None,
                       cq_available_at := (if cq_attempt_count r + 1 \<ge> maximum then cq_available_at r else now + interval_ms delay),
                       cq_dead_lettered_at := (if cq_attempt_count r + 1 \<ge> maximum then Some now else None)\<rparr>) db
          in (db', updated = 1))"

definition repair_fail :: "repair_call \<Rightarrow> repair_lease \<Rightarrow> string \<Rightarrow> u64 \<Rightarrow> u32 \<Rightarrow> repair_db \<Rightarrow>
    repair_db \<times> (bool, storage_error) result" where
  "repair_fail call lease error delay_ms max_attempts db =
     (if max_attempts = 0 then (db, Err (QueueProtocol ''maximum attempts must be greater than zero''))
      else case i64_try_from delay_ms (QueueProtocol ''retry delay is too large'') of
        Err e \<Rightarrow> (db, Err e)
      | Ok delay \<Rightarrow> pg_call (rc_pg call) (sql_repair_fail lease (bounded_error error) delay (uint max_attempts)
          (rc_stmt call) (rc_now call)) db)"

definition requeueable :: "record_key \<Rightarrow> timestamp \<Rightarrow> repair_row \<Rightarrow> bool" where
  "requeueable record now r \<longleftrightarrow> cq_record r = record \<and> cq_dead_lettered_at r \<noteq> None \<and>
     (case cq_lease_until r of None \<Rightarrow> True | Some t \<Rightarrow> t \<le> now)"

definition sql_repair_requeue :: "record_key \<Rightarrow> timestamp \<Rightarrow> repair_db \<Rightarrow> repair_db \<times> nat" where
  "sql_repair_requeue record now db =
     (if list_ex (requeueable record now) (rd_rows db)
         then repair_update (requeueable record now) (\<lambda>r. r\<lparr>cq_attempt_count := 0, cq_lease_token := rd_sequence db + 1, cq_available_at := now,
                cq_lease_owner := None, cq_lease_until := None, cq_last_error := None, cq_dead_lettered_at := None\<rparr>)
                (db\<lparr>rd_sequence := rd_sequence db + 1\<rparr>)
         else (db, 0))"

definition repair_requeue_dead_letter :: "repair_call \<Rightarrow> record_key \<Rightarrow> repair_db \<Rightarrow> repair_db \<times> (bool, storage_error) result" where
  "repair_requeue_dead_letter call record db =
     (let (db', r) = pg_call (rc_pg call) (sql_repair_requeue record (rc_now call)) db
      in (db', and_then r (\<lambda>updated. Ok (updated = 1))))"

section \<open>The worker\<close>

text \<open>
  One round: the hints are flushed, one repair is claimed, the cache of its record is rebuilt
  (\<open>repair\<close>, with the revision then cached or \<open>None\<close> for a missing record), and the lease is settled.
\<close>

definition process_cache_repair_once :: "(nat \<Rightarrow> repair_call) \<Rightarrow> (storage_error \<Rightarrow> string) \<Rightarrow>
    (record_key \<Rightarrow> (u64 option, storage_error) result) \<Rightarrow> string \<Rightarrow> retry_worker_policy \<Rightarrow> hints \<Rightarrow> repair_db \<Rightarrow>
    hints \<times> repair_db \<times> (process_outcome, backend_error) result" where
  "process_cache_repair_once call error_text repair worker policy pending db =
     (case policy_validate policy of
        Err e \<Rightarrow> (pending, db, Err e)
      | Ok policy \<Rightarrow>
          let (pending, db, r) = hint_flush (call 0) pending db
          in case r of
            Err e \<Rightarrow> (pending, db, Err (Storage e))
          | Ok _ \<Rightarrow>
              let (db, r) = repair_claim (call 1) worker (rp_lease_ms policy) db
              in case r of
                Err e \<Rightarrow> (pending, db, Err (Storage e))
              | Ok None \<Rightarrow> (pending, db, Ok QueueEmpty)
              | Ok (Some lease) \<Rightarrow>
                  (case repair (rl_record lease) of
                     Ok repaired \<Rightarrow>
                       let (db, r) = repair_acknowledge (call 2) lease repaired db
                       in (pending, db, and_then (map_err Storage r) (\<lambda>b. Ok (if b then Committed else LeaseLost)))
                   | Err error \<Rightarrow>
                       let dead_lettered = (ucast (rp_max_attempts policy) \<le> saturating_add (rl_attempt_count lease) 1);
                           (db, r) = repair_fail (call 2) lease (error_text error)
                             (retry_delay_ms policy (rl_attempt_count lease)) (rp_max_attempts policy) db
                       in (pending, db, and_then (map_err Storage r) (\<lambda>b.
                            Ok (if \<not> b then LeaseLost else if dead_lettered then DeadLettered else RetryScheduled)))))"

section \<open>Runs\<close>

datatype repair_op =
    EnqueueRepair repair_call record_key u64
  | AckCached repair_call record_key u64
  | AckCachedMulti repair_call "(record_key \<times> u64) list"
  | ClaimRepair repair_call string u64
  | AckRepair repair_call repair_lease "u64 option"
  | FailRepair repair_call repair_lease string u64 u32
  | RequeueRepair repair_call record_key

datatype repair_reply =
    RepairEnqueued "(unit, storage_error) result"
  | RepairCleared "(nat, storage_error) result"
  | RepairClaimed "(repair_lease option, storage_error) result"
  | RepairSettled "(bool, storage_error) result"
  | RepairChanged "(bool, storage_error) result"

fun repair_step :: "repair_db \<Rightarrow> repair_op \<Rightarrow> repair_db \<times> repair_reply" where
  "repair_step db (EnqueueRepair call record target) = map_prod id RepairEnqueued (repair_enqueue call record target db)"
| "repair_step db (AckCached call record cached) = map_prod id RepairChanged (acknowledge_cached call record cached db)"
| "repair_step db (AckCachedMulti call targets) = map_prod id RepairCleared (acknowledge_cached_revisions call targets db)"
| "repair_step db (ClaimRepair call worker ms) = map_prod id RepairClaimed (repair_claim call worker ms db)"
| "repair_step db (AckRepair call lease repaired) = map_prod id RepairSettled (repair_acknowledge call lease repaired db)"
| "repair_step db (FailRepair call lease error delay maximum) =
     map_prod id RepairSettled (repair_fail call lease error delay maximum db)"
| "repair_step db (RequeueRepair call record) = map_prod id RepairChanged (repair_requeue_dead_letter call record db)"

definition repair_new :: repair_db where
  "repair_new = \<lparr>rd_rows = [], rd_sequence = 0\<rparr>"

definition repair_ok :: "repair_db \<Rightarrow> bool" where
  "repair_ok db \<longleftrightarrow> distinct (map cq_record (rd_rows db)) \<and> 0 \<le> rd_sequence db \<and>
     (\<forall>r\<in>set (rd_rows db). cq_lease_token r \<le> rd_sequence db)"

lemma repair_ok_new [simp]: "repair_ok repair_new"
  by (simp add: repair_ok_def repair_new_def)

lemma same_record: "repair_ok db \<Longrightarrow> r \<in> set (rd_rows db) \<Longrightarrow> p \<in> set (rd_rows db) \<Longrightarrow>
    cq_record r = cq_record p \<Longrightarrow> r = p"
  unfolding repair_ok_def by (auto simp: distinct_map inj_on_def)

text \<open>
  A statement keeps the leases of the rows it does not settle: every row afterwards is without a
  lease, carries a token later than the sequence was, or has the lease of the row of the same record.
\<close>

definition leases_kept :: "repair_db \<Rightarrow> repair_db \<Rightarrow> bool" where
  "leases_kept db db' \<longleftrightarrow> rd_sequence db \<le> rd_sequence db' \<and>
     (\<forall>r'\<in>set (rd_rows db'). cq_lease_owner r' = None \<or> rd_sequence db < cq_lease_token r' \<or>
        (\<exists>r\<in>set (rd_rows db). cq_record r = cq_record r' \<and> cq_lease_owner r = cq_lease_owner r' \<and>
           cq_lease_token r = cq_lease_token r'))"

definition good_statement :: "repair_db \<Rightarrow> repair_db \<Rightarrow> bool" where
  "good_statement db db' \<longleftrightarrow> leases_kept db db' \<and> repair_ok db'"

lemma good_statement_refl: "repair_ok db \<Longrightarrow> good_statement db db"
  unfolding good_statement_def leases_kept_def by auto

lemma pg_call_good: "repair_ok db \<Longrightarrow> good_statement db (fst (f db)) \<Longrightarrow> good_statement db (fst (pg_call pg f db))"
  using pg_call_state [of pg f db] good_statement_refl by (elim disjE) simp_all

lemma good_delete: "repair_ok db \<Longrightarrow> good_statement db (fst (delete_where P db))"
  by (auto simp: good_statement_def leases_kept_def delete_where_def repair_ok_def distinct_map_filter)

lemma good_map:
  assumes ok: "repair_ok db" and rows: "rd_rows db' = map f (rd_rows db)" and seq: "rd_sequence db \<le> rd_sequence db'"
    and f: "\<And>r. r \<in> set (rd_rows db) \<Longrightarrow> cq_record (f r) = cq_record r \<and>
      (cq_lease_token (f r) = cq_lease_token r \<or> cq_lease_token (f r) = rd_sequence db') \<and>
      (cq_lease_owner (f r) = None \<or> rd_sequence db < cq_lease_token (f r) \<or>
       cq_lease_owner (f r) = cq_lease_owner r \<and> cq_lease_token (f r) = cq_lease_token r)"
  shows "good_statement db db'"
proof -
  have "map (cq_record \<circ> f) (rd_rows db) = map cq_record (rd_rows db)" using f by simp
  then have "distinct (map cq_record (rd_rows db'))" using ok by (simp only: rows map_map repair_ok_def)
  moreover have "cq_lease_token (f r) \<le> rd_sequence db'" if "r \<in> set (rd_rows db)" for r
    using f [OF that] ok seq that by (force simp: repair_ok_def)
  ultimately have "repair_ok db'" using ok seq by (simp add: repair_ok_def rows)
  moreover have "leases_kept db db'" unfolding leases_kept_def
  proof (intro conjI ballI)
    fix r' assume "r' \<in> set (rd_rows db')"
    then obtain r where r: "r \<in> set (rd_rows db)" "r' = f r" by (auto simp: rows)
    then show "cq_lease_owner r' = None \<or> rd_sequence db < cq_lease_token r' \<or>
        (\<exists>r\<in>set (rd_rows db). cq_record r = cq_record r' \<and> cq_lease_owner r = cq_lease_owner r' \<and>
           cq_lease_token r = cq_lease_token r')"
      using f [OF r(1)] by metis
  qed (rule seq)
  ultimately show ?thesis by (simp add: good_statement_def)
qed

lemma good_update:
  assumes ok: "repair_ok db" and f: "\<And>r. P r \<Longrightarrow> cq_record (f r) = cq_record r \<and> cq_lease_token (f r) = cq_lease_token r \<and> cq_lease_owner (f r) = None"
  shows "good_statement db (fst (repair_update P f db))"
  by (rule good_map [OF ok, where f = "\<lambda>r. if P r then f r else r"]) (use f in \<open>simp_all add: repair_update_def update_where_def\<close>)

lemma good_enqueue:
  assumes ok: "repair_ok db"
  shows "good_statement db (fst (sql_enqueue k n now db))"
proof (cases "list_ex (\<lambda>r. cq_record r = k) (rd_rows db)")
  case True
  show ?thesis
    by (rule good_map [OF ok, where f = "\<lambda>r. if cq_record r = k then r\<lparr>cq_target := max (cq_target r) n\<rparr> else r"])
      (simp_all add: sql_enqueue_def True)
next
  case False
  then have "k \<notin> cq_record ` set (rd_rows db)" by (auto simp: list_ex_iff)
  then show ?thesis using False ok
    by (auto simp: sql_enqueue_def good_statement_def leases_kept_def repair_ok_def)
qed

lemma good_claim:
  assumes ok: "repair_ok db"
  shows "good_statement db (fst (sql_repair_claim w ms stmt now l db))"
proof (cases "take 1 (sort_key repair_order (repair_choice stmt l (\<lambda>t. t = None) (rd_rows db) @
    repair_choice stmt l (\<lambda>t. case t of None \<Rightarrow> False | Some u \<Rightarrow> u \<le> stmt) (rd_rows db)))")
  case Nil
  then show ?thesis by (simp add: sql_repair_claim_def good_statement_refl [OF ok])
next
  case (Cons c cs)
  show ?thesis
    by (rule good_map [OF ok, where f = "\<lambda>r. if cq_record r = cq_record c
        then r\<lparr>cq_lease_owner := Some w, cq_lease_token := rd_sequence db + 1, cq_lease_until := Some (now + interval_ms ms)\<rparr> else r"])
      (use Cons in \<open>simp_all add: sql_repair_claim_def Let_def\<close>)
qed

lemma good_requeue:
  assumes ok: "repair_ok db"
  shows "good_statement db (fst (sql_repair_requeue k now db))"
proof (cases "list_ex (requeueable k now) (rd_rows db)")
  case True
  show ?thesis
    by (rule good_map [OF ok, where f = "\<lambda>r. if requeueable k now r then r\<lparr>cq_attempt_count := 0,
        cq_lease_token := rd_sequence db + 1, cq_available_at := now, cq_lease_owner := None, cq_lease_until := None,
        cq_last_error := None, cq_dead_lettered_at := None\<rparr> else r"])
      (use True in \<open>simp_all add: sql_repair_requeue_def repair_update_def update_where_def\<close>)
qed (simp add: sql_repair_requeue_def good_statement_refl [OF ok])

lemma repair_step_good:
  assumes ok: "repair_ok db"
  shows "good_statement db (fst (repair_step db op))"
proof (cases op)
  case (EnqueueRepair call k n)
  then show ?thesis
    by (simp add: repair_enqueue_def good_statement_refl [OF ok] pg_call_good [OF ok] good_enqueue [OF ok] split: result.splits)
next
  case (AckCached call k n)
  then show ?thesis
    by (simp add: acknowledge_cached_def case_prod_unfold Let_def good_statement_refl [OF ok] pg_call_good [OF ok] good_delete [OF ok]
        split: result.splits)
next
  case (AckCachedMulti call ts)
  then show ?thesis
    by (simp add: acknowledge_cached_revisions_def good_statement_refl [OF ok] pg_call_good [OF ok] good_delete [OF ok]
        split: result.splits)
next
  case (ClaimRepair call w ms)
  then show ?thesis
    by (simp add: repair_claim_def case_prod_unfold Let_def good_statement_refl [OF ok] pg_call_good [OF ok] good_claim [OF ok]
        split: result.splits)
next
  case (AckRepair call l n)
  have "good_statement db (fst (sql_repair_ack l t n' a b db))" for t n' a b
    by (simp add: sql_repair_ack_def case_prod_unfold Let_def good_statement_refl [OF ok] good_delete [OF ok] good_update [OF ok]
        split: option.splits)
  then show ?thesis
    by (simp add: AckRepair repair_acknowledge_def good_statement_refl [OF ok] pg_call_good [OF ok] split: result.splits)
next
  case (FailRepair call l e d m)
  have "good_statement db (fst (sql_repair_fail l e' d' m' a b db))" for e' d' m' a b
    by (simp add: sql_repair_fail_def case_prod_unfold Let_def good_statement_refl [OF ok] good_update [OF ok] split: option.splits)
  then show ?thesis
    by (simp add: FailRepair repair_fail_def good_statement_refl [OF ok] pg_call_good [OF ok] split: result.splits)
next
  case (RequeueRepair call k)
  then show ?thesis
    by (simp add: repair_requeue_dead_letter_def case_prod_unfold Let_def pg_call_good [OF ok] good_requeue [OF ok])
qed

lemma repair_ok_step: "repair_ok db \<Longrightarrow> repair_ok (fst (repair_step db op))"
  using repair_step_good by (simp add: good_statement_def)

section \<open>Fencing\<close>

type_synonym repair_ticket = "record_key \<times> int \<times> string"

definition repair_ticket :: "repair_lease \<Rightarrow> repair_ticket" where
  "repair_ticket l = (rl_record l, rl_lease_token l, rl_lease_owner l)"

definition repair_live :: "repair_db \<Rightarrow> repair_ticket \<Rightarrow> bool" where
  "repair_live db = (\<lambda>(k, t, w). \<exists>r\<in>set (rd_rows db). cq_record r = k \<and> cq_lease_owner r = Some w \<and> cq_lease_token r = t)"

text \<open>Tokens come from one sequence for the whole queue, since a row may be deleted and created again.\<close>

definition repair_issued :: "repair_db \<Rightarrow> repair_ticket \<Rightarrow> bool" where
  "repair_issued db = (\<lambda>(k, t, w). t \<le> rd_sequence db)"

fun repair_granted :: "repair_reply \<Rightarrow> repair_ticket set" where
  "repair_granted (RepairClaimed (Ok (Some l))) = {repair_ticket l}"
| "repair_granted _ = {}"

fun repair_settled :: "repair_op \<Rightarrow> repair_reply \<Rightarrow> repair_ticket option" where
  "repair_settled (AckRepair call l n) (RepairSettled (Ok True)) = Some (repair_ticket l)"
| "repair_settled (FailRepair call l e d m) (RepairSettled (Ok True)) = Some (repair_ticket l)"
| "repair_settled _ _ = None"

lemma repair_dead_stays_dead:
  assumes "leases_kept db db'" and "repair_issued db t" and "repair_live db' t"
  shows "repair_live db t"
proof -
  obtain k n w where t: "t = (k, n, w)" by (cases t)
  obtain r' where r': "r' \<in> set (rd_rows db')" "cq_record r' = k" "cq_lease_owner r' = Some w" "cq_lease_token r' = n"
    using assms(3) by (auto simp: repair_live_def t)
  then have "\<exists>r\<in>set (rd_rows db). cq_record r = k \<and> cq_lease_owner r = Some w \<and> cq_lease_token r = n"
    using assms(1,2) unfolding leases_kept_def by (force simp: repair_issued_def t)
  then show ?thesis by (simp add: repair_live_def t)
qed

lemma repair_claimed_row:
  assumes ok: "repair_ok db" and "repair_claim call w ms db = (db', Ok (Some l))"
  shows "repair_live db' (repair_ticket l)" and "rl_lease_token l = rd_sequence db + 1" and "rd_sequence db' = rd_sequence db + 1"
proof -
  obtain n row where c: "sql_repair_claim w n (rc_stmt call) (rc_now call) (rc_locked call) db = (db', Some row)"
    and l: "repair_lease_of_row w row = Ok l"
  proof -
    obtain n where n: "and_then (validate_worker w ms) (\<lambda>_. i64_try_from ms (QueueProtocol ''lease duration is too large'')) = Ok n"
      using assms(2) by (auto simp: repair_claim_def split: result.splits)
    obtain x where "pg_call (rc_pg call) (sql_repair_claim w n (rc_stmt call) (rc_now call) (rc_locked call)) db = (db', Ok x)"
      and x: "(case x of None \<Rightarrow> Ok None | Some y \<Rightarrow> and_then (repair_lease_of_row w y) (\<lambda>l. Ok (Some l))) = Ok (Some l)"
      using assms(2) by (auto simp: repair_claim_def n Let_def and_then_Ok_iff split: prod.splits)
    from pg_call_Ok [OF this(1)] x that show ?thesis by (auto simp: and_then_Ok_iff split: option.splits)
  qed
  obtain cand where cand: "take 1 (sort_key repair_order (repair_choice (rc_stmt call) (rc_locked call) (\<lambda>t. t = None) (rd_rows db) @
      repair_choice (rc_stmt call) (rc_locked call) (\<lambda>t. case t of None \<Rightarrow> False | Some u \<Rightarrow> u \<le> rc_stmt call) (rd_rows db))) = [cand]"
  proof -
    let ?xs = "sort_key repair_order (repair_choice (rc_stmt call) (rc_locked call) (\<lambda>t. t = None) (rd_rows db) @
      repair_choice (rc_stmt call) (rc_locked call) (\<lambda>t. case t of None \<Rightarrow> False | Some u \<Rightarrow> u \<le> rc_stmt call) (rd_rows db))"
    have "take 1 ?xs \<noteq> []" using c by (auto simp: sql_repair_claim_def Let_def)
    then show ?thesis using that by (cases ?xs) auto
  qed
  have row: "row = cand\<lparr>cq_lease_owner := Some w, cq_lease_token := rd_sequence db + 1, cq_lease_until := Some (rc_now call + interval_ms n)\<rparr>"
    and db': "rd_sequence db' = rd_sequence db + 1" "rd_rows db' = map (\<lambda>r. if cq_record r = cq_record cand then r\<lparr>cq_lease_owner := Some w,
      cq_lease_token := rd_sequence db + 1, cq_lease_until := Some (rc_now call + interval_ms n)\<rparr> else r) (rd_rows db)"
    using c cand by (auto simp: sql_repair_claim_def Let_def)
  have t: "repair_ticket l = (cq_record cand, rd_sequence db + 1, w)" "rl_lease_token l = rd_sequence db + 1"
    using l by (auto simp: repair_lease_of_row_def and_then_Ok_iff map_err_Ok_iff record_key_new_iff row repair_ticket_def)
  have "cand \<in> set (take 1 (sort_key repair_order (repair_choice (rc_stmt call) (rc_locked call) (\<lambda>t. t = None) (rd_rows db) @
      repair_choice (rc_stmt call) (rc_locked call) (\<lambda>t. case t of None \<Rightarrow> False | Some u \<Rightarrow> u \<le> rc_stmt call) (rd_rows db))))"
    using cand by simp
  then have "cand \<in> set (rd_rows db)" by (auto simp: repair_choice_def dest!: in_set_takeD)
  then have "row \<in> set (rd_rows db')" unfolding row db' by (auto intro!: image_eqI [of _ _ cand])
  then show "repair_live db' (repair_ticket l)" unfolding repair_live_def t by (auto simp: row intro!: bexI [of _ row])
  show "rl_lease_token l = rd_sequence db + 1" "rd_sequence db' = rd_sequence db + 1" by (fact t db')+
qed

lemma repair_settle:
  assumes ok: "repair_ok db" and r: "r \<in> set (rd_rows db)" "repair_holds now l r"
  shows "repair_live db (repair_ticket l)" and "\<not> repair_live (fst (delete_where (repair_holds now l) db)) (repair_ticket l)"
    and "(\<And>q. cq_record (f q) = cq_record q \<and> cq_lease_owner (f q) = None) \<Longrightarrow>
      \<not> repair_live (fst (repair_update (repair_holds now l) f db)) (repair_ticket l)"
proof -
  have one: "repair_holds now l q" if "q \<in> set (rd_rows db)" "cq_record q = rl_record l" for q
  proof -
    have "q = r" by (rule same_record [OF ok that(1) r(1)]) (use that(2) r(2) in \<open>simp add: repair_holds_def\<close>)
    then show ?thesis using r(2) by simp
  qed
  show "repair_live db (repair_ticket l)" using r by (auto simp: repair_live_def repair_ticket_def repair_holds_def)
  show "\<not> repair_live (fst (delete_where (repair_holds now l) db)) (repair_ticket l)"
    using one by (auto simp: repair_live_def repair_ticket_def delete_where_def)
  assume f: "\<And>q. cq_record (f q) = cq_record q \<and> cq_lease_owner (f q) = None"
  show "\<not> repair_live (fst (repair_update (repair_holds now l) f db)) (repair_ticket l)"
  proof
    assume "repair_live (fst (repair_update (repair_holds now l) f db)) (repair_ticket l)"
    then obtain q where q: "q \<in> set (rd_rows db)" "cq_record (if repair_holds now l q then f q else q) = rl_record l"
      "cq_lease_owner (if repair_holds now l q then f q else q) \<noteq> None"
      by (auto simp: repair_live_def repair_ticket_def repair_update_def update_where_def)
    then have "repair_holds now l q" using one f by (auto split: if_splits)
    then show False using q(3) f by simp
  qed
qed

lemma settled_count:
  "repair_update (repair_holds now l) f db = (db', Suc 0) \<Longrightarrow> \<exists>r\<in>set (rd_rows db). repair_holds now l r"
  "delete_where (repair_holds now l) db = (db', Suc 0) \<Longrightarrow> \<exists>r\<in>set (rd_rows db). repair_holds now l r"
  by (auto simp: repair_update_def update_where_def delete_where_def length_Suc_conv filter_eq_Cons_iff)

lemma repair_settled_step:
  assumes ok: "repair_ok db" and "repair_settled op (snd (repair_step db op)) = Some t"
  shows "repair_live db t \<and> \<not> repair_live (fst (repair_step db op)) t"
proof (cases op)
  case (AckRepair call l n)
  have t: "t = repair_ticket l" and a: "snd (repair_acknowledge call l n db) = Ok True"
    using assms(2) by (auto simp: AckRepair elim: repair_settled.elims)
  obtain target rep where "pg_call (rc_pg call) (sql_repair_ack l target rep (rc_stmt call) (rc_now call)) db = (fst (repair_step db op), Ok True)"
    using a by (auto simp: AckRepair repair_acknowledge_def prod_eq_iff split: result.splits prod.splits)
  from pg_call_Ok [OF this] have "delete_where (repair_holds (rc_now call) l) db = (fst (repair_step db op), Suc 0) \<or>
      repair_update (repair_holds (rc_now call) l) (\<lambda>r. r\<lparr>cq_lease_owner := None, cq_lease_until := None\<rparr>) db = (fst (repair_step db op), Suc 0)"
    by (auto simp: sql_repair_ack_def Let_def split: option.splits prod.splits if_splits)
  then show ?thesis unfolding t
  proof
    assume d: "delete_where (repair_holds (rc_now call) l) db = (fst (repair_step db op), Suc 0)"
    obtain r where r: "r \<in> set (rd_rows db)" "repair_holds (rc_now call) l r" using settled_count(2) [OF d] by blast
    show "repair_live db (repair_ticket l) \<and> \<not> repair_live (fst (repair_step db op)) (repair_ticket l)"
      using repair_settle(1,2) [OF ok r] d by simp
  next
    assume u: "repair_update (repair_holds (rc_now call) l) (\<lambda>r. r\<lparr>cq_lease_owner := None, cq_lease_until := None\<rparr>) db = (fst (repair_step db op), Suc 0)"
    obtain r where r: "r \<in> set (rd_rows db)" "repair_holds (rc_now call) l r" using settled_count(1) [OF u] by blast
    show "repair_live db (repair_ticket l) \<and> \<not> repair_live (fst (repair_step db op)) (repair_ticket l)"
      using repair_settle(1) [OF ok r] repair_settle(3) [OF ok r, of "\<lambda>r. r\<lparr>cq_lease_owner := None, cq_lease_until := None\<rparr>"] u by simp
  qed
next
  case (FailRepair call l e d m)
  have t: "t = repair_ticket l" and a: "snd (repair_fail call l e d m db) = Ok True"
    using assms(2) by (auto simp: FailRepair elim: repair_settled.elims)
  obtain k where "pg_call (rc_pg call) (sql_repair_fail l (bounded_error e) k (uint m) (rc_stmt call) (rc_now call)) db = (fst (repair_step db op), Ok True)"
    using a by (auto simp: FailRepair repair_fail_def prod_eq_iff split: result.splits if_splits)
  then obtain f where u: "repair_update (repair_holds (rc_now call) l) f db = (fst (repair_step db op), Suc 0)"
    and f: "\<And>q. cq_record (f q) = cq_record q \<and> cq_lease_owner (f q) = None"
    using that by (auto simp: sql_repair_fail_def Let_def dest!: pg_call_Ok split: option.splits prod.splits)
  obtain r where r: "r \<in> set (rd_rows db)" "repair_holds (rc_now call) l r" using settled_count(1) [OF u] by blast
  show ?thesis using repair_settle(1) [OF ok r] repair_settle(3) [OF ok r f] u t by simp
qed (use assms(2) in \<open>auto elim: repair_settled.elims\<close>)

interpretation cr: lease_fencing repair_step repair_ok repair_live repair_issued repair_granted repair_settled fst
proof
  fix db op t t'
  assume ok: "repair_ok db"
  note good = repair_step_good [OF ok, of op]
  show "repair_ok (fst (repair_step db op))" by (rule repair_ok_step [OF ok])
  show "repair_issued db t \<Longrightarrow> repair_issued (fst (repair_step db op)) t"
    using good by (auto simp: repair_issued_def good_statement_def leases_kept_def)
  show "repair_issued db t \<Longrightarrow> \<not> repair_live db t \<Longrightarrow> \<not> repair_live (fst (repair_step db op)) t"
    using repair_dead_stays_dead good unfolding good_statement_def by blast
  show "repair_live db t \<Longrightarrow> repair_live db t' \<Longrightarrow> fst t = fst t' \<Longrightarrow> t = t'"
    using same_record [OF ok] by (auto simp: repair_live_def case_prod_unfold prod_eq_iff) (metis option.inject)+
  show "repair_settled op (snd (repair_step db op)) = Some t \<Longrightarrow> repair_live db t \<and> \<not> repair_live (fst (repair_step db op)) t"
    by (rule repair_settled_step [OF ok])
  assume g: "t \<in> repair_granted (snd (repair_step db op))"
  obtain call w ms l where op: "op = ClaimRepair call w ms" and t: "t = repair_ticket l"
    and "snd (repair_claim call w ms db) = Ok (Some l)"
    using g by (cases op; cases "snd (repair_step db op)" rule: repair_granted.cases) (auto simp: case_prod_unfold)
  then have "repair_claim call w ms db = (fst (repair_step db op), Ok (Some l))" by (simp add: prod_eq_iff)
  note c = repair_claimed_row [OF ok this]
  show "repair_live (fst (repair_step db op)) t" using c(1) t by simp
  show "repair_issued (fst (repair_step db op)) t" "\<not> repair_issued db t"
    using c(2,3) by (simp_all add: t repair_issued_def repair_ticket_def)
qed

section \<open>Coverage\<close>

definition repair_pending :: "repair_db \<Rightarrow> record_key \<Rightarrow> int \<Rightarrow> bool" where
  "repair_pending db k n \<longleftrightarrow> (\<exists>r\<in>set (rd_rows db). cq_record r = k \<and> n \<le> cq_target r)"

text \<open>The calls that report the cache of a record at revision \<open>n\<close> or later.\<close>

fun reports_cached :: "repair_op \<Rightarrow> record_key \<Rightarrow> int \<Rightarrow> bool" where
  "reports_cached (AckCached call k' cached) k n \<longleftrightarrow> k' = k \<and> n \<le> uint cached"
| "reports_cached (AckCachedMulti call targets) k n \<longleftrightarrow> list_ex (\<lambda>(k', cached). k' = k \<and> n \<le> uint cached) targets"
| "reports_cached (AckRepair call lease repaired) k n \<longleftrightarrow> rl_record lease = k \<and>
     n \<le> uint (case repaired of None \<Rightarrow> rl_target lease | Some revision \<Rightarrow> revision)"
| "reports_cached _ k n \<longleftrightarrow> False"

lemma pg_call_pending:
  "repair_pending db k n \<Longrightarrow> repair_pending (fst (f db)) k n \<or> C \<Longrightarrow> repair_pending (fst (pg_call pg f db)) k n \<or> C"
  using pg_call_state [of pg f db] by (elim disjE) simp_all

lemmas pg_call_keeps = pg_call_pending [where C = False, simplified]

lemma pending_map:
  assumes "repair_pending db k n" and "rd_rows db' = map f (rd_rows db)"
    and "\<And>r. cq_record (f r) = cq_record r \<and> cq_target r \<le> cq_target (f r)"
  shows "repair_pending db' k n"
  using assms unfolding repair_pending_def by (force intro: order_trans)

lemma pending_delete:
  assumes "repair_pending db k n" and "\<And>r. r \<in> set (rd_rows db) \<Longrightarrow> cq_record r = k \<Longrightarrow> n \<le> cq_target r \<Longrightarrow> P r \<Longrightarrow> C"
  shows "repair_pending (fst (delete_where P db)) k n \<or> C"
  using assms by (auto simp: repair_pending_def delete_where_def)

lemma pending_claim:
  assumes "repair_pending db k n"
  shows "repair_pending (fst (sql_repair_claim w ms stmt now l db)) k n"
proof (cases "take 1 (sort_key repair_order (repair_choice stmt l (\<lambda>t. t = None) (rd_rows db) @
    repair_choice stmt l (\<lambda>t. case t of None \<Rightarrow> False | Some u \<Rightarrow> u \<le> stmt) (rd_rows db)))")
  case Nil
  then show ?thesis using assms by (simp add: sql_repair_claim_def)
next
  case (Cons c cs)
  show ?thesis
    by (rule pending_map [OF assms, where f = "\<lambda>r. if cq_record r = cq_record c
        then r\<lparr>cq_lease_owner := Some w, cq_lease_token := rd_sequence db + 1, cq_lease_until := Some (now + interval_ms ms)\<rparr> else r"])
      (use Cons in \<open>simp_all add: sql_repair_claim_def Let_def\<close>)
qed

lemma pending_update:
  assumes "repair_pending db k n" and "\<And>r. cq_record (f r) = cq_record r \<and> cq_target r \<le> cq_target (f r)"
  shows "repair_pending (fst (repair_update P f db)) k n"
  by (rule pending_map [OF assms(1), where f = "\<lambda>r. if P r then f r else r"])
    (use assms(2) in \<open>simp_all add: repair_update_def update_where_def\<close>)

lemma pending_ack:
  assumes ok: "repair_ok db" and pending: "repair_pending db k n"
  shows "repair_pending (fst (sql_repair_ack l target repaired locked_at now db)) k n \<or>
    rl_record l = k \<and> n \<le> (case repaired of None \<Rightarrow> target | Some c \<Rightarrow> c)"
proof (cases "lock_lease locked_at l db")
  case None
  then show ?thesis using pending by (simp add: sql_repair_ack_def)
next
  case (Some current)
  then obtain q where "find (repair_holds locked_at l) (rd_rows db) = Some q" and t: "current = cq_target q"
    by (auto simp: lock_lease_def)
  then have q: "q \<in> set (rd_rows db)" "repair_holds locked_at l q" "current = cq_target q"
    by (auto simp: find_Some_iff)
  let ?covered = "case repaired of None \<Rightarrow> current = target | Some c \<Rightarrow> current \<le> c"
  show ?thesis
  proof (cases ?covered)
    case True
    have "repair_pending (fst (delete_where (repair_holds now l) db)) k n \<or>
        rl_record l = k \<and> n \<le> (case repaired of None \<Rightarrow> target | Some c \<Rightarrow> c)"
    proof (rule pending_delete [OF pending])
      fix r assume r: "r \<in> set (rd_rows db)" "cq_record r = k" "n \<le> cq_target r" "repair_holds now l r"
      have "r = q" by (rule same_record [OF ok r(1) q(1)]) (use r(4) q(2) in \<open>simp add: repair_holds_def\<close>)
      then show "rl_record l = k \<and> n \<le> (case repaired of None \<Rightarrow> target | Some c \<Rightarrow> c)"
        using True r q by (auto simp: repair_holds_def split: option.splits)
    qed
    then show ?thesis using True Some by (simp add: sql_repair_ack_def case_prod_unfold Let_def)
  next
    case False
    have "repair_pending (fst (repair_update (repair_holds now l) (\<lambda>r. r\<lparr>cq_lease_owner := None, cq_lease_until := None\<rparr>) db)) k n"
      by (rule pending_update [OF pending]) simp
    then show ?thesis using False Some by (simp add: sql_repair_ack_def case_prod_unfold Let_def)
  qed
qed

lemma pending_enqueue:
  assumes "repair_pending db k n"
  shows "repair_pending (fst (sql_enqueue k' t now db)) k n"
proof (cases "list_ex (\<lambda>r. cq_record r = k') (rd_rows db)")
  case True
  show ?thesis
    by (rule pending_map [OF assms, where f = "\<lambda>r. if cq_record r = k' then r\<lparr>cq_target := max (cq_target r) t\<rparr> else r"])
      (simp_all add: sql_enqueue_def True)
qed (use assms in \<open>auto simp: sql_enqueue_def repair_pending_def\<close>)

lemma enqueued_pending: "repair_pending (fst (sql_enqueue k n now db)) k n"
proof (cases "list_ex (\<lambda>r. cq_record r = k) (rd_rows db)")
  case True
  then obtain r where r: "r \<in> set (rd_rows db)" "cq_record r = k" by (auto simp: list_ex_iff)
  then have "r\<lparr>cq_target := max (cq_target r) n\<rparr> \<in> set (rd_rows (fst (sql_enqueue k n now db)))"
    using True by (auto simp: sql_enqueue_def)
  then show ?thesis unfolding repair_pending_def by (rule bexI [rotated]) (simp add: r(2))
qed (simp add: sql_enqueue_def repair_pending_def)

lemma pending_requeue:
  assumes "repair_pending db k n"
  shows "repair_pending (fst (sql_repair_requeue k' now db)) k n"
proof -
  have "repair_pending (db\<lparr>rd_sequence := rd_sequence db + 1\<rparr>) k n" using assms by (simp add: repair_pending_def)
  then show ?thesis using assms by (simp add: sql_repair_requeue_def pending_update)
qed

lemma try_map_revisions:
  "try_map (\<lambda>(k, c). required_revision_to_i64 k c) ts = Ok ns \<Longrightarrow> zip (map fst ts) ns = map (\<lambda>(k, c). (k, uint c)) ts"
  by (induction ts arbitrary: ns) (auto simp: and_then_Ok_iff required_revision_to_i64_def i64_try_from_def split: if_splits)

lemma repair_step_pending:
  assumes ok: "repair_ok db" and pending: "repair_pending db k n"
  shows "repair_pending (fst (repair_step db op)) k n \<or> reports_cached op k n"
proof (cases op)
  case (EnqueueRepair call k' t)
  then show ?thesis using pending
    by (simp add: repair_enqueue_def pending_enqueue [OF pending] pg_call_keeps split: result.splits)
next
  case (AckCached call k' c)
  have "repair_pending (fst (delete_where (\<lambda>r. cq_record r = k' \<and> cq_target r \<le> uint c) db)) k n \<or> k' = k \<and> n \<le> uint c"
    by (rule pending_delete [OF pending]) auto
  from pg_call_pending [where f = "delete_where (\<lambda>r. cq_record r = k' \<and> cq_target r \<le> uint c)" and pg = "rc_pg call", OF pending this] show ?thesis using pending
    by (simp add: AckCached acknowledge_cached_def required_revision_to_i64_def i64_try_from_def case_prod_unfold Let_def)
next
  case (AckCachedMulti call ts)
  have "repair_pending (fst (delete_where (\<lambda>r. \<not> rc_locked call (cq_record r) \<and>
      list_ex (\<lambda>(k', c). cq_record r = k' \<and> cq_target r \<le> c) (map (\<lambda>(k', c). (k', uint c)) ts)) db)) k n \<or>
      list_ex (\<lambda>(k', c). k' = k \<and> n \<le> uint c) ts"
  proof (rule pending_delete [OF pending])
    fix r assume r: "cq_record r = k" "n \<le> cq_target r"
      and "\<not> rc_locked call (cq_record r) \<and>
        list_ex (\<lambda>(k', c). cq_record r = k' \<and> cq_target r \<le> c) (map (\<lambda>(k', c). (k', uint c)) ts)"
    then obtain c where "(k, c) \<in> set ts" "cq_target r \<le> uint c" by (auto simp: list_ex_iff)
    then show "list_ex (\<lambda>(k', c). k' = k \<and> n \<le> uint c) ts" using r(2) by (auto simp: list_ex_iff intro: bexI [of _ "(k, c)"])
  qed
  from pg_call_pending [where f = "delete_where (\<lambda>r. \<not> rc_locked call (cq_record r) \<and>
      list_ex (\<lambda>(k', c). cq_record r = k' \<and> cq_target r \<le> c) (map (\<lambda>(k', c). (k', uint c)) ts))" and pg = "rc_pg call", OF pending this] show ?thesis using pending
    by (auto simp: AckCachedMulti acknowledge_cached_revisions_def try_map_revisions split: result.splits)
next
  case (ClaimRepair call w ms)
  then show ?thesis using pending
    by (simp add: repair_claim_def pending_claim [OF pending] pg_call_keeps case_prod_unfold Let_def split: result.splits)
next
  case (AckRepair call l c)
  show ?thesis
  proof (cases "repair_acknowledge call l c db = (db, snd (repair_acknowledge call l c db))")
    case True
    then have "fst (repair_acknowledge call l c db) = db" by (metis fst_conv)
    then show ?thesis using pending by (simp add: AckRepair)
  next
    case False
    then obtain rep where rep: "repair_acknowledge call l c db =
        pg_call (rc_pg call) (sql_repair_ack l (uint (rl_target l)) rep (rc_stmt call) (rc_now call)) db"
      "rep = map_option uint c"
      by (auto simp: repair_acknowledge_def required_revision_to_i64_def i64_try_from_def split: option.splits if_splits)
    have "repair_pending (fst (sql_repair_ack l (uint (rl_target l)) rep (rc_stmt call) (rc_now call) db)) k n \<or>
        reports_cached op k n"
      using pending_ack [OF ok pending, of l "uint (rl_target l)" rep "rc_stmt call" "rc_now call"]
      by (auto simp: AckRepair rep(2) split: option.splits)
    from pg_call_pending [where f = "sql_repair_ack l (uint (rl_target l)) rep (rc_stmt call) (rc_now call)" and pg = "rc_pg call", OF pending this] show ?thesis by (simp add: AckRepair rep(1))
  qed
next
  case (FailRepair call l e d m)
  have "repair_pending (fst (sql_repair_fail l e' d' m' a b db)) k n" for e' d' m' a b
    using pending by (simp add: sql_repair_fail_def case_prod_unfold Let_def pending_update split: option.splits)
  then show ?thesis using pending
    by (simp add: FailRepair repair_fail_def pg_call_keeps split: result.splits)
next
  case (RequeueRepair call k')
  then show ?thesis
    by (simp add: repair_requeue_dead_letter_def pending_requeue [OF pending] pg_call_keeps pending case_prod_unfold Let_def)
qed

lemma pending_run:
  assumes "repair_ok db" and "repair_pending db k n" and "\<forall>op\<in>set ops. \<not> reports_cached op k n"
  shows "repair_pending (fst (run repair_step db ops)) k n"
  using assms
proof (induction ops arbitrary: db)
  case (Cons op ops)
  then show ?case
    using Cons.IH [OF repair_ok_step [OF Cons.prems(1)], of op] repair_step_pending [OF Cons.prems(1,2), of op]
    by (simp add: case_prod_unfold Let_def)
qed simp

section \<open>Properties\<close>

text \<open>
  C2. A requested cache repair is never lost: once a request for a revision of a record succeeded, the
  queue holds a row for that record with at least that target until some call reports the cache at that
  revision or later, whatever claims, failures, expired leases, dead letters, requeues, releases and
  stale reports happen in between and however statements fail.
\<close>

theorem repair_never_lost:
  assumes "run repair_step repair_new ops = (db, rs)" and "i < length ops"
    and "ops ! i = EnqueueRepair call k n" and "rs ! i = RepairEnqueued (Ok ())"
    and "\<forall>j. i < j \<and> j < length ops \<longrightarrow> \<not> reports_cached (ops ! j) k (uint n)"
  shows "repair_pending db k (uint n)"
proof -
  define before where "before = fst (run repair_step repair_new (take i ops))"
  have ok: "repair_ok before" unfolding before_def by (rule run_invariant [OF repair_ok_step repair_ok_new])
  have "snd (repair_enqueue call k n before) = Ok ()"
    using run_nth [OF assms(1,2)] assms(3,4) by (simp add: before_def)
  then have "repair_pending (fst (repair_enqueue call k n before)) k (uint n)"
    using enqueued_pending [of k "uint n" "rc_now call" before] pg_call_Ok [of "rc_pg call" "sql_enqueue k (uint n) (rc_now call)" before]
    by (auto simp: repair_enqueue_def required_revision_to_i64_def i64_try_from_def prod_eq_iff split: if_splits)
  then have p: "repair_pending (fst (repair_step before (ops ! i))) k (uint n)" using assms(3) by simp
  have "\<forall>op\<in>set (drop (Suc i) ops). \<not> reports_cached op k (uint n)"
    using assms(5) by (auto simp: in_set_conv_nth)
  from pending_run [OF repair_ok_step [OF ok] p this]
  have "repair_pending (fst (run repair_step repair_new (take (Suc i) ops @ drop (Suc i) ops))) k (uint n)"
    using run_take_Suc [OF assms(2), of repair_step repair_new]
    unfolding run_append by (simp add: case_prod_unfold Let_def before_def)
  then show ?thesis using assms(1) by simp
qed

definition demo_record :: record_key where
  "demo_record = \<lparr>namespace = ''players'', key = ''1''\<rparr>"

lemma demo_record_valid: "record_key_new (namespace demo_record) (key demo_record) = Ok demo_record"
  unfolding record_key_new_self by (simp add: valid_record_def demo_record_def)

definition demo_repair_call :: "timestamp \<Rightarrow> repair_call" where
  "demo_repair_call now = \<lparr>rc_pg = Executed, rc_stmt = now, rc_now = now, rc_locked = (\<lambda>k. False)\<rparr>"

definition demo_repair_lease :: "string \<Rightarrow> int \<Rightarrow> repair_lease" where
  "demo_repair_lease w token = \<lparr>rl_record = demo_record, rl_target = 7, rl_attempt_count = 0, rl_lease_token = token, rl_lease_owner = w\<rparr>"

text \<open>
  A repair to revision 7 is requested and claimed; a report of revision 3 does not clear it; the lease
  expires and another worker claims the row and settles it, while the first worker's settlement fails.
\<close>

definition demo_repairs :: "repair_op list" where
  "demo_repairs = [EnqueueRepair (demo_repair_call 0) demo_record 7, ClaimRepair (demo_repair_call 10) ''w1'' 1,
     AckCached (demo_repair_call 11) demo_record 3, ClaimRepair (demo_repair_call 5000) ''w2'' 1,
     AckRepair (demo_repair_call 5001) (demo_repair_lease ''w1'' 1) (Some 5),
     AckRepair (demo_repair_call 5002) (demo_repair_lease ''w2'' 2) (Some 7)]"

lemma demo_repair_run:
  "snd (run repair_step repair_new demo_repairs) =
     [RepairEnqueued (Ok ()), RepairClaimed (Ok (Some (demo_repair_lease ''w1'' 1))), RepairChanged (Ok False),
      RepairClaimed (Ok (Some (demo_repair_lease ''w2'' 2))), RepairSettled (Ok False), RepairSettled (Ok True)]"
  by (simp add: demo_repairs_def repair_enqueue_def required_revision_to_i64_def i64_try_from_def demo_repair_call_def
      sql_enqueue_def repair_new_def repair_claim_def validate_worker_def sql_repair_claim_def repair_choice_def
      repair_lease_of_row_def demo_record_valid u64_try_from_def revision_from_i64_def demo_repair_lease_def acknowledge_cached_def
      delete_where_def repair_acknowledge_def sql_repair_ack_def lock_lease_def repair_holds_def repair_update_def
      update_where_def interval_ms_def Let_def)

theorem repair_never_lost_witness:
  "repair_pending (fst (run repair_step repair_new (take 5 demo_repairs))) demo_record 7"
proof -
  let ?ops = "take 5 demo_repairs"
  obtain db rs where r: "run repair_step repair_new ?ops = (db, rs)" by fastforce
  have "run repair_step repair_new (?ops @ drop 5 demo_repairs) =
      (let (s', rs) = run repair_step repair_new ?ops; (s'', rs') = run repair_step s' (drop 5 demo_repairs) in (s'', rs @ rs'))"
    by (rule run_append)
  then have "snd (run repair_step repair_new demo_repairs) = rs @ snd (run repair_step db (drop 5 demo_repairs))"
    by (simp add: r case_prod_unfold Let_def)
  moreover have "length rs = 5" using run_length [of repair_step repair_new ?ops] r by (simp add: demo_repairs_def)
  ultimately have "rs ! 0 = RepairEnqueued (Ok ())"
    using arg_cong [OF demo_repair_run, of "\<lambda>x. x ! 0"] by (simp add: nth_append)
  moreover have "\<forall>j. 0 < j \<and> j < length ?ops \<longrightarrow> \<not> reports_cached (?ops ! j) demo_record (uint (7 :: u64))"
    by (auto simp: demo_repairs_def less_Suc_eq demo_repair_lease_def)
  ultimately show ?thesis
    using repair_never_lost [OF r, of 0 "demo_repair_call 0" demo_record 7] r by (simp add: demo_repairs_def)
qed

text \<open>
  C3. Leases of cache repairs are fenced although rows are deleted and created again: when a worker's
  settlement of its lease succeeds, no other lease of the record was granted and no other one settled
  since it was granted, and the same lease never settles a second time.
\<close>

theorem repair_leases_fenced:
  assumes "run repair_step repair_new ops = (db, rs)" and "i < j" and "j < length ops"
    and "rs ! i = RepairClaimed (Ok (Some l))" and "repair_settled (ops ! j) (rs ! j) = Some (repair_ticket l)"
  shows "(\<forall>m. i < m \<and> m < j \<longrightarrow>
      (\<forall>l'. rs ! m = RepairClaimed (Ok (Some l')) \<longrightarrow> rl_record l' \<noteq> rl_record l) \<and>
      (\<forall>t. repair_settled (ops ! m) (rs ! m) = Some t \<longrightarrow> fst t \<noteq> rl_record l)) \<and>
    (\<forall>m. j < m \<and> m < length ops \<longrightarrow> repair_settled (ops ! m) (rs ! m) \<noteq> Some (repair_ticket l))"
proof -
  have g: "repair_ticket l \<in> repair_granted (rs ! i)" using assms(4) by simp
  have item: "fst (repair_ticket l') = rl_record l'" for l' by (simp add: repair_ticket_def)
  note excl = cr.exclusive_until_settled [OF repair_ok_new assms(1) _ _ assms(3) g assms(5), unfolded item]
  have "rl_record l' \<noteq> rl_record l" if "i < m" "m < j" "rs ! m = RepairClaimed (Ok (Some l'))" for m l'
  proof -
    have "repair_ticket l' \<in> repair_granted (rs ! m)" using that(3) by simp
    then show ?thesis using excl [OF that(1,2)] item [of l'] by metis
  qed
  moreover have "fst t \<noteq> rl_record l" if "i < m" "m < j" "repair_settled (ops ! m) (rs ! m) = Some t" for m t
    using excl [OF that(1,2)] that(3) by blast
  moreover have "repair_settled (ops ! m) (rs ! m) \<noteq> Some (repair_ticket l)" if "j < m" "m < length ops" for m
    using cr.settled_at_most_once [OF repair_ok_new assms(1,2) that g assms(5)] .
  ultimately show ?thesis by blast
qed

theorem repair_leases_fenced_witness:
  "snd (run repair_step repair_new demo_repairs) ! 3 = RepairClaimed (Ok (Some (demo_repair_lease ''w2'' 2))) \<and>
   repair_settled (demo_repairs ! 4) (snd (run repair_step repair_new demo_repairs) ! 4) \<noteq>
     Some (repair_ticket (demo_repair_lease ''w1'' 1))"
proof -
  obtain db rs where r: "run repair_step repair_new demo_repairs = (db, rs)" by fastforce
  then have rs: "rs = snd (run repair_step repair_new demo_repairs)" by simp
  have g: "rs ! 3 = RepairClaimed (Ok (Some (demo_repair_lease ''w2'' 2)))" unfolding rs demo_repair_run by simp
  have "repair_settled (demo_repairs ! 5) (rs ! 5) = Some (repair_ticket (demo_repair_lease ''w2'' 2))"
    unfolding rs demo_repair_run by (simp add: demo_repairs_def)
  moreover have "5 < length demo_repairs" by (simp add: demo_repairs_def)
  moreover have "rl_record (demo_repair_lease ''w2'' 2) = demo_record" by (simp add: demo_repair_lease_def)
  ultimately have "\<forall>t. repair_settled (demo_repairs ! 4) (rs ! 4) = Some t \<longrightarrow> fst t \<noteq> demo_record"
    using repair_leases_fenced [OF r, of 3 5 "demo_repair_lease ''w2'' 2", THEN conjunct1, THEN spec [of _ 4]] g by simp
  then have "repair_settled (demo_repairs ! 4) (rs ! 4) \<noteq> Some (repair_ticket (demo_repair_lease ''w1'' 1))"
    by (auto simp: repair_ticket_def demo_repair_lease_def)
  with g show ?thesis by (simp add: rs)
qed

text \<open>The hints stay within their capacity and only ever grow the revision they hold for a record.\<close>

lemma hints_bounded:
  "length pending \<le> CAPACITY \<Longrightarrow> length (hint_record k n pending) \<le> CAPACITY"
proof -
  have "length (AList.update k v pending) = length pending" if "map_of pending k = Some c" for v c
    using that by (induction pending) (auto split: if_splits)
  then show "length pending \<le> CAPACITY \<Longrightarrow> ?thesis" by (auto simp: hint_record_def split: option.splits)
qed

lemma hints_grow:
  "map_of pending k = Some c \<Longrightarrow> map_of (hint_record k' n pending) k = Some (if k' = k then max c n else c)"
  by (auto simp: hint_record_def update_conv' map_add_def split: option.splits)

end
