(* ===== verification/Postgres_Store.thy ===== *)
theory Postgres_Store
  imports Memory_Spec Cache_Repair
begin

text \<open>
  \<open>PostgresSnapshotStore\<close> of \<open>crates/dbproxy-storage/src/lib.rs\<close> with \<open>commit.rs\<close>: the authoritative store
  of snapshots, single-record transactions and multi-record commits, as functions on the tables. The
  trades follow in \<open>Postgres_Trade\<close>, the retention jobs in \<open>Postgres_Operations\<close>.

  A transaction is one function on the database: the row locks and advisory locks of the source order
  concurrent transactions, and the model has them in that order. Its result is an error, which rolls
  everything back, or the new database. The branches of the source for a row that another transaction
  created in between are kept. \<open>pe_pg\<close> says whether the connection fails before or after the commit.
  Columns of type \<open>BIGINT\<close> are integers; a sum beyond their range is the error 22003 of PostgreSQL.
  The byte encoding of effects (\<open>bincode\<close>) is the parameter \<open>pp_encode\<close>.
\<close>

section \<open>Tables\<close>

record snapshot_row =
  ns_schema :: string
  ns_schema_version :: int
  ns_revision :: int
  ns_payload :: bytes
  ns_updated_at :: int
  ns_queued_sequence :: "int option"

record idempotency_row =
  iq_record :: record_key
  iq_schema :: string
  iq_schema_version :: int
  iq_payload :: bytes
  iq_expected :: "int option"
  iq_revision :: int
  iq_updated_at :: "int option"
  iq_recorded_at :: timestamp

record claim_row =
  oc_kind :: string
  oc_claimed_at :: timestamp
  oc_retired_at :: "timestamp option"

record transaction_row =
  xr_record :: record_key
  xr_schema :: string
  xr_schema_version :: int
  xr_expected :: int
  xr_payload :: bytes
  xr_result :: bytes
  xr_new_revision :: int
  xr_updated_at :: int

record multi_header =
  mh_result :: bytes
  mh_record_count :: int
  mh_updated_at :: int

record multi_row =
  mv_record :: record_key
  mv_schema :: string
  mv_schema_version :: int
  mv_expected :: int
  mv_payload :: bytes
  mv_updated_at :: int
  mv_new_revision :: int

record append_row =
  ax_operation_id :: string
  ax_schema :: string
  ax_schema_version :: int
  ax_payload :: bytes
  ax_occurred_at :: int

record trade_row =
  tv_version :: int
  tv_state :: int
  tv_payload :: bytes
  tv_updated_at :: int

record trade_header =
  th_trade_id :: string
  th_expected_version :: int
  th_expected_state :: "int option"
  th_next_state :: int
  th_payload :: bytes
  th_result :: bytes
  th_record_count :: int
  th_ledger_count :: int
  th_outbox_count :: int
  th_new_version :: int
  th_updated_at :: int

record ledger_row =
  lx_posting_id :: string
  lx_operation_id :: string
  lx_trade_id :: string
  lx_account_id :: string
  lx_asset :: string
  lx_amount :: int
  lx_metadata :: bytes
  lx_created_at :: int

record postgres =
  pg_snapshots :: "record_key \<rightharpoonup> snapshot_row"
  pg_idempotency :: "string \<rightharpoonup> idempotency_row"
  pg_claims :: "string \<rightharpoonup> claim_row"
  pg_transactions :: "string \<rightharpoonup> transaction_row"
  pg_multis :: "string \<rightharpoonup> multi_header"
  pg_multi_records :: "string \<Rightarrow> multi_row list"
  pg_effects :: "string \<rightharpoonup> bytes"
  pg_appends :: "record_key \<rightharpoonup> append_row"
  pg_trades :: "string \<rightharpoonup> trade_row"
  pg_trade_operations :: "string \<rightharpoonup> trade_header"
  pg_trade_records :: "string \<Rightarrow> multi_row list"
  pg_ledger :: "ledger_row list"
  pg_outbox :: outbox_db
  pg_repairs :: repair_db

record pg_params =
  pp_codec :: json_codec
  pp_encode :: "commit_effects \<Rightarrow> (bytes, storage_error) result"

record pg_env =
  pe_pg :: pg_outcome
  pe_now :: timestamp
  pe_order :: nat

definition postgres_new :: postgres where
  "postgres_new = \<lparr>pg_snapshots = Map.empty, pg_idempotency = Map.empty, pg_claims = Map.empty,
     pg_transactions = Map.empty, pg_multis = Map.empty, pg_multi_records = (\<lambda>i. []), pg_effects = Map.empty,
     pg_appends = Map.empty, pg_trades = Map.empty, pg_trade_operations = Map.empty, pg_trade_records = (\<lambda>i. []),
     pg_ledger = [], pg_outbox = outbox_new, pg_repairs = repair_new\<rparr>"

text \<open>A transaction with its commit.\<close>

fun transact :: "pg_outcome \<Rightarrow> (postgres \<times> 'a, storage_error) result \<Rightarrow> postgres \<Rightarrow>
    postgres \<times> ('a, storage_error) result" where
  "transact (FailedBefore e) body db = (db, Err e)"
| "transact Executed body db = (case body of Err e \<Rightarrow> (db, Err e) | Ok (db', x) \<Rightarrow> (db', Ok x))"
| "transact (FailedAfter e) body db = (case body of Err e' \<Rightarrow> (db, Err e') | Ok (db', x) \<Rightarrow> (db', Err e))"

section \<open>Validation and conversions\<close>

definition check_record_key :: "record_key \<Rightarrow> (unit, storage_error) result" where
  "check_record_key record =
     (if blank (namespace record) then Err (StorageCore (InvalidKey ''namespace is empty''))
      else if blank (key record) then Err (StorageCore (InvalidKey ''key is empty''))
      else Ok ())"

definition validate_request :: "snapshot_write \<Rightarrow> (unit, storage_error) result" where
  "validate_request q =
     (if blank (sw_request_id q) then Err (StorageCore EmptyRequestId) else check_record_key (sw_record q))"

definition validate_transaction_request :: "transactional_write \<Rightarrow> (unit, storage_error) result" where
  "validate_transaction_request q =
     (if blank (tw_operation_id q) then Err (StorageCore EmptyOperationId) else check_record_key (tw_record q))"

definition validate_receipt_lookup :: "string \<Rightarrow> record_key \<Rightarrow> (unit, storage_error) result" where
  "validate_receipt_lookup i record =
     (if blank i then Err (StorageCore EmptyOperationId) else check_record_key record)"

definition validate_multi_transaction_request :: "multi_record_transactional_write \<Rightarrow> (unit, storage_error) result" where
  "validate_multi_transaction_request q =
     (if blank (mw_operation_id q) then Err (StorageCore EmptyOperationId)
      else if mw_writes q = [] then Err (StorageCore EmptyTransactionRecords)
      else case first_adjacent (\<lambda>r. r) (sort (map rw_record (mw_writes q))) of
        Some r \<Rightarrow> Err (StorageCore (DuplicateTransactionRecord r))
      | None \<Rightarrow> try_each (\<lambda>w. and_then (check_record_key (rw_record w)) (\<lambda>_.
          ensure (\<not> blank (rw_schema w)) (StorageCore (InvalidKey ''schema is empty'')))) (mw_writes q))"

definition revision_to_i64 :: "record_key \<Rightarrow> revision option \<Rightarrow> (int option, storage_error) result" where
  "revision_to_i64 record r =
     (case r of None \<Rightarrow> Ok None | Some v \<Rightarrow> and_then (required_revision_to_i64 record v) (\<lambda>n. Ok (Some n)))"

definition schema_version_to_i64 :: "u32 \<Rightarrow> int" where
  "schema_version_to_i64 v = uint v"

definition timestamp_to_i64 :: "record_key \<Rightarrow> u64 \<Rightarrow> (int, storage_error) result" where
  "timestamp_to_i64 record t = i64_try_from t (TimestampTooLarge record)"

definition timestamp_from_i64 :: "record_key \<Rightarrow> int \<Rightarrow> (u64, storage_error) result" where
  "timestamp_from_i64 record n = (if n < 0 then Err (InvalidTimestamp record (of_int n)) else Ok (of_int n))"

definition snapshot_from_row :: "record_key \<Rightarrow> snapshot_row \<Rightarrow> (snapshot_envelope, storage_error) result" where
  "snapshot_from_row record row =
     and_then (if 0 \<le> ns_schema_version row \<and> ns_schema_version row < 2 ^ 32
               then Ok (of_int (ns_schema_version row)) else Err (SchemaVersionTooLarge record)) (\<lambda>version.
     and_then (revision_from_i64 record (ns_revision row)) (\<lambda>revision.
     and_then (timestamp_from_i64 record (ns_updated_at row)) (\<lambda>updated_at.
       Ok \<lparr>se_record = record, se_schema = ns_schema row, se_schema_version = version, se_revision = revision,
           se_payload = ns_payload row, se_updated_at_unix_ms = updated_at\<rparr>)))"

definition idempotency_matches :: "idempotency_row \<Rightarrow> snapshot_write \<Rightarrow> int \<Rightarrow> int option \<Rightarrow> int \<Rightarrow> bool" where
  "idempotency_matches row q schema_version expected updated_at \<longleftrightarrow>
     iq_record row = sw_record q \<and> iq_schema row = sw_schema q \<and> iq_schema_version row = schema_version \<and>
     iq_payload row = sw_payload q \<and> iq_expected row = expected \<and>
     (case iq_updated_at row of None \<Rightarrow> True | Some persisted \<Rightarrow> persisted = updated_at)"

definition transaction_matches :: "transaction_row \<Rightarrow> transactional_write \<Rightarrow> int \<Rightarrow> int \<Rightarrow> int \<Rightarrow> bool" where
  "transaction_matches row q schema_version expected updated_at \<longleftrightarrow>
     xr_record row = tw_record q \<and> xr_schema row = tw_schema q \<and> xr_schema_version row = schema_version \<and>
     xr_expected row = expected \<and> xr_payload row = tw_payload q \<and> xr_result row = tw_result q \<and>
     xr_updated_at row = updated_at"

definition multi_transaction_row_matches :: "multi_row \<Rightarrow> transactional_record_write \<Rightarrow> bool" where
  "multi_transaction_row_matches row w \<longleftrightarrow>
     uint (rw_expected_revision w) < 2 ^ 63 \<and> uint (rw_updated_at_unix_ms w) < 2 ^ 63 \<and>
     mv_record row = rw_record w \<and> mv_schema row = rw_schema w \<and>
     mv_schema_version row = uint (rw_schema_version w) \<and> mv_expected row = uint (rw_expected_revision w) \<and>
     mv_payload row = rw_payload w \<and> mv_updated_at row = uint (rw_updated_at_unix_ms w)"

section \<open>Shared statements\<close>

definition bigint_successor :: "int \<Rightarrow> (int, storage_error) result" where
  "bigint_successor n = (if n + 1 < 2 ^ 63 then Ok (n + 1) else Err (Postgres (Some ''22003'')))"

definition enqueue_in_transaction :: "timestamp \<Rightarrow> record_key \<Rightarrow> revision \<Rightarrow> postgres \<Rightarrow> (postgres, storage_error) result" where
  "enqueue_in_transaction now record target db =
     and_then (required_revision_to_i64 record target) (\<lambda>n.
       Ok (db\<lparr>pg_repairs := fst (sql_enqueue record n now (pg_repairs db))\<rparr>))"

definition pg_claim_operation :: "timestamp \<Rightarrow> string \<Rightarrow> string \<Rightarrow> postgres \<Rightarrow> (postgres, storage_error) result" where
  "pg_claim_operation now i kind db =
     (let (db, claim) = (case pg_claims db i of
            Some claim \<Rightarrow> (db, claim)
          | None \<Rightarrow>
              let claim = \<lparr>oc_kind = kind, oc_claimed_at = now, oc_retired_at = None\<rparr>
              in (db\<lparr>pg_claims := (pg_claims db)(i \<mapsto> claim)\<rparr>, claim))
      in if oc_kind claim \<noteq> kind then Err (StorageCore (OperationIdConflict i))
         else if oc_retired_at claim \<noteq> None then Err (StorageCore (OperationExpired i))
         else Ok db)"

definition pg_actual_revision :: "postgres \<Rightarrow> record_key \<Rightarrow> (revision, storage_error) result" where
  "pg_actual_revision db record =
     (case pg_snapshots db record of None \<Rightarrow> Ok 0 | Some row \<Rightarrow> revision_from_i64 record (ns_revision row))"

section \<open>Snapshots\<close>

definition written_row :: "snapshot_write \<Rightarrow> int \<Rightarrow> int \<Rightarrow> int \<Rightarrow> int option \<Rightarrow> snapshot_row" where
  "written_row q schema_version revision updated_at sequence =
     \<lparr>ns_schema = sw_schema q, ns_schema_version = schema_version, ns_revision = revision,
      ns_payload = sw_payload q, ns_updated_at = updated_at, ns_queued_sequence = sequence\<rparr>"

text \<open>The statement with the parts \<open>updated\<close> and \<open>inserted\<close>, and the unconditional upsert of a blind write.\<close>

definition sql_save :: "snapshot_write \<Rightarrow> int \<Rightarrow> int option \<Rightarrow> int \<Rightarrow> postgres \<Rightarrow> (postgres \<times> int option, storage_error) result" where
  "sql_save q schema_version expected updated_at db =
     (case pg_snapshots db (sw_record q) of
        Some row \<Rightarrow>
          if expected = None \<or> expected = Some (ns_revision row)
          then and_then (bigint_successor (ns_revision row)) (\<lambda>revision.
            Ok (db\<lparr>pg_snapshots := (pg_snapshots db)(sw_record q \<mapsto>
                  written_row q schema_version revision updated_at (ns_queued_sequence row))\<rparr>, Some revision))
          else Ok (db, None)
      | None \<Rightarrow>
          if expected = None \<or> expected = Some 0
          then Ok (db\<lparr>pg_snapshots := (pg_snapshots db)(sw_record q \<mapsto> written_row q schema_version 1 updated_at None)\<rparr>,
                   Some 1)
          else Ok (db, None))"

definition sql_upsert :: "snapshot_write \<Rightarrow> int \<Rightarrow> int \<Rightarrow> postgres \<Rightarrow> (postgres \<times> int option, storage_error) result" where
  "sql_upsert q schema_version updated_at db =
     (case pg_snapshots db (sw_record q) of
        Some row \<Rightarrow> and_then (bigint_successor (ns_revision row)) (\<lambda>revision.
          Ok (db\<lparr>pg_snapshots := (pg_snapshots db)(sw_record q \<mapsto>
                written_row q schema_version revision updated_at (ns_queued_sequence row))\<rparr>, Some revision))
      | None \<Rightarrow> Ok (db\<lparr>pg_snapshots := (pg_snapshots db)(sw_record q \<mapsto>
            written_row q schema_version 1 updated_at None)\<rparr>, Some 1))"

text \<open>The fenced write overwrites only a row with a smaller sequence or none.\<close>

definition sql_fenced :: "snapshot_write \<Rightarrow> int \<Rightarrow> int \<Rightarrow> int \<Rightarrow> postgres \<Rightarrow> (postgres \<times> int option, storage_error) result" where
  "sql_fenced q schema_version updated_at fence db =
     (case pg_snapshots db (sw_record q) of
        Some row \<Rightarrow>
          if (case ns_queued_sequence row of None \<Rightarrow> True | Some n \<Rightarrow> n < fence)
          then and_then (bigint_successor (ns_revision row)) (\<lambda>revision.
            Ok (db\<lparr>pg_snapshots := (pg_snapshots db)(sw_record q \<mapsto>
                  written_row q schema_version revision updated_at (Some fence))\<rparr>, Some revision))
          else Ok (db, None)
      | None \<Rightarrow> Ok (db\<lparr>pg_snapshots := (pg_snapshots db)(sw_record q \<mapsto>
            written_row q schema_version 1 updated_at (Some fence))\<rparr>, Some 1))"

text \<open>The receipt gets its revision and the cache a repair: the last two statements of both kinds of save.\<close>

definition settle_receipt :: "timestamp \<Rightarrow> snapshot_write \<Rightarrow> revision \<Rightarrow> postgres \<Rightarrow> (postgres, storage_error) result" where
  "settle_receipt now q revision db =
     and_then (i64_try_from revision (RevisionTooLarge (sw_record q))) (\<lambda>n.
       enqueue_in_transaction now (sw_record q) revision
         (db\<lparr>pg_idempotency := (pg_idempotency db)(sw_request_id q :=
             map_option (\<lambda>r. r\<lparr>iq_revision := n\<rparr>) (pg_idempotency db (sw_request_id q)))\<rparr>))"

definition save_fenced_snapshot :: "timestamp \<Rightarrow> snapshot_write \<Rightarrow> int \<Rightarrow> int \<Rightarrow> int \<Rightarrow> postgres \<Rightarrow>
    (postgres \<times> snapshot_write_outcome, storage_error) result" where
  "save_fenced_snapshot now q schema_version updated_at fence db =
     and_then (sql_fenced q schema_version updated_at fence db) (\<lambda>(db, written).
     and_then (case written of
         Some n \<Rightarrow> and_then (revision_from_i64 (sw_record q) n) (\<lambda>v. Ok (v, Applied v))
       | None \<Rightarrow> and_then (pg_actual_revision db (sw_record q)) (\<lambda>v. Ok (v, Duplicate v))) (\<lambda>(revision, outcome).
     and_then (settle_receipt now q revision db) (\<lambda>db. Ok (db, outcome))))"

text \<open>
  A save inside a transaction. The result of a refused entry keeps the database of the transaction, in
  which a batch continues. A claim that lost against a receipt reads it: the loop of the source repeats
  only when a concurrent cleanup removes the receipt in between.
\<close>

definition claimed_receipt :: "timestamp \<Rightarrow> snapshot_write \<Rightarrow> int \<Rightarrow> int option \<Rightarrow> int \<Rightarrow> idempotency_row" where
  "claimed_receipt now q schema_version expected updated_at =
     \<lparr>iq_record = sw_record q, iq_schema = sw_schema q, iq_schema_version = schema_version,
      iq_payload = sw_payload q, iq_expected = expected, iq_revision = 0,
      iq_updated_at = Some updated_at, iq_recorded_at = now\<rparr>"

definition replay_save :: "timestamp \<Rightarrow> snapshot_write \<Rightarrow> idempotency_row \<Rightarrow> postgres \<Rightarrow>
    (postgres \<times> snapshot_write_outcome, storage_error) result" where
  "replay_save now q receipt db =
     and_then (revision_from_i64 (sw_record q) (iq_revision receipt)) (\<lambda>revision.
     and_then (enqueue_in_transaction now (sw_record q) revision db) (\<lambda>db. Ok (db, Duplicate revision)))"

definition save_snapshot_in_transaction :: "timestamp \<Rightarrow> snapshot_write \<Rightarrow> int \<Rightarrow> int option \<Rightarrow> int \<Rightarrow> int option \<Rightarrow>
    postgres \<Rightarrow> postgres \<times> (snapshot_write_outcome, storage_error) result" where
  "save_snapshot_in_transaction now q schema_version expected updated_at fence db =
     (case pg_idempotency db (sw_request_id q) of
        Some receipt \<Rightarrow>
          if \<not> idempotency_matches receipt q schema_version expected updated_at
          then (db, Err (StorageCore (IdempotencyConflict (sw_request_id q))))
          else (case replay_save now q receipt db of Err e \<Rightarrow> (db, Err e) | Ok (db, outcome) \<Rightarrow> (db, Ok outcome))
      | None \<Rightarrow>
          let claimed = db\<lparr>pg_idempotency := (pg_idempotency db)(sw_request_id q \<mapsto>
                claimed_receipt now q schema_version expected updated_at)\<rparr>
          in case fence of
               Some f \<Rightarrow>
                 (case save_fenced_snapshot now q schema_version updated_at f claimed of
                    Err e \<Rightarrow> (claimed, Err e)
                  | Ok (db, outcome) \<Rightarrow> (db, Ok outcome))
             | None \<Rightarrow>
                 (case and_then (sql_save q schema_version expected updated_at claimed) (\<lambda>(db, snapshot).
                         if snapshot = None \<and> expected = None then sql_upsert q schema_version updated_at db
                         else Ok (db, snapshot)) of
                    Err e \<Rightarrow> (claimed, Err e)
                  | Ok (db, None) \<Rightarrow>
                      (case pg_actual_revision db (sw_record q) of
                         Err e \<Rightarrow> (db, Err e)
                       | Ok actual \<Rightarrow>
                           (db\<lparr>pg_idempotency := (pg_idempotency db)(sw_request_id q := None)\<rparr>,
                            Err (StorageCore (RevisionConflict (sw_record q) (sw_expected_revision q) actual))))
                  | Ok (db, Some n) \<Rightarrow>
                      (case and_then (revision_from_i64 (sw_record q) n) (\<lambda>revision.
                              and_then (settle_receipt now q revision db) (\<lambda>db. Ok (db, Applied revision))) of
                         Err e \<Rightarrow> (db, Err e)
                       | Ok (db, outcome) \<Rightarrow> (db, Ok outcome))))"

text \<open>A batch: entries that fail their preparation or are refused keep their error, any other error aborts it.\<close>

definition prepare_save :: "snapshot_write \<Rightarrow> u64 option \<Rightarrow> (int \<times> int option \<times> int \<times> int option, storage_error) result" where
  "prepare_save q sequence =
     and_then (validate_request q) (\<lambda>_.
     and_then (case sequence of
         None \<Rightarrow> Ok None
       | Some n \<Rightarrow>
           if sw_expected_revision q \<noteq> None
           then Err (StorageCore (QueuedSnapshotRequiresUnconditionalWrite (sw_record q)))
           else and_then (i64_try_from n (PersistenceProtocol ''queued fence sequence is too large'')) (\<lambda>f. Ok (Some f))) (\<lambda>fence.
     and_then (revision_to_i64 (sw_record q) (sw_expected_revision q)) (\<lambda>expected.
     and_then (timestamp_to_i64 (sw_record q) (sw_updated_at_unix_ms q)) (\<lambda>updated_at.
       Ok (schema_version_to_i64 (sw_schema_version q), expected, updated_at, fence)))))"

fun save_entries :: "timestamp \<Rightarrow> (snapshot_write \<times> (int \<times> int option \<times> int \<times> int option, storage_error) result) list \<Rightarrow>
    postgres \<Rightarrow> (postgres \<times> (snapshot_write_outcome, storage_error) result list, storage_error) result" where
  "save_entries now [] db = Ok (db, [])"
| "save_entries now ((q, prepared) # es) db =
     (case prepared of
        Err e \<Rightarrow> and_then (save_entries now es db) (\<lambda>(db, rs). Ok (db, Err e # rs))
      | Ok (schema_version, expected, updated_at, fence) \<Rightarrow>
          (case save_snapshot_in_transaction now q schema_version expected updated_at fence db of
             (db, Ok outcome) \<Rightarrow> and_then (save_entries now es db) (\<lambda>(db, rs). Ok (db, Ok outcome # rs))
           | (db, Err error) \<Rightarrow>
               (case error of
                  StorageCore e \<Rightarrow> and_then (save_entries now es db) (\<lambda>(db, rs). Ok (db, Err error # rs))
                | _ \<Rightarrow> Err error)))"

definition save_batch_fenced :: "pg_env \<Rightarrow> snapshot_write list \<Rightarrow> u64 option list \<Rightarrow> postgres \<Rightarrow>
    postgres \<times> ((snapshot_write_outcome, storage_error) result list, storage_error) result" where
  "save_batch_fenced env requests sequences db =
     (if requests = [] then (db, Ok [])
      else let prepared = map2 prepare_save requests sequences
           in if list_all (\<lambda>x. \<not> is_ok x) prepared
              then (db, Ok (map (\<lambda>x. and_then x (\<lambda>_. Err (PersistenceProtocol ''batch save result is missing''))) prepared))
              else transact (pe_pg env) (save_entries (pe_now env) (zip requests prepared) db) db)"

definition save_batch :: "pg_env \<Rightarrow> snapshot_write list \<Rightarrow> postgres \<Rightarrow>
    postgres \<times> ((snapshot_write_outcome, storage_error) result list, storage_error) result" where
  "save_batch env requests db = save_batch_fenced env requests (map (\<lambda>_. None) requests) db"

definition save_queued_batch :: "pg_env \<Rightarrow> snapshot_write list \<Rightarrow> u64 list \<Rightarrow> postgres \<Rightarrow>
    postgres \<times> ((snapshot_write_outcome, storage_error) result list, storage_error) result" where
  "save_queued_batch env requests fence_sequences db =
     (if length fence_sequences \<noteq> length requests
      then (db, Err (PersistenceProtocol ''queued batch fence sequences do not match its writes''))
      else save_batch_fenced env requests (map Some fence_sequences) db)"

definition pg_save :: "pg_env \<Rightarrow> snapshot_write \<Rightarrow> postgres \<Rightarrow> postgres \<times> (snapshot_write_outcome, storage_error) result" where
  "pg_save env q db =
     (let (db, r) = save_batch env [q] db
      in (db, and_then r (\<lambda>results. case rev results of
            [] \<Rightarrow> Err (PersistenceProtocol ''single save result is missing'')
          | x # _ \<Rightarrow> x)))"

definition pg_load :: "record_key \<Rightarrow> postgres \<Rightarrow> (snapshot_envelope option, storage_error) result" where
  "pg_load record db =
     (case pg_snapshots db record of
        None \<Rightarrow> Ok None
      | Some row \<Rightarrow> and_then (snapshot_from_row record row) (\<lambda>x. Ok (Some x)))"

text \<open>A record that is asked for twice is answered at its first place only: the map of the results is drained.\<close>

fun drain :: "record_key list \<Rightarrow> (record_key \<rightharpoonup> 'a) \<Rightarrow> 'a option list" where
  "drain [] m = []"
| "drain (r # rs) m = m r # drain rs (m(r := None))"

definition pg_load_multi :: "record_key list \<Rightarrow> postgres \<Rightarrow> (snapshot_envelope option list, storage_error) result" where
  "pg_load_multi records db =
     (if records = [] then Ok []
      else and_then (try_map (\<lambda>r. pg_load r db) records) (\<lambda>found.
        Ok (drain records (\<lambda>r. case pg_load r db of Ok x \<Rightarrow> x | Err _ \<Rightarrow> None))))"

section \<open>Single-record transactions\<close>

definition pg_load_receipt :: "string \<Rightarrow> record_key \<Rightarrow> postgres \<Rightarrow> (transaction_receipt option, storage_error) result" where
  "pg_load_receipt i record db =
     and_then (validate_receipt_lookup i record) (\<lambda>_.
       case pg_transactions db i of
         None \<Rightarrow> Ok None
       | Some row \<Rightarrow>
           if xr_record row \<noteq> record then Err (StorageCore (OperationIdConflict i))
           else and_then (revision_from_i64 record (xr_new_revision row)) (\<lambda>revision.
             Ok (Some \<lparr>tr_operation_id = i, tr_record = record, tr_new_revision = revision, tr_result = xr_result row\<rparr>)))"

definition transaction_row_of :: "transactional_write \<Rightarrow> int \<Rightarrow> int \<Rightarrow> int \<Rightarrow> int \<Rightarrow> transaction_row" where
  "transaction_row_of q schema_version expected updated_at new_revision =
     \<lparr>xr_record = tw_record q, xr_schema = tw_schema q, xr_schema_version = schema_version, xr_expected = expected,
      xr_payload = tw_payload q, xr_result = tw_result q, xr_new_revision = new_revision, xr_updated_at = updated_at\<rparr>"

definition replay_transaction :: "timestamp \<Rightarrow> transactional_write \<Rightarrow> int \<Rightarrow> int \<Rightarrow> int \<Rightarrow> transaction_row \<Rightarrow> postgres \<Rightarrow>
    (postgres \<times> transactional_write_outcome, storage_error) result" where
  "replay_transaction now q schema_version expected updated_at receipt db =
     (if \<not> transaction_matches receipt q schema_version expected updated_at
      then Err (StorageCore (OperationIdConflict (tw_operation_id q)))
      else and_then (revision_from_i64 (tw_record q) (xr_new_revision receipt)) (\<lambda>new_revision.
           and_then (enqueue_in_transaction now (tw_record q) new_revision db) (\<lambda>db.
             Ok (db, Duplicate (new_revision, xr_result receipt)))))"

text \<open>
  The write of the snapshot: an insertion for a record that was not there, which a concurrent creation
  turns into a conflict, and an update otherwise.
\<close>

definition write_transaction :: "transactional_write \<Rightarrow> int \<Rightarrow> int \<Rightarrow> int \<Rightarrow> snapshot_row option \<Rightarrow> postgres \<Rightarrow>
    (postgres \<times> int option, storage_error) result" where
  "write_transaction q schema_version new_revision updated_at current db =
     (let row = \<lparr>ns_schema = tw_schema q, ns_schema_version = schema_version, ns_revision = new_revision,
                 ns_payload = tw_payload q, ns_updated_at = updated_at, ns_queued_sequence = None\<rparr>
      in case (current, pg_snapshots db (tw_record q)) of
           (None, None) \<Rightarrow> Ok (db\<lparr>pg_snapshots := (pg_snapshots db)(tw_record q \<mapsto> row)\<rparr>, Some new_revision)
         | (None, Some _) \<Rightarrow> Ok (db, None)
         | (Some _, None) \<Rightarrow> Ok (db, None)
         | (Some _, Some old) \<Rightarrow>
             Ok (db\<lparr>pg_snapshots := (pg_snapshots db)(tw_record q \<mapsto>
                   row\<lparr>ns_queued_sequence := ns_queued_sequence old\<rparr>)\<rparr>, Some new_revision))"

definition apply_fresh :: "timestamp \<Rightarrow> transactional_write \<Rightarrow> int \<Rightarrow> int \<Rightarrow> int \<Rightarrow> postgres \<Rightarrow>
    (postgres \<times> transactional_write_outcome, storage_error) result" where
  "apply_fresh now q schema_version expected updated_at db =
     and_then (pg_actual_revision db (tw_record q)) (\<lambda>actual.
     if actual \<noteq> tw_expected_revision q
     then Err (StorageCore (RevisionConflict (tw_record q) (Some (tw_expected_revision q)) actual))
     else and_then (ok_or (StorageCore (RevisionExhausted (tw_record q))) (checked_add actual 1)) (\<lambda>new_revision.
     and_then (required_revision_to_i64 (tw_record q) new_revision) (\<lambda>new_revision_i64.
     and_then (write_transaction q schema_version new_revision_i64 updated_at (pg_snapshots db (tw_record q)) db) (\<lambda>(db, snapshot).
       case snapshot of
         None \<Rightarrow> and_then (pg_actual_revision db (tw_record q)) (\<lambda>actual.
           Err (StorageCore (RevisionConflict (tw_record q) (Some (tw_expected_revision q)) actual)))
       | Some n \<Rightarrow>
           and_then (revision_from_i64 (tw_record q) n) (\<lambda>committed_revision.
           and_then (enqueue_in_transaction now (tw_record q) committed_revision
               (db\<lparr>pg_transactions := (pg_transactions db)(tw_operation_id q \<mapsto>
                  transaction_row_of q schema_version expected updated_at new_revision_i64)\<rparr>)) (\<lambda>db.
             Ok (db, Applied (committed_revision, tw_result q))))))))"

definition apply_in_transaction :: "timestamp \<Rightarrow> transactional_write \<Rightarrow> int \<Rightarrow> int \<Rightarrow> int \<Rightarrow> postgres \<Rightarrow>
    (postgres \<times> transactional_write_outcome, storage_error) result" where
  "apply_in_transaction now q schema_version expected updated_at db =
     and_then (pg_claim_operation now (tw_operation_id q) ''single'' db) (\<lambda>db.
       case pg_transactions db (tw_operation_id q) of
         Some receipt \<Rightarrow> replay_transaction now q schema_version expected updated_at receipt db
       | None \<Rightarrow>
           apply_fresh now q schema_version expected updated_at
             (db\<lparr>pg_transactions := (pg_transactions db)(tw_operation_id q \<mapsto>
                transaction_row_of q schema_version expected updated_at 0)\<rparr>))"

definition pg_apply :: "pg_env \<Rightarrow> transactional_write \<Rightarrow> postgres \<Rightarrow> postgres \<times> (transactional_write_outcome, storage_error) result" where
  "pg_apply env q db =
     (case and_then (validate_transaction_request q) (\<lambda>_.
           and_then (required_revision_to_i64 (tw_record q) (tw_expected_revision q)) (\<lambda>expected.
           and_then (timestamp_to_i64 (tw_record q) (tw_updated_at_unix_ms q)) (\<lambda>updated_at.
             Ok (expected, updated_at)))) of
        Err e \<Rightarrow> (db, Err e)
      | Ok (expected, updated_at) \<Rightarrow>
          transact (pe_pg env) (apply_in_transaction (pe_now env) q (schema_version_to_i64 (tw_schema_version q))
            expected updated_at db) db)"

section \<open>Multi-record commits\<close>

definition sorted_unique_records :: "record_key list \<Rightarrow> (record_key list, storage_error) result" where
  "sorted_unique_records records =
     (if records = [] then Err (StorageCore EmptyTransactionRecords)
      else and_then (try_each check_record_key (sort records)) (\<lambda>_.
        case first_adjacent (\<lambda>r. r) (sort records) of
          Some r \<Rightarrow> Err (StorageCore (DuplicateTransactionRecord r))
        | None \<Rightarrow> Ok (sort records)))"

definition pg_load_multi_receipt :: "string \<Rightarrow> record_key list \<Rightarrow> postgres \<Rightarrow>
    (multi_record_transaction_receipt option, storage_error) result" where
  "pg_load_multi_receipt i records db =
     (if blank i then Err (StorageCore EmptyOperationId)
      else if records = [] then Err (StorageCore EmptyTransactionRecords)
      else and_then (sorted_unique_records records) (\<lambda>expected_records.
        case pg_multis db i of
          None \<Rightarrow>
            (case pg_claims db i of
               Some claim \<Rightarrow> if oc_kind claim = ''multi'' \<and> oc_retired_at claim \<noteq> None
                             then Err (StorageCore (OperationExpired i)) else Ok None
             | None \<Rightarrow> Ok None)
        | Some header \<Rightarrow>
            let rows = sort_key mv_record (pg_multi_records db i)
            in if mh_record_count header < 0 \<or> length rows \<noteq> length expected_records \<or>
                  int (length rows) \<noteq> mh_record_count header
               then Err (StorageCore (OperationIdConflict i))
               else and_then (try_map (\<lambda>(row, expected).
                      if mv_record row \<noteq> expected then Err (StorageCore (OperationIdConflict i))
                      else and_then (revision_from_i64 expected (mv_new_revision row)) (\<lambda>revision.
                        Ok \<lparr>rr_record = expected, rr_new_revision = revision\<rparr>)) (zip rows expected_records)) (\<lambda>receipts.
                    Ok (Some \<lparr>mr_operation_id = i, mr_records = receipts, mr_result = mh_result header\<rparr>))))"

definition verify_retry :: "pg_params \<Rightarrow> string \<Rightarrow> commit_effects \<Rightarrow> postgres \<Rightarrow> (unit, storage_error) result" where
  "verify_retry P i eff db =
     and_then (case pg_effects db i of
         Some payload \<Rightarrow> and_then (pp_encode P eff) (\<lambda>b. Ok (payload = b))
       | None \<Rightarrow> Ok (effects_is_empty eff)) (\<lambda>matches.
       ensure matches (StorageCore (OperationIdConflict i)))"

fun enqueue_all :: "timestamp \<Rightarrow> transaction_record_receipt list \<Rightarrow> postgres \<Rightarrow> (postgres, storage_error) result" where
  "enqueue_all now [] db = Ok db"
| "enqueue_all now (r # rs) db =
     and_then (enqueue_in_transaction now (rr_record r) (rr_new_revision r) db) (enqueue_all now rs)"

definition replay_commit :: "pg_params \<Rightarrow> timestamp \<Rightarrow> multi_record_transactional_write \<Rightarrow> commit_effects \<Rightarrow> multi_header \<Rightarrow>
    postgres \<Rightarrow> (postgres \<times> multi_outcome, storage_error) result" where
  "replay_commit P now q eff header db =
     (let i = mw_operation_id q; rows = sort_key mv_record (pg_multi_records db i)
      in and_then (verify_retry P i eff db) (\<lambda>_.
         if \<not> (mh_record_count header = int (length (mw_writes q)) \<and> mh_result header = mw_result q) \<or>
            \<not> (length rows = length (mw_writes q) \<and>
               list_all (\<lambda>(row, w). multi_transaction_row_matches row w) (zip rows (mw_writes q)))
         then Err (StorageCore (OperationIdConflict i))
         else and_then (try_map (\<lambda>(row, w). and_then (revision_from_i64 (rw_record w) (mv_new_revision row)) (\<lambda>revision.
                Ok \<lparr>rr_record = rw_record w, rr_new_revision = revision\<rparr>)) (zip rows (mw_writes q))) (\<lambda>records.
              and_then (enqueue_all now records db) (\<lambda>db. Ok (db, Duplicate (records, mh_result header))))))"

definition pg_check_write :: "postgres \<Rightarrow> transactional_record_write \<Rightarrow> (revision, storage_error) result" where
  "pg_check_write db w =
     and_then (pg_actual_revision db (rw_record w)) (\<lambda>actual.
       if actual \<noteq> rw_expected_revision w
       then Err (StorageCore (RevisionConflict (rw_record w) (Some (rw_expected_revision w)) actual))
       else ok_or (StorageCore (RevisionExhausted (rw_record w))) (checked_add actual 1))"

record persisted_transactional_snapshot =
  pt_schema_version :: int
  pt_expected_revision :: int
  pt_new_revision :: int
  pt_updated_at :: int

text \<open>
  The predicate on the revision is repeated in the statement. What it returns is the revision it wrote,
  so the last check of the source, that the returned revision is the requested one, compares
  \<open>new_revision\<close> with itself.
\<close>

definition persist_transactional_snapshot :: "transactional_record_write \<Rightarrow> revision \<Rightarrow> postgres \<Rightarrow>
    (postgres \<times> persisted_transactional_snapshot, storage_error) result" where
  "persist_transactional_snapshot w revision db =
     and_then (required_revision_to_i64 (rw_record w) (rw_expected_revision w)) (\<lambda>expected.
     and_then (required_revision_to_i64 (rw_record w) revision) (\<lambda>new_revision.
     and_then (timestamp_to_i64 (rw_record w) (rw_updated_at_unix_ms w)) (\<lambda>updated_at.
       let schema_version = schema_version_to_i64 (rw_schema_version w);
           row = (\<lambda>sequence. \<lparr>ns_schema = rw_schema w, ns_schema_version = schema_version, ns_revision = new_revision,
              ns_payload = rw_payload w, ns_updated_at = updated_at, ns_queued_sequence = sequence\<rparr>);
           persisted = \<lparr>pt_schema_version = schema_version, pt_expected_revision = expected,
              pt_new_revision = new_revision, pt_updated_at = updated_at\<rparr>
       in case pg_snapshots db (rw_record w) of
            None \<Rightarrow> Ok (db\<lparr>pg_snapshots := (pg_snapshots db)(rw_record w \<mapsto> row None)\<rparr>, persisted)
          | Some old \<Rightarrow>
              if ns_revision old = expected
              then Ok (db\<lparr>pg_snapshots := (pg_snapshots db)(rw_record w \<mapsto> row (ns_queued_sequence old))\<rparr>, persisted)
              else and_then (pg_actual_revision db (rw_record w)) (\<lambda>actual.
                Err (StorageCore (RevisionConflict (rw_record w) (Some (rw_expected_revision w)) actual))))))"

definition persist_record :: "timestamp \<Rightarrow> string \<Rightarrow> transactional_record_write \<Rightarrow> revision \<Rightarrow> postgres \<Rightarrow> (postgres, storage_error) result" where
  "persist_record now i w revision db =
     and_then (persist_transactional_snapshot w revision db) (\<lambda>(db, persisted).
       if list_ex (\<lambda>row. mv_record row = rw_record w) (pg_multi_records db i) then Err (Postgres (Some ''23505''))
       else enqueue_in_transaction now (rw_record w) revision
         (db\<lparr>pg_multi_records := (pg_multi_records db)(i := pg_multi_records db i @
            [\<lparr>mv_record = rw_record w, mv_schema = rw_schema w, mv_schema_version = pt_schema_version persisted,
              mv_expected = pt_expected_revision persisted, mv_payload = rw_payload w,
              mv_updated_at = pt_updated_at persisted, mv_new_revision = pt_new_revision persisted\<rparr>])\<rparr>))"

fun persist_records :: "timestamp \<Rightarrow> string \<Rightarrow> (transactional_record_write \<times> revision) list \<Rightarrow> postgres \<Rightarrow> (postgres, storage_error) result" where
  "persist_records now i [] db = Ok db"
| "persist_records now i ((w, revision) # ws) db = and_then (persist_record now i w revision db) (persist_records now i ws)"

fun persist_appends :: "string \<Rightarrow> append_record list \<Rightarrow> postgres \<Rightarrow> (postgres, storage_error) result" where
  "persist_appends i [] db = Ok db"
| "persist_appends i (a # as) db =
     and_then (timestamp_to_i64 (ap_record a) (ap_occurred_at_unix_ms a)) (\<lambda>occurred_at.
       if pg_appends db (ap_record a) \<noteq> None then Err (StorageCore (AppendRecordConflict (ap_record a)))
       else persist_appends i as (db\<lparr>pg_appends := (pg_appends db)(ap_record a \<mapsto>
         \<lparr>ax_operation_id = i, ax_schema = ap_schema a, ax_schema_version = uint (ap_schema_version a),
          ax_payload = ap_payload a, ax_occurred_at = occurred_at\<rparr>)\<rparr>))"

fun persist_events :: "nat \<Rightarrow> timestamp \<Rightarrow> string \<Rightarrow> outbox_event list \<Rightarrow> postgres \<Rightarrow> (postgres, storage_error) result" where
  "persist_events order now i [] db = Ok db"
| "persist_events order now i (e # es) db =
     (case outbox_insert order now i None e (pg_outbox db) of
        (outbox, Err error) \<Rightarrow> Err error
      | (outbox, Ok _) \<Rightarrow> persist_events (Suc order) now i es (db\<lparr>pg_outbox := outbox\<rparr>))"

definition persist :: "pg_params \<Rightarrow> pg_env \<Rightarrow> string \<Rightarrow> commit_effects \<Rightarrow> postgres \<Rightarrow> (postgres, storage_error) result" where
  "persist P env i eff db =
     (if effects_is_empty eff then Ok db
      else and_then (pp_encode P eff) (\<lambda>payload.
        if pg_effects db i \<noteq> None then Err (Postgres (Some ''23505''))
        else and_then (persist_appends i (ce_appends eff) (db\<lparr>pg_effects := (pg_effects db)(i \<mapsto> payload)\<rparr>))
          (persist_events (pe_order env) (pe_now env) i (ce_outbox_events eff))))"

definition commit_in_transaction :: "pg_params \<Rightarrow> pg_env \<Rightarrow> multi_record_transactional_write \<Rightarrow> commit_effects \<Rightarrow> postgres \<Rightarrow>
    (postgres \<times> multi_outcome, storage_error) result" where
  "commit_in_transaction P env q eff db =
     (let i = mw_operation_id q; first = hd (mw_writes q)
      in and_then (pg_claim_operation (pe_now env) i ''multi'' db) (\<lambda>db.
         and_then (timestamp_to_i64 (rw_record first) (rw_updated_at_unix_ms first)) (\<lambda>updated_at.
           case pg_multis db i of
             Some header \<Rightarrow> replay_commit P (pe_now env) q eff header db
           | None \<Rightarrow>
               let db = db\<lparr>pg_multis := (pg_multis db)(i \<mapsto> \<lparr>mh_result = mw_result q,
                     mh_record_count = int (length (mw_writes q)), mh_updated_at = updated_at\<rparr>)\<rparr>
               in and_then (lock_partitions (pp_codec P) (od_routes (pg_outbox db)) (ce_outbox_events eff)) (\<lambda>_.
                  and_then (try_map (pg_check_write db) (mw_writes q)) (\<lambda>revisions.
                  and_then (persist_records (pe_now env) i (zip (mw_writes q) revisions) db) (\<lambda>db.
                  and_then (persist P env i eff db) (\<lambda>db.
                    Ok (db, Applied (map2 (\<lambda>w v. \<lparr>rr_record = rw_record w, rr_new_revision = v\<rparr>) (mw_writes q) revisions,
                                     mw_result q)))))))))"

definition pg_commit_records :: "pg_params \<Rightarrow> pg_env \<Rightarrow> multi_record_transactional_write \<Rightarrow> commit_effects \<Rightarrow> postgres \<Rightarrow>
    postgres \<times> (multi_outcome, storage_error) result" where
  "pg_commit_records P env q effects db =
     (case and_then (map_err StorageCore (effects_normalize (pp_codec P) effects)) (\<lambda>eff.
           and_then (validate_multi_transaction_request q) (\<lambda>_. Ok eff)) of
        Err e \<Rightarrow> (db, Err e)
      | Ok eff \<Rightarrow>
          transact (pe_pg env) (commit_in_transaction P env (q\<lparr>mw_writes := sort_key rw_record (mw_writes q)\<rparr>) eff db) db)"

definition pg_apply_multi :: "pg_params \<Rightarrow> pg_env \<Rightarrow> multi_record_transactional_write \<Rightarrow> postgres \<Rightarrow>
    postgres \<times> (multi_outcome, storage_error) result" where
  "pg_apply_multi P env q db = pg_commit_records P env q commit_effects_default db"

end
