(* ===== verification/Postgres_Trade.thy ===== *)
theory Postgres_Trade
  imports Postgres_Store
begin

text \<open>
  The trades of the PostgreSQL store (\<open>crates/dbproxy-storage/src/trade.rs\<close>).

  The advisory locks order concurrent transactions and have no other effect. What the \<open>CHECK\<close> constraints
  of the trade tables demand holds of every normalised request: versions are positive, amounts are not
  zero, states are in range.
\<close>

section \<open>Conversions\<close>

fun state_to_i16 :: "trade_state \<Rightarrow> int" where
  "state_to_i16 Proposed = 1"
| "state_to_i16 Escrowed = 2"
| "state_to_i16 trade_state.Settled = 3"
| "state_to_i16 Cancelled = 4"

definition state_from_i16 :: "int \<Rightarrow> (trade_state, storage_error) result" where
  "state_from_i16 n =
     (if n = 1 then Ok Proposed else if n = 2 then Ok Escrowed else if n = 3 then Ok trade_state.Settled else if n = 4 then Ok Cancelled
      else Err (TradeProtocol (''persisted trade state is invalid: '' @
        (if n < 0 then ''-'' @ decimal (nat (- n)) else decimal (nat n)))))"

definition trade_version_to_i64 :: "string \<Rightarrow> revision \<Rightarrow> (int, storage_error) result" where
  "trade_version_to_i64 trade_id version = i64_try_from version (TradeVersionTooLarge trade_id)"

definition trade_version_from_i64 :: "string \<Rightarrow> int \<Rightarrow> (revision, storage_error) result" where
  "trade_version_from_i64 trade_id n = u64_try_from n (TradeProtocol (''trade '' @ trade_id @ '' has negative version''))"

section \<open>Receipts\<close>

text \<open>
  The three groups of rows are sorted by byte order, as the normalised request is. \<open>postings_of\<close> and
  \<open>events_of\<close> are the rows an operation has in the ledger and in the outbox.
\<close>

definition postings_of :: "string \<Rightarrow> ledger_row list \<Rightarrow> ledger_row list" where
  "postings_of i rows = sort_key lx_posting_id (filter (\<lambda>r. lx_operation_id r = i) rows)"

definition events_of :: "string \<Rightarrow> outbox_row list \<Rightarrow> outbox_row list" where
  "events_of i rows = sort_key ob_event_id (filter (\<lambda>r. ob_operation_id r = i) rows)"

type_synonym receipt_parts = "trade_header \<times> multi_row list \<times> ledger_row list \<times> outbox_row list"

definition load_receipt_parts :: "string \<Rightarrow> postgres \<Rightarrow> receipt_parts option" where
  "load_receipt_parts i db =
     map_option (\<lambda>header. (header, sort_key mv_record (pg_trade_records db i), postings_of i (pg_ledger db),
       events_of i (od_rows (pg_outbox db)))) (pg_trade_operations db i)"

definition count_check :: "string \<Rightarrow> string \<times> int \<times> nat \<Rightarrow> (unit, storage_error) result" where
  "count_check i = (\<lambda>(name, expected, actual).
     ensure (expected = int actual)
       (TradeProtocol (''trade operation '' @ i @ '' has inconsistent '' @ name @ '' count'')))"

definition receipt_from_parts :: "string \<Rightarrow> string \<Rightarrow> receipt_parts \<Rightarrow> (trade_receipt, storage_error) result" where
  "receipt_from_parts i trade_id = (\<lambda>(header, records, ledger, outbox).
     and_then (try_each (count_check i) [(''record'', th_record_count header, length records),
         (''ledger'', th_ledger_count header, length ledger), (''outbox'', th_outbox_count header, length outbox)]) (\<lambda>_.
     and_then (try_map (\<lambda>row.
         and_then (map_err StorageCore (record_key_new (namespace (mv_record row)) (key (mv_record row)))) (\<lambda>record.
         and_then (revision_from_i64 record (mv_new_revision row)) (\<lambda>revision.
           Ok \<lparr>rr_record = record, rr_new_revision = revision\<rparr>))) records) (\<lambda>receipts.
     and_then (trade_version_from_i64 trade_id (th_new_version header)) (\<lambda>version.
     and_then (state_from_i16 (th_next_state header)) (\<lambda>state.
       Ok \<lparr>rc_operation_id = i, rc_trade_id = trade_id, rc_new_trade_version = version, rc_state = state,
           rc_records = receipts, rc_ledger_posting_ids = map lx_posting_id ledger,
           rc_outbox_event_ids = map ob_event_id outbox, rc_result = th_result header\<rparr>)))))"

definition trade_record_matches :: "multi_row \<Rightarrow> transactional_record_write \<Rightarrow> bool" where
  "trade_record_matches row w \<longleftrightarrow>
     multi_transaction_row_matches row w \<and> uint (rw_expected_revision w) + 1 < 2 ^ 63 \<and>
     mv_new_revision row = uint (rw_expected_revision w) + 1"

definition ledger_row_matches :: "ledger_row \<Rightarrow> ledger_posting \<Rightarrow> bool" where
  "ledger_row_matches row p \<longleftrightarrow>
     lx_posting_id row = lp_posting_id p \<and> lx_account_id row = lp_account_id p \<and> lx_asset row = lp_asset p \<and>
     lx_amount row = sint (lp_amount p) \<and> lx_metadata row = lp_metadata p"

definition outbox_row_matches :: "outbox_row \<Rightarrow> outbox_event \<Rightarrow> bool" where
  "outbox_row_matches row e \<longleftrightarrow>
     uint (oe_occurred_at_unix_ms e) < 2 ^ 63 \<and> ob_event_id row = oe_event_id e \<and> ob_topic row = oe_topic e \<and>
     ob_partition_key row = oe_partition_key e \<and> ob_payload row = oe_payload e \<and>
     ob_occurred_at row = uint (oe_occurred_at_unix_ms e)"

definition rows_correspond :: "('a \<Rightarrow> 'b \<Rightarrow> bool) \<Rightarrow> 'a list \<Rightarrow> 'b list \<Rightarrow> bool" where
  "rows_correspond matches rows xs \<longleftrightarrow> length rows = length xs \<and> list_all (\<lambda>(row, x). matches row x) (zip rows xs)"

definition receipt_matches :: "receipt_parts \<Rightarrow> trade_transaction \<Rightarrow> bool" where
  "receipt_matches = (\<lambda>(header, records, ledger, outbox) q.
     let t = tx_transition q in
     th_trade_id header = tt_trade_id t \<and>
     uint (tt_expected_version t) < 2 ^ 63 \<and> th_expected_version header = uint (tt_expected_version t) \<and>
     th_expected_state header = map_option state_to_i16 (tt_expected_state t) \<and>
     th_next_state header = state_to_i16 (tt_next_state t) \<and> th_payload header = tt_payload t \<and>
     th_result header = tx_result q \<and> th_record_count header = int (length (tx_writes q)) \<and>
     th_ledger_count header = int (length (tx_ledger_postings q)) \<and>
     th_outbox_count header = int (length (tx_outbox_events q)) \<and>
     uint (tt_expected_version t) + 1 < 2 ^ 63 \<and> th_new_version header = uint (tt_expected_version t) + 1 \<and>
     uint (tt_updated_at_unix_ms t) < 2 ^ 63 \<and> th_updated_at header = uint (tt_updated_at_unix_ms t) \<and>
     rows_correspond trade_record_matches records (tx_writes q) \<and>
     rows_correspond ledger_row_matches ledger (tx_ledger_postings q) \<and>
     rows_correspond outbox_row_matches outbox (tx_outbox_events q))"

section \<open>Loading\<close>

definition pg_load_trade :: "string \<Rightarrow> postgres \<Rightarrow> (trade_envelope option, storage_error) result" where
  "pg_load_trade trade_id db =
     (if blank trade_id then Err (StorageCore EmptyTradeId)
      else case pg_trades db trade_id of
        None \<Rightarrow> Ok None
      | Some row \<Rightarrow>
          and_then (u64_try_from (tv_updated_at row) (TradeProtocol (''trade '' @ trade_id @ '' has negative timestamp''))) (\<lambda>updated_at.
          and_then (trade_version_from_i64 trade_id (tv_version row)) (\<lambda>version.
          and_then (state_from_i16 (tv_state row)) (\<lambda>state.
            Ok (Some \<lparr>te_trade_id = trade_id, te_version = version, te_state = state, te_payload = tv_payload row,
                      te_updated_at_unix_ms = updated_at\<rparr>)))))"

definition pg_load_trade_receipt :: "string \<Rightarrow> string \<Rightarrow> postgres \<Rightarrow> (trade_receipt option, storage_error) result" where
  "pg_load_trade_receipt i trade_id db =
     (if blank i then Err (StorageCore EmptyOperationId)
      else if blank trade_id then Err (StorageCore EmptyTradeId)
      else case load_receipt_parts i db of
        None \<Rightarrow> Ok None
      | Some parts \<Rightarrow>
          if th_trade_id (fst parts) \<noteq> trade_id then Err (StorageCore (OperationIdConflict i))
          else and_then (receipt_from_parts i trade_id parts) (\<lambda>receipt. Ok (Some receipt)))"

section \<open>Applying a trade\<close>

definition replay_trade :: "timestamp \<Rightarrow> trade_transaction \<Rightarrow> postgres \<Rightarrow> (postgres \<times> trade_outcome, storage_error) result" where
  "replay_trade now q db =
     (let i = tx_operation_id q
      in case load_receipt_parts i db of
           None \<Rightarrow> Err (TradeProtocol ''trade operation disappeared after idempotency conflict'')
         | Some parts \<Rightarrow>
             if \<not> receipt_matches parts q then Err (StorageCore (OperationIdConflict i))
             else and_then (receipt_from_parts i (tt_trade_id (tx_transition q)) parts) (\<lambda>receipt.
                  and_then (enqueue_all now (rc_records receipt) db) (\<lambda>db. Ok (db, Duplicate receipt))))"

definition current_trade :: "string \<Rightarrow> postgres \<Rightarrow> (revision \<times> trade_state option, storage_error) result" where
  "current_trade trade_id db =
     (case pg_trades db trade_id of
        Some row \<Rightarrow>
          and_then (trade_version_from_i64 trade_id (tv_version row)) (\<lambda>version.
          and_then (state_from_i16 (tv_state row)) (\<lambda>state. Ok (version, Some state)))
      | None \<Rightarrow> Ok (0, None))"

definition persist_trade_record :: "timestamp \<Rightarrow> string \<Rightarrow> transactional_record_write \<Rightarrow> revision \<Rightarrow> postgres \<Rightarrow> (postgres, storage_error) result" where
  "persist_trade_record now i w revision db =
     and_then (persist_transactional_snapshot w revision db) (\<lambda>(db, persisted).
       if list_ex (\<lambda>row. mv_record row = rw_record w) (pg_trade_records db i) then Err (Postgres (Some ''23505''))
       else enqueue_in_transaction now (rw_record w) revision
         (db\<lparr>pg_trade_records := (pg_trade_records db)(i := pg_trade_records db i @
            [\<lparr>mv_record = rw_record w, mv_schema = rw_schema w, mv_schema_version = pt_schema_version persisted,
              mv_expected = pt_expected_revision persisted, mv_payload = rw_payload w,
              mv_updated_at = pt_updated_at persisted, mv_new_revision = pt_new_revision persisted\<rparr>])\<rparr>))"

fun persist_trade_records :: "timestamp \<Rightarrow> string \<Rightarrow> (transactional_record_write \<times> revision) list \<Rightarrow> postgres \<Rightarrow>
    (postgres, storage_error) result" where
  "persist_trade_records now i [] db = Ok db"
| "persist_trade_records now i ((w, revision) # ws) db =
     and_then (persist_trade_record now i w revision db) (persist_trade_records now i ws)"

fun persist_postings :: "string \<Rightarrow> string \<Rightarrow> int \<Rightarrow> ledger_posting list \<Rightarrow> postgres \<Rightarrow> (postgres, storage_error) result" where
  "persist_postings i trade_id updated_at [] db = Ok db"
| "persist_postings i trade_id updated_at (p # ps) db =
     (if list_ex (\<lambda>r. lx_posting_id r = lp_posting_id p) (pg_ledger db)
      then Err (StorageCore (LedgerPostingConflict (lp_posting_id p)))
      else persist_postings i trade_id updated_at ps (db\<lparr>pg_ledger := pg_ledger db @
        [\<lparr>lx_posting_id = lp_posting_id p, lx_operation_id = i, lx_trade_id = trade_id, lx_account_id = lp_account_id p,
          lx_asset = lp_asset p, lx_amount = sint (lp_amount p), lx_metadata = lp_metadata p, lx_created_at = updated_at\<rparr>]\<rparr>))"

fun persist_trade_events :: "nat \<Rightarrow> timestamp \<Rightarrow> string \<Rightarrow> string \<Rightarrow> outbox_event list \<Rightarrow> postgres \<Rightarrow> (postgres, storage_error) result" where
  "persist_trade_events order now i trade_id [] db = Ok db"
| "persist_trade_events order now i trade_id (e # es) db =
     and_then (i64_try_from (oe_occurred_at_unix_ms e) (TradeProtocol ''outbox timestamp is too large'')) (\<lambda>_.
       case outbox_insert order now i (Some trade_id) e (pg_outbox db) of
         (outbox, Err error) \<Rightarrow> Err error
       | (outbox, Ok _) \<Rightarrow> persist_trade_events (Suc order) now i trade_id es (db\<lparr>pg_outbox := outbox\<rparr>))"

definition trade_header_of :: "trade_transaction \<Rightarrow> int \<Rightarrow> int \<Rightarrow> int \<Rightarrow> trade_header" where
  "trade_header_of q expected_version new_version updated_at =
     \<lparr>th_trade_id = tt_trade_id (tx_transition q), th_expected_version = expected_version,
      th_expected_state = map_option state_to_i16 (tt_expected_state (tx_transition q)),
      th_next_state = state_to_i16 (tt_next_state (tx_transition q)), th_payload = tt_payload (tx_transition q),
      th_result = tx_result q, th_record_count = int (length (tx_writes q)),
      th_ledger_count = int (length (tx_ledger_postings q)), th_outbox_count = int (length (tx_outbox_events q)),
      th_new_version = new_version, th_updated_at = updated_at\<rparr>"

definition write_trade :: "pg_env \<Rightarrow> trade_transaction \<Rightarrow> revision list \<Rightarrow> int \<Rightarrow> int \<Rightarrow> postgres \<Rightarrow> (postgres, storage_error) result" where
  "write_trade env q revisions new_version updated_at db =
     (let i = tx_operation_id q; t = tx_transition q; trade_id = tt_trade_id t;
          db = db\<lparr>pg_trades := (pg_trades db)(trade_id \<mapsto>
            \<lparr>tv_version = new_version, tv_state = state_to_i16 (tt_next_state t), tv_payload = tt_payload t,
             tv_updated_at = updated_at\<rparr>)\<rparr>
      in and_then (persist_trade_records (pe_now env) i (zip (tx_writes q) revisions) db) (\<lambda>db.
         and_then (persist_postings i trade_id updated_at (tx_ledger_postings q) db) (\<lambda>db.
           persist_trade_events (pe_order env) (pe_now env) i trade_id (tx_outbox_events q) db)))"

definition trade_fresh :: "pg_env \<Rightarrow> trade_transaction \<Rightarrow> revision \<Rightarrow> int \<Rightarrow> int \<Rightarrow> postgres \<Rightarrow>
    (postgres \<times> trade_outcome, storage_error) result" where
  "trade_fresh env q new_version new_version_i64 updated_at db =
     (let t = tx_transition q; trade_id = tt_trade_id t
      in and_then (current_trade trade_id db) (\<lambda>(actual_version, actual_state).
         if actual_version \<noteq> tt_expected_version t
         then Err (StorageCore (TradeVersionConflict trade_id (tt_expected_version t) actual_version))
         else if actual_state \<noteq> tt_expected_state t
         then Err (StorageCore (TradeStateConflict trade_id (tt_expected_state t) actual_state))
         else and_then (try_map (pg_check_write db) (tx_writes q)) (\<lambda>revisions.
              and_then (write_trade env q revisions new_version_i64 updated_at db) (\<lambda>db.
                Ok (db, Applied \<lparr>rc_operation_id = tx_operation_id q, rc_trade_id = trade_id,
                  rc_new_trade_version = new_version, rc_state = tt_next_state t,
                  rc_records = map2 (\<lambda>w v. \<lparr>rr_record = rw_record w, rr_new_revision = v\<rparr>) (tx_writes q) revisions,
                  rc_ledger_posting_ids = map lp_posting_id (tx_ledger_postings q),
                  rc_outbox_event_ids = map oe_event_id (tx_outbox_events q), rc_result = tx_result q\<rparr>)))))"

definition trade_in_transaction :: "pg_env \<Rightarrow> trade_transaction \<Rightarrow> int \<Rightarrow> revision \<Rightarrow> int \<Rightarrow> int \<Rightarrow> postgres \<Rightarrow>
    (postgres \<times> trade_outcome, storage_error) result" where
  "trade_in_transaction env q expected_version new_version new_version_i64 updated_at db =
     (let i = tx_operation_id q
      in and_then (pg_claim_operation (pe_now env) i ''trade'' db) (\<lambda>db.
           case pg_trade_operations db i of
             Some _ \<Rightarrow> replay_trade (pe_now env) q db
           | None \<Rightarrow>
               trade_fresh env q new_version new_version_i64 updated_at
                 (db\<lparr>pg_trade_operations := (pg_trade_operations db)(i \<mapsto>
                    trade_header_of q expected_version new_version_i64 updated_at)\<rparr>)))"

definition prepare_trade :: "trade_transaction \<Rightarrow> (trade_transaction \<times> int \<times> revision \<times> int \<times> int, storage_error) result" where
  "prepare_trade q0 =
     and_then (map_err StorageCore (normalize_trade_transaction q0)) (\<lambda>q.
       let t = tx_transition q; trade_id = tt_trade_id t
       in and_then (trade_version_to_i64 trade_id (tt_expected_version t)) (\<lambda>expected_version.
          and_then (ok_or (StorageCore (TradeVersionExhausted trade_id)) (checked_add (tt_expected_version t) 1)) (\<lambda>new_version.
          and_then (trade_version_to_i64 trade_id new_version) (\<lambda>new_version_i64.
          and_then (i64_try_from (tt_updated_at_unix_ms t) (TradeProtocol ''trade timestamp is too large'')) (\<lambda>updated_at.
            Ok (q, expected_version, new_version, new_version_i64, updated_at))))))"

definition pg_apply_trade :: "pg_env \<Rightarrow> trade_transaction \<Rightarrow> postgres \<Rightarrow> postgres \<times> (trade_outcome, storage_error) result" where
  "pg_apply_trade env q0 db =
     (case prepare_trade q0 of
        Err e \<Rightarrow> (db, Err e)
      | Ok (q, expected_version, new_version, new_version_i64, updated_at) \<Rightarrow>
          transact (pe_pg env) (trade_in_transaction env q expected_version new_version new_version_i64 updated_at db) db)"

end
