(* ===== verification/Postgres_Operations.thy ===== *)
theory Postgres_Operations
  imports Postgres_Trade
begin

text \<open>
  The retention jobs of the PostgreSQL store (\<open>receipt_retention.rs\<close>, \<open>operation_retirement.rs\<close> and their
  SQL), and all operations of the store as one step function.

  A retention statement picks at most 500 due rows in the order of their age and skips rows that
  another transaction has locked. The rows it finds in that order are the argument \<open>candidates\<close>; of these the statement
  keeps the due ones.
\<close>

section \<open>Retention\<close>

definition seconds :: "nat \<Rightarrow> duration" where
  "seconds n = from_millis (n * 1000)"

definition as_secs :: "duration \<Rightarrow> nat" where
  "as_secs d = as_millis d div 1000"

definition MIN_RECEIPT_RETENTION :: duration where "MIN_RECEIPT_RETENTION = seconds 3600"
definition MAX_RECEIPT_RETENTION :: duration where "MAX_RECEIPT_RETENTION = seconds (8760 * 3600)"
definition MIN_OPERATION_RECEIPT_RETENTION :: duration where "MIN_OPERATION_RECEIPT_RETENTION = seconds 86400"
definition MAX_OPERATION_RECEIPT_RETENTION :: duration where "MAX_OPERATION_RECEIPT_RETENTION = seconds (3650 * 86400)"
definition MIN_RETIRED_OPERATION_RETENTION :: duration where "MIN_RETIRED_OPERATION_RETENTION = seconds 86400"
definition MAX_RETIRED_OPERATION_RETENTION :: duration where "MAX_RETIRED_OPERATION_RETENTION = seconds (3650 * 86400)"

definition validate_receipt_retention :: "duration \<Rightarrow> (duration, storage_error) result" where
  "validate_receipt_retention retention =
     (if retention < MIN_RECEIPT_RETENTION \<or> retention > MAX_RECEIPT_RETENTION
      then Err (InvalidReceiptRetention (of_nat (as_secs retention))) else Ok retention)"

definition validate_operation_receipt_retention :: "duration \<Rightarrow> (duration, storage_error) result" where
  "validate_operation_receipt_retention retention =
     (if retention < MIN_OPERATION_RECEIPT_RETENTION \<or> retention > MAX_OPERATION_RECEIPT_RETENTION
      then Err (InvalidOperationReceiptRetention (of_nat (as_secs retention))) else Ok retention)"

definition validate_retired_operation_retention :: "duration \<Rightarrow> (duration, storage_error) result" where
  "validate_retired_operation_retention retention =
     (if retention < MIN_RETIRED_OPERATION_RETENTION \<or> retention > MAX_RETIRED_OPERATION_RETENTION
      then Err (InvalidRetiredOperationRetention (of_nat (as_secs retention))) else Ok retention)"

text \<open>
  \<open>make_interval\<close> of the seconds of a duration, in the microseconds of a timestamp: it rounds to the nearest
  microsecond.
\<close>

definition make_interval :: "duration \<Rightarrow> timestamp" where
  "make_interval d = (d + 500) div 1000"

definition MAINTENANCE_BATCH :: nat where "MAINTENANCE_BATCH = 500"

definition due_rows :: "(string \<Rightarrow> bool) \<Rightarrow> string list \<Rightarrow> string list" where
  "due_rows due candidates = take MAINTENANCE_BATCH (filter due (remdups candidates))"

definition receipt_due :: "timestamp \<Rightarrow> duration \<Rightarrow> postgres \<Rightarrow> string \<Rightarrow> bool" where
  "receipt_due now retention db i =
     (case pg_idempotency db i of None \<Rightarrow> False | Some row \<Rightarrow> iq_recorded_at row + make_interval retention < now)"

definition cleanup_expired_receipts :: "pg_env \<Rightarrow> string list \<Rightarrow> duration \<Rightarrow> postgres \<Rightarrow> postgres \<times> (nat, storage_error) result" where
  "cleanup_expired_receipts env candidates retention db =
     (case validate_receipt_retention retention of
        Err e \<Rightarrow> (db, Err e)
      | Ok retention \<Rightarrow>
          let expired = due_rows (receipt_due (pe_now env) retention db) candidates
          in transact (pe_pg env) (Ok (db\<lparr>pg_idempotency := (\<lambda>i. if i \<in> set expired then None else pg_idempotency db i)\<rparr>,
               length expired)) db)"

definition operation_due :: "timestamp \<Rightarrow> duration \<Rightarrow> postgres \<Rightarrow> string \<Rightarrow> bool" where
  "operation_due now retention db i =
     (case pg_claims db i of
        None \<Rightarrow> False
      | Some claim \<Rightarrow> oc_kind claim = ''multi'' \<and> oc_retired_at claim = None \<and>
          oc_claimed_at claim + make_interval retention < now \<and> pg_effects db i = None)"

definition retire_expired_operations :: "pg_env \<Rightarrow> string list \<Rightarrow> duration \<Rightarrow> postgres \<Rightarrow> postgres \<times> (nat, storage_error) result" where
  "retire_expired_operations env candidates retention db =
     (case validate_operation_receipt_retention retention of
        Err e \<Rightarrow> (db, Err e)
      | Ok retention \<Rightarrow>
          let due = due_rows (operation_due (pe_now env) retention db) candidates
          in transact (pe_pg env) (Ok (db\<lparr>
               pg_multis := (\<lambda>i. if i \<in> set due then None else pg_multis db i),
               pg_multi_records := (\<lambda>i. if i \<in> set due then [] else pg_multi_records db i),
               pg_claims := (\<lambda>i. if i \<in> set due then map_option (\<lambda>c. c\<lparr>oc_retired_at := Some (pe_now env)\<rparr>) (pg_claims db i)
                                 else pg_claims db i)\<rparr>, length due)) db)"

definition marker_due :: "timestamp \<Rightarrow> duration \<Rightarrow> postgres \<Rightarrow> string \<Rightarrow> bool" where
  "marker_due now retention db i =
     (case pg_claims db i of
        None \<Rightarrow> False
      | Some claim \<Rightarrow> oc_kind claim = ''multi'' \<and>
          (case oc_retired_at claim of None \<Rightarrow> False | Some t \<Rightarrow> t + make_interval retention < now))"

definition purge_retired_operations :: "pg_env \<Rightarrow> string list \<Rightarrow> duration \<Rightarrow> postgres \<Rightarrow> postgres \<times> (nat, storage_error) result" where
  "purge_retired_operations env candidates retention db =
     (case validate_retired_operation_retention retention of
        Err e \<Rightarrow> (db, Err e)
      | Ok retention \<Rightarrow>
          let due = due_rows (marker_due (pe_now env) retention db) candidates
          in transact (pe_pg env) (Ok (db\<lparr>pg_claims := (\<lambda>i. if i \<in> set due then None else pg_claims db i)\<rparr>, length due)) db)"

section \<open>All operations\<close>

datatype pg_op =
    SaveBatch pg_env "snapshot_write list"
  | QueuedBatch pg_env "snapshot_write list" "u64 list"
  | ApplySingle pg_env transactional_write
  | CommitMulti pg_env multi_record_transactional_write commit_effects
  | ApplyTrade pg_env trade_transaction
  | CleanupReceipts pg_env "string list" duration
  | RetireOperations pg_env "string list" duration
  | PurgeOperations pg_env "string list" duration
  | RepairQueue repair_op
  | OutboxQueue outbox_op

datatype pg_reply =
    SavedBatch "((snapshot_write_outcome, storage_error) result list, storage_error) result"
  | SingleApplied "(transactional_write_outcome, storage_error) result"
  | MultiCommitted "(multi_outcome, storage_error) result"
  | TradeApplied "(trade_outcome, storage_error) result"
  | Maintained "(nat, storage_error) result"
  | RepairReplied repair_reply
  | OutboxReplied outbox_reply

fun pg_step :: "pg_params \<Rightarrow> postgres \<Rightarrow> pg_op \<Rightarrow> postgres \<times> pg_reply" where
  "pg_step P db (SaveBatch env requests) = map_prod id SavedBatch (save_batch env requests db)"
| "pg_step P db (QueuedBatch env requests sequences) = map_prod id SavedBatch (save_queued_batch env requests sequences db)"
| "pg_step P db (ApplySingle env q) = map_prod id SingleApplied (pg_apply env q db)"
| "pg_step P db (CommitMulti env q eff) = map_prod id MultiCommitted (pg_commit_records P env q eff db)"
| "pg_step P db (ApplyTrade env q) = map_prod id TradeApplied (pg_apply_trade env q db)"
| "pg_step P db (CleanupReceipts env candidates d) = map_prod id Maintained (cleanup_expired_receipts env candidates d db)"
| "pg_step P db (RetireOperations env candidates d) = map_prod id Maintained (retire_expired_operations env candidates d db)"
| "pg_step P db (PurgeOperations env candidates d) = map_prod id Maintained (purge_retired_operations env candidates d db)"
| "pg_step P db (RepairQueue op) = (let (repairs, reply) = repair_step (pg_repairs db) op in (db\<lparr>pg_repairs := repairs\<rparr>, RepairReplied reply))"
| "pg_step P db (OutboxQueue op) = (let (outbox, reply) = outbox_step (pg_outbox db) op in (db\<lparr>pg_outbox := outbox\<rparr>, OutboxReplied reply))"

end
