(* ===== verification/Simulation.thy ===== *)
theory Simulation
  imports Contracts "HOL-Library.Sublist"
begin

text \<open>
  Refinement of a specification whose answers can be lost. One step of the implementation is matched by a
  run of the specification: by several requests for a batch, by a request that the caller never hears of
  when the connection fails after the commit, by nothing for a refusal or for housekeeping. What the
  callers are told is part of what the specification answers, in the same order.
\<close>

section \<open>Positive answers\<close>

definition positive_answers :: "('q \<times> ('a, 'e) result) list \<Rightarrow> ('q \<times> 'a) list" where
  "positive_answers qrs = concat (map (\<lambda>(q, r). case r of Ok x \<Rightarrow> [(q, x)] | Err _ \<Rightarrow> []) qrs)"

lemma answers_simps [simp]:
  "positive_answers [] = []" "positive_answers ((q, Ok x) # l) = (q, x) # positive_answers l" "positive_answers ((q, Err e) # l) = positive_answers l"
  "positive_answers (l @ l') = positive_answers l @ positive_answers l'"
  by (simp_all add: positive_answers_def)

lemma answers_member: "(q, x) \<in> set (positive_answers qrs) \<longleftrightarrow> (q, Ok x) \<in> set qrs"
  by (force simp: positive_answers_def split: result.splits)

section \<open>Runs\<close>

locale run_refinement =
  fixes step :: "'s \<Rightarrow> 'op \<Rightarrow> 's \<times> 'reply"
    and spec_next :: "'t \<Rightarrow> 'q \<Rightarrow> 't \<times> ('a, 'e) result"
    and abstraction :: "'s \<Rightarrow> 't"
    and invar :: "'s \<Rightarrow> bool"
    and allowed :: "'op \<Rightarrow> bool"
    and requests :: "'op \<Rightarrow> 'q set"
    and acknowledged :: "'op \<Rightarrow> 'reply \<Rightarrow> ('q \<times> 'a) list"
  assumes step_refines: "invar s \<Longrightarrow> allowed op \<Longrightarrow> step s op = (s', r) \<Longrightarrow>
    invar s' \<and> (\<exists>qs outs. set qs \<subseteq> requests op \<and> run spec_next (abstraction s) qs = (abstraction s', outs) \<and>
      subseq (acknowledged op r) (positive_answers (zip qs outs)))"
begin

theorem run_refines:
  assumes "invar s" and "list_all allowed ops" and "run step s ops = (s', rs)"
  shows "invar s' \<and> (\<exists>qs outs. set qs \<subseteq> (\<Union>op\<in>set ops. requests op) \<and>
    run spec_next (abstraction s) qs = (abstraction s', outs) \<and>
    subseq (concat (map2 acknowledged ops rs)) (positive_answers (zip qs outs)))"
  using assms
proof (induction ops arbitrary: s rs)
  case Nil
  then show ?case by (auto intro!: exI [of _ "[]"])
next
  case (Cons op ops)
  obtain s1 r where st: "step s op = (s1, r)" by fastforce
  obtain rs1 where rn: "run step s1 ops = (s', rs1)" "rs = r # rs1" using Cons.prems(3) st by (auto simp: case_prod_unfold Let_def prod_eq_iff)
  have al: "allowed op" "list_all allowed ops" using Cons.prems(2) by simp_all
  from step_refines [OF Cons.prems(1) al(1) st] obtain qs outs where h: "invar s1" "set qs \<subseteq> requests op"
    "run spec_next (abstraction s) qs = (abstraction s1, outs)" "subseq (acknowledged op r) (positive_answers (zip qs outs))" by blast
  from Cons.IH [OF h(1) al(2) rn(1)] obtain qs' outs' where t: "invar s'" "set qs' \<subseteq> (\<Union>op\<in>set ops. requests op)"
    "run spec_next (abstraction s1) qs' = (abstraction s', outs')" "subseq (concat (map2 acknowledged ops rs1)) (positive_answers (zip qs' outs'))" by blast
  have l: "length qs = length outs" using run_length [of spec_next "abstraction s" qs] h(3) by simp
  have "run spec_next (abstraction s) (qs @ qs') = (abstraction s', outs @ outs')" using h(3) t(3) by (simp add: run_append)
  moreover have "subseq (concat (map2 acknowledged (op # ops) rs)) (positive_answers (zip (qs @ qs') (outs @ outs')))"
    using list_emb_append_mono [OF h(4) t(4)] by (simp add: rn(2) l)
  moreover have "set (qs @ qs') \<subseteq> (\<Union>op\<in>set (op # ops). requests op)" using h(2) t(2) by auto
  ultimately show ?case using t(1) by blast
qed

end

end
