(* ===== verification/Postgres_Refinement.thy ===== *)
theory Postgres_Refinement
  imports Postgres_Operations Simulation
begin

text \<open>
  The PostgreSQL store implements the specification of a backend that \<open>Memory_Spec\<close> states for the memory
  backend: the abstraction of the tables moves along a run of the specification, whose answers the
  store gives. The receipts hold the requests themselves, so the digest of the specification is the
  identity here.
\<close>

section \<open>Integers in columns\<close>

definition fits :: "nat \<Rightarrow> int \<Rightarrow> bool" where
  "fits b n \<longleftrightarrow> 0 \<le> n \<and> n < 2 ^ b"

lemma fits_u32: "fits 32 n \<Longrightarrow> of_int n = (w :: u32) \<longleftrightarrow> n = uint w"
  by (auto simp: fits_def word_uint_eq_iff uint_word_of_int take_bit_int_eq_self)

lemma fits_u64: "fits 63 n \<Longrightarrow> of_int n = (w :: u64) \<longleftrightarrow> n = uint w"
  by (auto simp: fits_def word_uint_eq_iff uint_word_of_int take_bit_int_eq_self)

lemma fits_uint [simp]: "fits 32 (uint (v :: u32))" "fits 63 (uint (w :: u64)) \<longleftrightarrow> uint w < 2 ^ 63"
  using uint_bounded [of v] by (auto simp: fits_def)

lemma uint_of_fits: "fits 63 n \<Longrightarrow> uint (of_int n :: u64) = n"
  by (simp add: fits_def uint_word_of_int take_bit_int_eq_self)

lemma conversions_Ok:
  "i64_try_from w e = Ok n \<longleftrightarrow> uint w < 2 ^ 63 \<and> n = uint w"
  "required_revision_to_i64 k w = Ok n \<longleftrightarrow> uint w < 2 ^ 63 \<and> n = uint w"
  "timestamp_to_i64 k w = Ok n \<longleftrightarrow> uint w < 2 ^ 63 \<and> n = uint w"
  "revision_from_i64 k n = Ok w \<longleftrightarrow> 0 \<le> n \<and> w = of_int n"
  "timestamp_from_i64 k n = Ok w \<longleftrightarrow> 0 \<le> n \<and> w = of_int n"
  "bigint_successor m = Ok n \<longleftrightarrow> m + 1 < 2 ^ 63 \<and> n = m + 1"
  by (auto simp: i64_try_from_def required_revision_to_i64_def timestamp_to_i64_def revision_from_i64_def
      timestamp_from_i64_def bigint_successor_def)

lemma unat_of_fits: "fits 63 n \<Longrightarrow> unat (of_int n :: u64) + 1 < 2 ^ 64"
  unfolding unat_eq_nat_uint by (simp add: uint_of_fits) (auto simp: fits_def nat_less_iff)

lemma uint_succ: "uint (a :: u64) + 1 < 2 ^ 63 \<Longrightarrow> uint (a + 1) = uint a + 1"
  using uint_of_fits [of "uint a + 1"] by (simp add: fits_def)

lemma uint_succ': "uint (a :: u64) < 2 ^ 63 \<Longrightarrow> uint (a + 1) = uint a + 1"
  by (simp add: uint_word_ariths take_bit_int_eq_self)

lemma fits_succ: "uint (a :: u64) + 1 < 2 ^ 63 \<Longrightarrow> fits 63 (uint a + 1)" "0 < uint (a :: u64) + 1"
  using uint_nonnegative [of a] by (auto simp: fits_def simp del: uint_ge_0)

section \<open>Abstraction\<close>

definition row_envelope :: "record_key \<Rightarrow> snapshot_row \<Rightarrow> snapshot_envelope" where
  "row_envelope k r =
     \<lparr>se_record = k, se_schema = ns_schema r, se_schema_version = of_int (ns_schema_version r),
      se_revision = of_int (ns_revision r), se_payload = ns_payload r, se_updated_at_unix_ms = of_int (ns_updated_at r)\<rparr>"

definition save_receipt :: "idempotency_row \<Rightarrow> snapshot_receipt" where
  "save_receipt r =
     \<lparr>sn_record = iq_record r,
      sn_fingerprint = \<lparr>sf_schema = iq_schema r, sf_schema_version = of_int (iq_schema_version r),
        sf_payload_digest = iq_payload r, sf_expected_revision = map_option of_int (iq_expected r),
        sf_updated_at_unix_ms = of_int (the (iq_updated_at r))\<rparr>,
      sn_revision = of_int (iq_revision r)\<rparr>"

definition row_receipt :: "transaction_row \<Rightarrow> mem_transaction_receipt" where
  "row_receipt r =
     \<lparr>mt_fingerprint = \<lparr>mf_record = xr_record r, mf_schema = xr_schema r, mf_schema_version = of_int (xr_schema_version r),
        mf_expected_revision = of_int (xr_expected r), mf_payload_digest = xr_payload r, mf_result_digest = xr_result r,
        mf_updated_at_unix_ms = of_int (xr_updated_at r)\<rparr>,
      mt_new_revision = of_int (xr_new_revision r), mt_result = xr_result r\<rparr>"

definition row_fingerprint :: "multi_row \<Rightarrow> record_fingerprint" where
  "row_fingerprint r =
     \<lparr>rp_record = mv_record r, rp_schema = mv_schema r, rp_schema_version = of_int (mv_schema_version r),
      rp_expected_revision = of_int (mv_expected r), rp_payload_digest = mv_payload r,
      rp_updated_at_unix_ms = of_int (mv_updated_at r)\<rparr>"

definition header_receipt :: "(bytes \<Rightarrow> commit_effects) \<Rightarrow> multi_header \<Rightarrow> multi_row list \<Rightarrow> bytes option \<Rightarrow> stored_multi_receipt" where
  "header_receipt decode h rows payload =
     \<lparr>sm_effects = (case payload of None \<Rightarrow> commit_effects_default | Some b \<Rightarrow> decode b),
      sm_fingerprint = \<lparr>mp_writes = map row_fingerprint rows, mp_result_digest = mh_result h\<rparr>,
      sm_records = map (\<lambda>r. \<lparr>rr_record = mv_record r, rr_new_revision = of_int (mv_new_revision r)\<rparr>) rows,
      sm_result = mh_result h\<rparr>"

definition row_append :: "record_key \<Rightarrow> append_row \<Rightarrow> append_record" where
  "row_append k r =
     \<lparr>ap_record = k, ap_schema = ax_schema r, ap_schema_version = of_int (ax_schema_version r),
      ap_payload = ax_payload r, ap_occurred_at_unix_ms = of_int (ax_occurred_at r)\<rparr>"

definition row_write :: "multi_row \<Rightarrow> transactional_record_write" where
  "row_write r =
     \<lparr>rw_record = mv_record r, rw_schema = mv_schema r, rw_schema_version = of_int (mv_schema_version r),
      rw_expected_revision = of_int (mv_expected r), rw_payload = mv_payload r, rw_updated_at_unix_ms = of_int (mv_updated_at r)\<rparr>"

definition row_record_receipt :: "multi_row \<Rightarrow> transaction_record_receipt" where
  "row_record_receipt r = \<lparr>rr_record = mv_record r, rr_new_revision = of_int (mv_new_revision r)\<rparr>"

definition row_posting :: "ledger_row \<Rightarrow> ledger_posting" where
  "row_posting r =
     \<lparr>lp_posting_id = lx_posting_id r, lp_account_id = lx_account_id r, lp_asset = lx_asset r,
      lp_amount = of_int (lx_amount r), lp_metadata = lx_metadata r\<rparr>"

definition row_event :: "outbox_row \<Rightarrow> outbox_event" where
  "row_event r =
     \<lparr>oe_event_id = ob_event_id r, oe_topic = ob_topic r, oe_partition_key = ob_partition_key r,
      oe_payload = ob_payload r, oe_occurred_at_unix_ms = of_int (ob_occurred_at r)\<rparr>"

definition row_state :: "int \<Rightarrow> trade_state" where
  "row_state n = (if n = 1 then Proposed else if n = 2 then Escrowed else if n = 3 then trade_state.Settled else Cancelled)"

definition row_trade :: "string \<Rightarrow> trade_row \<Rightarrow> trade_envelope" where
  "row_trade i r =
     \<lparr>te_trade_id = i, te_version = of_int (tv_version r), te_state = row_state (tv_state r), te_payload = tv_payload r,
      te_updated_at_unix_ms = of_int (tv_updated_at r)\<rparr>"

text \<open>The rows of an operation, as the request and the receipt they hold.\<close>

definition stored_request :: "string \<Rightarrow> trade_header \<Rightarrow> multi_row list \<Rightarrow> ledger_posting list \<Rightarrow> outbox_event list \<Rightarrow> trade_transaction" where
  "stored_request i h records postings events =
     \<lparr>tx_operation_id = i,
      tx_transition = \<lparr>tt_trade_id = th_trade_id h, tt_expected_version = of_int (th_expected_version h),
        tt_expected_state = map_option row_state (th_expected_state h), tt_next_state = row_state (th_next_state h),
        tt_payload = th_payload h, tt_updated_at_unix_ms = of_int (th_updated_at h)\<rparr>,
      tx_writes = map row_write records, tx_ledger_postings = postings, tx_outbox_events = events, tx_result = th_result h\<rparr>"

definition stored_trade :: "string \<Rightarrow> trade_header \<Rightarrow> multi_row list \<Rightarrow> ledger_posting list \<Rightarrow> outbox_event list \<Rightarrow> stored_trade_receipt" where
  "stored_trade i h records postings events =
     \<lparr>sd_request = stored_request i h records postings events,
      sd_receipt = trade_receipt_of (stored_request i h records postings events) (of_int (th_new_version h))
        (map row_record_receipt records)\<rparr>"

definition trade_postings :: "string \<Rightarrow> ledger_row list \<Rightarrow> ledger_posting list" where
  "trade_postings i rows = sort_key lp_posting_id (map row_posting (filter (\<lambda>r. lx_operation_id r = i) rows))"

definition trade_events :: "string \<Rightarrow> outbox_row list \<Rightarrow> outbox_event list" where
  "trade_events i rows = sort_key oe_event_id (map row_event (filter (\<lambda>r. ob_operation_id r = i) rows))"

definition pg_abs :: "(bytes \<Rightarrow> commit_effects) \<Rightarrow> postgres \<Rightarrow> memory_spec" where
  "pg_abs decode db =
     \<lparr>sp_snapshots = (\<lambda>k. map_option (row_envelope k) (pg_snapshots db k)),
      sp_kinds = (\<lambda>i. map_option oc_kind (pg_claims db i)),
      sp_saves = (\<lambda>i. map_option save_receipt (pg_idempotency db i)),
      sp_transactions = (\<lambda>i. map_option row_receipt (pg_transactions db i)),
      sp_multis = (\<lambda>i. map_option (\<lambda>h. header_receipt decode h (pg_multi_records db i) (pg_effects db i)) (pg_multis db i)),
      sp_trade_receipts = (\<lambda>i. map_option (\<lambda>h. stored_trade i h (pg_trade_records db i) (trade_postings i (pg_ledger db))
        (trade_events i (od_rows (pg_outbox db)))) (pg_trade_operations db i)),
      sp_trades = (\<lambda>i. map_option (row_trade i) (pg_trades db i)),
      sp_ids = \<lparr>ti_appends = (\<lambda>k. map_option (row_append k) (pg_appends db k)),
                ti_ledger_posting_ids = lx_posting_id ` set (pg_ledger db),
                ti_outbox_event_ids = ob_event_id ` set (od_rows (pg_outbox db))\<rparr>\<rparr>"

definition exact_params :: "pg_params \<Rightarrow> mem_params" where
  "exact_params P = \<lparr>digest = (\<lambda>b. b), codec = pp_codec P\<rparr>"

lemma exact_params_simps [simp]: "digest (exact_params P) b = b" "codec (exact_params P) = pp_codec P"
  by (simp_all add: exact_params_def)

lemma pg_abs_simps [simp]:
  "sp_snapshots (pg_abs d db) = (\<lambda>k. map_option (row_envelope k) (pg_snapshots db k))"
  "sp_kinds (pg_abs d db) = (\<lambda>i. map_option oc_kind (pg_claims db i))"
  "sp_saves (pg_abs d db) = (\<lambda>i. map_option save_receipt (pg_idempotency db i))"
  "sp_transactions (pg_abs d db) = (\<lambda>i. map_option row_receipt (pg_transactions db i))"
  "sp_multis (pg_abs d db) = (\<lambda>i. map_option (\<lambda>h. header_receipt d h (pg_multi_records db i) (pg_effects db i)) (pg_multis db i))"
  "sp_trade_receipts (pg_abs d db) = (\<lambda>i. map_option (\<lambda>h. stored_trade i h (pg_trade_records db i)
     (trade_postings i (pg_ledger db)) (trade_events i (od_rows (pg_outbox db)))) (pg_trade_operations db i))"
  "sp_trades (pg_abs d db) = (\<lambda>i. map_option (row_trade i) (pg_trades db i))"
  "ti_ledger_posting_ids (sp_ids (pg_abs d db)) = lx_posting_id ` set (pg_ledger db)"
  "ti_appends (sp_ids (pg_abs d db)) = (\<lambda>k. map_option (row_append k) (pg_appends db k))"
  "ti_outbox_event_ids (sp_ids (pg_abs d db)) = ob_event_id ` set (od_rows (pg_outbox db))"
  by (simp_all add: pg_abs_def)

section \<open>Well-formed tables\<close>

definition snapshot_row_ok :: "snapshot_row \<Rightarrow> bool" where
  "snapshot_row_ok r \<longleftrightarrow> fits 32 (ns_schema_version r) \<and> 0 < ns_revision r \<and> fits 63 (ns_revision r) \<and> fits 63 (ns_updated_at r)"

definition idempotency_row_ok :: "idempotency_row \<Rightarrow> bool" where
  "idempotency_row_ok r \<longleftrightarrow> fits 32 (iq_schema_version r) \<and> pred_option (fits 63) (iq_expected r) \<and> fits 63 (iq_revision r) \<and>
     iq_updated_at r \<noteq> None \<and> pred_option (fits 63) (iq_updated_at r)"

definition transaction_row_ok :: "transaction_row \<Rightarrow> bool" where
  "transaction_row_ok r \<longleftrightarrow> fits 32 (xr_schema_version r) \<and> fits 63 (xr_expected r) \<and> fits 63 (xr_new_revision r) \<and> fits 63 (xr_updated_at r)"

definition multi_row_ok :: "multi_row \<Rightarrow> bool" where
  "multi_row_ok r \<longleftrightarrow> fits 32 (mv_schema_version r) \<and> fits 63 (mv_expected r) \<and> fits 63 (mv_new_revision r) \<and> fits 63 (mv_updated_at r)"

definition append_row_ok :: "append_row \<Rightarrow> bool" where
  "append_row_ok r \<longleftrightarrow> fits 32 (ax_schema_version r) \<and> fits 63 (ax_occurred_at r)"

definition multi_ok :: "multi_header option \<Rightarrow> multi_row list \<Rightarrow> bytes option \<Rightarrow> bool" where
  "multi_ok header rows payload \<longleftrightarrow>
     (case header of
        None \<Rightarrow> rows = [] \<and> payload = None
      | Some h \<Rightarrow> mh_record_count h = int (length rows) \<and> sorted (map mv_record rows) \<and> distinct (map mv_record rows) \<and>
          list_all multi_row_ok rows)"

definition trade_ok :: "trade_header option \<Rightarrow> multi_row list \<Rightarrow> bool" where
  "trade_ok header rows \<longleftrightarrow>
     (case header of
        None \<Rightarrow> rows = []
      | Some _ \<Rightarrow> sorted (map mv_record rows) \<and> list_all multi_row_ok rows)"

text \<open>Ledger postings and events belong to operations that were claimed.\<close>

definition claims_ok :: "(string \<rightharpoonup> claim_row) \<Rightarrow> ledger_row list \<Rightarrow> outbox_row list \<Rightarrow> bool" where
  "claims_ok claims ledger outbox \<longleftrightarrow>
     (\<forall>i. pred_option (\<lambda>c. oc_retired_at c = None) (claims i)) \<and>
     lx_operation_id ` set ledger \<subseteq> dom claims \<and> ob_operation_id ` set outbox \<subseteq> dom claims"

definition pg_ok :: "postgres \<Rightarrow> bool" where
  "pg_ok db \<longleftrightarrow>
     (\<forall>k. pred_option snapshot_row_ok (pg_snapshots db k)) \<and>
     (\<forall>i. pred_option idempotency_row_ok (pg_idempotency db i)) \<and>
     claims_ok (pg_claims db) (pg_ledger db) (od_rows (pg_outbox db)) \<and>
     (\<forall>i. pred_option transaction_row_ok (pg_transactions db i)) \<and>
     (\<forall>i. multi_ok (pg_multis db i) (pg_multi_records db i) (pg_effects db i)) \<and>
     (\<forall>k. pred_option append_row_ok (pg_appends db k)) \<and>
     (\<forall>i. trade_ok (pg_trade_operations db i) (pg_trade_records db i))"

lemma claims_ok_claim: "claims_ok claims ledger outbox \<Longrightarrow> oc_retired_at c = None \<Longrightarrow> claims_ok (claims(i \<mapsto> c)) ledger outbox"
  by (auto simp: claims_ok_def)

lemma pg_ok_new: "pg_ok postgres_new"
  by (simp add: pg_ok_def postgres_new_def multi_ok_def trade_ok_def claims_ok_def outbox_new_def)

lemma pg_abs_new: "pg_abs d postgres_new = spec_empty"
  by (simp add: pg_abs_def postgres_new_def outbox_new_def spec_empty_def fun_eq_iff)

text \<open>Repairs are no part of the abstraction.\<close>

lemma pg_abs_repairs [simp]: "pg_abs d (db\<lparr>pg_repairs := x\<rparr>) = pg_abs d db" "pg_ok (db\<lparr>pg_repairs := x\<rparr>) = pg_ok db"
  by (simp_all add: pg_abs_def pg_ok_def)

lemma enqueue_Ok:
  "enqueue_in_transaction now k n db = Ok db' \<longleftrightarrow>
     uint n < 2 ^ 63 \<and> db' = db\<lparr>pg_repairs := fst (sql_enqueue k (uint n) now (pg_repairs db))\<rparr>"
  by (auto simp: enqueue_in_transaction_def and_then_Ok_iff conversions_Ok)

lemma pg_actual_Ok:
  assumes "pg_ok db"
  shows "pg_actual_revision db k = Ok (actual_revision (sp_snapshots (pg_abs d db)) k)"
proof (cases "pg_snapshots db k")
  case (Some row)
  then have "snapshot_row_ok row" using assms by (metis pg_ok_def option.pred_inject(2))
  then show ?thesis
    using Some by (simp add: pg_actual_revision_def actual_revision_def conversions_Ok row_envelope_def snapshot_row_ok_def fits_def)
qed (simp add: pg_actual_revision_def actual_revision_def)

section \<open>Saves\<close>

lemma snapshot_row_at: "pg_ok db \<Longrightarrow> pg_snapshots db k = Some row \<Longrightarrow> snapshot_row_ok row"
  by (metis pg_ok_def option.pred_inject(2))

lemma idempotency_row_at: "pg_ok db \<Longrightarrow> pg_idempotency db i = Some row \<Longrightarrow> idempotency_row_ok row"
  by (metis pg_ok_def option.pred_inject(2))

lemma prepare_save_Ok:
  "prepare_save q None = Ok (v, e, t, f) \<longleftrightarrow>
     \<not> blank (sw_request_id q) \<and> valid_record (sw_record q) \<and> v = uint (sw_schema_version q) \<and>
     (\<forall>n. sw_expected_revision q = Some n \<longrightarrow> uint n < 2 ^ 63) \<and> e = map_option uint (sw_expected_revision q) \<and>
     uint (sw_updated_at_unix_ms q) < 2 ^ 63 \<and> t = uint (sw_updated_at_unix_ms q) \<and> f = None"
  by (auto simp: prepare_save_def and_then_Ok_iff validate_request_def check_record_key_def valid_record_def
      revision_to_i64_def conversions_Ok schema_version_to_i64_def split: option.splits if_splits)

text \<open>A receipt matches a request exactly when the fingerprints agree.\<close>

lemma idempotency_matches_iff:
  assumes "idempotency_row_ok r" and "prepare_save q None = Ok (v, e, t, f)"
  shows "idempotency_matches r q v e t \<longleftrightarrow>
    sn_record (save_receipt r) = sw_record q \<and> sn_fingerprint (save_receipt r) = snapshot_fingerprint_from (exact_params P) q"
proof -
  have "iq_expected r = map_option uint (sw_expected_revision q) \<longleftrightarrow> map_option of_int (iq_expected r) = sw_expected_revision q"
    using assms(1) unfolding idempotency_row_ok_def
    by (cases "iq_expected r"; cases "sw_expected_revision q") (auto simp: fits_u64)
  moreover obtain u where "iq_updated_at r = Some u" "fits 63 u" using assms(1) by (auto simp: idempotency_row_ok_def)
  ultimately show ?thesis
    using assms unfolding prepare_save_Ok
    by (auto simp: idempotency_matches_def save_receipt_def snapshot_fingerprint_from_def idempotency_row_ok_def fits_u32 fits_u64)
qed

lemma replay_save_Ok:
  assumes "idempotency_row_ok r"
  shows "\<exists>x. replay_save now q r db = Ok (db\<lparr>pg_repairs := x\<rparr>, Duplicate (of_int (iq_revision r)))"
  using assms
  by (auto simp: replay_save_def idempotency_row_ok_def and_then_Ok_iff conversions_Ok enqueue_Ok uint_of_fits)
    (simp_all add: fits_def)

definition saved_db :: "snapshot_write \<Rightarrow> snapshot_row \<Rightarrow> idempotency_row \<Rightarrow> postgres \<Rightarrow> postgres" where
  "saved_db q row receipt db =
     db\<lparr>pg_snapshots := (pg_snapshots db)(sw_record q \<mapsto> row),
        pg_idempotency := (pg_idempotency db)(sw_request_id q \<mapsto> receipt)\<rparr>"

lemma saved_db_abs:
  "pg_abs d (saved_db q row receipt db) =
     (pg_abs d db)\<lparr>sp_snapshots := (sp_snapshots (pg_abs d db))(sw_record q \<mapsto> row_envelope (sw_record q) row),
        sp_saves := (sp_saves (pg_abs d db))(sw_request_id q \<mapsto> save_receipt receipt)\<rparr>"
  by (simp add: pg_abs_def saved_db_def fun_eq_iff)

lemma saved_db_ok: "pg_ok db \<Longrightarrow> snapshot_row_ok row \<Longrightarrow> idempotency_row_ok receipt \<Longrightarrow> pg_ok (saved_db q row receipt db)"
  by (auto simp: pg_ok_def saved_db_def)

text \<open>What the statement does for a new request: it writes at the next revision, or it refuses.\<close>

definition next_sequence :: "postgres \<Rightarrow> record_key \<Rightarrow> int option" where
  "next_sequence db k = Option.bind (pg_snapshots db k) ns_queued_sequence"

lemma save_fresh:
  assumes ok: "pg_ok db" and prep: "prepare_save q None = Ok (v, e, t, f)" and new: "pg_idempotency db (sw_request_id q) = None"
    and save: "save_snapshot_in_transaction now q v e t f db = (db', r)"
    and a: "a = actual_revision (sp_snapshots (pg_abs d db)) (sw_record q)"
  shows "(\<exists>c. r = Err c \<and> (\<forall>x. c \<noteq> StorageCore x)) \<or>
    (\<exists>n. sw_expected_revision q = Some n \<and> n \<noteq> a) \<and> db' = db \<and>
      r = Err (StorageCore (RevisionConflict (sw_record q) (sw_expected_revision q) a)) \<or>
    (\<forall>n. sw_expected_revision q = Some n \<longrightarrow> n = a) \<and> uint a + 1 < 2 ^ 63 \<and> r = Ok (Applied (a + 1)) \<and>
      (\<exists>x. db' = (saved_db q (written_row q v (uint a + 1) t (next_sequence db (sw_record q)))
        ((claimed_receipt now q v e t)\<lparr>iq_revision := uint a + 1\<rparr>) db)\<lparr>pg_repairs := x\<rparr>)"
proof -
  let ?receipt = "claimed_receipt now q v e t"
  let ?claimed = "db\<lparr>pg_idempotency := (pg_idempotency db)(sw_request_id q \<mapsto> ?receipt)\<rparr>"
  have f: "f = None" and e: "e = map_option uint (sw_expected_revision q)" using prep by (simp_all add: prepare_save_Ok)
  have act: "pg_actual_revision ?claimed (sw_record q) = Ok a"
    using pg_actual_Ok [OF ok, of "sw_record q" d] by (simp add: a pg_actual_revision_def)
  have ua: "uint a = (case pg_snapshots db (sw_record q) of None \<Rightarrow> 0 | Some row \<Rightarrow> ns_revision row)"
    using snapshot_row_at [OF ok] unfolding a
    by (auto simp: actual_revision_def row_envelope_def snapshot_row_ok_def uint_of_fits split: option.splits)
  have succ: "of_int (uint a + 1) = a + 1" by simp
  define wins where "wins \<longleftrightarrow> (\<forall>n. sw_expected_revision q = Some n \<longrightarrow> n = a)"
  have stmt: "sql_save q v e t ?claimed =
      (if wins then and_then (bigint_successor (uint a)) (\<lambda>n. Ok (?claimed\<lparr>pg_snapshots := (pg_snapshots db)(sw_record q \<mapsto>
           written_row q v n t (next_sequence db (sw_record q)))\<rparr>, Some n))
       else Ok (?claimed, None))"
    unfolding sql_save_def wins_def using ua
    by (auto simp: e next_sequence_def bigint_successor_def word_uint_eq_iff split: option.splits)
  have settled: "\<exists>x. settle_receipt now q (a + 1) (?claimed\<lparr>pg_snapshots := m\<rparr>) =
      Ok (?claimed\<lparr>pg_snapshots := m, pg_idempotency := (pg_idempotency db)(sw_request_id q \<mapsto> ?receipt\<lparr>iq_revision := uint a + 1\<rparr>),
        pg_repairs := x\<rparr>)" if "uint a + 1 < 2 ^ 63" for m
    using that by (auto simp: settle_receipt_def conversions_Ok and_then_Ok_iff enqueue_Ok uint_succ)
  show ?thesis
  proof (cases wins)
    case False
    then obtain n where n: "sw_expected_revision q = Some n" "n \<noteq> a" by (auto simp: wins_def)
    then have "e \<noteq> None" by (simp add: e)
    then have "(db', r) = (db, Err (StorageCore (RevisionConflict (sw_record q) (sw_expected_revision q) a)))"
      unfolding save [symmetric] save_snapshot_in_transaction_def new f using False act new
      by (auto simp: stmt Let_def fun_upd_idem)
    then show ?thesis using n by blast
  next
    case True
    show ?thesis
    proof (cases "uint a + 1 < 2 ^ 63")
      case small: True
      obtain x where x: "settle_receipt now q (a + 1) (?claimed\<lparr>pg_snapshots := (pg_snapshots db)(sw_record q \<mapsto>
           written_row q v (uint a + 1) t (next_sequence db (sw_record q)))\<rparr>) = Ok (?claimed\<lparr>pg_snapshots := (pg_snapshots db)(sw_record q \<mapsto>
           written_row q v (uint a + 1) t (next_sequence db (sw_record q))), pg_idempotency := (pg_idempotency db)(sw_request_id q \<mapsto> ?receipt\<lparr>iq_revision := uint a + 1\<rparr>),
        pg_repairs := x\<rparr>)" using settled [OF small] by blast
      have "(db', r) = (?claimed\<lparr>pg_snapshots := (pg_snapshots db)(sw_record q \<mapsto>
           written_row q v (uint a + 1) t (next_sequence db (sw_record q))), pg_idempotency := (pg_idempotency db)(sw_request_id q \<mapsto> ?receipt\<lparr>iq_revision := uint a + 1\<rparr>),
        pg_repairs := x\<rparr>, Ok (Applied (a + 1)))"
        unfolding save [symmetric] save_snapshot_in_transaction_def new f using True small x
        by (simp add: stmt Let_def bigint_successor_def revision_from_i64_def not_less less_imp_le [OF fits_succ(2)])
      then show ?thesis using True small unfolding wins_def by (auto simp: saved_db_def)
    next
      case False
      have "r = Err (Postgres (Some ''22003''))"
        using save True False by (simp add: save_snapshot_in_transaction_def new f stmt Let_def bigint_successor_def)
      then show ?thesis by simp
    qed
  qed
qed

lemma save_refines:
  assumes ok: "pg_ok db" and prep: "prepare_save q None = Ok (v, e, t, f)"
    and save: "save_snapshot_in_transaction now q v e t f db = (db', r)"
  shows "case r of
      Ok out \<Rightarrow> spec_save (exact_params P) (pg_abs d db) q = (pg_abs d db', Ok out) \<and> pg_ok db'
    | Err (StorageCore c) \<Rightarrow> db' = db \<and> spec_save (exact_params P) (pg_abs d db) q = (pg_abs d db, Err c)
    | Err _ \<Rightarrow> True"
proof (cases "pg_idempotency db (sw_request_id q)")
  case (Some row)
  have row: "idempotency_row_ok row" using idempotency_row_at [OF ok Some] .
  note m = idempotency_matches_iff [OF row prep, of P]
  have b: "\<not> blank (sw_request_id q)" using prep by (simp add: prepare_save_Ok)
  have spec: "spec_save (exact_params P) (pg_abs d db) q =
      (pg_abs d db, if idempotency_matches row q v e t then Ok (Duplicate (of_int (iq_revision row)))
                    else Err (IdempotencyConflict (sw_request_id q)))"
    unfolding m spec_save_def by (simp add: b Some) (simp add: save_receipt_def)
  obtain x where "replay_save now q row db = Ok (db\<lparr>pg_repairs := x\<rparr>, Duplicate (of_int (iq_revision row)))"
    using replay_save_Ok [OF row] by blast
  then show ?thesis
    using save ok spec by (auto simp: save_snapshot_in_transaction_def Some split: if_splits)
next
  case None
  let ?a = "actual_revision (sp_snapshots (pg_abs d db)) (sw_record q)"
  have b: "\<not> blank (sw_request_id q)" using prep by (simp add: prepare_save_Ok)
  from save_fresh [OF ok prep None save refl, of d] show ?thesis
  proof (elim disjE exE conjE)
    fix c assume "r = Err c" and "\<forall>x. c \<noteq> StorageCore x"
    then show ?thesis by (cases c) simp_all
  next
    fix n assume "sw_expected_revision q = Some n" "n \<noteq> ?a" "db' = db"
      "r = Err (StorageCore (RevisionConflict (sw_record q) (sw_expected_revision q) ?a))"
    then show ?thesis using None b by (simp add: spec_save_def)
  next
    fix x assume w: "\<forall>n. sw_expected_revision q = Some n \<longrightarrow> n = ?a" and small: "uint ?a + 1 < 2 ^ 63"
      and r: "r = Ok (Applied (?a + 1))"
      and db': "db' = (saved_db q (written_row q v (uint ?a + 1) t (next_sequence db (sw_record q)))
        ((claimed_receipt now q v e t)\<lparr>iq_revision := uint ?a + 1\<rparr>) db)\<lparr>pg_repairs := x\<rparr>"
    have e: "e = map_option uint (sw_expected_revision q)" "v = uint (sw_schema_version q)" "t = uint (sw_updated_at_unix_ms q)"
      "t < 2 ^ 63" "\<forall>n. sw_expected_revision q = Some n \<longrightarrow> uint n < 2 ^ 63" using prep by (simp_all add: prepare_save_Ok)
    have "row_envelope (sw_record q) (written_row q v (uint ?a + 1) t s) = snapshot_envelope_of q (?a + 1)" for s
      by (simp add: row_envelope_def written_row_def snapshot_envelope_of_def e)
    moreover have "save_receipt ((claimed_receipt now q v e t)\<lparr>iq_revision := uint ?a + 1\<rparr>) =
        \<lparr>sn_record = sw_record q, sn_fingerprint = snapshot_fingerprint_from (exact_params P) q, sn_revision = ?a + 1\<rparr>"
      by (simp add: save_receipt_def claimed_receipt_def snapshot_fingerprint_from_def e option.map_comp comp_def option.map_ident)
    ultimately have abs: "pg_abs d db' = (pg_abs d db)\<lparr>sp_snapshots := (sp_snapshots (pg_abs d db))(sw_record q \<mapsto> snapshot_envelope_of q (?a + 1)),
        sp_saves := (sp_saves (pg_abs d db))(sw_request_id q \<mapsto>
          \<lparr>sn_record = sw_record q, sn_fingerprint = snapshot_fingerprint_from (exact_params P) q, sn_revision = ?a + 1\<rparr>)\<rparr>"
      unfolding db' by (simp only: pg_abs_repairs saved_db_abs)
    have "unat ?a + 1 < 2 ^ 64" using unat_of_fits [of "uint ?a"] small by simp
    then have "spec_save (exact_params P) (pg_abs d db) q = (pg_abs d db', Ok (Applied (?a + 1)))"
      unfolding spec_save_applied_iff using b None w abs by simp
    moreover have "pg_ok db'"
      unfolding db' pg_abs_repairs using small e
      by (intro saved_db_ok [OF ok]; cases "sw_expected_revision q")
        (simp_all add: snapshot_row_ok_def idempotency_row_ok_def written_row_def claimed_receipt_def fits_succ)
    ultimately show ?thesis unfolding r by simp
  qed
qed

abbreviation lift_save :: "(snapshot_write_outcome, 'e) result \<Rightarrow> (mem_receipt write_outcome, 'e) result" where
  "lift_save r \<equiv> map_result (map_write_outcome Saved) (\<lambda>e. e) r"

lemma spec_step_save: "spec_save p s q = (s', r) \<Longrightarrow> spec_step p s (SaveRequest q) = (s', lift_save r)"
  by (simp add: lift_outcome_def)

lemma save_entries_refine:
  assumes "pg_ok db" and "save_entries now (map (\<lambda>q. (q, prepare_save q None)) qs) db = Ok (db', rs)"
  shows "pg_ok db' \<and> (\<exists>qs' outs. set qs' \<subseteq> SaveRequest ` set qs \<and>
    run (spec_step (exact_params P)) (pg_abs d db) qs' = (pg_abs d db', outs) \<and>
    positive_answers (zip (map SaveRequest qs) (map lift_save rs)) = positive_answers (zip qs' outs))"
  using assms
proof (induction qs arbitrary: db rs)
  case Nil
  then show ?case by (auto intro!: exI [of _ "[]"])
next
  case (Cons q qs)
  show ?case
  proof (cases "prepare_save q None")
    case (Err e)
    then obtain rs' where "save_entries now (map (\<lambda>q. (q, prepare_save q None)) qs) db = Ok (db', rs')" "rs = Err e # rs'"
      using Cons.prems(2) by (auto simp: and_then_Ok_iff)
    with Cons.IH [OF Cons.prems(1)] show ?thesis by (auto 4 3)
  next
    case (Ok x)
    obtain v ex t f where x: "x = (v, ex, t, f)" by (cases x)
    obtain db1 r where sv: "save_snapshot_in_transaction now q v ex t f db = (db1, r)" by fastforce
    note ref = save_refines [OF Cons.prems(1) Ok [unfolded x] sv, of P d]
    obtain rs' where rs: "save_entries now (map (\<lambda>q. (q, prepare_save q None)) qs) db1 = Ok (db', rs')" "rs = r # rs'"
      and r: "\<forall>e. r = Err e \<longrightarrow> (\<exists>c. e = StorageCore c)"
      using Cons.prems(2) Ok x sv by (auto simp: and_then_Ok_iff split: result.splits storage_error.splits)
    then obtain c where step: "spec_step (exact_params P) (pg_abs d db) (SaveRequest q) = (pg_abs d db1, c)" and ok1: "pg_ok db1"
      and c: "positive_answers [(SaveRequest q, lift_save r)] = positive_answers [(SaveRequest q, c)]"
      using ref Cons.prems(1) spec_step_save by (cases r) (force split: storage_error.splits)+
    obtain qs' outs where ih: "pg_ok db'" "set qs' \<subseteq> SaveRequest ` set qs"
      "run (spec_step (exact_params P)) (pg_abs d db1) qs' = (pg_abs d db', outs)"
      "positive_answers (zip (map SaveRequest qs) (map lift_save rs')) = positive_answers (zip qs' outs)"
      using Cons.IH [OF ok1 rs(1)] by blast
    have "positive_answers (zip (map SaveRequest (q # qs)) (map lift_save rs)) =
        positive_answers [(SaveRequest q, lift_save r)] @ positive_answers (zip (map SaveRequest qs) (map lift_save rs'))"
      unfolding rs positive_answers_def by simp
    also have "\<dots> = positive_answers [(SaveRequest q, c)] @ positive_answers (zip qs' outs)" unfolding c ih(4) ..
    also have "\<dots> = positive_answers (zip (SaveRequest q # qs') (c # outs))" by (simp add: positive_answers_def)
    finally show ?thesis using ih(1-3) step by (intro conjI exI [of _ "SaveRequest q # qs'"] exI [of _ "c # outs"]) auto
  qed
qed

section \<open>Transactions\<close>

lemma claim_Ok_iff:
  "pg_claim_operation now i kind db = Ok db' \<longleftrightarrow>
     (case pg_claims db i of
        None \<Rightarrow> db' = db\<lparr>pg_claims := (pg_claims db)(i \<mapsto> \<lparr>oc_kind = kind, oc_claimed_at = now, oc_retired_at = None\<rparr>)\<rparr>
      | Some c \<Rightarrow> db' = db \<and> oc_kind c = kind \<and> oc_retired_at c = None)"
  by (auto simp: pg_claim_operation_def Let_def split: option.splits)

lemma claim_spec:
  assumes "pg_claim_operation now i kind db = Ok db'"
  shows "Memory_Spec.claim_operation (sp_kinds (pg_abs d db)) i kind = Ok ()"
  using assms by (auto simp: claim_Ok_iff claim_operation_Ok_iff split: option.splits)

lemma transaction_row_at: "pg_ok db \<Longrightarrow> pg_transactions db i = Some row \<Longrightarrow> transaction_row_ok row"
  by (metis pg_ok_def option.pred_inject(2))

lemma transaction_matches_iff:
  assumes "transaction_row_ok r" and "uint (tw_expected_revision q) < 2 ^ 63" and "uint (tw_updated_at_unix_ms q) < 2 ^ 63"
  shows "transaction_matches r q (uint (tw_schema_version q)) (uint (tw_expected_revision q)) (uint (tw_updated_at_unix_ms q)) \<longleftrightarrow>
    mt_fingerprint (row_receipt r) = mem_transaction_fingerprint_from (exact_params P) q"
  using assms
  by (auto simp: transaction_matches_def row_receipt_def mem_transaction_fingerprint_from_def transaction_row_ok_def fits_u32 fits_u64)

definition transacted_db :: "timestamp \<Rightarrow> transactional_write \<Rightarrow> snapshot_row \<Rightarrow> transaction_row \<Rightarrow> postgres \<Rightarrow> postgres" where
  "transacted_db now q row receipt db =
     db\<lparr>pg_snapshots := (pg_snapshots db)(tw_record q \<mapsto> row),
        pg_claims := (pg_claims db)(tw_operation_id q \<mapsto> \<lparr>oc_kind = ''single'', oc_claimed_at = now, oc_retired_at = None\<rparr>),
        pg_transactions := (pg_transactions db)(tw_operation_id q \<mapsto> receipt)\<rparr>"

lemma transacted_db_abs:
  "pg_abs d (transacted_db now q row receipt db) =
     (pg_abs d db)\<lparr>sp_snapshots := (sp_snapshots (pg_abs d db))(tw_record q \<mapsto> row_envelope (tw_record q) row),
        sp_kinds := (sp_kinds (pg_abs d db))(tw_operation_id q \<mapsto> ''single''),
        sp_transactions := (sp_transactions (pg_abs d db))(tw_operation_id q \<mapsto> row_receipt receipt)\<rparr>"
  by (simp add: pg_abs_def transacted_db_def fun_eq_iff)

lemma transacted_db_ok:
  "pg_ok db \<Longrightarrow> snapshot_row_ok row \<Longrightarrow> transaction_row_ok receipt \<Longrightarrow> pg_ok (transacted_db now q row receipt db)"
  by (auto simp: pg_ok_def transacted_db_def intro!: claims_ok_claim)

lemma apply_fresh_Ok:
  assumes ok: "pg_ok db" and e: "uint (tw_expected_revision q) < 2 ^ 63" and t: "uint (tw_updated_at_unix_ms q) < 2 ^ 63"
    and fresh: "apply_fresh now q (uint (tw_schema_version q)) (uint (tw_expected_revision q)) (uint (tw_updated_at_unix_ms q)) db = Ok (db', out)"
  shows "actual_revision (sp_snapshots (pg_abs d db)) (tw_record q) = tw_expected_revision q \<and>
    uint (tw_expected_revision q) + 1 < 2 ^ 63 \<and> out = Applied (tw_expected_revision q + 1, tw_result q) \<and>
    (\<exists>s x. db' = db\<lparr>pg_snapshots := (pg_snapshots db)(tw_record q \<mapsto> \<lparr>ns_schema = tw_schema q,
        ns_schema_version = uint (tw_schema_version q), ns_revision = uint (tw_expected_revision q) + 1, ns_payload = tw_payload q,
        ns_updated_at = uint (tw_updated_at_unix_ms q), ns_queued_sequence = s\<rparr>),
      pg_transactions := (pg_transactions db)(tw_operation_id q \<mapsto> transaction_row_of q (uint (tw_schema_version q))
        (uint (tw_expected_revision q)) (uint (tw_updated_at_unix_ms q)) (uint (tw_expected_revision q) + 1)),
      pg_repairs := x\<rparr>)"
proof -
  define a where "a = actual_revision (sp_snapshots (pg_abs d db)) (tw_record q)"
  have act: "pg_actual_revision db (tw_record q) = Ok a" unfolding a_def by (rule pg_actual_Ok [OF ok])
  have eq: "a = tw_expected_revision q" using fresh unfolding apply_fresh_def act by (auto split: if_splits)
  obtain n where n: "checked_add a 1 = Some n" "uint n < 2 ^ 63"
    using fresh unfolding apply_fresh_def act by (auto simp: and_then_Ok_iff conversions_Ok result_simps split: if_splits)
  then have n': "n = tw_expected_revision q + 1" by (auto simp: checked_add_def eq split: if_splits)
  have un: "uint n = uint (tw_expected_revision q) + 1" unfolding n' using e by (rule uint_succ')
  have "of_int (uint n) = n" by simp
  then show ?thesis
    unfolding a_def [symmetric] using fresh n eq unfolding apply_fresh_def act un [symmetric] n' [symmetric]
    by (auto simp: and_then_Ok_iff conversions_Ok result_simps write_transaction_def Let_def enqueue_Ok transaction_row_of_def split: option.splits if_splits)
qed

lemma apply_refines:
  assumes ok: "pg_ok db" and kinds: "kinds_ok (pg_abs d db)" and b: "\<not> blank (tw_operation_id q)"
    and e: "uint (tw_expected_revision q) < 2 ^ 63" and t: "uint (tw_updated_at_unix_ms q) < 2 ^ 63"
    and ap: "apply_in_transaction now q (uint (tw_schema_version q)) (uint (tw_expected_revision q)) (uint (tw_updated_at_unix_ms q)) db = Ok (db', out)"
  shows "spec_apply (exact_params P) (pg_abs d db) q = (pg_abs d db', Ok out) \<and> pg_ok db'"
proof -
  let ?i = "tw_operation_id q"
  obtain db1 where c: "pg_claim_operation now ?i ''single'' db = Ok db1" using ap by (auto simp: apply_in_transaction_def and_then_Ok_iff)
  have tx1: "pg_transactions db1 ?i = pg_transactions db ?i" using c by (auto simp: claim_Ok_iff split: option.splits)
  show ?thesis
  proof (cases "pg_transactions db ?i")
    case (Some row)
    have row: "transaction_row_ok row" using transaction_row_at [OF ok Some] .
    have "pg_claims db ?i \<noteq> None" using kinds_ok_at [OF kinds, of ?i] Some by (auto simp: kind_slot_def)
    then have db1: "db1 = db" using c by (auto simp: claim_Ok_iff)
    have "(db', out) = (db', Duplicate (of_int (xr_new_revision row), xr_result row)) \<and> (\<exists>x. db' = db\<lparr>pg_repairs := x\<rparr>) \<and>
        mt_fingerprint (row_receipt row) = mem_transaction_fingerprint_from (exact_params P) q"
      using ap row c Some transaction_matches_iff [OF row e t, of P] unfolding db1
      by (auto simp: apply_in_transaction_def replay_transaction_def and_then_Ok_iff conversions_Ok enqueue_Ok split: if_splits)
    then show ?thesis
      using ok claim_spec [OF c, of d] b Some by (auto simp: spec_apply_def Let_def) (simp add: row_receipt_def)+
  next
    case None
    have "pg_claims db ?i = None"
      using kinds_ok_unclaimed [OF kinds claim_spec [OF c]] None by simp
    then have db1: "db1 = db\<lparr>pg_claims := (pg_claims db)(?i \<mapsto> \<lparr>oc_kind = ''single'', oc_claimed_at = now, oc_retired_at = None\<rparr>)\<rparr>"
      using c by (simp add: claim_Ok_iff)
    let ?row0 = "transaction_row_of q (uint (tw_schema_version q)) (uint (tw_expected_revision q)) (uint (tw_updated_at_unix_ms q)) 0"
    let ?row1 = "transaction_row_of q (uint (tw_schema_version q)) (uint (tw_expected_revision q)) (uint (tw_updated_at_unix_ms q)) (uint (tw_expected_revision q) + 1)"
    let ?db2 = "db1\<lparr>pg_transactions := (pg_transactions db1)(?i \<mapsto> ?row0)\<rparr>"
    have fresh: "apply_fresh now q (uint (tw_schema_version q)) (uint (tw_expected_revision q)) (uint (tw_updated_at_unix_ms q)) ?db2 = Ok (db', out)"
      using ap c tx1 None by (simp add: apply_in_transaction_def)
    have "transaction_row_ok ?row0" using e t by (simp add: transaction_row_ok_def transaction_row_of_def) (simp add: fits_def)
    then have ok2: "pg_ok ?db2" using ok by (auto simp: pg_ok_def db1 intro!: claims_ok_claim)
    have snap: "sp_snapshots (pg_abs d ?db2) = sp_snapshots (pg_abs d db)" by (simp add: db1)
    obtain s x where a: "actual_revision (sp_snapshots (pg_abs d db)) (tw_record q) = tw_expected_revision q"
      and small: "uint (tw_expected_revision q) + 1 < 2 ^ 63" and out: "out = Applied (tw_expected_revision q + 1, tw_result q)"
      and db': "db' = ?db2\<lparr>pg_snapshots := (pg_snapshots ?db2)(tw_record q \<mapsto> \<lparr>ns_schema = tw_schema q,
        ns_schema_version = uint (tw_schema_version q), ns_revision = uint (tw_expected_revision q) + 1, ns_payload = tw_payload q,
        ns_updated_at = uint (tw_updated_at_unix_ms q), ns_queued_sequence = s\<rparr>),
        pg_transactions := (pg_transactions ?db2)(?i \<mapsto> ?row1), pg_repairs := x\<rparr>"
      using apply_fresh_Ok [OF ok2 e t fresh, of d] unfolding snap by blast
    let ?row = "\<lparr>ns_schema = tw_schema q, ns_schema_version = uint (tw_schema_version q), ns_revision = uint (tw_expected_revision q) + 1,
        ns_payload = tw_payload q, ns_updated_at = uint (tw_updated_at_unix_ms q), ns_queued_sequence = s\<rparr>"
    have db'': "db' = (transacted_db now q ?row ?row1 db)\<lparr>pg_repairs := x\<rparr>"
      unfolding db' db1 transacted_db_def by simp
    have "row_envelope (tw_record q) ?row = transaction_envelope q (tw_expected_revision q + 1)"
      by (simp add: row_envelope_def transaction_envelope_def)
    moreover have "row_receipt ?row1 = \<lparr>mt_fingerprint = mem_transaction_fingerprint_from (exact_params P) q,
        mt_new_revision = tw_expected_revision q + 1, mt_result = tw_result q\<rparr>"
      by (simp add: row_receipt_def transaction_row_of_def mem_transaction_fingerprint_from_def)
    moreover have "unat (tw_expected_revision q) + 1 < 2 ^ 64" using unat_of_fits [of "uint (tw_expected_revision q)"] e by simp
    ultimately have "spec_apply (exact_params P) (pg_abs d db) q = (pg_abs d db', Ok out)"
      unfolding out spec_apply_applied_iff db'' pg_abs_repairs transacted_db_abs
      using b claim_spec [OF c, of d] None a by simp
    moreover have "pg_ok db'"
      unfolding db'' pg_abs_repairs using small t e
      by (intro transacted_db_ok [OF ok]) (simp_all add: snapshot_row_ok_def transaction_row_ok_def transaction_row_of_def fits_succ)
    ultimately show ?thesis by simp
  qed
qed

section \<open>Commits\<close>

lemma validate_multi_normalize:
  "validate_multi_transaction_request q = Ok () \<Longrightarrow> multi_normalize q = Ok (q\<lparr>mw_writes := sort_key rw_record (mw_writes q)\<rparr>)"
  using first_adjacent_sorted [of "\<lambda>r. r" "sort (map rw_record (mw_writes q))"]
  by (auto simp: validate_multi_transaction_request_def multi_normalize_Ok_iff split: if_splits option.splits)

lemma enqueue_all_Ok: "enqueue_all now rs db = Ok db' \<Longrightarrow> \<exists>x. db' = db\<lparr>pg_repairs := x\<rparr>"
proof (induction rs arbitrary: db)
  case Nil
  then show ?case by (intro exI [of _ "pg_repairs db"]) simp
next
  case (Cons r rs)
  then obtain db1 where "enqueue_in_transaction now (rr_record r) (rr_new_revision r) db = Ok db1" "enqueue_all now rs db1 = Ok db'"
    by (auto simp: and_then_Ok_iff)
  with Cons.IH show ?case by (fastforce simp: enqueue_Ok)
qed

lemma pg_check_writes:
  assumes "pg_ok db" and "try_map (pg_check_write db) ws = Ok vs"
  shows "(\<forall>w\<in>set ws. write_current (sp_snapshots (pg_abs d db)) w) \<and> vs = map (\<lambda>w. rw_expected_revision w + 1) ws"
  using assms(2)
proof (induction ws arbitrary: vs)
  case (Cons w ws)
  have "pg_check_write db w = Ok v \<Longrightarrow> write_current (sp_snapshots (pg_abs d db)) w \<and> v = rw_expected_revision w + 1" for v
    unfolding pg_check_write_def pg_actual_Ok [OF assms(1), of _ d]
    by (auto simp: write_current_def checked_add_def result_simps split: if_splits)
  then show ?case using Cons by (auto simp: and_then_Ok_iff)
qed simp

definition write_row :: "transactional_record_write \<Rightarrow> multi_row" where
  "write_row w =
     \<lparr>mv_record = rw_record w, mv_schema = rw_schema w, mv_schema_version = uint (rw_schema_version w),
      mv_expected = uint (rw_expected_revision w), mv_payload = rw_payload w,
      mv_updated_at = uint (rw_updated_at_unix_ms w), mv_new_revision = uint (rw_expected_revision w) + 1\<rparr>"

lemma persist_record_Ok:
  assumes "persist_record now i w (rw_expected_revision w + 1) db = Ok db'"
  shows "multi_row_ok (write_row w) \<and> (\<exists>s x. db' = db\<lparr>pg_snapshots := (pg_snapshots db)(rw_record w \<mapsto>
      \<lparr>ns_schema = rw_schema w, ns_schema_version = uint (rw_schema_version w), ns_revision = uint (rw_expected_revision w) + 1,
       ns_payload = rw_payload w, ns_updated_at = uint (rw_updated_at_unix_ms w), ns_queued_sequence = s\<rparr>),
      pg_multi_records := (pg_multi_records db)(i := pg_multi_records db i @ [write_row w]), pg_repairs := x\<rparr>)"
proof -
  have e: "uint (rw_expected_revision w) < 2 ^ 63" and n: "uint (rw_expected_revision w + 1) < 2 ^ 63"
    using assms by (auto simp: persist_record_def persist_transactional_snapshot_def and_then_Ok_iff conversions_Ok)
  have u: "uint (rw_expected_revision w + 1) = uint (rw_expected_revision w) + 1" using e by (rule uint_succ')
  show ?thesis
    using assms n fits_succ(2) [of "rw_expected_revision w"] unfolding u
    by (auto simp: persist_record_def persist_transactional_snapshot_def and_then_Ok_iff conversions_Ok enqueue_Ok Let_def u
        write_row_def multi_row_ok_def fits_succ schema_version_to_i64_def split: option.splits if_splits)
qed

lemma persist_records_Ok:
  assumes "persist_records now i (zip ws (map (\<lambda>w. rw_expected_revision w + 1) ws)) db = Ok db'"
    and "\<forall>k. pred_option snapshot_row_ok (pg_snapshots db k)"
  shows "list_all multi_row_ok (map write_row ws) \<and> (\<exists>m x. db' = db\<lparr>pg_snapshots := m,
      pg_multi_records := (pg_multi_records db)(i := pg_multi_records db i @ map write_row ws), pg_repairs := x\<rparr> \<and>
      (\<forall>k. pred_option snapshot_row_ok (m k)) \<and>
      (\<lambda>k. map_option (row_envelope k) (m k)) =
        install_writes (\<lambda>k. map_option (row_envelope k) (pg_snapshots db k)) ws (map write_receipt ws))"
  using assms
proof (induction ws arbitrary: db)
  case Nil
  then show ?case by (auto intro!: exI [of _ "pg_snapshots db"] exI [of _ "pg_repairs db"])
next
  case (Cons w ws)
  then obtain db1 where r: "persist_record now i w (rw_expected_revision w + 1) db = Ok db1"
    and rest: "persist_records now i (zip ws (map (\<lambda>w. rw_expected_revision w + 1) ws)) db1 = Ok db'" by (auto simp: and_then_Ok_iff)
  obtain s x where w: "multi_row_ok (write_row w)" and db1: "db1 = db\<lparr>pg_snapshots := (pg_snapshots db)(rw_record w \<mapsto>
      \<lparr>ns_schema = rw_schema w, ns_schema_version = uint (rw_schema_version w), ns_revision = uint (rw_expected_revision w) + 1,
       ns_payload = rw_payload w, ns_updated_at = uint (rw_updated_at_unix_ms w), ns_queued_sequence = s\<rparr>),
      pg_multi_records := (pg_multi_records db)(i := pg_multi_records db i @ [write_row w]), pg_repairs := x\<rparr>"
    using persist_record_Ok [OF r] by blast
  have "snapshot_row_ok \<lparr>ns_schema = rw_schema w, ns_schema_version = uint (rw_schema_version w),
      ns_revision = uint (rw_expected_revision w) + 1, ns_payload = rw_payload w, ns_updated_at = uint (rw_updated_at_unix_ms w), ns_queued_sequence = s\<rparr>"
    using w fits_succ(2) [of "rw_expected_revision w"] by (simp add: snapshot_row_ok_def multi_row_ok_def write_row_def)
  then have "\<forall>k. pred_option snapshot_row_ok (pg_snapshots db1 k)" using Cons.prems(2) by (simp add: db1)
  from Cons.IH [OF rest this] obtain m y where ih: "list_all multi_row_ok (map write_row ws)" "db' = db1\<lparr>pg_snapshots := m,
      pg_multi_records := (pg_multi_records db1)(i := pg_multi_records db1 i @ map write_row ws), pg_repairs := y\<rparr>"
      "\<forall>k. pred_option snapshot_row_ok (m k)"
      "(\<lambda>k. map_option (row_envelope k) (m k)) =
        install_writes (\<lambda>k. map_option (row_envelope k) (pg_snapshots db1 k)) ws (map write_receipt ws)" by blast
  have "(\<lambda>k. map_option (row_envelope k) (pg_snapshots db1 k)) =
      (\<lambda>k. map_option (row_envelope k) (pg_snapshots db k))(rw_record w \<mapsto> write_envelope w (write_receipt w))"
    by (simp add: db1 fun_eq_iff row_envelope_def write_envelope_def write_receipt_def)
  moreover have "db' = db\<lparr>pg_snapshots := m,
      pg_multi_records := (pg_multi_records db)(i := pg_multi_records db i @ map write_row (w # ws)), pg_repairs := y\<rparr>"
    unfolding ih(2) by (simp add: db1)
  ultimately show ?case using ih(1,3,4) w by (intro conjI exI [of _ m] exI [of _ y]) (simp_all add: fun_upd_def)
qed

lemma persist_appends_Ok:
  assumes "persist_appends i as db = Ok db'" and "\<forall>k. pred_option append_row_ok (pg_appends db k)"
  shows "(\<forall>a\<in>set as. pg_appends db (ap_record a) = None) \<and> (\<exists>m. db' = db\<lparr>pg_appends := m\<rparr> \<and>
    (\<forall>k. pred_option append_row_ok (m k)) \<and>
    (\<lambda>k. map_option (row_append k) (m k)) = (\<lambda>k. map_option (row_append k) (pg_appends db k))(map ap_record as [\<mapsto>] as))"
  using assms
proof (induction as arbitrary: db)
  case Nil
  then show ?case by (auto intro!: exI [of _ "pg_appends db"])
next
  case (Cons a as)
  let ?row = "\<lparr>ax_operation_id = i, ax_schema = ap_schema a, ax_schema_version = uint (ap_schema_version a),
      ax_payload = ap_payload a, ax_occurred_at = uint (ap_occurred_at_unix_ms a)\<rparr>"
  let ?db1 = "db\<lparr>pg_appends := (pg_appends db)(ap_record a \<mapsto> ?row)\<rparr>"
  have new: "pg_appends db (ap_record a) = None" and t: "uint (ap_occurred_at_unix_ms a) < 2 ^ 63"
    and rest: "persist_appends i as ?db1 = Ok db'"
    using Cons.prems(1) by (auto simp: and_then_Ok_iff conversions_Ok split: if_splits)
  have "append_row_ok ?row" using t by (simp add: append_row_ok_def)
  then have "\<forall>k. pred_option append_row_ok (pg_appends ?db1 k)" using Cons.prems(2) by simp
  from Cons.IH [OF rest this] obtain m where ih: "\<forall>b\<in>set as. pg_appends ?db1 (ap_record b) = None" "db' = ?db1\<lparr>pg_appends := m\<rparr>"
    "\<forall>k. pred_option append_row_ok (m k)"
    "(\<lambda>k. map_option (row_append k) (m k)) = (\<lambda>k. map_option (row_append k) (pg_appends ?db1 k))(map ap_record as [\<mapsto>] as)" by blast
  have "(\<lambda>k. map_option (row_append k) (pg_appends ?db1 k)) = (\<lambda>k. map_option (row_append k) (pg_appends db k))(ap_record a \<mapsto> a)"
    by (simp add: fun_eq_iff row_append_def)
  moreover have "\<forall>b\<in>set (a # as). pg_appends db (ap_record b) = None" using ih(1) new by (auto split: if_splits)
  ultimately show ?case using ih by (intro conjI exI [of _ m]) simp_all
qed

lemma outbox_insert_Ok:
  assumes "outbox_insert n now i t e x = (x', Ok u)"
  shows "oe_event_id e \<notin> ob_event_id ` set (od_rows x) \<and>
    (\<exists>r. od_rows x' = od_rows x @ [r] \<and> row_event r = e \<and> ob_operation_id r = i)"
  using assms by (auto simp: outbox_insert_def list_ex_iff row_event_def split: if_splits option.splits)

text \<open>The rows that a list of events becomes.\<close>

definition events_added :: "string \<Rightarrow> outbox_event list \<Rightarrow> outbox_row list \<Rightarrow> outbox_row list \<Rightarrow> bool" where
  "events_added i es old new \<longleftrightarrow>
     oe_event_id ` set es \<inter> ob_event_id ` set old = {} \<and>
     (\<exists>rows. new = old @ rows \<and> map row_event rows = es \<and> (\<forall>r\<in>set rows. ob_operation_id r = i))"

lemma events_added_ids: "events_added i es old new \<Longrightarrow> ob_event_id ` set new = ob_event_id ` set old \<union> oe_event_id ` set es"
  by (force simp: events_added_def row_event_def)

lemma events_added_others: "events_added i es old new \<Longrightarrow> j \<noteq> i \<Longrightarrow> trade_events j new = trade_events j old"
  by (auto simp: events_added_def trade_events_def filter_empty_conv intro!: arg_cong [where f = "sort_key oe_event_id"])

lemma events_added_claims:
  "events_added i es old new \<Longrightarrow> ob_operation_id ` set old \<subseteq> dom claims \<Longrightarrow> i \<in> dom claims \<Longrightarrow> ob_operation_id ` set new \<subseteq> dom claims"
  unfolding events_added_def by auto blast

lemma events_added_Cons:
  assumes "oe_event_id e \<notin> ob_event_id ` set old" and "mid = old @ [r]" "row_event r = e" "ob_operation_id r = i"
    and "events_added i es mid new"
  shows "events_added i (e # es) old new"
proof -
  obtain rows where "new = mid @ rows" "map row_event rows = es" "\<forall>r\<in>set rows. ob_operation_id r = i"
    using assms(5) by (auto simp: events_added_def)
  then have "new = old @ (r # rows) \<and> map row_event (r # rows) = e # es \<and> (\<forall>r\<in>set (r # rows). ob_operation_id r = i)"
    using assms(2-4) by simp
  moreover have "oe_event_id ` set es \<inter> ob_event_id ` set mid = {}" using assms(5) by (simp only: events_added_def)
  then have "oe_event_id ` set (e # es) \<inter> ob_event_id ` set old = {}" using assms(1) unfolding assms(2) by auto
  ultimately show ?thesis unfolding events_added_def by (intro conjI exI [of _ "r # rows"]) simp_all
qed

lemma events_added_Nil: "events_added i [] old old"
  by (simp add: events_added_def)

lemma persist_events_Ok:
  assumes "persist_events n now i es db = Ok db'"
  shows "\<exists>x. db' = db\<lparr>pg_outbox := x\<rparr> \<and> events_added i es (od_rows (pg_outbox db)) (od_rows x)"
  using assms
proof (induction es arbitrary: n db)
  case Nil
  then show ?case by (auto intro!: exI [of _ "pg_outbox db"] events_added_Nil)
next
  case (Cons e es)
  obtain x r where ins: "outbox_insert n now i None e (pg_outbox db) = (x, r)" by fastforce
  have rest: "persist_events (Suc n) now i es (db\<lparr>pg_outbox := x\<rparr>) = Ok db'" and r: "r = Ok ()"
    using Cons.prems ins by (auto split: result.splits)
  from Cons.IH [OF rest] obtain y where "db' = db\<lparr>pg_outbox := y\<rparr>" "events_added i es (od_rows x) (od_rows y)" by auto
  then show ?case using outbox_insert_Ok [OF ins [unfolded r]] by (blast intro: events_added_Cons)
qed

end
