(* ===== verification/Postgres_Commit.thy ===== *)
theory Postgres_Commit
  imports Postgres_Refinement
begin

text \<open>
  Multi-record commits of the PostgreSQL store refine the commits of the specification: a retry is answered
  from the stored rows, and a new commit installs its snapshots, its receipt and its effects together.
  The encoding of effects has to be decodable; the decoder is the parameter of the abstraction.
\<close>

section \<open>Replays\<close>

definition write_fingerprint :: "transactional_record_write \<Rightarrow> record_fingerprint" where
  "write_fingerprint w =
     \<lparr>rp_record = rw_record w, rp_schema = rw_schema w, rp_schema_version = rw_schema_version w,
      rp_expected_revision = rw_expected_revision w, rp_payload_digest = rw_payload w,
      rp_updated_at_unix_ms = rw_updated_at_unix_ms w\<rparr>"

lemma exact_fingerprint:
  "multi_fingerprint_from (exact_params P) q = \<lparr>mp_writes = map write_fingerprint (mw_writes q), mp_result_digest = mw_result q\<rparr>"
  by (simp add: multi_fingerprint_from_def write_fingerprint_def)

lemma row_matches:
  assumes "multi_row_ok r" and "multi_transaction_row_matches r w"
  shows "row_fingerprint r = write_fingerprint w \<and> mv_record r = rw_record w \<and> 0 \<le> mv_new_revision r"
  using assms
  by (auto simp: multi_transaction_row_matches_def row_fingerprint_def write_fingerprint_def multi_row_ok_def) (simp add: fits_def)

lemma rows_match:
  assumes "length rows = length ws" and "list_all multi_row_ok rows"
    and "list_all (\<lambda>(row, w). multi_transaction_row_matches row w) (zip rows ws)"
    and "try_map (\<lambda>(row, w). and_then (revision_from_i64 (rw_record w) (mv_new_revision row)) (\<lambda>revision.
            Ok \<lparr>rr_record = rw_record w, rr_new_revision = revision\<rparr>)) (zip rows ws) = Ok records"
  shows "map row_fingerprint rows = map write_fingerprint ws \<and>
    records = map (\<lambda>r. \<lparr>rr_record = mv_record r, rr_new_revision = of_int (mv_new_revision r)\<rparr>) rows"
  using assms
proof (induction rows ws arbitrary: records rule: list_induct2)
  case (Cons row rows w ws)
  note m = row_matches [of row w]
  show ?case using Cons m by (auto simp: and_then_Ok_iff conversions_Ok)
qed simp

lemma effects_is_empty_iff: "effects_is_empty e \<longleftrightarrow> e = commit_effects_default"
  by (cases e) (simp add: effects_is_empty_def commit_effects_default_def)

lemma multi_at: "pg_ok db \<Longrightarrow> multi_ok (pg_multis db i) (pg_multi_records db i) (pg_effects db i)"
  by (simp add: pg_ok_def)

lemma replay_commit_Ok:
  assumes ok: "pg_ok db" and enc: "\<forall>e b. pp_encode P e = Ok b \<longrightarrow> d b = e" and h: "pg_multis db (mw_operation_id q) = Some h"
    and rep: "replay_commit P now q eff h db = Ok (db', out)"
    and c: "c = header_receipt d h (pg_multi_records db (mw_operation_id q)) (pg_effects db (mw_operation_id q))"
  shows "(\<exists>x. db' = db\<lparr>pg_repairs := x\<rparr>) \<and> sm_effects c = eff \<and>
    sm_fingerprint c = multi_fingerprint_from (exact_params P) q \<and> out = Duplicate (sm_records c, sm_result c)"
proof -
  let ?i = "mw_operation_id q" and ?rows = "pg_multi_records db (mw_operation_id q)"
  have rows: "sort_key mv_record ?rows = ?rows" "list_all multi_row_ok ?rows"
    using multi_at [OF ok, of ?i] h by (auto simp: multi_ok_def sort_key_id_if_sorted)
  obtain records where v: "verify_retry P ?i eff db = Ok ()" and res: "mh_result h = mw_result q"
    and len: "length ?rows = length (mw_writes q)"
    and match: "list_all (\<lambda>(row, w). multi_transaction_row_matches row w) (zip ?rows (mw_writes q))"
    and recs: "try_map (\<lambda>(row, w). and_then (revision_from_i64 (rw_record w) (mv_new_revision row)) (\<lambda>revision.
            Ok \<lparr>rr_record = rw_record w, rr_new_revision = revision\<rparr>)) (zip ?rows (mw_writes q)) = Ok records"
    and q: "enqueue_all now records db = Ok db'" "out = Duplicate (records, mh_result h)"
    using rep unfolding replay_commit_def Let_def rows(1) by (auto simp: and_then_Ok_iff split: if_splits)
  have "sm_effects c = eff"
    using v enc unfolding c by (auto simp: verify_retry_def header_receipt_def result_simps effects_is_empty_iff split: option.splits)
  then show ?thesis
    using rows_match [OF len rows(2) match recs] enqueue_all_Ok [OF q(1)] q(2) res
    by (simp add: c header_receipt_def exact_fingerprint)
qed

section \<open>New commits\<close>

lemma persist_Ok:
  assumes p: "persist P env i eff db = Ok db'" and app: "\<forall>k. pred_option append_row_ok (pg_appends db k)"
    and none: "pg_effects db i = None" and enc: "\<forall>e b. pp_encode P e = Ok b \<longrightarrow> d b = e"
  shows "(effects_is_empty eff \<or> check_effects (sp_ids (pg_abs d db)) eff = Ok ()) \<and>
    (\<exists>payload m x. db' = db\<lparr>pg_effects := (pg_effects db)(i := payload), pg_appends := m, pg_outbox := x\<rparr> \<and>
      (\<forall>k. pred_option append_row_ok (m k)) \<and> (case payload of None \<Rightarrow> commit_effects_default | Some b \<Rightarrow> d b) = eff \<and>
      events_added i (ce_outbox_events eff) (od_rows (pg_outbox db)) (od_rows x) \<and>
      \<lparr>ti_appends = (\<lambda>k. map_option (row_append k) (m k)), ti_ledger_posting_ids = lx_posting_id ` set (pg_ledger db), ti_outbox_event_ids = ob_event_id ` set (od_rows x)\<rparr> =
        (if effects_is_empty eff then sp_ids (pg_abs d db) else record_effects (sp_ids (pg_abs d db)) eff))"
proof (cases "effects_is_empty eff")
  case True
  then have "db' = db" using p by (simp add: persist_def)
  moreover have "db = db\<lparr>pg_effects := (pg_effects db)(i := None)\<rparr>" using none by (simp add: fun_upd_idem)
  ultimately show ?thesis using True app
    by (auto simp: effects_is_empty_iff pg_abs_def commit_effects_default_def events_added_Nil intro!: exI [of _ None] exI [of _ "pg_appends db"] exI [of _ "pg_outbox db"])
next
  case False
  then obtain b db1 where b: "pp_encode P eff = Ok b"
    and a: "persist_appends i (ce_appends eff) (db\<lparr>pg_effects := (pg_effects db)(i \<mapsto> b)\<rparr>) = Ok db1"
    and e: "persist_events (pe_order env) (pe_now env) i (ce_outbox_events eff) db1 = Ok db'"
    using p by (auto simp: persist_def and_then_Ok_iff split: if_splits)
  obtain m where m: "\<forall>a\<in>set (ce_appends eff). pg_appends db (ap_record a) = None"
    "db1 = db\<lparr>pg_effects := (pg_effects db)(i \<mapsto> b), pg_appends := m\<rparr>" "\<forall>k. pred_option append_row_ok (m k)"
    "(\<lambda>k. map_option (row_append k) (m k)) =
       (\<lambda>k. map_option (row_append k) (pg_appends db k))(map ap_record (ce_appends eff) [\<mapsto>] ce_appends eff)"
    using persist_appends_Ok [OF a] app by auto
  obtain x where x: "db' = db1\<lparr>pg_outbox := x\<rparr>" "events_added i (ce_outbox_events eff) (od_rows (pg_outbox db)) (od_rows x)"
    using persist_events_Ok [OF e] m(2) by auto
  have "oe_event_id ` set (ce_outbox_events eff) \<inter> ob_event_id ` set (od_rows (pg_outbox db)) = {}"
    using x(2) by (simp only: events_added_def)
  then have "check_effects (sp_ids (pg_abs d db)) eff = Ok ()" using m(1) by (simp add: check_effects_Ok_iff)
  moreover have "d b = eff" using enc b by blast
  ultimately show ?thesis
    using False m(2-4) x events_added_ids [OF x(2)]
    by (intro conjI exI [of _ "Some b"] exI [of _ m] exI [of _ x]) (simp_all add: record_effects_def pg_abs_def)
qed

text \<open>The tables after a new commit.\<close>

definition committed_db :: "timestamp \<Rightarrow> multi_record_transactional_write \<Rightarrow> int \<Rightarrow> (record_key \<rightharpoonup> snapshot_row) \<Rightarrow> bytes option \<Rightarrow>
    (record_key \<rightharpoonup> append_row) \<Rightarrow> outbox_db \<Rightarrow> postgres \<Rightarrow> postgres" where
  "committed_db now q t m payload as events db =
     (let i = mw_operation_id q
      in db\<lparr>pg_snapshots := m,
            pg_claims := (pg_claims db)(i \<mapsto> \<lparr>oc_kind = ''multi'', oc_claimed_at = now, oc_retired_at = None\<rparr>),
            pg_multis := (pg_multis db)(i \<mapsto> \<lparr>mh_result = mw_result q, mh_record_count = int (length (mw_writes q)), mh_updated_at = t\<rparr>),
            pg_multi_records := (pg_multi_records db)(i := map write_row (mw_writes q)),
            pg_effects := (pg_effects db)(i := payload), pg_appends := as, pg_outbox := events\<rparr>)"

lemma write_row_fingerprint:
  "row_fingerprint (write_row w) = write_fingerprint w"
  "\<lparr>rr_record = mv_record (write_row w), rr_new_revision = of_int (mv_new_revision (write_row w))\<rparr> = write_receipt w"
  by (simp_all add: row_fingerprint_def write_row_def write_fingerprint_def write_receipt_def)

lemma committed_db_abs:
  assumes "(\<lambda>k. map_option (row_envelope k) (m k)) = sm" and "(case payload of None \<Rightarrow> commit_effects_default | Some b \<Rightarrow> d b) = eff"
    and "\<lparr>ti_appends = (\<lambda>k. map_option (row_append k) (as k)), ti_ledger_posting_ids = lx_posting_id ` set (pg_ledger db),
      ti_outbox_event_ids = ob_event_id ` set (od_rows events)\<rparr> = ids"
    and "events_added (mw_operation_id q) es (od_rows (pg_outbox db)) (od_rows events)" and "pg_trade_operations db (mw_operation_id q) = None"
  shows "pg_abs d (committed_db now q t m payload as events db) =
    (pg_abs d db)\<lparr>sp_snapshots := sm, sp_kinds := (sp_kinds (pg_abs d db))(mw_operation_id q \<mapsto> ''multi''), sp_ids := ids,
      sp_multis := (sp_multis (pg_abs d db))(mw_operation_id q \<mapsto>
        \<lparr>sm_effects = eff, sm_fingerprint = multi_fingerprint_from (exact_params P) q,
         sm_records = map write_receipt (mw_writes q), sm_result = mw_result q\<rparr>)\<rparr>"
proof -
  have "map_option (\<lambda>h. stored_trade i h r p (trade_events i (od_rows events))) (pg_trade_operations db i) =
      map_option (\<lambda>h. stored_trade i h r p (trade_events i (od_rows (pg_outbox db)))) (pg_trade_operations db i)" for i r p
    using assms(5) events_added_others [OF assms(4), of i] by (cases "i = mw_operation_id q") simp_all
  then show ?thesis
    using assms(1-3)
    by (simp add: pg_abs_def committed_db_def Let_def fun_eq_iff header_receipt_def exact_fingerprint comp_def write_row_fingerprint)
qed

lemma claims_ok_extend:
  assumes "claims_ok claims ledger old" and "oc_retired_at c = None" and "events_added i es old new"
    and "lx_operation_id ` set ledger' \<subseteq> insert i (lx_operation_id ` set ledger)"
  shows "claims_ok (claims(i \<mapsto> c)) ledger' new"
proof -
  have "ob_operation_id ` set old \<subseteq> dom (claims(i \<mapsto> c))" using assms(1) by (auto simp: claims_ok_def)
  then have "ob_operation_id ` set new \<subseteq> dom (claims(i \<mapsto> c))" by (rule events_added_claims [OF assms(3)]) simp
  moreover have "lx_operation_id ` set ledger' \<subseteq> dom (claims(i \<mapsto> c))"
    using assms(1,4) unfolding claims_ok_def dom_fun_upd by auto blast
  ultimately show ?thesis using assms(1,2) by (auto simp: claims_ok_def)
qed

lemma committed_db_ok:
  assumes "pg_ok db" and "\<forall>k. pred_option snapshot_row_ok (m k)" and "\<forall>k. pred_option append_row_ok (as k)"
    and "list_all multi_row_ok (map write_row (mw_writes q))" and "sorted (map rw_record (mw_writes q))"
    and "distinct (map rw_record (mw_writes q))" and "events_added (mw_operation_id q) es (od_rows (pg_outbox db)) (od_rows events)"
  shows "pg_ok (committed_db now q t m payload as events db)"
proof -
  have "claims_ok ((pg_claims db)(mw_operation_id q \<mapsto> c)) (pg_ledger db) (od_rows events)" if "oc_retired_at c = None" for c
    by (rule claims_ok_extend [OF _ that assms(7)]) (use assms(1) in \<open>auto simp: pg_ok_def\<close>)
  then show ?thesis using assms(1-6) by (auto simp: pg_ok_def committed_db_def Let_def multi_ok_def comp_def write_row_def)
qed

lemma receipts_map2:
  "map2 (\<lambda>w v. \<lparr>rr_record = rw_record w, rr_new_revision = v\<rparr>) ws (map (\<lambda>w. rw_expected_revision w + 1) ws) = map write_receipt ws"
  by (induction ws) (simp_all add: write_receipt_def)

lemma commit_fresh:
  assumes ok: "pg_ok db" and enc: "\<forall>e b. pp_encode P e = Ok b \<longrightarrow> d b = e"
    and new: "pg_claims db (mw_operation_id q) = None" "pg_multis db (mw_operation_id q) = None"
    and commit: "commit_in_transaction P env q eff db = Ok (db', out)"
  shows "(\<forall>w\<in>set (mw_writes q). write_current (sp_snapshots (pg_abs d db)) w) \<and>
    out = Applied (map write_receipt (mw_writes q), mw_result q) \<and>
    (effects_is_empty eff \<or> check_effects (sp_ids (pg_abs d db)) eff = Ok ()) \<and> list_all multi_row_ok (map write_row (mw_writes q)) \<and>
    (\<exists>t m payload as events x. db' = (committed_db (pe_now env) q t m payload as events db)\<lparr>pg_repairs := x\<rparr> \<and>
      (\<forall>k. pred_option snapshot_row_ok (m k)) \<and> (\<forall>k. pred_option append_row_ok (as k)) \<and>
      (\<lambda>k. map_option (row_envelope k) (m k)) =
        install_writes (sp_snapshots (pg_abs d db)) (mw_writes q) (map write_receipt (mw_writes q)) \<and>
      (case payload of None \<Rightarrow> commit_effects_default | Some b \<Rightarrow> d b) = eff \<and>
      events_added (mw_operation_id q) (ce_outbox_events eff) (od_rows (pg_outbox db)) (od_rows events) \<and>
      \<lparr>ti_appends = (\<lambda>k. map_option (row_append k) (as k)), ti_ledger_posting_ids = lx_posting_id ` set (pg_ledger db), ti_outbox_event_ids = ob_event_id ` set (od_rows events)\<rparr> =
        (if effects_is_empty eff then sp_ids (pg_abs d db) else record_effects (sp_ids (pg_abs d db)) eff))"
proof -
  let ?i = "mw_operation_id q" and ?ws = "mw_writes q"
  have none: "pg_multi_records db ?i = []" "pg_effects db ?i = None" using multi_at [OF ok, of ?i] new by (simp_all add: multi_ok_def)
  define db1 where "db1 t = db\<lparr>pg_claims := (pg_claims db)(?i \<mapsto> \<lparr>oc_kind = ''multi'', oc_claimed_at = pe_now env, oc_retired_at = None\<rparr>),
      pg_multis := (pg_multis db)(?i \<mapsto> \<lparr>mh_result = mw_result q, mh_record_count = int (length ?ws), mh_updated_at = t\<rparr>)\<rparr>" for t
  obtain t vs db2 where vs: "try_map (pg_check_write (db1 t)) ?ws = Ok vs" and recs: "persist_records (pe_now env) ?i (zip ?ws vs) (db1 t) = Ok db2"
    and per: "persist P env ?i eff db2 = Ok db'" and out: "out = Applied (map2 (\<lambda>w v. \<lparr>rr_record = rw_record w, rr_new_revision = v\<rparr>) ?ws vs, mw_result q)"
    using commit new unfolding commit_in_transaction_def Let_def
    by (auto simp: and_then_Ok_iff claim_Ok_iff db1_def)
  have chk: "pg_check_write (db1 t) = pg_check_write db" by (simp add: fun_eq_iff pg_check_write_def pg_actual_revision_def db1_def)
  have w: "\<forall>w\<in>set ?ws. write_current (sp_snapshots (pg_abs d db)) w" "vs = map (\<lambda>w. rw_expected_revision w + 1) ?ws"
    using pg_check_writes [OF ok vs [unfolded chk], of d] by blast+
  have "\<forall>k. pred_option snapshot_row_ok (pg_snapshots (db1 t) k)" using ok by (simp add: pg_ok_def db1_def)
  from persist_records_Ok [OF recs [unfolded w(2)] this] obtain m x where m: "list_all multi_row_ok (map write_row ?ws)"
    "db2 = (db1 t)\<lparr>pg_snapshots := m, pg_multi_records := (pg_multi_records db)(?i := map write_row ?ws), pg_repairs := x\<rparr>"
    "\<forall>k. pred_option snapshot_row_ok (m k)"
    "(\<lambda>k. map_option (row_envelope k) (m k)) = install_writes (\<lambda>k. map_option (row_envelope k) (pg_snapshots db k)) ?ws (map write_receipt ?ws)"
    by (auto simp: db1_def none)
  have app: "\<forall>k. pred_option append_row_ok (pg_appends db2 k)" "pg_effects db2 ?i = None"
    using ok none by (simp_all add: pg_ok_def m(2) db1_def)
  have ids: "sp_ids (pg_abs d db2) = sp_ids (pg_abs d db)" "pg_ledger db2 = pg_ledger db" "pg_outbox db2 = pg_outbox db"
    by (simp_all add: m(2) db1_def pg_abs_def)
  from persist_Ok [OF per app enc] obtain payload as events where p: "effects_is_empty eff \<or> check_effects (sp_ids (pg_abs d db)) eff = Ok ()"
    "db' = db2\<lparr>pg_effects := (pg_effects db2)(?i := payload), pg_appends := as, pg_outbox := events\<rparr>"
    "\<forall>k. pred_option append_row_ok (as k)" "(case payload of None \<Rightarrow> commit_effects_default | Some b \<Rightarrow> d b) = eff"
    "events_added ?i (ce_outbox_events eff) (od_rows (pg_outbox db)) (od_rows events)"
    "\<lparr>ti_appends = (\<lambda>k. map_option (row_append k) (as k)), ti_ledger_posting_ids = lx_posting_id ` set (pg_ledger db), ti_outbox_event_ids = ob_event_id ` set (od_rows events)\<rparr> =
        (if effects_is_empty eff then sp_ids (pg_abs d db) else record_effects (sp_ids (pg_abs d db)) eff)"
    unfolding ids by blast
  have "db' = (committed_db (pe_now env) q t m payload as events db)\<lparr>pg_repairs := x\<rparr>"
    by (simp add: p(2) m(2) db1_def committed_db_def Let_def)
  moreover have "map2 (\<lambda>w v. \<lparr>rr_record = rw_record w, rr_new_revision = v\<rparr>) ?ws vs = map write_receipt ?ws"
    unfolding w(2) by (rule receipts_map2)
  ultimately show ?thesis using w(1) p(1,3,4,5,6) m(1,3,4) out by (intro conjI) (simp, simp, simp, simp, unfold pg_abs_simps, blast)
qed

lemma commit_refines:
  assumes ok: "pg_ok db" and kinds: "kinds_ok (pg_abs d db)" and enc: "\<forall>e b. pp_encode P e = Ok b \<longrightarrow> d b = e"
    and eff: "effects_normalize (pp_codec P) effects = Ok eff" and valid: "validate_multi_transaction_request q = Ok ()"
    and commit: "commit_in_transaction P env (q\<lparr>mw_writes := sort_key rw_record (mw_writes q)\<rparr>) eff db = Ok (db', out)"
  shows "spec_commit (exact_params P) (pg_abs d db) q effects = (pg_abs d db', Ok out) \<and> pg_ok db'"
proof -
  define n where "n = q\<lparr>mw_writes := sort_key rw_record (mw_writes q)\<rparr>"
  let ?i = "mw_operation_id q"
  have norm: "multi_normalize q = Ok n" unfolding n_def by (rule validate_multi_normalize [OF valid])
  have n: "mw_operation_id n = ?i" "mw_result n = mw_result q" "sorted (map rw_record (mw_writes n))" "distinct (map rw_record (mw_writes n))"
    using norm by (auto simp: n_def multi_normalize_Ok_iff distinct_map)
  have eff': "effects_normalize (codec (exact_params P)) effects = Ok eff" using eff by simp
  obtain db1 where c: "pg_claim_operation (pe_now env) ?i ''multi'' db = Ok db1"
    using commit by (auto simp: commit_in_transaction_def Let_def and_then_Ok_iff)
  note claim = claim_spec [OF c, of d]
  show ?thesis
  proof (cases "pg_multis db ?i")
    case (Some h)
    have "pg_claims db ?i \<noteq> None" using kinds_ok_at [OF kinds, of ?i] Some by (auto simp: kind_slot_def)
    then have "db1 = db" using c by (auto simp: claim_Ok_iff)
    then have "replay_commit P (pe_now env) n eff h db = Ok (db', out)"
      using commit c Some n(1) unfolding n_def [symmetric] commit_in_transaction_def Let_def by (auto simp: and_then_Ok_iff)
    from replay_commit_Ok [OF ok enc _ this refl] have r: "\<exists>x. db' = db\<lparr>pg_repairs := x\<rparr>"
      "sp_multis (pg_abs d db) ?i = Some (header_receipt d h (pg_multi_records db ?i) (pg_effects db ?i))"
      "sm_effects (header_receipt d h (pg_multi_records db ?i) (pg_effects db ?i)) = eff"
      "sm_fingerprint (header_receipt d h (pg_multi_records db ?i) (pg_effects db ?i)) = multi_fingerprint_from (exact_params P) n"
      "out = Duplicate (sm_records (header_receipt d h (pg_multi_records db ?i) (pg_effects db ?i)), sm_result (header_receipt d h (pg_multi_records db ?i) (pg_effects db ?i)))"
      using Some by (simp_all add: n(1))
    have "spec_commit (exact_params P) (pg_abs d db) q effects = (pg_abs d db, Ok out)"
      unfolding r(5) spec_commit_duplicate_iff using norm eff' claim r(2-4) by blast
    then show ?thesis using r(1) ok by auto
  next
    case None
    have new: "pg_claims db (mw_operation_id n) = None" "pg_multis db (mw_operation_id n) = None"
      using kinds_ok_unclaimed [OF kinds claim] None by (simp_all add: n(1))
    from commit_fresh [OF ok enc new commit [folded n_def]] obtain t m payload as events x where
      w: "\<forall>w\<in>set (mw_writes n). write_current (sp_snapshots (pg_abs d db)) w" "out = Applied (map write_receipt (mw_writes n), mw_result q)"
        "effects_is_empty eff \<or> check_effects (sp_ids (pg_abs d db)) eff = Ok ()" "list_all multi_row_ok (map write_row (mw_writes n))"
      and db': "db' = (committed_db (pe_now env) n t m payload as events db)\<lparr>pg_repairs := x\<rparr>"
      and m: "\<forall>k. pred_option snapshot_row_ok (m k)" "\<forall>k. pred_option append_row_ok (as k)"
        "(\<lambda>k. map_option (row_envelope k) (m k)) = install_writes (sp_snapshots (pg_abs d db)) (mw_writes n) (map write_receipt (mw_writes n))"
        "(case payload of None \<Rightarrow> commit_effects_default | Some b \<Rightarrow> d b) = eff"
        "events_added (mw_operation_id n) (ce_outbox_events eff) (od_rows (pg_outbox db)) (od_rows events)"
        "\<lparr>ti_appends = (\<lambda>k. map_option (row_append k) (as k)), ti_ledger_posting_ids = lx_posting_id ` set (pg_ledger db), ti_outbox_event_ids = ob_event_id ` set (od_rows events)\<rparr> =
          (if effects_is_empty eff then sp_ids (pg_abs d db) else record_effects (sp_ids (pg_abs d db)) eff)"
      unfolding n(2) by blast
    have none: "sp_multis (pg_abs d db) ?i = None" using None by simp
    have trade: "pg_trade_operations db (mw_operation_id n) = None"
      using kinds_ok_at [OF kinds, of ?i] new by (auto simp: kind_slot_def n(1))
    have "spec_commit (exact_params P) (pg_abs d db) q effects = (pg_abs d db', Ok out)"
      unfolding w(2) spec_commit_applied_iff db' pg_abs_repairs committed_db_abs [OF m(3,4,6,5) trade, of _ _ P] n(1,2)
      using norm eff' claim none w(1,3) by blast
    moreover have "pg_ok db'" unfolding db' pg_abs_repairs by (rule committed_db_ok [OF ok m(1,2) w(4) n(3,4) m(5)])
    ultimately show ?thesis by blast
  qed
qed

end
