(* ===== verification/Postgres_Trade_Refinement.thy ===== *)
theory Postgres_Trade_Refinement
  imports Postgres_Commit
begin

text \<open>
  Trades of the PostgreSQL store refine the trades of the specification. The stored request is put together
  from the header, the records, the ledger and the outbox; a retry matches these rows one by one.
\<close>

section \<open>Replays\<close>

lemma map_insort_key: "map f (insort_key (\<lambda>x. g (f x)) a xs) = insort_key g (f a) (map f xs)"
  by (induction xs) simp_all

lemma map_sort_key: "map f (sort_key (\<lambda>x. g (f x)) xs) = sort_key g (map f xs)"
  by (induction xs) (simp_all add: map_insort_key)

lemma postings_of_abs: "map row_posting (postings_of i rows) = trade_postings i rows"
  using map_sort_key [of row_posting lp_posting_id "filter (\<lambda>r. lx_operation_id r = i) rows"]
  by (simp add: postings_of_def trade_postings_def row_posting_def)

lemma events_of_abs: "map row_event (events_of i rows) = trade_events i rows"
  using map_sort_key [of row_event oe_event_id "filter (\<lambda>r. ob_operation_id r = i) rows"]
  by (simp add: events_of_def trade_events_def row_event_def)

lemma state_from_Ok: "state_from_i16 n = Ok s \<Longrightarrow> s = row_state n"
  by (auto simp: state_from_i16_def row_state_def split: if_splits)

lemma row_state_to [simp]: "row_state (state_to_i16 s) = s"
  by (cases s) (simp_all add: row_state_def)

lemma rows_correspond_map:
  assumes "rows_correspond matches rows xs" and "\<And>r x. r \<in> set rows \<Longrightarrow> matches r x \<Longrightarrow> f r = x"
  shows "map f rows = xs"
  using assms(2) assms(1) [unfolded rows_correspond_def, THEN conjunct1] assms(1) [unfolded rows_correspond_def, THEN conjunct2]
  by (induction rows xs rule: list_induct2') auto

lemma trade_row_write: "trade_record_matches r w \<Longrightarrow> row_write r = w"
  by (auto simp: trade_record_matches_def multi_transaction_row_matches_def row_write_def)

lemma ledger_row_posting: "ledger_row_matches r p \<Longrightarrow> row_posting r = p"
  by (auto simp: ledger_row_matches_def row_posting_def)

lemma outbox_row_event: "outbox_row_matches r e \<Longrightarrow> row_event r = e"
  by (auto simp: outbox_row_matches_def row_event_def)

lemma receipt_matches_request:
  assumes "receipt_matches (h, records, ledger, outbox) q"
  shows "stored_request (tx_operation_id q) h records (map row_posting ledger) (map row_event outbox) = q"
proof -
  have c: "rows_correspond trade_record_matches records (tx_writes q)" "rows_correspond ledger_row_matches ledger (tx_ledger_postings q)"
    "rows_correspond outbox_row_matches outbox (tx_outbox_events q)"
    using assms by (simp_all add: receipt_matches_def Let_def)
  have "map row_write records = tx_writes q" by (rule rows_correspond_map [OF c(1) trade_row_write])
  moreover have "map row_posting ledger = tx_ledger_postings q" by (rule rows_correspond_map [OF c(2) ledger_row_posting])
  moreover have "map row_event outbox = tx_outbox_events q" by (rule rows_correspond_map [OF c(3) outbox_row_event])
  ultimately show ?thesis
    using assms by (simp add: receipt_matches_def stored_request_def Let_def option.map_comp comp_def option.map_ident)
qed

lemma try_map_receipts:
  assumes "try_map (\<lambda>row.
         and_then (map_err StorageCore (record_key_new (namespace (mv_record row)) (key (mv_record row)))) (\<lambda>record.
         and_then (revision_from_i64 record (mv_new_revision row)) (\<lambda>revision.
           Ok \<lparr>rr_record = record, rr_new_revision = revision\<rparr>))) rows = Ok rs"
  shows "rs = map row_record_receipt rows"
  using assms
proof (induction rows arbitrary: rs)
  case (Cons r rows)
  then show ?case
    by (auto simp: and_then_Ok_iff conversions_Ok record_key_new_def Let_def row_record_receipt_def map_err_Ok_iff split: if_splits)
qed simp

lemma receipt_from_parts_Ok:
  assumes "receipt_from_parts i t (h, records, ledger, outbox) = Ok r" and "t = th_trade_id h"
  shows "r = sd_receipt (stored_trade i h records (map row_posting ledger) (map row_event outbox))"
proof -
  have ids: "map lp_posting_id (map row_posting ledger) = map lx_posting_id ledger"
    "map oe_event_id (map row_event outbox) = map ob_event_id outbox"
    by (simp_all add: row_posting_def row_event_def)
  obtain rs v s where "rs = map row_record_receipt records" "v = of_int (th_new_version h)" "s = row_state (th_next_state h)"
    "r = \<lparr>rc_operation_id = i, rc_trade_id = t, rc_new_trade_version = v, rc_state = s, rc_records = rs,
      rc_ledger_posting_ids = map lx_posting_id ledger, rc_outbox_event_ids = map ob_event_id outbox, rc_result = th_result h\<rparr>"
    using assms(1) try_map_receipts state_from_Ok
    by (auto simp: receipt_from_parts_def and_then_Ok_iff trade_version_from_i64_def u64_try_from_def split: if_splits)
  then show ?thesis unfolding assms(2)
    by (simp add: stored_trade_def trade_receipt_of_def stored_request_def ids del: map_map)
qed

lemma trade_at: "pg_ok db \<Longrightarrow> trade_ok (pg_trade_operations db i) (pg_trade_records db i)"
  by (simp add: pg_ok_def)

lemma replay_trade_Ok:
  assumes ok: "pg_ok db" and rep: "replay_trade now q db = Ok (db', out)"
    and h: "pg_trade_operations db (tx_operation_id q) = Some h"
  shows "(\<exists>x. db' = db\<lparr>pg_repairs := x\<rparr>) \<and>
    (\<exists>c. sp_trade_receipts (pg_abs d db) (tx_operation_id q) = Some c \<and> sd_request c = q \<and> out = Duplicate (sd_receipt c))"
proof -
  let ?i = "tx_operation_id q"
  define c where "c = stored_trade ?i h (pg_trade_records db ?i) (trade_postings ?i (pg_ledger db)) (trade_events ?i (od_rows (pg_outbox db)))"
  have rows: "sort_key mv_record (pg_trade_records db ?i) = pg_trade_records db ?i"
    using trade_at [OF ok, of ?i] h by (auto simp: trade_ok_def sort_key_id_if_sorted)
  have parts: "load_receipt_parts ?i db =
      Some (h, pg_trade_records db ?i, postings_of ?i (pg_ledger db), events_of ?i (od_rows (pg_outbox db)))"
    by (simp add: load_receipt_parts_def h rows)
  obtain r where m: "receipt_matches (h, pg_trade_records db ?i, postings_of ?i (pg_ledger db), events_of ?i (od_rows (pg_outbox db))) q"
    and r: "receipt_from_parts ?i (tt_trade_id (tx_transition q))
      (h, pg_trade_records db ?i, postings_of ?i (pg_ledger db), events_of ?i (od_rows (pg_outbox db))) = Ok r"
    and e: "enqueue_all now (rc_records r) db = Ok db'" and out: "out = Duplicate r"
    using rep unfolding replay_trade_def Let_def parts by (auto simp: and_then_Ok_iff split: if_splits)
  have t: "tt_trade_id (tx_transition q) = th_trade_id h" using m by (simp add: receipt_matches_def Let_def)
  have "sd_request c = q"
    using receipt_matches_request [OF m] by (simp add: c_def stored_trade_def postings_of_abs events_of_abs)
  moreover have "r = sd_receipt c" using receipt_from_parts_Ok [OF r t] by (simp add: c_def postings_of_abs events_of_abs)
  moreover have "sp_trade_receipts (pg_abs d db) ?i = Some c" by (simp add: h c_def)
  ultimately show ?thesis using enqueue_all_Ok [OF e] out by blast
qed

section \<open>New trades\<close>

text \<open>The rows of a trade are written as the rows of a commit are, into tables of their own.\<close>

definition swap_records :: "postgres \<Rightarrow> postgres" where
  "swap_records db = db\<lparr>pg_multi_records := pg_trade_records db, pg_trade_records := pg_multi_records db\<rparr>"

lemma swap_records_swap [simp]: "swap_records (swap_records db) = db"
  by (simp add: swap_records_def)

lemma swap_records_simps [simp]:
  "pg_snapshots (swap_records db) = pg_snapshots db" "pg_multi_records (swap_records db) = pg_trade_records db"
  "pg_trade_records (swap_records db) = pg_multi_records db"
  by (simp_all add: swap_records_def)

lemma persist_snapshot_swap:
  "persist_transactional_snapshot w v db = Ok (db1, p) \<Longrightarrow> persist_transactional_snapshot w v (swap_records db) = Ok (swap_records db1, p)"
  by (auto simp: persist_transactional_snapshot_def and_then_Ok_iff conversions_Ok Let_def swap_records_def split: option.splits if_splits)

lemma persist_trade_record_swap:
  assumes "persist_trade_record now i w v db = Ok db'"
  shows "persist_record now i w v (swap_records db) = Ok (swap_records db')"
proof -
  obtain db1 p where p: "persist_transactional_snapshot w v db = Ok (db1, p)"
    using assms by (auto simp: persist_trade_record_def and_then_Ok_iff)
  show ?thesis
    using assms persist_snapshot_swap [OF p]
    by (simp add: persist_trade_record_def persist_record_def p enqueue_Ok split: if_splits) (simp add: swap_records_def)
qed

lemma persist_trade_records_swap:
  "persist_trade_records now i ws db = Ok db' \<Longrightarrow> persist_records now i ws (swap_records db) = Ok (swap_records db')"
proof (induction ws arbitrary: db)
  case (Cons wv ws)
  then show ?case by (cases wv) (auto simp: and_then_Ok_iff dest!: persist_trade_record_swap)
qed simp

lemma persist_trade_records_Ok:
  assumes p: "persist_trade_records now i (zip ws (map (\<lambda>w. rw_expected_revision w + 1) ws)) db = Ok db'"
    and "\<forall>k. pred_option snapshot_row_ok (pg_snapshots db k)"
  shows "list_all multi_row_ok (map write_row ws) \<and> (\<exists>m x. db' = db\<lparr>pg_snapshots := m,
      pg_trade_records := (pg_trade_records db)(i := pg_trade_records db i @ map write_row ws), pg_repairs := x\<rparr> \<and>
      (\<forall>k. pred_option snapshot_row_ok (m k)) \<and>
      (\<lambda>k. map_option (row_envelope k) (m k)) =
        install_writes (\<lambda>k. map_option (row_envelope k) (pg_snapshots db k)) ws (map write_receipt ws))"
proof -
  obtain m x where m: "list_all multi_row_ok (map write_row ws)" "swap_records db' = (swap_records db)\<lparr>pg_snapshots := m,
      pg_multi_records := (pg_trade_records db)(i := pg_trade_records db i @ map write_row ws), pg_repairs := x\<rparr>"
      "\<forall>k. pred_option snapshot_row_ok (m k)" "(\<lambda>k. map_option (row_envelope k) (m k)) =
        install_writes (\<lambda>k. map_option (row_envelope k) (pg_snapshots db k)) ws (map write_receipt ws)"
    using persist_records_Ok [OF persist_trade_records_swap [OF p]] assms(2) by auto
  have "db' = db\<lparr>pg_snapshots := m,
      pg_trade_records := (pg_trade_records db)(i := pg_trade_records db i @ map write_row ws), pg_repairs := x\<rparr>"
    using arg_cong [OF m(2), of swap_records] unfolding swap_records_swap by (simp add: swap_records_def)
  then show ?thesis using m(1,3,4) by blast
qed

definition postings_added :: "string \<Rightarrow> ledger_posting list \<Rightarrow> ledger_row list \<Rightarrow> ledger_row list \<Rightarrow> bool" where
  "postings_added i ps old new \<longleftrightarrow>
     lp_posting_id ` set ps \<inter> lx_posting_id ` set old = {} \<and>
     (\<exists>rows. new = old @ rows \<and> map row_posting rows = ps \<and> (\<forall>r\<in>set rows. lx_operation_id r = i))"

lemma persist_postings_Ok:
  assumes "persist_postings i t u ps db = Ok db'"
  shows "\<exists>x. db' = db\<lparr>pg_ledger := x\<rparr> \<and> postings_added i ps (pg_ledger db) x"
  using assms
proof (induction ps arbitrary: db)
  case Nil
  then show ?case by (auto simp: postings_added_def intro!: exI [of _ "pg_ledger db"])
next
  case (Cons p ps)
  let ?r = "\<lparr>lx_posting_id = lp_posting_id p, lx_operation_id = i, lx_trade_id = t, lx_account_id = lp_account_id p,
          lx_asset = lp_asset p, lx_amount = sint (lp_amount p), lx_metadata = lp_metadata p, lx_created_at = u\<rparr>"
  have new: "lp_posting_id p \<notin> lx_posting_id ` set (pg_ledger db)" and
    rest: "persist_postings i t u ps (db\<lparr>pg_ledger := pg_ledger db @ [?r]\<rparr>) = Ok db'"
    using Cons.prems by (auto simp: list_ex_iff split: if_splits)
  from Cons.IH [OF rest] obtain rows where rows: "db' = db\<lparr>pg_ledger := pg_ledger db @ ?r # rows\<rparr>"
    "lp_posting_id ` set ps \<inter> lx_posting_id ` set (pg_ledger db @ [?r]) = {}"
    "map row_posting rows = ps" "\<forall>r\<in>set rows. lx_operation_id r = i"
    by (auto simp: postings_added_def)
  have "map row_posting (?r # rows) = p # ps" using rows(3) by (simp add: row_posting_def)
  moreover have "lp_posting_id ` set (p # ps) \<inter> lx_posting_id ` set (pg_ledger db) = {}" using new rows(2) by auto
  moreover have "\<forall>r\<in>set (?r # rows). lx_operation_id r = i" using rows(4) by simp
  ultimately show ?case unfolding postings_added_def
    by (intro exI [of _ "pg_ledger db @ ?r # rows"] conjI exI [of _ "?r # rows"]) (use rows(1) in simp_all)
qed

lemma persist_trade_events_Ok:
  assumes "persist_trade_events n now i t es db = Ok db'"
  shows "\<exists>x. db' = db\<lparr>pg_outbox := x\<rparr> \<and> events_added i es (od_rows (pg_outbox db)) (od_rows x)"
  using assms
proof (induction es arbitrary: n db)
  case Nil
  then show ?case by (auto intro!: exI [of _ "pg_outbox db"] events_added_Nil)
next
  case (Cons e es)
  obtain x r where ins: "outbox_insert n now i (Some t) e (pg_outbox db) = (x, r)" by fastforce
  have rest: "persist_trade_events (Suc n) now i t es (db\<lparr>pg_outbox := x\<rparr>) = Ok db'" and r: "r = Ok ()"
    using Cons.prems ins by (auto simp: and_then_Ok_iff split: result.splits)
  from Cons.IH [OF rest] obtain y where "db' = db\<lparr>pg_outbox := y\<rparr>" "events_added i es (od_rows x) (od_rows y)" by auto
  then show ?case using outbox_insert_Ok [OF ins [unfolded r]] by (blast intro: events_added_Cons)
qed

lemma postings_added_others: "postings_added i ps old new \<Longrightarrow> j \<noteq> i \<Longrightarrow> trade_postings j new = trade_postings j old"
  by (auto simp: postings_added_def trade_postings_def filter_empty_conv intro!: arg_cong [where f = "sort_key lp_posting_id"])

lemma postings_added_own:
  assumes "postings_added i ps old new" and "i \<notin> lx_operation_id ` set old" and "sorted (map lp_posting_id ps)"
  shows "trade_postings i new = ps"
proof -
  obtain rows where "new = old @ rows" "map row_posting rows = ps" "\<forall>r\<in>set rows. lx_operation_id r = i"
    using assms(1) by (auto simp: postings_added_def)
  moreover from this have "filter (\<lambda>r. lx_operation_id r = i) new = rows" using assms(2) by (auto simp: filter_empty_conv filter_id_conv)
  ultimately show ?thesis using assms(3) by (simp add: trade_postings_def sort_key_id_if_sorted)
qed

lemma postings_added_ids: "postings_added i ps old new \<Longrightarrow> lx_posting_id ` set new = lx_posting_id ` set old \<union> lp_posting_id ` set ps"
  by (force simp: postings_added_def row_posting_def)

lemma events_added_own:
  assumes "events_added i es old new" and "i \<notin> ob_operation_id ` set old" and "sorted (map oe_event_id es)"
  shows "trade_events i new = es"
proof -
  obtain rows where "new = old @ rows" "map row_event rows = es" "\<forall>r\<in>set rows. ob_operation_id r = i"
    using assms(1) by (auto simp: events_added_def)
  moreover from this have "filter (\<lambda>r. ob_operation_id r = i) new = rows" using assms(2) by (auto simp: filter_empty_conv filter_id_conv)
  ultimately show ?thesis using assms(3) by (simp add: trade_events_def sort_key_id_if_sorted)
qed

text \<open>The tables after a new trade.\<close>

definition traded_db :: "timestamp \<Rightarrow> trade_transaction \<Rightarrow> (record_key \<rightharpoonup> snapshot_row) \<Rightarrow> ledger_row list \<Rightarrow> outbox_db \<Rightarrow> postgres \<Rightarrow> postgres" where
  "traded_db now q m ledger events db =
     (let i = tx_operation_id q; t = tx_transition q; v = uint (tt_expected_version t); u = uint (tt_updated_at_unix_ms t)
      in db\<lparr>pg_snapshots := m,
            pg_claims := (pg_claims db)(i \<mapsto> \<lparr>oc_kind = ''trade'', oc_claimed_at = now, oc_retired_at = None\<rparr>),
            pg_trades := (pg_trades db)(tt_trade_id t \<mapsto> \<lparr>tv_version = v + 1, tv_state = state_to_i16 (tt_next_state t),
              tv_payload = tt_payload t, tv_updated_at = u\<rparr>),
            pg_trade_operations := (pg_trade_operations db)(i \<mapsto> trade_header_of q v (v + 1) u),
            pg_trade_records := (pg_trade_records db)(i := map write_row (tx_writes q)),
            pg_ledger := ledger, pg_outbox := events\<rparr>)"

lemma stored_trade_of:
  assumes "v = uint (tt_expected_version (tx_transition q))" and "u = uint (tt_updated_at_unix_ms (tx_transition q))"
  shows "stored_trade (tx_operation_id q) (trade_header_of q v (v + 1) u) (map write_row (tx_writes q)) (tx_ledger_postings q) (tx_outbox_events q) =
    \<lparr>sd_request = q, sd_receipt = trade_receipt_of q (tt_expected_version (tx_transition q) + 1) (map write_receipt (tx_writes q))\<rparr>"
proof -
  have "row_write (write_row w) = w" "row_record_receipt (write_row w) = write_receipt w" for w
    by (simp_all add: row_write_def write_row_def row_record_receipt_def write_receipt_def)
  then have "map row_write (map write_row (tx_writes q)) = tx_writes q" "map row_record_receipt (map write_row (tx_writes q)) = map write_receipt (tx_writes q)"
    by (simp_all add: map_idI)
  then show ?thesis
    using assms by (simp add: stored_trade_def stored_request_def trade_header_of_def trade_receipt_of_def option.map_comp comp_def option.map_ident del: map_map)
qed

lemma traded_db_abs:
  assumes m: "(\<lambda>k. map_option (row_envelope k) (m k)) = sm"
    and p: "postings_added (tx_operation_id q) (tx_ledger_postings q) (pg_ledger db) ledger"
    and e: "events_added (tx_operation_id q) (tx_outbox_events q) (od_rows (pg_outbox db)) (od_rows events)"
    and new: "tx_operation_id q \<notin> lx_operation_id ` set (pg_ledger db)" "tx_operation_id q \<notin> ob_operation_id ` set (od_rows (pg_outbox db))"
    and sorted: "sorted (map lp_posting_id (tx_ledger_postings q))" "sorted (map oe_event_id (tx_outbox_events q))"
  shows "pg_abs d (traded_db now q m ledger events db) =
    (pg_abs d db)\<lparr>sp_snapshots := sm, sp_kinds := (sp_kinds (pg_abs d db))(tx_operation_id q \<mapsto> ''trade''),
      sp_trades := (sp_trades (pg_abs d db))(tt_trade_id (tx_transition q) \<mapsto>
        trade_envelope_of (tx_transition q) (tt_expected_version (tx_transition q) + 1)),
      sp_ids := record_identifiers (sp_ids (pg_abs d db)) q,
      sp_trade_receipts := (sp_trade_receipts (pg_abs d db))(tx_operation_id q \<mapsto>
        \<lparr>sd_request = q, sd_receipt = trade_receipt_of q (tt_expected_version (tx_transition q) + 1) (map write_receipt (tx_writes q))\<rparr>)\<rparr>"
proof -
  have "trade_envelope_of (tx_transition q) (tt_expected_version (tx_transition q) + 1) = row_trade (tt_trade_id (tx_transition q))
      \<lparr>tv_version = uint (tt_expected_version (tx_transition q)) + 1, tv_state = state_to_i16 (tt_next_state (tx_transition q)),
       tv_payload = tt_payload (tx_transition q), tv_updated_at = uint (tt_updated_at_unix_ms (tx_transition q))\<rparr>"
    by (simp add: trade_envelope_of_def row_trade_def)
  then show ?thesis
    using m postings_added_others [OF p] events_added_others [OF e] postings_added_own [OF p new(1) sorted(1)]
      events_added_own [OF e new(2) sorted(2)]
    by (simp add: pg_abs_def traded_db_def Let_def fun_eq_iff stored_trade_of record_identifiers_def
        postings_added_ids [OF p] events_added_ids [OF e])
qed

lemma traded_db_ok:
  assumes "pg_ok db" and "\<forall>k. pred_option snapshot_row_ok (m k)" and "list_all multi_row_ok (map write_row (tx_writes q))"
    and "sorted (map rw_record (tx_writes q))" and p: "postings_added (tx_operation_id q) ps (pg_ledger db) ledger"
    and e: "events_added (tx_operation_id q) es (od_rows (pg_outbox db)) (od_rows events)"
  shows "pg_ok (traded_db now q m ledger events db)"
proof -
  have "lx_operation_id ` set ledger \<subseteq> insert (tx_operation_id q) (lx_operation_id ` set (pg_ledger db))"
    using p by (auto simp: postings_added_def)
  then have "claims_ok ((pg_claims db)(tx_operation_id q \<mapsto> c)) ledger (od_rows events)" if "oc_retired_at c = None" for c
    by (rule claims_ok_extend [OF _ that e, rotated]) (use assms(1) in \<open>simp add: pg_ok_def\<close>)
  then show ?thesis using assms(1-4) by (auto simp: pg_ok_def traded_db_def Let_def trade_ok_def comp_def write_row_def)
qed

lemma prepare_trade_Ok:
  "prepare_trade q0 = Ok (q, v, n, n', u) \<longleftrightarrow>
     normalize_trade_transaction q0 = Ok q \<and> v = uint (tt_expected_version (tx_transition q)) \<and>
     n = tt_expected_version (tx_transition q) + 1 \<and> n' = v + 1 \<and> v + 1 < 2 ^ 63 \<and>
     u = uint (tt_updated_at_unix_ms (tx_transition q)) \<and> u < 2 ^ 63"
proof -
  have "unat a + 1 < 2 ^ 64 \<and> uint (a + 1) < 2 ^ 63 \<and> uint a < 2 ^ 63 \<longleftrightarrow> uint a + 1 < 2 ^ 63" for a :: u64
  proof
    assume "unat a + 1 < 2 ^ 64 \<and> uint (a + 1) < 2 ^ 63 \<and> uint a < 2 ^ 63"
    then show "uint a + 1 < 2 ^ 63" using uint_succ' [of a] by simp
  next
    assume "uint a + 1 < 2 ^ 63"
    then show "unat a + 1 < 2 ^ 64 \<and> uint (a + 1) < 2 ^ 63 \<and> uint a < 2 ^ 63"
      using uint_succ [of a] unat_of_fits [of "uint a"] by simp
  qed
  moreover have "uint a + 1 < 2 ^ 63 \<Longrightarrow> uint (a + 1) = uint a + 1" for a :: u64 by (rule uint_succ)
  ultimately show ?thesis
    by (auto simp: prepare_trade_def Let_def and_then_Ok_iff map_err_Ok_iff trade_version_to_i64_def conversions_Ok ok_or_Ok_iff
        checked_add_def split: if_splits)
qed

lemma write_trade_Ok:
  assumes w: "write_trade env q (map (\<lambda>w. rw_expected_revision w + 1) (tx_writes q)) (v + 1) u db = Ok db'"
    and ok: "\<forall>k. pred_option snapshot_row_ok (pg_snapshots db k)" and none: "pg_trade_records db (tx_operation_id q) = []"
  shows "list_all multi_row_ok (map write_row (tx_writes q)) \<and> (\<exists>m ledger events x.
    db' = db\<lparr>pg_trades := (pg_trades db)(tt_trade_id (tx_transition q) \<mapsto> \<lparr>tv_version = v + 1, tv_state = state_to_i16 (tt_next_state (tx_transition q)),
        tv_payload = tt_payload (tx_transition q), tv_updated_at = u\<rparr>), pg_snapshots := m,
      pg_trade_records := (pg_trade_records db)(tx_operation_id q := map write_row (tx_writes q)), pg_repairs := x, pg_ledger := ledger, pg_outbox := events\<rparr> \<and>
    (\<forall>k. pred_option snapshot_row_ok (m k)) \<and>
    (\<lambda>k. map_option (row_envelope k) (m k)) =
      install_writes (\<lambda>k. map_option (row_envelope k) (pg_snapshots db k)) (tx_writes q) (map write_receipt (tx_writes q)) \<and>
    postings_added (tx_operation_id q) (tx_ledger_postings q) (pg_ledger db) ledger \<and>
    events_added (tx_operation_id q) (tx_outbox_events q) (od_rows (pg_outbox db)) (od_rows events))"
proof -
  let ?i = "tx_operation_id q"
  let ?db1 = "db\<lparr>pg_trades := (pg_trades db)(tt_trade_id (tx_transition q) \<mapsto> \<lparr>tv_version = v + 1, tv_state = state_to_i16 (tt_next_state (tx_transition q)),
        tv_payload = tt_payload (tx_transition q), tv_updated_at = u\<rparr>)\<rparr>"
  obtain db2 db3 where
    r: "persist_trade_records (pe_now env) ?i (zip (tx_writes q) (map (\<lambda>w. rw_expected_revision w + 1) (tx_writes q))) ?db1 = Ok db2"
    and p: "persist_postings ?i (tt_trade_id (tx_transition q)) u (tx_ledger_postings q) db2 = Ok db3"
    and e: "persist_trade_events (pe_order env) (pe_now env) ?i (tt_trade_id (tx_transition q)) (tx_outbox_events q) db3 = Ok db'"
    using w by (auto simp: write_trade_def Let_def and_then_Ok_iff)
  from persist_trade_records_Ok [OF r] ok obtain m x where m: "list_all multi_row_ok (map write_row (tx_writes q))"
    "db2 = ?db1\<lparr>pg_snapshots := m, pg_trade_records := (pg_trade_records db)(?i := map write_row (tx_writes q)), pg_repairs := x\<rparr>"
    "\<forall>k. pred_option snapshot_row_ok (m k)"
    "(\<lambda>k. map_option (row_envelope k) (m k)) =
      install_writes (\<lambda>k. map_option (row_envelope k) (pg_snapshots db k)) (tx_writes q) (map write_receipt (tx_writes q))"
    using none by auto
  from persist_postings_Ok [OF p] obtain ledger where l: "db3 = db2\<lparr>pg_ledger := ledger\<rparr>"
    "postings_added ?i (tx_ledger_postings q) (pg_ledger db) ledger" by (auto simp: m(2))
  from persist_trade_events_Ok [OF e] obtain events where "db' = db3\<lparr>pg_outbox := events\<rparr>"
    "events_added ?i (tx_outbox_events q) (od_rows (pg_outbox db)) (od_rows events)" by (auto simp: m(2) l(1))
  then show ?thesis using m l by blast
qed

lemma trade_refines:
  assumes ok: "pg_ok db" and kinds: "kinds_ok (pg_abs d db)" and prep: "prepare_trade q0 = Ok (q, v, n, n', u)"
    and tr: "trade_in_transaction env q v n n' u db = Ok (db', out)"
  shows "spec_trade (pg_abs d db) q0 = (pg_abs d db', Ok out) \<and> pg_ok db'"
proof -
  let ?i = "tx_operation_id q" and ?t = "tx_transition q"
  have norm: "normalize_trade_transaction q0 = Ok q" and v: "v = uint (tt_expected_version ?t)" "n = tt_expected_version ?t + 1" "n' = v + 1"
    "u = uint (tt_updated_at_unix_ms ?t)" and small: "v + 1 < 2 ^ 63" using prep by (simp_all add: prepare_trade_Ok)
  have q: "tx_operation_id q0 = ?i" "tx_transition q0 = ?t" "sorted (map rw_record (tx_writes q))"
    "sorted (map lp_posting_id (tx_ledger_postings q))" "sorted (map oe_event_id (tx_outbox_events q))"
    using norm by (auto simp: normalize_trade_Ok_iff trade_sorted_def)
  obtain db1 where c: "pg_claim_operation (pe_now env) ?i ''trade'' db = Ok db1"
    using tr by (auto simp: trade_in_transaction_def Let_def and_then_Ok_iff)
  note claim = claim_spec [OF c, of d]
  show ?thesis
  proof (cases "pg_trade_operations db ?i")
    case (Some h)
    have "pg_claims db ?i \<noteq> None" using kinds_ok_at [OF kinds, of ?i] Some by (auto simp: kind_slot_def)
    then have "db1 = db" using c by (auto simp: claim_Ok_iff)
    then have "replay_trade (pe_now env) q db = Ok (db', out)"
      using tr c Some by (auto simp: trade_in_transaction_def Let_def)
    from replay_trade_Ok [OF ok this Some, of d] obtain x r where r: "db' = db\<lparr>pg_repairs := x\<rparr>"
      "sp_trade_receipts (pg_abs d db) ?i = Some r" "sd_request r = q" "out = Duplicate (sd_receipt r)" by blast
    then have "spec_trade (pg_abs d db) q0 = (pg_abs d db, Ok out)"
      unfolding r(4) spec_trade_duplicate_iff q(1) using norm claim by blast
    then show ?thesis using r(1) ok by auto
  next
    case None
    have new: "pg_claims db ?i = None" using kinds_ok_unclaimed [OF kinds claim] None by simp
    then have db1: "db1 = db\<lparr>pg_claims := (pg_claims db)(?i \<mapsto> \<lparr>oc_kind = ''trade'', oc_claimed_at = pe_now env, oc_retired_at = None\<rparr>)\<rparr>"
      using c by (simp add: claim_Ok_iff)
    let ?db2 = "db1\<lparr>pg_trade_operations := (pg_trade_operations db)(?i \<mapsto> trade_header_of q v (v + 1) u)\<rparr>"
    have fresh: "trade_fresh env q n (v + 1) u ?db2 = Ok (db', out)"
      using tr c None by (simp add: trade_in_transaction_def Let_def db1 v(3))
    obtain a s revisions where cur: "current_trade (tt_trade_id ?t) ?db2 = Ok (a, s)" "a = tt_expected_version ?t" "s = tt_expected_state ?t"
      and rev: "try_map (pg_check_write ?db2) (tx_writes q) = Ok revisions" and wr: "write_trade env q revisions (v + 1) u ?db2 = Ok db'"
      and out: "out = Applied (trade_receipt_of q n (map2 (\<lambda>w v. \<lparr>rr_record = rw_record w, rr_new_revision = v\<rparr>) (tx_writes q) revisions))"
      using fresh by (auto simp: trade_fresh_def Let_def and_then_Ok_iff trade_receipt_of_def split: if_splits)
    have chk: "pg_check_write ?db2 = pg_check_write db" by (simp add: fun_eq_iff pg_check_write_def pg_actual_revision_def db1)
    have w: "\<forall>w\<in>set (tx_writes q). write_current (sp_snapshots (pg_abs d db)) w" "revisions = map (\<lambda>w. rw_expected_revision w + 1) (tx_writes q)"
      using pg_check_writes [OF ok rev [unfolded chk], of d] by blast+
    have none: "pg_trade_records db ?i = []" using trade_at [OF ok, of ?i] None by (simp add: trade_ok_def)
    have "\<forall>k. pred_option snapshot_row_ok (pg_snapshots ?db2 k)" "pg_trade_records ?db2 ?i = []" using ok none by (simp_all add: pg_ok_def db1)
    from write_trade_Ok [OF wr [unfolded w(2)] this] obtain m ledger events x where rows: "list_all multi_row_ok (map write_row (tx_writes q))"
      "\<forall>k. pred_option snapshot_row_ok (m k)"
      "(\<lambda>k. map_option (row_envelope k) (m k)) =
        install_writes (\<lambda>k. map_option (row_envelope k) (pg_snapshots ?db2 k)) (tx_writes q) (map write_receipt (tx_writes q))"
      "postings_added ?i (tx_ledger_postings q) (pg_ledger ?db2) ledger"
      "events_added ?i (tx_outbox_events q) (od_rows (pg_outbox ?db2)) (od_rows events)"
      and raw: "db' = ?db2\<lparr>pg_trades := (pg_trades ?db2)(tt_trade_id ?t \<mapsto> \<lparr>tv_version = v + 1, tv_state = state_to_i16 (tt_next_state ?t),
        tv_payload = tt_payload ?t, tv_updated_at = u\<rparr>), pg_snapshots := m,
        pg_trade_records := (pg_trade_records ?db2)(?i := map write_row (tx_writes q)), pg_repairs := x, pg_ledger := ledger, pg_outbox := events\<rparr>"
      by blast
    have db': "db' = (traded_db (pe_now env) q m ledger events db)\<lparr>pg_repairs := x\<rparr>"
      unfolding raw by (simp add: db1 traded_db_def Let_def v)
    have sm: "(\<lambda>k. map_option (row_envelope k) (m k)) = install_writes (sp_snapshots (pg_abs d db)) (tx_writes q) (map write_receipt (tx_writes q))"
      and added: "postings_added ?i (tx_ledger_postings q) (pg_ledger db) ledger"
        "events_added ?i (tx_outbox_events q) (od_rows (pg_outbox db)) (od_rows events)"
      using rows(3-5) by (simp_all add: db1)
    have ops: "?i \<notin> lx_operation_id ` set (pg_ledger db)" "?i \<notin> ob_operation_id ` set (od_rows (pg_outbox db))"
      using ok new by (auto simp: pg_ok_def claims_ok_def)
    have out': "out = Applied (trade_receipt_of q (tt_expected_version ?t + 1) (map write_receipt (tx_writes q)))"
      unfolding out w(2) v(2) receipts_map2 ..
    have "check_trade_version (sp_trades (pg_abs d db) (tt_trade_id ?t)) ?t = Ok ()"
      using cur state_from_Ok
      by (auto simp: current_trade_def check_trade_version_def Let_def db1 row_trade_def and_then_Ok_iff trade_version_from_i64_def u64_try_from_def
          split: option.splits if_splits)
    moreover have "check_identifiers (sp_ids (pg_abs d db)) q = Ok ()"
      using added unfolding check_identifiers_Ok_iff postings_added_def events_added_def by simp
    moreover have "unat (tt_expected_version ?t) + 1 < 2 ^ 64" using unat_of_fits [of v] small v(1) by simp
    moreover have "sp_trade_receipts (pg_abs d db) ?i = None" using None by simp
    ultimately have "spec_trade (pg_abs d db) q0 = (pg_abs d db', Ok out)"
      unfolding out' db' pg_abs_repairs traded_db_abs [OF sm added ops q(4,5)] spec_trade_applied_iff q(1,2)
      using norm claim w(1) by blast
    moreover have "pg_ok db'" unfolding db' pg_abs_repairs by (rule traded_db_ok [OF ok rows(2,1) q(3) added])
    ultimately show ?thesis by blast
  qed
qed

end
