(* ===== verification/Postgres_Run.thy ===== *)
theory Postgres_Run
  imports Postgres_Trade_Refinement
begin

text \<open>
  Runs of the PostgreSQL store: batches of saves, transactions, commits, trades, the workers of both queues,
  in any order and with failures of the connection before and after a commit. They refine the
  specification that the memory backend refines, so the two backends keep the same promises.
\<close>

section \<open>Requests and acknowledgements of an operation\<close>

fun op_requests :: "pg_op \<Rightarrow> mem_request set" where
  "op_requests (SaveBatch env qs) = SaveRequest ` set qs"
| "op_requests (ApplySingle env q) = {TransactionRequest q}"
| "op_requests (CommitMulti env q eff) = {CommitRequest q eff}"
| "op_requests (ApplyTrade env q) = {TradeRequest q}"
| "op_requests _ = {}"

fun op_acknowledged :: "pg_op \<Rightarrow> pg_reply \<Rightarrow> (mem_request \<times> mem_receipt write_outcome) list" where
  "op_acknowledged (SaveBatch env qs) (SavedBatch (Ok rs)) = positive_answers (zip (map SaveRequest qs) (map lift_save rs))"
| "op_acknowledged (ApplySingle env q) (SingleApplied (Ok out)) = [(TransactionRequest q, map_write_outcome Transacted out)]"
| "op_acknowledged (CommitMulti env q eff) (MultiCommitted (Ok out)) = [(CommitRequest q eff, map_write_outcome mem_receipt.Committed out)]"
| "op_acknowledged (ApplyTrade env q) (TradeApplied (Ok out)) = [(TradeRequest q, map_write_outcome Traded out)]"
| "op_acknowledged _ _ = []"

text \<open>Events enter the outbox with the commits only, and receipts stay while they are not retired.\<close>

fun regular_op :: "pg_op \<Rightarrow> bool" where
  "regular_op (QueuedBatch env qs ns) = False"
| "regular_op (CleanupReceipts env is d) = False"
| "regular_op (RetireOperations env is d) = False"
| "regular_op (PurgeOperations env is d) = False"
| "regular_op (OutboxQueue op) = (case op of Insert n now i t e \<Rightarrow> False | _ \<Rightarrow> True)"
| "regular_op _ = True"

definition pg_invar :: "(bytes \<Rightarrow> commit_effects) \<Rightarrow> postgres \<Rightarrow> bool" where
  "pg_invar d db \<longleftrightarrow> pg_ok db \<and> spec_ok (pg_abs d db)"

lemma pg_invar_new: "pg_invar d postgres_new"
  by (simp add: pg_invar_def pg_ok_new pg_abs_new spec_empty_ok)

section \<open>The outbox workers\<close>

definition row_content :: "outbox_row \<Rightarrow> string \<times> outbox_event" where
  "row_content r = (ob_operation_id r, row_event r)"

lemma update_where_content:
  "(\<And>r. row_content (f r) = row_content r) \<Longrightarrow> map row_content (fst (update_where P f rows)) = map row_content rows"
  by (simp add: update_where_def)

lemma pg_call_content:
  "map row_content (od_rows (fst (f db))) = map row_content (od_rows db) \<Longrightarrow>
     map row_content (od_rows (fst (pg_call pg f db))) = map row_content (od_rows db)"
  using pg_call_state [of pg f db] by (elim disjE) simp_all

lemma row_changes_content [simp]:
  "row_content (lease_row w ms now r) = row_content r" "row_content (publish_row now r) = row_content r"
  "row_content (fail_row now e dl m r) = row_content r"
  by (simp_all add: row_content_def row_event_def lease_row_def publish_row_def fail_row_def)

lemma outbox_step_content:
  assumes "\<And>n now i t e. op \<noteq> Insert n now i t e"
  shows "map row_content (od_rows (fst (outbox_step x op))) = map row_content (od_rows x)"
proof (cases op)
  case (ClaimBatch call w ms p m)
  then show ?thesis
    by (simp add: claim_batch_for_publisher_def sql_claim_def case_prod_unfold Let_def pg_call_content update_where_content
        split: result.splits)
next
  case (Acknowledge call l)
  then show ?thesis
    by (simp add: outbox_acknowledge_def sql_update_def case_prod_unfold Let_def pg_call_content update_where_content)
next
  case (FailLease call l e d m)
  then show ?thesis
    by (simp add: outbox_fail_def sql_update_def case_prod_unfold Let_def pg_call_content update_where_content split: result.splits)
next
  case (RetryDead call i oper reason)
  have "row_content (r\<lparr>ob_attempt_count := 0, ob_available_at := now, ob_lease_owner := None, ob_lease_until := None,
      ob_last_error := None, ob_dead_lettered_at := None, ob_lease_token := n\<rparr>) = row_content r" for r now n
    by (simp add: row_content_def row_event_def)
  then show ?thesis
    by (simp add: RetryDead retry_dead_letter_def sql_retry_dead_def pg_call_content update_where_content split: option.splits)
next
  case (RegisterRoute route)
  then show ?thesis by (simp add: register_route_def Let_def split: option.splits)
qed (use assms in blast)

lemma content_abs:
  assumes "map row_content (od_rows x) = map row_content (od_rows (pg_outbox db))"
  shows "pg_abs d (db\<lparr>pg_outbox := x\<rparr>) = pg_abs d db \<and> pg_ok (db\<lparr>pg_outbox := x\<rparr>) = pg_ok db"
proof -
  have ids: "ob_event_id ` set rows = (\<lambda>c. oe_event_id (snd c)) ` set (map row_content rows)"
    and ops: "ob_operation_id ` set rows = fst ` set (map row_content rows)" for rows
    by (force simp: row_content_def row_event_def)+
  have "map row_event (filter (\<lambda>r. ob_operation_id r = i) rows) = map snd (filter (\<lambda>c. fst c = i) (map row_content rows))" for i rows
    by (induction rows) (simp_all add: row_content_def)
  then have "trade_events i (od_rows x) = trade_events i (od_rows (pg_outbox db))" for i
    using assms by (simp add: trade_events_def)
  moreover have "ob_event_id ` set (od_rows x) = ob_event_id ` set (od_rows (pg_outbox db))"
    "ob_operation_id ` set (od_rows x) = ob_operation_id ` set (od_rows (pg_outbox db))"
    unfolding ids ops assms by (rule refl)+
  ultimately show ?thesis by (simp add: pg_abs_def pg_ok_def claims_ok_def)
qed

section \<open>One operation\<close>

lemma transact_cases:
  assumes "transact pg body db = (db', r)"
  obtains (kept) e where "db' = db" "r = Err e" | (answered) x where "body = Ok (db', x)" "r = Ok x" | (lost) x e where "body = Ok (db', x)" "r = Err e"
  using assms by (cases pg; cases body) auto

definition matched :: "pg_params \<Rightarrow> (bytes \<Rightarrow> commit_effects) \<Rightarrow> postgres \<Rightarrow> pg_op \<Rightarrow> postgres \<Rightarrow> pg_reply \<Rightarrow> bool" where
  "matched P d db op db' r \<longleftrightarrow> pg_ok db' \<and> (\<exists>qs outs. set qs \<subseteq> op_requests op \<and>
     run (spec_step (exact_params P)) (pg_abs d db) qs = (pg_abs d db', outs) \<and> subseq (op_acknowledged op r) (positive_answers (zip qs outs)))"

lemma matched_stutter: "pg_ok db' \<Longrightarrow> pg_abs d db' = pg_abs d db \<Longrightarrow> op_acknowledged op r = [] \<Longrightarrow> matched P d db op db' r"
  unfolding matched_def by (intro conjI exI [of _ "[]"]) simp_all

lemma matched_one:
  assumes "pg_ok db'" and "spec_step (exact_params P) (pg_abs d db) q = (pg_abs d db', Ok out)" and "q \<in> op_requests op"
    and "op_acknowledged op r = [] \<or> op_acknowledged op r = [(q, out)]"
  shows "matched P d db op db' r"
  unfolding matched_def using assms by (intro conjI exI [of _ "[q]"] exI [of _ "[Ok out]"]) auto

lemma transact_matched:
  assumes "transact pg body db = (db', r)" and "pg_ok db"
    and "\<And>x. body = Ok (db', x) \<Longrightarrow> spec_step (exact_params P) (pg_abs d db) q = (pg_abs d db', Ok (f x)) \<and> pg_ok db'"
    and "q \<in> op_requests op" and "\<And>x. op_acknowledged op (w (Ok x)) = [(q, f x)]" and "\<And>e. op_acknowledged op (w (Err e)) = []"
  shows "matched P d db op db' (w r)"
  using assms(1)
proof (cases rule: transact_cases)
  case (kept e)
  then show ?thesis using assms(2,6) by (simp add: matched_stutter)
next
  case (answered x)
  then show ?thesis using assms(3) [of x] assms(4,5) by (intro matched_one [of _ _ _ _ q "f x"]) auto
next
  case (lost x e)
  then show ?thesis using assms(3) [of x] assms(4,6) by (intro matched_one [of _ _ _ _ q "f x"]) auto
qed

lemma zip_prepared: "zip qs (map2 prepare_save qs (map (\<lambda>_. None) qs)) = map (\<lambda>q. (q, prepare_save q None)) qs"
  by (induction qs) simp_all

lemma all_refused: "list_all (\<lambda>x. \<not> is_ok x) ps \<Longrightarrow> length ps = length qs \<Longrightarrow>
    positive_answers (zip (map SaveRequest qs) (map lift_save (map (\<lambda>x. and_then x (\<lambda>_. Err e)) ps))) = []"
proof (induction ps qs rule: list_induct2')
  case (4 x xs y ys)
  then show ?case by (cases x) simp_all
qed simp_all

lemma save_batch_matched:
  assumes ok: "pg_ok db" and sv: "save_batch env qs db = (db', r)"
  shows "matched P d db (SaveBatch env qs) db' (SavedBatch r)"
proof -
  let ?prepared = "map2 prepare_save qs (map (\<lambda>_. None) qs)"
  consider "qs = []" | "qs \<noteq> []" "list_all (\<lambda>x. \<not> is_ok x) ?prepared" | "qs \<noteq> []" "\<not> list_all (\<lambda>x. \<not> is_ok x) ?prepared" by blast
  then show ?thesis
  proof cases
    case 1
    then show ?thesis using sv ok by (auto simp: save_batch_def save_batch_fenced_def intro: matched_stutter)
  next
    case 2
    then show ?thesis
      using sv ok all_refused [of ?prepared qs "PersistenceProtocol ''batch save result is missing''"]
      by (auto simp: save_batch_def save_batch_fenced_def Let_def intro!: matched_stutter)
  next
    case 3
    then have tr: "transact (pe_pg env) (save_entries (pe_now env) (map (\<lambda>q. (q, prepare_save q None)) qs) db) db = (db', r)"
      using sv by (simp add: save_batch_def save_batch_fenced_def Let_def zip_prepared)
    then show ?thesis
    proof (cases rule: transact_cases)
      case (kept e)
      then show ?thesis using ok by (simp add: matched_stutter)
    next
      case (answered x)
      from save_entries_refine [OF ok answered(1), of P d] show ?thesis unfolding matched_def answered(2) by auto
    next
      case (lost x e)
      from save_entries_refine [OF ok lost(1), of P d] show ?thesis unfolding matched_def lost(2) by auto
    qed
  qed
qed

lemma apply_matched:
  assumes ok: "pg_ok db" "kinds_ok (pg_abs d db)" and ap: "pg_apply env q db = (db', r)"
  shows "matched P d db (ApplySingle env q) db' (SingleApplied r)"
proof (cases "\<not> blank (tw_operation_id q) \<and> uint (tw_expected_revision q) < 2 ^ 63 \<and> uint (tw_updated_at_unix_ms q) < 2 ^ 63 \<and> valid_record (tw_record q)")
  case True
  then have tr: "transact (pe_pg env) (apply_in_transaction (pe_now env) q (uint (tw_schema_version q)) (uint (tw_expected_revision q))
      (uint (tw_updated_at_unix_ms q)) db) db = (db', r)"
    using ap by (simp add: pg_apply_def validate_transaction_request_def check_record_key_def valid_record_def schema_version_to_i64_def
        timestamp_to_i64_def required_revision_to_i64_def i64_try_from_def)
  have ref: "spec_step (exact_params P) (pg_abs d db) (TransactionRequest q) = (pg_abs d db', Ok (map_write_outcome Transacted x)) \<and> pg_ok db'"
    if "apply_in_transaction (pe_now env) q (uint (tw_schema_version q)) (uint (tw_expected_revision q))
      (uint (tw_updated_at_unix_ms q)) db = Ok (db', x)" for x
    using apply_refines [OF ok _ _ _ that, of P] True by (simp add: lift_outcome_def)
  show ?thesis by (rule transact_matched [OF tr ok(1) ref]) simp_all
next
  case False
  then have "db' = db \<and> (\<exists>e. r = Err e)"
    using ap by (auto simp: pg_apply_def validate_transaction_request_def check_record_key_def valid_record_def
        timestamp_to_i64_def required_revision_to_i64_def i64_try_from_def split: result.splits if_splits)
  then show ?thesis using ok by (auto intro: matched_stutter)
qed

lemma commit_matched:
  assumes ok: "pg_ok db" "kinds_ok (pg_abs d db)" and enc: "\<forall>e b. pp_encode P e = Ok b \<longrightarrow> d b = e"
    and co: "pg_commit_records P env q effects db = (db', r)"
  shows "matched P d db (CommitMulti env q effects) db' (MultiCommitted r)"
proof (cases "and_then (map_err StorageCore (effects_normalize (pp_codec P) effects)) (\<lambda>eff.
    and_then (validate_multi_transaction_request q) (\<lambda>_. Ok eff))")
  case (Err e)
  then show ?thesis using co ok by (auto simp: pg_commit_records_def intro: matched_stutter)
next
  case (Ok eff)
  then have v: "effects_normalize (pp_codec P) effects = Ok eff" "validate_multi_transaction_request q = Ok ()"
    by (auto simp: and_then_Ok_iff map_err_Ok_iff)
  have tr: "transact (pe_pg env) (commit_in_transaction P env (q\<lparr>mw_writes := sort_key rw_record (mw_writes q)\<rparr>) eff db) db = (db', r)"
    using co Ok by (simp add: pg_commit_records_def)
  have ref: "spec_step (exact_params P) (pg_abs d db) (CommitRequest q effects) = (pg_abs d db', Ok (map_write_outcome mem_receipt.Committed x)) \<and> pg_ok db'"
    if "commit_in_transaction P env (q\<lparr>mw_writes := sort_key rw_record (mw_writes q)\<rparr>) eff db = Ok (db', x)" for x
    using commit_refines [OF ok enc v that] by (simp add: lift_outcome_def)
  show ?thesis by (rule transact_matched [OF tr ok(1) ref]) simp_all
qed

lemma trade_matched:
  assumes ok: "pg_ok db" "kinds_ok (pg_abs d db)" and ap: "pg_apply_trade env q db = (db', r)"
  shows "matched P d db (ApplyTrade env q) db' (TradeApplied r)"
proof (cases "prepare_trade q")
  case (Err e)
  then show ?thesis using ap ok by (auto simp: pg_apply_trade_def intro: matched_stutter)
next
  case (Ok p)
  obtain n v v1 v2 u where p: "p = (n, v, v1, v2, u)" by (cases p)
  have tr: "transact (pe_pg env) (trade_in_transaction env n v v1 v2 u db) db = (db', r)"
    using ap Ok p by (simp add: pg_apply_trade_def)
  have ref: "spec_step (exact_params P) (pg_abs d db) (TradeRequest q) = (pg_abs d db', Ok (map_write_outcome Traded x)) \<and> pg_ok db'"
    if "trade_in_transaction env n v v1 v2 u db = Ok (db', x)" for x
    using trade_refines [OF ok Ok [unfolded p] that] by (simp add: lift_outcome_def)
  show ?thesis by (rule transact_matched [OF tr ok(1) ref]) simp_all
qed

lemma pg_step_matched:
  assumes ok: "pg_ok db" "kinds_ok (pg_abs d db)" and enc: "\<forall>e b. pp_encode P e = Ok b \<longrightarrow> d b = e"
    and reg: "regular_op op" and st: "pg_step P db op = (db', r)"
  shows "matched P d db op db' r"
proof (cases op)
  case (SaveBatch env qs)
  then show ?thesis using st save_batch_matched [OF ok(1)] by (auto simp: map_prod_def split: prod.splits)
next
  case (ApplySingle env q)
  then show ?thesis using st apply_matched [OF ok] by (auto simp: map_prod_def split: prod.splits)
next
  case (CommitMulti env q eff)
  then show ?thesis using st commit_matched [OF ok enc] by (auto simp: map_prod_def split: prod.splits)
next
  case (ApplyTrade env q)
  then show ?thesis using st trade_matched [OF ok] by (auto simp: map_prod_def split: prod.splits)
next
  case (RepairQueue rop)
  then show ?thesis using st ok by (auto simp: case_prod_unfold Let_def intro: matched_stutter)
next
  case (OutboxQueue oop)
  have "map row_content (od_rows (fst (outbox_step (pg_outbox db) oop))) = map row_content (od_rows (pg_outbox db))"
    using reg OutboxQueue by (intro outbox_step_content) auto
  from content_abs [OF this] show ?thesis using st ok OutboxQueue by (auto simp: case_prod_unfold Let_def intro!: matched_stutter)
qed (use reg in simp_all)

text \<open>The codec of the effects is a parameter, so the law of the locale is stated for parameters that can be decoded.\<close>

definition decodable :: "pg_params \<Rightarrow> (bytes \<Rightarrow> commit_effects) \<Rightarrow> bool" where
  "decodable P d \<longleftrightarrow> (\<forall>e b. pp_encode P e = Ok b \<longrightarrow> d b = e)"

interpretation pg: run_refinement "pg_step P" "spec_step (exact_params P)" "pg_abs d" "\<lambda>db. decodable P d \<and> pg_invar d db"
  regular_op op_requests op_acknowledged for P d
proof (unfold_locales, goal_cases)
  case (1 db op db' r)
  then have m: "matched P d db op db' r"
    by (intro pg_step_matched) (auto simp: pg_invar_def spec_ok_def decodable_def)
  then obtain qs outs where q: "pg_ok db'" "set qs \<subseteq> op_requests op"
    "run (spec_step (exact_params P)) (pg_abs d db) qs = (pg_abs d db', outs)" "subseq (op_acknowledged op r) (positive_answers (zip qs outs))"
    unfolding matched_def by blast
  have "spec_ok (pg_abs d db')" using spec.invar_run [of "pg_abs d db" "exact_params P" qs] q(3) 1 by (simp add: pg_invar_def)
  then show ?case using q 1 unfolding pg_invar_def by blast
qed

section \<open>Instances\<close>

text \<open>An encoding that knows one value, and some operations.\<close>

definition pg_demo_effects :: commit_effects where
  "pg_demo_effects = \<lparr>ce_appends = [sample_append ''a1''], ce_outbox_events = [sample_event ''e1'']\<rparr>"

definition pg_demo :: pg_params where
  "pg_demo = \<lparr>pp_codec = sample_codec,
     pp_encode = (\<lambda>eff. if eff = pg_demo_effects then Ok [1] else Err (PersistenceProtocol ''unknown effects''))\<rparr>"

lemma pg_demo_decodable: "decodable pg_demo (\<lambda>b. pg_demo_effects)"
  by (simp add: decodable_def pg_demo_def)

definition pg_demo_env :: "pg_outcome \<Rightarrow> timestamp \<Rightarrow> pg_env" where
  "pg_demo_env pg now = \<lparr>pe_pg = pg, pe_now = now, pe_order = 0\<rparr>"

definition pg_demo_save :: "string \<Rightarrow> bytes \<Rightarrow> snapshot_write" where
  "pg_demo_save i p = \<lparr>sw_request_id = i, sw_record = demo_record, sw_schema = ''player.snapshot'', sw_schema_version = 1,
     sw_payload = p, sw_expected_revision = None, sw_updated_at_unix_ms = 2\<rparr>"

definition pg_demo_commit :: "string \<Rightarrow> revision \<Rightarrow> multi_record_transactional_write" where
  "pg_demo_commit i e = \<lparr>mw_operation_id = i, mw_writes = [\<lparr>rw_record = demo_record, rw_schema = ''player.snapshot'', rw_schema_version = 1,
     rw_expected_revision = e, rw_payload = [7], rw_updated_at_unix_ms = 3\<rparr>], mw_result = [8]\<rparr>"

lemmas pg_demo_eval = pg_demo_def pg_demo_env_def pg_demo_save_def pg_demo_commit_def demo_record_def save_batch_def save_queued_batch_def
  save_batch_fenced_def prepare_save_def validate_request_def check_record_key_def schema_version_to_i64_def
  timestamp_to_i64_def revision_to_i64_def i64_try_from_def i64_max_def save_snapshot_in_transaction_def sql_save_def sql_upsert_def sql_fenced_def settle_receipt_def
  claimed_receipt_def postgres_new_def bigint_successor_def enqueue_in_transaction_def sql_enqueue_def written_row_def replay_save_def
  idempotency_matches_def repair_new_def revision_from_i64_def u64_try_from_def save_fenced_snapshot_def required_revision_to_i64_def Let_def
  pg_commit_records_def validate_multi_transaction_request_def commit_in_transaction_def pg_claim_operation_def lock_partitions_def
  pg_check_write_def pg_actual_revision_def persist_record_def persist_transactional_snapshot_def persist_def outbox_insert_def outbox_new_def
  replay_commit_def verify_retry_def multi_transaction_row_matches_def checked_add_def ensure_def lock_scope_def
  resolve_outbox_route_def from_outbox_def RELAY_TOPIC_PREFIX_def sample_append_def sample_event_def

text \<open>A save whose reply is lost and is sent again, a commit with effects that is sent twice, and a new save.\<close>

definition pg_demo_ops :: "pg_op list" where
  "pg_demo_ops =
     [SaveBatch (pg_demo_env (FailedAfter (Postgres None)) 0) [pg_demo_save ''r1'' [1]],
      SaveBatch (pg_demo_env Executed 1) [pg_demo_save ''r1'' [1]],
      CommitMulti (pg_demo_env Executed 2) (pg_demo_commit ''op1'' 1) pg_demo_effects,
      CommitMulti (pg_demo_env Executed 3) (pg_demo_commit ''op1'' 1) pg_demo_effects,
      SaveBatch (pg_demo_env Executed 4) [pg_demo_save ''r2'' [2]]]"

lemma pg_demo_normal:
  "effects_normalize c pg_demo_effects = Ok pg_demo_effects" "effects_is_empty pg_demo_effects = False"
  "ce_appends pg_demo_effects = [sample_append ''a1'']" "ce_outbox_events pg_demo_effects = [sample_event ''e1'']"
  by (simp_all add: effects_normalize_Ok_iff effects_ok_def effects_sorted_def pg_demo_effects_def sample_event_ok effects_is_empty_def)
    (simp add: sample_append_def append_ok_def valid_record_def)

lemma pg_demo_replies:
  "snd (run (pg_step pg_demo) postgres_new pg_demo_ops) =
    [SavedBatch (Err (Postgres None)), SavedBatch (Ok [Ok (Duplicate 1)]),
     MultiCommitted (Ok (Applied ([\<lparr>rr_record = demo_record, rr_new_revision = 2\<rparr>], [8]))),
     MultiCommitted (Ok (Duplicate ([\<lparr>rr_record = demo_record, rr_new_revision = 2\<rparr>], [8]))),
     SavedBatch (Ok [Ok (Applied 3)])]"
  by (simp add: pg_demo_ops_def pg_demo_eval pg_demo_normal)

end
