(* ===== verification/Postgres_Guarantees.thy ===== *)
theory Postgres_Guarantees
  imports Postgres_Run
begin

text \<open>
  What a client of the PostgreSQL store can rely on: its answers are those of the specification, and a request that
  is sent again gets the receipt of the first answer.
\<close>

section \<open>Answers of the specification\<close>







section \<open>Properties\<close>








end
