(* ===== verification/Postgres_Queues.thy ===== *)
theory Postgres_Queues
  imports Postgres_Run
begin

text \<open>
  What every operation of the PostgreSQL store does to the repair queue: a write that is answered has
  requested the repair of the cache entries it made stale, in the same transaction.
\<close>

section \<open>Requested repairs\<close>

definition enqueue_list :: "(record_key \<times> int \<times> timestamp) list \<Rightarrow> repair_db \<Rightarrow> repair_db" where
  "enqueue_list ts x = fold (\<lambda>(k, n, now) x. fst (sql_enqueue k n now x)) ts x"

text \<open>The repair queue changes by requests only, and those of \<open>R\<close> are among them.\<close>

definition requested :: "postgres \<Rightarrow> postgres \<Rightarrow> (record_key \<times> int) set \<Rightarrow> bool" where
  "requested db db' R \<longleftrightarrow> (\<exists>ts. pg_repairs db' = enqueue_list ts (pg_repairs db) \<and> R \<subseteq> (\<lambda>(k, n, now). (k, n)) ` set ts)"

lemma requested_refl: "pg_repairs db' = pg_repairs db \<Longrightarrow> requested db db' {}"
  unfolding requested_def by (intro exI [of _ "[]"]) (simp add: enqueue_list_def)

lemma requested_trans:
  assumes "requested db db1 R" and "requested db1 db2 S"
  shows "requested db db2 (R \<union> S)"
proof -
  obtain ts us where "pg_repairs db1 = enqueue_list ts (pg_repairs db)" "R \<subseteq> (\<lambda>(k, n, now). (k, n)) ` set ts"
    "pg_repairs db2 = enqueue_list us (pg_repairs db1)" "S \<subseteq> (\<lambda>(k, n, now). (k, n)) ` set us"
    using assms by (auto simp: requested_def)
  then show ?thesis unfolding requested_def by (intro exI [of _ "ts @ us"]) (auto simp: enqueue_list_def)
qed

lemma requested_cong:
  "requested db db1 R \<Longrightarrow> pg_repairs db = pg_repairs db0 \<Longrightarrow> pg_repairs db1 = pg_repairs db2 \<Longrightarrow> S = R \<Longrightarrow> requested db0 db2 S"
  by (simp add: requested_def)

lemma requested_enqueue:
  assumes "enqueue_in_transaction now k n db = Ok db'"
  shows "requested db db' {(k, uint n)}"
  using assms unfolding requested_def by (intro exI [of _ "[(k, uint n, now)]"]) (simp add: enqueue_Ok enqueue_list_def)

lemma requested_pending:
  assumes "requested db db' R"
  shows "(repair_pending (pg_repairs db) k n \<longrightarrow> repair_pending (pg_repairs db') k n) \<and>
    ((k, n) \<in> R \<longrightarrow> repair_pending (pg_repairs db') k n)"
proof -
  have keep: "repair_pending x k n \<Longrightarrow> repair_pending (enqueue_list ts x) k n" for ts x
    by (induction ts arbitrary: x) (auto simp: enqueue_list_def pending_enqueue)
  have "(k, n, now) \<in> set ts \<Longrightarrow> repair_pending (enqueue_list ts x) k n" for ts x now
  proof (induction ts arbitrary: x)
    case (Cons t ts)
    then show ?case using keep [of "fst (sql_enqueue k n now x)" ts] enqueued_pending [of k n now x] by (auto simp: enqueue_list_def)
  qed simp
  then show ?thesis using assms keep unfolding requested_def by fastforce
qed

lemma requested_ok:
  assumes "requested db db' R" and "repair_ok (pg_repairs db)"
  shows "repair_ok (pg_repairs db')"
proof -
  have "repair_ok (fst (sql_enqueue k n now x))" if "repair_ok x" for k n now x
    using good_enqueue [OF that] by (simp add: good_statement_def)
  then have "repair_ok x \<Longrightarrow> repair_ok (enqueue_list ts x)" for ts x
    by (induction ts arbitrary: x) (auto simp: enqueue_list_def)
  then show ?thesis using assms by (auto simp: requested_def)
qed

subsection \<open>Saves\<close>

lemma requested_settle:
  assumes "settle_receipt now q v db = Ok db'"
  shows "requested db db' {(sw_record q, uint v)}"
proof -
  obtain db1 where "enqueue_in_transaction now (sw_record q) v db1 = Ok db'" "pg_repairs db1 = pg_repairs db"
    using assms by (auto simp: settle_receipt_def and_then_Ok_iff)
  then show ?thesis using requested_enqueue requested_cong by metis
qed

lemma statement_repairs:
  "sql_save q v e t db = Ok (db1, n) \<Longrightarrow> pg_repairs db1 = pg_repairs db"
  "sql_upsert q v t db = Ok (db1, n) \<Longrightarrow> pg_repairs db1 = pg_repairs db"
  "sql_fenced q v t f db = Ok (db1, n) \<Longrightarrow> pg_repairs db1 = pg_repairs db"
  by (auto simp: sql_save_def sql_upsert_def sql_fenced_def and_then_Ok_iff split: option.splits if_splits)

lemma save_in_transaction_cases:
  assumes "save_snapshot_in_transaction now q v e t f db = (db', r)"
  shows "case r of
      Ok out \<Rightarrow> requested db db' {(sw_record q, uint (outcome_receipt out))}
    | Err _ \<Rightarrow> pg_repairs db' = pg_repairs db"
proof (cases "pg_idempotency db (sw_request_id q)")
  case (Some receipt)
  have "requested db db1 {(sw_record q, uint (outcome_receipt out))}" if "replay_save now q receipt db = Ok (db1, out)" for db1 out
    using that by (auto simp: replay_save_def and_then_Ok_iff intro: requested_enqueue)
  then show ?thesis using assms by (auto simp: save_snapshot_in_transaction_def Some split: if_splits result.splits)
next
  case None
  define claimed where "claimed = db\<lparr>pg_idempotency := (pg_idempotency db)(sw_request_id q \<mapsto> claimed_receipt now q v e t)\<rparr>"
  have c: "pg_repairs claimed = pg_repairs db" by (simp add: claimed_def)
  show ?thesis
  proof (cases f)
    case (Some n)
    have "requested db db1 {(sw_record q, uint (outcome_receipt out))}" if "save_fenced_snapshot now q v t n claimed = Ok (db1, out)" for db1 out
      using that requested_settle statement_repairs(3) requested_cong [OF _ _ refl refl] c
      by (auto simp: save_fenced_snapshot_def and_then_Ok_iff split: option.splits) (metis outcome_receipt.simps)+
    then show ?thesis
      using assms c unfolding save_snapshot_in_transaction_def None Some claimed_def [symmetric]
      by (auto simp: Let_def split: result.splits prod.splits)
  next
    case f: None
    define stmt where "stmt = and_then (sql_save q v e t claimed) (\<lambda>(db, snapshot).
        if snapshot = None \<and> e = None then sql_upsert q v t db else Ok (db, snapshot))"
    have stmt: "pg_repairs db1 = pg_repairs db" if "stmt = Ok (db1, n)" for db1 n
      using that statement_repairs(1,2) c by (auto simp: stmt_def and_then_Ok_iff split: if_splits)
    have settled: "requested db db2 {(sw_record q, uint v')}" if "stmt = Ok (db1, n)" "settle_receipt now q v' db1 = Ok db2" for db1 db2 n v'
      using requested_cong [OF requested_settle [OF that(2)] stmt [OF that(1)] refl refl] .
    show ?thesis
      using assms c stmt settled unfolding save_snapshot_in_transaction_def None f claimed_def [symmetric] Let_def option.case stmt_def [symmetric]
      by (auto simp: and_then_Ok_iff split: result.splits option.splits prod.splits)
  qed
qed

lemma requested_entries:
  assumes "save_entries now (zip qs ps) db = Ok (db', rs)" and "length ps = length qs"
  shows "length rs = length qs \<and> requested db db' {(sw_record q, uint (outcome_receipt out)) |q out. (q, Ok out) \<in> set (zip qs rs)}"
  using assms(2,1)
proof (induction ps qs arbitrary: db rs rule: list_induct2)
  case Nil
  then show ?case by (simp add: requested_refl)
next
  case (Cons p ps q qs)
  obtain db1 r rs1 where rest: "save_entries now (zip qs ps) db1 = Ok (db', rs1)" and rs: "rs = r # rs1"
    and head: "case r of Ok out \<Rightarrow> requested db db1 {(sw_record q, uint (outcome_receipt out))} | Err _ \<Rightarrow> pg_repairs db1 = pg_repairs db"
  proof (cases p)
    case (Err e)
    then show ?thesis using Cons.prems that [of db] by (auto simp: and_then_Ok_iff)
  next
    case (Ok x)
    obtain v e t f where x: "x = (v, e, t, f)" by (cases x)
    obtain db1 r where sv: "save_snapshot_in_transaction now q v e t f db = (db1, r)" by fastforce
    obtain rs1 where "save_entries now (zip qs ps) db1 = Ok (db', rs1)" "rs = r # rs1"
      using Cons.prems Ok x sv by (auto simp: and_then_Ok_iff split: result.splits storage_error.splits)
    then show ?thesis using save_in_transaction_cases [OF sv] that by blast
  qed
  from Cons.IH [OF rest] have ih: "length rs1 = length qs"
    "requested db1 db' {(sw_record q, uint (outcome_receipt out)) |q out. (q, Ok out) \<in> set (zip qs rs1)}" by simp_all
  show ?case
  proof (cases r)
    case (Ok out)
    have "{(sw_record q', uint (outcome_receipt out')) |q' out'. (q', Ok out') \<in> set (zip (q # qs) rs)} =
        {(sw_record q, uint (outcome_receipt out))} \<union> {(sw_record q', uint (outcome_receipt out')) |q' out'. (q', Ok out') \<in> set (zip qs rs1)}"
      by (auto simp: rs Ok)
    moreover have "requested db db1 {(sw_record q, uint (outcome_receipt out))}" using head Ok by simp
    ultimately show ?thesis using requested_trans [OF _ ih(2)] ih(1) rs by (simp only: length_Cons)
  next
    case (Err e)
    then show ?thesis using requested_cong [OF ih(2) _ refl refl] head ih(1) rs by simp
  qed
qed

subsection \<open>Transactions, commits and trades\<close>

lemma claim_repairs: "pg_claim_operation now i kind db = Ok db1 \<Longrightarrow> pg_repairs db1 = pg_repairs db"
  by (auto simp: claim_Ok_iff split: option.splits)

lemma requested_apply:
  assumes "apply_in_transaction now q v e t db = Ok (db', out)"
  shows "requested db db' {(tw_record q, uint (fst (outcome_receipt out)))}"
proof -
  obtain db1 where c: "pg_claim_operation now (tw_operation_id q) ''single'' db = Ok db1" using assms by (auto simp: apply_in_transaction_def and_then_Ok_iff)
  note eq = claim_repairs [OF c]
  show ?thesis
  proof (cases "pg_transactions db1 (tw_operation_id q)")
    case (Some receipt)
    then obtain n where "enqueue_in_transaction now (tw_record q) n db1 = Ok db'" "fst (outcome_receipt out) = n"
      using assms c by (auto simp: apply_in_transaction_def replay_transaction_def and_then_Ok_iff split: if_splits)
    then show ?thesis using requested_cong [OF requested_enqueue eq refl refl] by blast
  next
    case None
    then have "apply_fresh now q v e t (db1\<lparr>pg_transactions := (pg_transactions db1)(tw_operation_id q \<mapsto> transaction_row_of q v e t 0)\<rparr>) = Ok (db', out)"
      using assms c by (simp add: apply_in_transaction_def)
    then obtain db2 n where "enqueue_in_transaction now (tw_record q) n db2 = Ok db'" "fst (outcome_receipt out) = n" "pg_repairs db2 = pg_repairs db1"
      by (auto simp: apply_fresh_def write_transaction_def Let_def and_then_Ok_iff split: if_splits option.splits)
    then show ?thesis using requested_cong [OF requested_enqueue _ refl refl] eq by metis
  qed
qed

definition receipt_targets :: "transaction_record_receipt list \<Rightarrow> (record_key \<times> int) set" where
  "receipt_targets rs = (\<lambda>r. (rr_record r, uint (rr_new_revision r))) ` set rs"

lemma requested_enqueue_all: "enqueue_all now rs db = Ok db' \<Longrightarrow> requested db db' (receipt_targets rs)"
proof (induction rs arbitrary: db)
  case (Cons r rs)
  then obtain db1 where "requested db db1 {(rr_record r, uint (rr_new_revision r))}" "requested db1 db' (receipt_targets rs)"
    by (auto simp: and_then_Ok_iff dest: requested_enqueue)
  from requested_trans [OF this] show ?case by (simp add: receipt_targets_def)
qed (simp add: requested_refl receipt_targets_def)

lemma persist_snapshot_repairs: "persist_transactional_snapshot w v db = Ok (db1, p) \<Longrightarrow> pg_repairs db1 = pg_repairs db"
  by (auto simp: persist_transactional_snapshot_def and_then_Ok_iff Let_def split: option.splits if_splits)

lemma requested_record:
  assumes "persist_record now i w v db = Ok db'"
  shows "requested db db' {(rw_record w, uint v)}"
proof -
  obtain db1 db2 p where "persist_transactional_snapshot w v db = Ok (db1, p)" "enqueue_in_transaction now (rw_record w) v db2 = Ok db'"
    "pg_repairs db2 = pg_repairs db1"
    using assms by (auto simp: persist_record_def and_then_Ok_iff split: if_splits)
  then show ?thesis using requested_cong [OF requested_enqueue _ refl refl] persist_snapshot_repairs by metis
qed

lemma requested_records: "persist_records now i wvs db = Ok db' \<Longrightarrow> requested db db' ((\<lambda>(w, v). (rw_record w, uint v)) ` set wvs)"
proof (induction wvs arbitrary: db)
  case (Cons wv wvs)
  obtain w v where wv: "wv = (w, v)" by fastforce
  with Cons obtain db1 where "requested db db1 {(rw_record w, uint v)}" "requested db1 db' ((\<lambda>(w, v). (rw_record w, uint v)) ` set wvs)"
    by (auto simp: and_then_Ok_iff dest: requested_record)
  from requested_trans [OF this] show ?case by (simp add: wv)
qed (simp add: requested_refl)

lemma map2_targets:
  "length vs = length ws \<Longrightarrow>
     receipt_targets (map2 (\<lambda>w v. \<lparr>rr_record = rw_record w, rr_new_revision = v\<rparr>) ws vs) = (\<lambda>(w, v). (rw_record w, uint v)) ` set (zip ws vs)"
  by (simp add: receipt_targets_def image_image case_prod_unfold)

lemma persist_appends_repairs: "persist_appends i as db = Ok db' \<Longrightarrow> pg_repairs db' = pg_repairs db"
  by (induction as arbitrary: db) (auto simp: and_then_Ok_iff split: if_splits)

lemma persist_repairs: "persist P env i eff db = Ok db' \<Longrightarrow> pg_repairs db' = pg_repairs db"
proof -
  assume p: "persist P env i eff db = Ok db'"
  show ?thesis
  proof (cases "effects_is_empty eff")
    case False
    then obtain b db1 where "persist_appends i (ce_appends eff) (db\<lparr>pg_effects := (pg_effects db)(i \<mapsto> b)\<rparr>) = Ok db1"
      "persist_events (pe_order env) (pe_now env) i (ce_outbox_events eff) db1 = Ok db'"
      using p by (auto simp: persist_def and_then_Ok_iff split: if_splits)
    then show ?thesis using persist_appends_repairs persist_events_Ok by fastforce
  qed (use p in \<open>simp add: persist_def\<close>)
qed

lemma requested_commit:
  assumes "commit_in_transaction P env q eff db = Ok (db', out)"
  shows "requested db db' (receipt_targets (fst (outcome_receipt out)))"
proof -
  let ?i = "mw_operation_id q"
  obtain db1 where c: "pg_claim_operation (pe_now env) ?i ''multi'' db = Ok db1" using assms by (auto simp: commit_in_transaction_def Let_def and_then_Ok_iff)
  note eq = claim_repairs [OF c]
  show ?thesis
  proof (cases "pg_multis db1 ?i")
    case (Some h)
    then have "replay_commit P (pe_now env) q eff h db1 = Ok (db', out)" using assms c by (auto simp: commit_in_transaction_def Let_def and_then_Ok_iff)
    then obtain rs where "enqueue_all (pe_now env) rs db1 = Ok db'" "fst (outcome_receipt out) = rs"
      by (auto simp: replay_commit_def Let_def and_then_Ok_iff split: if_splits)
    then show ?thesis using requested_cong [OF requested_enqueue_all eq refl refl] by blast
  next
    case None
    define db2 where "db2 t = db1\<lparr>pg_multis := (pg_multis db1)(?i \<mapsto> \<lparr>mh_result = mw_result q,
        mh_record_count = int (length (mw_writes q)), mh_updated_at = t\<rparr>)\<rparr>" for t
    obtain t vs db3 where d: "pg_repairs (db2 t) = pg_repairs db1" "try_map (pg_check_write (db2 t)) (mw_writes q) = Ok vs"
      "persist_records (pe_now env) ?i (zip (mw_writes q) vs) (db2 t) = Ok db3" "persist P env ?i eff db3 = Ok db'"
      "out = Applied (map2 (\<lambda>w v. \<lparr>rr_record = rw_record w, rr_new_revision = v\<rparr>) (mw_writes q) vs, mw_result q)"
      using assms c None by (auto simp: commit_in_transaction_def Let_def and_then_Ok_iff db2_def)
    from requested_cong [OF requested_records [OF d(3)], of db db'] d(1,4,5) eq persist_repairs [OF d(4)]
    show ?thesis using map2_targets [OF try_map_Ok_length [OF d(2)]] by simp
  qed
qed

lemma requested_trade:
  assumes "trade_in_transaction env q v n n' u db = Ok (db', out)"
  shows "requested db db' (receipt_targets (rc_records (outcome_receipt out)))"
proof -
  let ?i = "tx_operation_id q"
  obtain db1 where c: "pg_claim_operation (pe_now env) ?i ''trade'' db = Ok db1" using assms by (auto simp: trade_in_transaction_def Let_def and_then_Ok_iff)
  note eq = claim_repairs [OF c]
  show ?thesis
  proof (cases "pg_trade_operations db1 ?i")
    case (Some h)
    then have "replay_trade (pe_now env) q db1 = Ok (db', out)" using assms c by (simp add: trade_in_transaction_def Let_def)
    then obtain r where "enqueue_all (pe_now env) (rc_records r) db1 = Ok db'" "outcome_receipt out = r"
      by (auto simp: replay_trade_def Let_def and_then_Ok_iff split: if_splits option.splits)
    then show ?thesis using requested_cong [OF requested_enqueue_all eq refl refl] by blast
  next
    case None
    define db2 where "db2 = db1\<lparr>pg_trade_operations := (pg_trade_operations db1)(?i \<mapsto> trade_header_of q v n' u)\<rparr>"
    have "trade_fresh env q n n' u db2 = Ok (db', out)" using assms c None by (simp add: trade_in_transaction_def Let_def db2_def)
    moreover define db3 where "db3 = db2\<lparr>pg_trades := (pg_trades db2)(tt_trade_id (tx_transition q) \<mapsto>
        \<lparr>tv_version = n', tv_state = state_to_i16 (tt_next_state (tx_transition q)), tv_payload = tt_payload (tx_transition q),
         tv_updated_at = u\<rparr>)\<rparr>"
    ultimately obtain vs db4 db5 where d: "try_map (pg_check_write db2) (tx_writes q) = Ok vs" "pg_repairs db3 = pg_repairs db2"
      "persist_trade_records (pe_now env) ?i (zip (tx_writes q) vs) db3 = Ok db4"
      "persist_postings ?i (tt_trade_id (tx_transition q)) u (tx_ledger_postings q) db4 = Ok db5"
      "persist_trade_events (pe_order env) (pe_now env) ?i (tt_trade_id (tx_transition q)) (tx_outbox_events q) db5 = Ok db'"
      "rc_records (outcome_receipt out) = map2 (\<lambda>w v. \<lparr>rr_record = rw_record w, rr_new_revision = v\<rparr>) (tx_writes q) vs"
      by (auto simp: trade_fresh_def write_trade_def Let_def and_then_Ok_iff split: if_splits)
    have swap: "pg_repairs (swap_records x) = pg_repairs x" for x by (simp add: swap_records_def)
    have r: "requested db3 db4 ((\<lambda>(w, v). (rw_record w, uint v)) ` set (zip (tx_writes q) vs))"
      by (rule requested_cong [OF requested_records [OF persist_trade_records_swap [OF d(3)]] swap swap refl])
    have "pg_repairs db4 = pg_repairs db'" using persist_postings_Ok [OF d(4)] persist_trade_events_Ok [OF d(5)] by auto
    moreover have "pg_repairs db3 = pg_repairs db" by (simp add: d(2) db2_def eq)
    ultimately show ?thesis unfolding d(6) map2_targets [OF try_map_Ok_length [OF d(1)]] by (intro requested_cong [OF r] refl)
  qed
qed

section \<open>One operation\<close>

text \<open>The records and revisions that a positive reply names.\<close>

fun replied_revisions :: "pg_op \<Rightarrow> pg_reply \<Rightarrow> (record_key \<times> int) set" where
  "replied_revisions (SaveBatch env qs) (SavedBatch (Ok rs)) =
     {(sw_record q, uint (outcome_receipt out)) |q out. (q, Ok out) \<in> set (zip qs rs)}"
| "replied_revisions (QueuedBatch env qs ns) (SavedBatch (Ok rs)) =
     {(sw_record q, uint (outcome_receipt out)) |q out. (q, Ok out) \<in> set (zip qs rs)}"
| "replied_revisions (ApplySingle env q) (SingleApplied (Ok out)) = {(tw_record q, uint (fst (outcome_receipt out)))}"
| "replied_revisions (CommitMulti env q eff) (MultiCommitted (Ok out)) = receipt_targets (fst (outcome_receipt out))"
| "replied_revisions (ApplyTrade env q) (TradeApplied (Ok out)) = receipt_targets (rc_records (outcome_receipt out))"
| "replied_revisions _ _ = {}"

lemma requested_subset: "requested db db' R \<Longrightarrow> S \<subseteq> R \<Longrightarrow> requested db db' S"
  unfolding requested_def by blast

lemma transact_requested:
  assumes "transact pg body db = (db', r)" and "\<And>x. body = Ok (db', x) \<Longrightarrow> requested db db' (f x)"
  shows "requested db db' (case r of Ok x \<Rightarrow> f x | Err _ \<Rightarrow> {})"
  using assms(1)
proof (cases rule: transact_cases)
  case (kept e)
  then show ?thesis by (simp add: requested_refl)
next
  case (answered x)
  then show ?thesis using assms(2) by simp
next
  case (lost x e)
  then show ?thesis using requested_subset [OF assms(2)] by simp
qed

lemma refused_stays: "\<not> is_ok p \<Longrightarrow> and_then p f \<noteq> Ok out"
  by (cases p) simp_all

lemma zip_refused: "list_all (\<lambda>x. \<not> is_ok x) ps \<Longrightarrow> (q, Ok out) \<notin> set (zip qs (map (\<lambda>x. and_then x (\<lambda>_. Err e)) ps))"
proof
  assume a: "list_all (\<lambda>x. \<not> is_ok x) ps" and m: "(q, Ok out) \<in> set (zip qs (map (\<lambda>x. and_then x (\<lambda>_. Err e)) ps))"
  from set_zip_rightD [OF m] obtain p where p: "p \<in> set ps" "and_then p (\<lambda>_. Err e) = Ok out" by auto
  from a p(1) have "\<not> is_ok p" by (simp add: list_all_iff)
  from refused_stays [OF this, of "\<lambda>_. Err e" out] p(2) show False by simp
qed

lemma requested_batch:
  assumes "save_batch_fenced env qs ns db = (db', r)" and l: "length ns = length qs"
  shows "requested db db' (case r of Ok rs \<Rightarrow> {(sw_record q, uint (outcome_receipt out)) |q out. (q, Ok out) \<in> set (zip qs rs)} | Err _ \<Rightarrow> {})"
proof -
  let ?ps = "map2 prepare_save qs ns"
  consider "qs = []" | "qs \<noteq> []" "list_all (\<lambda>x. \<not> is_ok x) ?ps" | "qs \<noteq> []" "\<not> list_all (\<lambda>x. \<not> is_ok x) ?ps" by blast
  then show ?thesis
  proof cases
    case 1
    then show ?thesis using assms(1) by (auto simp: save_batch_fenced_def requested_refl)
  next
    case 2
    let ?rs = "map (\<lambda>x. and_then x (\<lambda>_. Err (PersistenceProtocol ''batch save result is missing''))) ?ps"
    have "db' = db" "r = Ok ?rs" using 2 assms(1) by (simp_all add: save_batch_fenced_def Let_def)
    moreover have none: "{(sw_record q, uint (outcome_receipt out)) |q out. (q, Ok out) \<in> set (zip qs ?rs)} = {}"
      by (simp add: zip_refused [OF 2(2)] del: map_map)
    ultimately show ?thesis by (simp only: result.case none requested_refl)
  next
    case 3
    then have tr: "transact (pe_pg env) (save_entries (pe_now env) (zip qs ?ps) db) db = (db', r)"
      using assms(1) by (simp add: save_batch_fenced_def Let_def)
    show ?thesis by (rule transact_requested [OF tr]) (use requested_entries [where ps = ?ps] l in \<open>simp\<close>)
  qed
qed

lemma pg_step_requested:
  assumes "pg_step P db op = (db', r)" and "\<And>rop. op \<noteq> RepairQueue rop"
  shows "requested db db' (replied_revisions op r)"
proof (cases op)
  case (SaveBatch env qs)
  then obtain x where "save_batch_fenced env qs (map (\<lambda>_. None) qs) db = (db', x)" "r = SavedBatch x"
    using assms(1) by (auto simp: save_batch_def prod_eq_iff)
  then show ?thesis using requested_batch [of env qs _ db db' x] SaveBatch by (cases x) simp_all
next
  case (QueuedBatch env qs ns)
  obtain x where x: "save_queued_batch env qs ns db = (db', x)" "r = SavedBatch x"
    using assms(1) QueuedBatch by (auto simp: prod_eq_iff)
  show ?thesis
  proof (cases "length ns = length qs")
    case True
    then show ?thesis using requested_batch [of env qs "map Some ns" db db' x] x QueuedBatch by (cases x) (simp_all add: save_queued_batch_def)
  next
    case False
    then show ?thesis using x QueuedBatch by (auto simp: save_queued_batch_def requested_refl)
  qed
next
  case (ApplySingle env q)
  then obtain x where x: "pg_apply env q db = (db', x)" "r = SingleApplied x" using assms(1) by (auto simp: prod_eq_iff)
  have "requested db db' (case x of Ok out \<Rightarrow> {(tw_record q, uint (fst (outcome_receipt out)))} | Err _ \<Rightarrow> {})"
    using x(1) by (auto simp: pg_apply_def split: result.splits intro: requested_refl dest: transact_requested [OF _ requested_apply])
  then show ?thesis using x(2) ApplySingle by (cases x) simp_all
next
  case (CommitMulti env q eff)
  then obtain x where x: "pg_commit_records P env q eff db = (db', x)" "r = MultiCommitted x" using assms(1) by (auto simp: prod_eq_iff)
  have "requested db db' (case x of Ok out \<Rightarrow> receipt_targets (fst (outcome_receipt out)) | Err _ \<Rightarrow> {})"
    using x(1) by (auto simp: pg_commit_records_def split: result.splits intro: requested_refl dest: transact_requested [OF _ requested_commit])
  then show ?thesis using x(2) CommitMulti by (cases x) simp_all
next
  case (ApplyTrade env q)
  then obtain x where x: "pg_apply_trade env q db = (db', x)" "r = TradeApplied x" using assms(1) by (auto simp: prod_eq_iff)
  have "requested db db' (case x of Ok out \<Rightarrow> receipt_targets (rc_records (outcome_receipt out)) | Err _ \<Rightarrow> {})"
    using x(1) by (auto simp: pg_apply_trade_def split: result.splits intro: requested_refl dest: transact_requested [OF _ requested_trade])
  then show ?thesis using x(2) ApplyTrade by (cases x) simp_all
next
  case (CleanupReceipts env ids d)
  then show ?thesis using assms(1)
    by (cases "pe_pg env") (auto simp: cleanup_expired_receipts_def Let_def intro!: requested_refl split: result.splits)
next
  case (RetireOperations env ids d)
  then show ?thesis using assms(1)
    by (cases "pe_pg env") (auto simp: retire_expired_operations_def Let_def intro!: requested_refl split: result.splits)
next
  case (PurgeOperations env ids d)
  then show ?thesis using assms(1)
    by (cases "pe_pg env") (auto simp: purge_retired_operations_def Let_def intro!: requested_refl split: result.splits)
next
  case (OutboxQueue oop)
  then show ?thesis using assms(1) by (auto simp: case_prod_unfold Let_def intro!: requested_refl)
qed (use assms(2) in blast)

fun reports_repair :: "pg_op \<Rightarrow> record_key \<Rightarrow> int \<Rightarrow> bool" where
  "reports_repair (RepairQueue op) k n = reports_cached op k n"
| "reports_repair _ k n = False"

lemma pg_step_pending:
  assumes ok: "repair_ok (pg_repairs db)" and st: "pg_step P db op = (db', r)"
  shows "repair_ok (pg_repairs db') \<and> ((k, n) \<in> replied_revisions op r \<longrightarrow> repair_pending (pg_repairs db') k n) \<and>
    (repair_pending (pg_repairs db) k n \<longrightarrow> repair_pending (pg_repairs db') k n \<or> reports_repair op k n)"
proof (cases "\<exists>rop. op = RepairQueue rop")
  case True
  then obtain rop where "op = RepairQueue rop" by blast
  then show ?thesis
    using st repair_ok_step [OF ok, of rop] repair_step_pending [OF ok, of k n rop] by (auto simp: case_prod_unfold Let_def)
next
  case False
  then have "requested db db' (replied_revisions op r)" using pg_step_requested [OF st] by blast
  then show ?thesis using requested_pending [of db db'] requested_ok [OF _ ok] by blast
qed

lemma pg_run_pending:
  assumes "repair_ok (pg_repairs db)" and "repair_pending (pg_repairs db) k n" and "\<forall>op\<in>set ops. \<not> reports_repair op k n"
  shows "repair_pending (pg_repairs (fst (run (pg_step P) db ops))) k n"
  using assms
proof (induction ops arbitrary: db)
  case (Cons op ops)
  obtain db1 r where st: "pg_step P db op = (db1, r)" by fastforce
  from pg_step_pending [OF Cons.prems(1) st] Cons.prems(2,3) have "repair_ok (pg_repairs db1)" "repair_pending (pg_repairs db1) k n" by auto
  then show ?case using Cons.IH Cons.prems(3) st by (simp add: case_prod_unfold Let_def)
qed simp

lemma pg_run_repair_ok: "repair_ok (pg_repairs db) \<Longrightarrow> repair_ok (pg_repairs (fst (run (pg_step P) db ops)))"
proof (induction ops arbitrary: db)
  case (Cons op ops)
  obtain db1 r where st: "pg_step P db op = (db1, r)" by fastforce
  then show ?case using Cons.IH pg_step_pending [OF Cons.prems st] by (simp add: case_prod_unfold Let_def)
qed simp

text \<open>
  C8. No acknowledged write leaves the cache stale for good: whatever a save, a queued save, a transaction, a
  commit or a trade is told about a record and its revision, a repair of that record at that revision or a later one is
  pending, over any later operations and failures, until a call reports a cached revision that covers it.
\<close>

theorem postgres_repairs_pending:
  assumes "run (pg_step P) postgres_new ops = (db, rs)" and "i < length ops"
    and "(k, n) \<in> replied_revisions (ops ! i) (rs ! i)"
    and "\<forall>j. i < j \<and> j < length ops \<longrightarrow> \<not> reports_repair (ops ! j) k n"
  shows "repair_pending (pg_repairs db) k n"
proof -
  define before where "before = fst (run (pg_step P) postgres_new (take i ops))"
  have ok: "repair_ok (pg_repairs before)" unfolding before_def by (rule pg_run_repair_ok) (simp add: postgres_new_def)
  obtain db1 r where st: "pg_step P before (ops ! i) = (db1, r)" by fastforce
  have "rs ! i = r" using run_nth [OF assms(1,2)] st by (simp add: before_def)
  then have p: "repair_ok (pg_repairs db1)" "repair_pending (pg_repairs db1) k n" using pg_step_pending [OF ok st] assms(3) by blast+
  have "\<forall>op\<in>set (drop (Suc i) ops). \<not> reports_repair op k n" using assms(4) by (auto simp: in_set_conv_nth)
  from pg_run_pending [OF p this, of P]
  have "repair_pending (pg_repairs (fst (run (pg_step P) postgres_new (take (Suc i) ops @ drop (Suc i) ops)))) k n"
    using run_take_Suc [OF assms(2), of "pg_step P" postgres_new] st
    unfolding run_append by (simp add: case_prod_unfold Let_def before_def)
  then show ?thesis using assms(1) by simp
qed

theorem postgres_repairs_pending_witness:
  "repair_pending (pg_repairs (fst (run (pg_step pg_demo) postgres_new pg_demo_ops))) demo_record 2"
proof -
  have "\<forall>j. 2 < j \<and> j < length pg_demo_ops \<longrightarrow> \<not> reports_repair (pg_demo_ops ! j) demo_record 2"
    by (auto simp: pg_demo_ops_def less_Suc_eq)
  then show ?thesis
    by (intro postgres_repairs_pending [OF prod.collapse [symmetric], of 2]) (simp_all add: pg_demo_replies, simp_all add: pg_demo_ops_def receipt_targets_def)
qed

end
