(* ===== verification/Postgres_Fence.thy ===== *)
theory Postgres_Fence
  imports Postgres_Queues
begin

text \<open>
  Queued writes are fenced: the row of a record remembers the highest sequence of a queued write, every other
  write keeps it, and a queued write that comes late does not overwrite a newer one.
\<close>

section \<open>Sequences never fall\<close>

definition sequence_le :: "int option \<Rightarrow> int option \<Rightarrow> bool" where
  "sequence_le a b \<longleftrightarrow> (case a of None \<Rightarrow> True | Some n \<Rightarrow> (case b of None \<Rightarrow> False | Some m \<Rightarrow> n \<le> m))"

lemma sequence_le_refl [simp]: "sequence_le a a" "sequence_le None b"
  by (simp_all add: sequence_le_def split: option.splits)

lemma sequence_le_trans: "sequence_le a b \<Longrightarrow> sequence_le b c \<Longrightarrow> sequence_le a c"
  by (auto simp: sequence_le_def split: option.splits)

definition sequences_kept :: "postgres \<Rightarrow> postgres \<Rightarrow> bool" where
  "sequences_kept db db' \<longleftrightarrow> (\<forall>k. sequence_le (next_sequence db k) (next_sequence db' k))"

lemma sequences_kept_refl: "pg_snapshots db' = pg_snapshots db \<Longrightarrow> sequences_kept db db'"
  by (simp add: sequences_kept_def next_sequence_def)

lemma sequences_kept_trans: "sequences_kept db db1 \<Longrightarrow> sequences_kept db1 db2 \<Longrightarrow> sequences_kept db db2"
  unfolding sequences_kept_def using sequence_le_trans by blast

lemma sequences_kept_cong:
  "sequences_kept db db1 \<Longrightarrow> pg_snapshots db = pg_snapshots db0 \<Longrightarrow> pg_snapshots db1 = pg_snapshots db2 \<Longrightarrow> sequences_kept db0 db2"
  by (simp add: sequences_kept_def next_sequence_def)

lemma sequences_kept_write:
  assumes "pg_snapshots db' = (pg_snapshots db)(k \<mapsto> row)" and "sequence_le (next_sequence db k) (ns_queued_sequence row)"
  shows "sequences_kept db db'"
  using assms by (simp add: sequences_kept_def next_sequence_def)

lemma statement_sequences:
  "sql_save q v e t db = Ok (db1, n) \<Longrightarrow> sequences_kept db db1"
  "sql_upsert q v t db = Ok (db1, n) \<Longrightarrow> sequences_kept db db1"
  "sql_fenced q v t f db = Ok (db1, n) \<Longrightarrow> sequences_kept db db1"
  by (auto simp: sql_save_def sql_upsert_def sql_fenced_def and_then_Ok_iff written_row_def sequences_kept_refl
      sequences_kept_def next_sequence_def sequence_le_def split: option.splits if_splits)

lemma enqueue_snapshots: "enqueue_in_transaction now k n db = Ok db' \<Longrightarrow> pg_snapshots db' = pg_snapshots db"
  by (auto simp: enqueue_Ok)

lemma settle_snapshots: "settle_receipt now q v db = Ok db' \<Longrightarrow> pg_snapshots db' = pg_snapshots db"
  by (auto simp: settle_receipt_def and_then_Ok_iff enqueue_Ok)

lemma save_in_transaction_sequences:
  assumes "save_snapshot_in_transaction now q v e t f db = (db', r)"
  shows "sequences_kept db db'"
proof (cases "pg_idempotency db (sw_request_id q)")
  case (Some receipt)
  have "pg_snapshots db1 = pg_snapshots db" if "replay_save now q receipt db = Ok (db1, out)" for db1 out
    using that by (auto simp: replay_save_def and_then_Ok_iff dest: enqueue_snapshots)
  then show ?thesis using assms
    by (auto simp: save_snapshot_in_transaction_def Some intro: sequences_kept_refl split: if_splits result.splits)
next
  case None
  define claimed where "claimed = db\<lparr>pg_idempotency := (pg_idempotency db)(sw_request_id q \<mapsto> claimed_receipt now q v e t)\<rparr>"
  have c: "pg_snapshots claimed = pg_snapshots db" by (simp add: claimed_def)
  have "sequences_kept claimed db'"
  proof (cases f)
    case (Some n)
    have "sequences_kept claimed db1" if "save_fenced_snapshot now q v t n claimed = Ok (db1, out)" for db1 out
      using that statement_sequences(3) settle_snapshots sequences_kept_cong [OF _ refl]
      by (auto simp: save_fenced_snapshot_def and_then_Ok_iff split: option.splits) metis+
    then show ?thesis
      using assms unfolding save_snapshot_in_transaction_def None Some claimed_def [symmetric]
      by (auto simp: Let_def intro: sequences_kept_refl split: result.splits prod.splits)
  next
    case f: None
    define stmt where "stmt = and_then (sql_save q v e t claimed) (\<lambda>(db, snapshot).
        if snapshot = None \<and> e = None then sql_upsert q v t db else Ok (db, snapshot))"
    have stmt: "sequences_kept claimed db1" if "stmt = Ok (db1, n)" for db1 n
      using that by (auto simp: stmt_def and_then_Ok_iff split: if_splits intro: sequences_kept_trans dest!: statement_sequences(1,2))
    have settled: "sequences_kept claimed db2" if "stmt = Ok (db1, n)" "pg_snapshots db2 = pg_snapshots db1" for db1 db2 n
      using sequences_kept_cong [OF stmt [OF that(1)] refl] that(2) by simp
    show ?thesis
      using assms unfolding save_snapshot_in_transaction_def None f claimed_def [symmetric] Let_def option.case stmt_def [symmetric]
      by (auto simp: and_then_Ok_iff intro: stmt settled sequences_kept_refl split: result.splits option.splits prod.splits dest!: settle_snapshots)
  qed
  then show ?thesis by (rule sequences_kept_cong) (simp_all add: c)
qed

lemma entries_sequences: "save_entries now es db = Ok (db', rs) \<Longrightarrow> sequences_kept db db'"
proof (induction es arbitrary: db rs)
  case Nil
  then show ?case by (simp add: sequences_kept_refl)
next
  case (Cons e es)
  obtain q p where e: "e = (q, p)" by fastforce
  show ?case
  proof (cases p)
    case (Err x)
    then show ?thesis using Cons e by (auto simp: and_then_Ok_iff)
  next
    case (Ok x)
    obtain v ex t f where x: "x = (v, ex, t, f)" by (cases x)
    obtain db1 r where sv: "save_snapshot_in_transaction now q v ex t f db = (db1, r)" by fastforce
    obtain rs1 where "save_entries now es db1 = Ok (db', rs1)"
      using Cons.prems Ok x sv e by (auto simp: and_then_Ok_iff split: result.splits storage_error.splits)
    then show ?thesis using Cons.IH save_in_transaction_sequences [OF sv] sequences_kept_trans by blast
  qed
qed

lemma apply_sequences:
  assumes "apply_in_transaction now q v e t db = Ok (db', out)"
  shows "sequences_kept db db'"
proof -
  obtain db1 where c: "pg_claim_operation now (tw_operation_id q) ''single'' db = Ok db1" using assms by (auto simp: apply_in_transaction_def and_then_Ok_iff)
  have s: "pg_snapshots db1 = pg_snapshots db" using c by (auto simp: claim_Ok_iff split: option.splits)
  show ?thesis
    using assms c s
    by (auto simp: apply_in_transaction_def replay_transaction_def apply_fresh_def write_transaction_def Let_def and_then_Ok_iff enqueue_Ok
        sequences_kept_def next_sequence_def split: option.splits if_splits)
qed

lemma persist_snapshot_sequences: "persist_transactional_snapshot w v db = Ok (db1, p) \<Longrightarrow> sequences_kept db db1"
  by (cases "pg_snapshots db (rw_record w)") (auto simp: persist_transactional_snapshot_def and_then_Ok_iff Let_def sequences_kept_def next_sequence_def split: option.splits if_splits)

lemma record_sequences: "persist_record now i w v db = Ok db' \<Longrightarrow> sequences_kept db db'"
  by (auto simp: persist_record_def and_then_Ok_iff dest!: persist_snapshot_sequences enqueue_snapshots split: if_splits
      intro: sequences_kept_cong)

lemma records_sequences: "persist_records now i wvs db = Ok db' \<Longrightarrow> sequences_kept db db'"
proof (induction wvs arbitrary: db)
  case (Cons wv wvs)
  then show ?case by (cases wv) (auto simp: and_then_Ok_iff dest!: record_sequences intro: sequences_kept_trans)
qed (simp add: sequences_kept_refl)

lemma enqueue_all_snapshots: "enqueue_all now rs db = Ok db' \<Longrightarrow> pg_snapshots db' = pg_snapshots db"
  by (induction rs arbitrary: db) (auto simp: and_then_Ok_iff dest!: enqueue_snapshots)

lemma persist_appends_snapshots: "persist_appends i as db = Ok db' \<Longrightarrow> pg_snapshots db' = pg_snapshots db"
  by (induction as arbitrary: db) (auto simp: and_then_Ok_iff split: if_splits)

lemma persist_snapshots: "persist P env i eff db = Ok db' \<Longrightarrow> pg_snapshots db' = pg_snapshots db"
  by (auto simp: persist_def and_then_Ok_iff dest!: persist_appends_snapshots persist_events_Ok split: if_splits)

lemma commit_sequences:
  assumes "commit_in_transaction P env q eff db = Ok (db', out)"
  shows "sequences_kept db db'"
proof -
  let ?i = "mw_operation_id q"
  obtain db1 where c: "pg_claim_operation (pe_now env) ?i ''multi'' db = Ok db1" using assms by (auto simp: commit_in_transaction_def Let_def and_then_Ok_iff)
  have s: "pg_snapshots db1 = pg_snapshots db" using c by (auto simp: claim_Ok_iff split: option.splits)
  show ?thesis
  proof (cases "pg_multis db1 ?i")
    case (Some h)
    then have "replay_commit P (pe_now env) q eff h db1 = Ok (db', out)" using assms c by (auto simp: commit_in_transaction_def Let_def and_then_Ok_iff)
    then show ?thesis using s by (auto simp: replay_commit_def Let_def and_then_Ok_iff dest!: enqueue_all_snapshots split: if_splits intro: sequences_kept_refl)
  next
    case None
    define db2 where "db2 t = db1\<lparr>pg_multis := (pg_multis db1)(?i \<mapsto> \<lparr>mh_result = mw_result q,
        mh_record_count = int (length (mw_writes q)), mh_updated_at = t\<rparr>)\<rparr>" for t
    obtain t vs db3 where "persist_records (pe_now env) ?i (zip (mw_writes q) vs) (db2 t) = Ok db3" "persist P env ?i eff db3 = Ok db'"
      using assms c None by (auto simp: commit_in_transaction_def Let_def and_then_Ok_iff db2_def)
    then have "sequences_kept (db2 t) db3" "pg_snapshots db3 = pg_snapshots db'" using records_sequences persist_snapshots by auto
    then show ?thesis using sequences_kept_cong [of "db2 t" db3 db db'] by (simp add: db2_def s)
  qed
qed

lemma trade_sequences:
  assumes "trade_in_transaction env q v n n' u db = Ok (db', out)"
  shows "sequences_kept db db'"
proof -
  let ?i = "tx_operation_id q"
  obtain db1 where c: "pg_claim_operation (pe_now env) ?i ''trade'' db = Ok db1" using assms by (auto simp: trade_in_transaction_def Let_def and_then_Ok_iff)
  have s: "pg_snapshots db1 = pg_snapshots db" using c by (auto simp: claim_Ok_iff split: option.splits)
  show ?thesis
  proof (cases "pg_trade_operations db1 ?i")
    case (Some h)
    then have "replay_trade (pe_now env) q db1 = Ok (db', out)" using assms c by (simp add: trade_in_transaction_def Let_def)
    then show ?thesis using s
      by (auto simp: replay_trade_def Let_def and_then_Ok_iff dest!: enqueue_all_snapshots split: if_splits option.splits intro: sequences_kept_refl)
  next
    case None
    define db2 where "db2 = db1\<lparr>pg_trade_operations := (pg_trade_operations db1)(?i \<mapsto> trade_header_of q v n' u)\<rparr>"
    have f: "trade_fresh env q n n' u db2 = Ok (db', out)" using assms c None by (simp add: trade_in_transaction_def Let_def db2_def)
    define db3 where "db3 = db2\<lparr>pg_trades := (pg_trades db2)(tt_trade_id (tx_transition q) \<mapsto>
        \<lparr>tv_version = n', tv_state = state_to_i16 (tt_next_state (tx_transition q)), tv_payload = tt_payload (tx_transition q),
         tv_updated_at = u\<rparr>)\<rparr>"
    obtain vs db4 db5 where d: "persist_trade_records (pe_now env) ?i (zip (tx_writes q) vs) db3 = Ok db4"
      "persist_postings ?i (tt_trade_id (tx_transition q)) u (tx_ledger_postings q) db4 = Ok db5"
      "persist_trade_events (pe_order env) (pe_now env) ?i (tt_trade_id (tx_transition q)) (tx_outbox_events q) db5 = Ok db'"
      using f by (auto simp: trade_fresh_def write_trade_def Let_def and_then_Ok_iff db3_def split: if_splits)
    have "sequences_kept (swap_records db3) (swap_records db4)" using records_sequences persist_trade_records_swap d(1) by blast
    moreover have "pg_snapshots db4 = pg_snapshots db'" using persist_postings_Ok [OF d(2)] persist_trade_events_Ok [OF d(3)] by auto
    ultimately show ?thesis using sequences_kept_cong [of "swap_records db3" "swap_records db4" db db'] by (simp add: db3_def db2_def s)
  qed
qed

section \<open>One operation\<close>

lemma transact_sequences:
  assumes "transact pg body db = (db', r)" and "\<And>x. body = Ok (db', x) \<Longrightarrow> sequences_kept db db'"
  shows "sequences_kept db db'"
  using assms(1) by (cases rule: transact_cases) (auto intro: assms(2) sequences_kept_refl)

lemma batch_sequences: "save_batch_fenced env qs ns db = (db', r) \<Longrightarrow> sequences_kept db db'"
  by (auto simp: save_batch_fenced_def Let_def split: if_splits intro: sequences_kept_refl dest: transact_sequences [OF _ entries_sequences])

lemma maintenance_snapshots:
  "pg_snapshots (fst (cleanup_expired_receipts env ids d db)) = pg_snapshots db"
  "pg_snapshots (fst (retire_expired_operations env ids d db)) = pg_snapshots db"
  "pg_snapshots (fst (purge_retired_operations env ids d db)) = pg_snapshots db"
  by (cases "pe_pg env"; simp add: cleanup_expired_receipts_def retire_expired_operations_def purge_retired_operations_def Let_def
      split: result.splits)+

lemma pg_step_sequences:
  assumes st: "pg_step P db op = (db', r)"
  shows "sequences_kept db db'"
proof (cases op)
  case (SaveBatch env qs)
  then show ?thesis using st by (auto simp: save_batch_def prod_eq_iff intro: batch_sequences)
next
  case (QueuedBatch env qs ns)
  then show ?thesis using st
    by (auto simp: save_queued_batch_def prod_eq_iff split: if_splits intro: batch_sequences sequences_kept_refl)
next
  case (ApplySingle env q)
  then obtain x where "pg_apply env q db = (db', x)" using st by (auto simp: prod_eq_iff)
  then show ?thesis
    by (auto simp: pg_apply_def split: result.splits intro: sequences_kept_refl dest: transact_sequences [OF _ apply_sequences])
next
  case (CommitMulti env q eff)
  then obtain x where "pg_commit_records P env q eff db = (db', x)" using st by (auto simp: prod_eq_iff)
  then show ?thesis
    by (auto simp: pg_commit_records_def split: result.splits intro: sequences_kept_refl dest: transact_sequences [OF _ commit_sequences])
next
  case (ApplyTrade env q)
  then obtain x where "pg_apply_trade env q db = (db', x)" using st by (auto simp: prod_eq_iff)
  then show ?thesis
    by (auto simp: pg_apply_trade_def split: result.splits intro: sequences_kept_refl dest: transact_sequences [OF _ trade_sequences])
qed (use st maintenance_snapshots in \<open>auto simp: prod_eq_iff case_prod_unfold Let_def intro!: sequences_kept_refl\<close>)

lemma run_sequences: "sequences_kept db (fst (run (pg_step P) db ops))"
proof (induction ops arbitrary: db)
  case (Cons op ops)
  obtain db1 r where st: "pg_step P db op = (db1, r)" by fastforce
  then show ?case using sequences_kept_trans [OF pg_step_sequences [OF st] Cons.IH] by (simp add: case_prod_unfold Let_def)
qed (simp add: sequences_kept_refl)

section \<open>Late queued writes\<close>

lemma fenced_late:
  assumes "next_sequence db (sw_record q) = Some m" and "f \<le> m"
  shows "sql_fenced q v t f db = Ok (db, None)"
  using assms by (cases "pg_snapshots db (sw_record q)") (auto simp: sql_fenced_def next_sequence_def)

lemma fenced_elsewhere: "sql_fenced q v t f db = Ok (db1, n) \<Longrightarrow> sw_record q \<noteq> k \<Longrightarrow> pg_snapshots db1 k = pg_snapshots db k"
  by (auto simp: sql_fenced_def and_then_Ok_iff split: option.splits if_splits)

lemma late_save_keeps:
  assumes "save_snapshot_in_transaction now q v e t (Some f) db = (db', r)" and "next_sequence db k = Some m"
    and "sw_record q = k \<Longrightarrow> f \<le> m"
  shows "pg_snapshots db' k = pg_snapshots db k"
proof (cases "pg_idempotency db (sw_request_id q)")
  case (Some receipt)
  have "pg_snapshots db1 = pg_snapshots db" if "replay_save now q receipt db = Ok (db1, out)" for db1 out
    using that by (auto simp: replay_save_def and_then_Ok_iff dest: enqueue_snapshots)
  then show ?thesis using assms(1) by (auto simp: save_snapshot_in_transaction_def Some split: if_splits result.splits)
next
  case None
  define claimed where "claimed = db\<lparr>pg_idempotency := (pg_idempotency db)(sw_request_id q \<mapsto> claimed_receipt now q v e t)\<rparr>"
  have stmt: "pg_snapshots db1 k = pg_snapshots claimed k" if "sql_fenced q v t f claimed = Ok (db1, n)" for db1 n
  proof (cases "sw_record q = k")
    case True
    then show ?thesis using that fenced_late [of claimed q m f v t] assms(2,3) by (simp add: next_sequence_def claimed_def)
  qed (use fenced_elsewhere [OF that] in simp)
  have "pg_snapshots db1 k = pg_snapshots claimed k" if "save_fenced_snapshot now q v t f claimed = Ok (db1, out)" for db1 out
    using that by (auto simp: save_fenced_snapshot_def and_then_Ok_iff dest!: settle_snapshots stmt)
  then show ?thesis
    using assms(1) unfolding save_snapshot_in_transaction_def None option.case Let_def claimed_def [symmetric]
    by (auto simp: claimed_def split: result.splits prod.splits)
qed

lemma late_entries_keep:
  assumes "save_entries now (zip qs (map2 prepare_save qs (map Some ns))) db = Ok (db', rs)" and "length ns = length qs"
    and "next_sequence db k = Some m" and "\<forall>(q, n)\<in>set (zip qs ns). sw_record q = k \<longrightarrow> uint n \<le> m"
  shows "pg_snapshots db' k = pg_snapshots db k"
  using assms(2,1,3,4)
proof (induction ns qs arbitrary: db rs rule: list_induct2)
  case (Cons n ns q qs)
  show ?case
  proof (cases "prepare_save q (Some n)")
    case (Err x)
    then show ?thesis using Cons by (auto simp: and_then_Ok_iff)
  next
    case (Ok x)
    then obtain v e t where x: "x = (v, e, t, Some (uint n))"
      by (auto simp: prepare_save_def and_then_Ok_iff conversions_Ok split: if_splits)
    obtain db1 r where sv: "save_snapshot_in_transaction now q v e t (Some (uint n)) db = (db1, r)" by fastforce
    obtain rs1 where rest: "save_entries now (zip qs (map2 prepare_save qs (map Some ns))) db1 = Ok (db', rs1)"
      using Cons.prems(1) Ok x sv by (auto simp: and_then_Ok_iff split: result.splits storage_error.splits)
    have keep: "pg_snapshots db1 k = pg_snapshots db k" by (rule late_save_keeps [OF sv Cons.prems(2)]) (use Cons.prems(3) in simp)
    then have "next_sequence db1 k = Some m" using Cons.prems(2) by (simp add: next_sequence_def)
    from Cons.IH [OF rest this] Cons.prems(3) keep show ?thesis by simp
  qed
qed simp

text \<open>
  C11. Queued writes cannot overtake each other: once a record was written from the queue with sequence \<open>m\<close>, a
  queued batch that carries sequences up to \<open>m\<close> for the record leaves it exactly as it is, whatever was done
  to the store in between (saves, transactions, commits, trades, retention of receipts) and however often the
  batch is sent again.
\<close>

theorem queued_batch_fenced:
  assumes "next_sequence db k = Some m" and "run (pg_step P) db ops = (db1, rs)"
    and "pg_step P db1 (QueuedBatch env qs ns) = (db2, r)"
    and "\<forall>(q, n)\<in>set (zip qs ns). sw_record q = k \<longrightarrow> uint n \<le> m"
  shows "pg_snapshots db2 k = pg_snapshots db1 k"
proof -
  obtain m' where m': "next_sequence db1 k = Some m'" "m \<le> m'"
    using run_sequences [of db P ops] assms(1,2) by (auto simp: sequences_kept_def sequence_le_def split: option.splits dest!: spec [of _ k])
  have late: "\<forall>(q, n)\<in>set (zip qs ns). sw_record q = k \<longrightarrow> uint n \<le> m'" using assms(4) m'(2) by fastforce
  have q: "save_queued_batch env qs ns db1 = (db2, x)" if "r = SavedBatch x" for x using assms(3) that by (auto simp: prod_eq_iff)
  obtain x where "r = SavedBatch x" using assms(3) by (auto simp: prod_eq_iff)
  note q [OF this]
  then show ?thesis
  proof (cases "db2 = db1")
    case False
    then have l: "length ns = length qs" and b: "save_batch_fenced env qs (map Some ns) db1 = (db2, x)"
      using \<open>save_queued_batch env qs ns db1 = (db2, x)\<close> by (auto simp: save_queued_batch_def split: if_splits)
    from b False have "transact (pe_pg env) (save_entries (pe_now env) (zip qs (map2 prepare_save qs (map Some ns))) db1) db1 = (db2, x)"
      by (auto simp: save_batch_fenced_def Let_def split: if_splits)
    then show ?thesis
      by (cases rule: transact_cases) (auto intro: late_entries_keep [OF _ l m'(1) late])
  qed simp
qed

text \<open>A queued save with sequence 5, a direct save, and a queued save with sequence 4 that comes late.\<close>

definition pg_demo_queued :: "string \<Rightarrow> u64 \<Rightarrow> pg_op" where
  "pg_demo_queued i n = QueuedBatch (pg_demo_env Executed 0) [pg_demo_save i [9]] [n]"

definition pg_demo_direct :: pg_op where
  "pg_demo_direct = SaveBatch (pg_demo_env Executed 1) [pg_demo_save ''r2'' [2]]"

theorem queued_batch_fenced_witness:
  "pg_snapshots (fst (run (pg_step pg_demo) postgres_new [pg_demo_queued ''r1'' 5, pg_demo_direct, pg_demo_queued ''r3'' 4])) demo_record =
     Some \<lparr>ns_schema = ''player.snapshot'', ns_schema_version = 1, ns_revision = 2, ns_payload = [2], ns_updated_at = 2,
       ns_queued_sequence = Some 5\<rparr>"
proof -
  obtain db r1 where db: "pg_step pg_demo postgres_new (pg_demo_queued ''r1'' 5) = (db, r1)" by fastforce
  have m: "next_sequence db demo_record = Some 5"
    using db by (auto simp: pg_demo_queued_def pg_demo_eval next_sequence_def)
  obtain db1 rs where db1: "run (pg_step pg_demo) db [pg_demo_direct] = (db1, rs)" by fastforce
  obtain db2 r where db2: "pg_step pg_demo db1 (pg_demo_queued ''r3'' 4) = (db2, r)" by fastforce
  have "pg_snapshots db2 demo_record = pg_snapshots db1 demo_record"
    by (rule queued_batch_fenced [OF m db1 db2 [unfolded pg_demo_queued_def]]) simp
  moreover have "pg_snapshots db1 demo_record = Some \<lparr>ns_schema = ''player.snapshot'', ns_schema_version = 1, ns_revision = 2,
      ns_payload = [2], ns_updated_at = 2, ns_queued_sequence = Some 5\<rparr>"
    using db db1 by (auto simp: pg_demo_queued_def pg_demo_direct_def pg_demo_eval)
  moreover have "fst (run (pg_step pg_demo) postgres_new [pg_demo_queued ''r1'' 5, pg_demo_direct, pg_demo_queued ''r3'' 4]) = db2"
    using db db1 db2 by (simp add: case_prod_unfold Let_def)
  ultimately show ?thesis by simp
qed

end
