(* ===== verification/Postgres_Retirement.thy ===== *)
theory Postgres_Retirement
  imports Postgres_Fence
begin

text \<open>
  Retired operations: after the retention of receipts the header of a multi-record commit is deleted and its
  claim marked, after a second retention the mark goes too. In between the operation is answered as
  expired and never carried out again.
\<close>

section \<open>Claims and headers\<close>

definition claim_tables :: "postgres \<Rightarrow> (string \<rightharpoonup> claim_row) \<times> (string \<rightharpoonup> multi_header)" where
  "claim_tables db = (pg_claims db, pg_multis db)"

lemma statement_tables:
  "sql_save q v e t db = Ok (db1, n) \<Longrightarrow> claim_tables db1 = claim_tables db"
  "sql_upsert q v t db = Ok (db1, n) \<Longrightarrow> claim_tables db1 = claim_tables db"
  "sql_fenced q v t f db = Ok (db1, n) \<Longrightarrow> claim_tables db1 = claim_tables db"
  by (auto simp: sql_save_def sql_upsert_def sql_fenced_def and_then_Ok_iff claim_tables_def split: option.splits if_splits)

lemma enqueue_tables: "enqueue_in_transaction now k n db = Ok db' \<Longrightarrow> claim_tables db' = claim_tables db"
  by (auto simp: enqueue_Ok claim_tables_def)

lemma settle_tables: "settle_receipt now q v db = Ok db' \<Longrightarrow> claim_tables db' = claim_tables db"
  by (auto simp: settle_receipt_def and_then_Ok_iff enqueue_Ok claim_tables_def)

lemma save_tables:
  assumes "save_snapshot_in_transaction now q v e t f db = (db', r)"
  shows "claim_tables db' = claim_tables db"
proof (cases "pg_idempotency db (sw_request_id q)")
  case (Some receipt)
  have "claim_tables db1 = claim_tables db" if "replay_save now q receipt db = Ok (db1, out)" for db1 out
    using that by (auto simp: replay_save_def and_then_Ok_iff dest: enqueue_tables)
  then show ?thesis using assms by (auto simp: save_snapshot_in_transaction_def Some split: if_splits result.splits)
next
  case None
  define claimed where "claimed = db\<lparr>pg_idempotency := (pg_idempotency db)(sw_request_id q \<mapsto> claimed_receipt now q v e t)\<rparr>"
  have c: "claim_tables claimed = claim_tables db" by (simp add: claimed_def claim_tables_def)
  show ?thesis
  proof (cases f)
    case (Some n)
    have "claim_tables db1 = claim_tables claimed" if "save_fenced_snapshot now q v t n claimed = Ok (db1, out)" for db1 out
      using that by (auto simp: save_fenced_snapshot_def and_then_Ok_iff dest!: statement_tables(3) settle_tables)
    then show ?thesis
      using assms c unfolding save_snapshot_in_transaction_def None Some claimed_def [symmetric]
      by (auto simp: Let_def split: result.splits prod.splits)
  next
    case f: None
    define stmt where "stmt = and_then (sql_save q v e t claimed) (\<lambda>(db, snapshot).
        if snapshot = None \<and> e = None then sql_upsert q v t db else Ok (db, snapshot))"
    have stmt: "claim_tables db1 = claim_tables db" if "stmt = Ok (db1, n)" for db1 n
      using that c by (auto simp: stmt_def and_then_Ok_iff split: if_splits dest!: statement_tables(1,2))
    have drop: "claim_tables (db1\<lparr>pg_idempotency := x\<rparr>) = claim_tables db1" for db1 x by (simp add: claim_tables_def)
    show ?thesis
      using assms c unfolding save_snapshot_in_transaction_def None f claimed_def [symmetric] Let_def option.case stmt_def [symmetric]
      by (auto simp: and_then_Ok_iff drop split: result.splits option.splits prod.splits dest!: settle_tables stmt)
  qed
qed

lemma entries_tables: "save_entries now es db = Ok (db', rs) \<Longrightarrow> claim_tables db' = claim_tables db"
proof (induction es arbitrary: db rs)
  case (Cons e es)
  obtain q p where e: "e = (q, p)" by fastforce
  show ?case
  proof (cases p)
    case (Err x)
    then show ?thesis using Cons e by (auto simp: and_then_Ok_iff)
  next
    case (Ok x)
    obtain v ex t f where x: "x = (v, ex, t, f)" by (cases x)
    obtain db1 r where sv: "save_snapshot_in_transaction now q v ex t f db = (db1, r)" by fastforce
    obtain rs1 where "save_entries now es db1 = Ok (db', rs1)"
      using Cons.prems Ok x sv e by (auto simp: and_then_Ok_iff split: result.splits storage_error.splits)
    then show ?thesis using Cons.IH save_tables [OF sv] by simp
  qed
qed simp

lemma record_tables: "persist_record now i w v db = Ok db' \<Longrightarrow> claim_tables db' = claim_tables db"
  by (cases "pg_snapshots db (rw_record w)")
    (auto simp: persist_record_def persist_transactional_snapshot_def Let_def and_then_Ok_iff claim_tables_def enqueue_Ok split: if_splits)

lemma records_tables: "persist_records now i wvs db = Ok db' \<Longrightarrow> claim_tables db' = claim_tables db"
proof (induction wvs arbitrary: db)
  case (Cons wv wvs)
  then show ?case by (cases wv) (auto simp: and_then_Ok_iff dest!: record_tables)
qed simp

lemma enqueue_all_tables: "enqueue_all now rs db = Ok db' \<Longrightarrow> claim_tables db' = claim_tables db"
  by (auto simp: claim_tables_def dest: enqueue_all_Ok)

lemma persist_appends_tables: "persist_appends i as db = Ok db' \<Longrightarrow> claim_tables db' = claim_tables db"
  by (induction as arbitrary: db) (auto simp: and_then_Ok_iff claim_tables_def split: if_splits)

lemma persist_tables: "persist P env i eff db = Ok db' \<Longrightarrow> claim_tables db' = claim_tables db"
  by (auto simp: persist_def and_then_Ok_iff claim_tables_def dest!: persist_appends_tables persist_events_Ok split: if_splits)

section \<open>The invariant\<close>

definition live_claim :: "claim_row option \<Rightarrow> bool" where
  "live_claim c \<longleftrightarrow> (case c of None \<Rightarrow> False | Some c \<Rightarrow> oc_kind c = ''multi'' \<and> oc_retired_at c = None)"

definition headers_ok :: "postgres \<Rightarrow> bool" where
  "headers_ok db \<longleftrightarrow> (\<forall>i. (pg_multis db i \<noteq> None) = live_claim (pg_claims db i))"

text \<open>An operation that was claimed as a commit at \<open>t\<close> and, if it was retired, after the retention \<open>R\<close>.\<close>

definition held :: "timestamp \<Rightarrow> timestamp \<Rightarrow> string \<Rightarrow> postgres \<Rightarrow> bool" where
  "held t R i db \<longleftrightarrow> (case pg_claims db i of
      None \<Rightarrow> False
    | Some c \<Rightarrow> oc_kind c = ''multi'' \<and> (case oc_retired_at c of None \<Rightarrow> oc_claimed_at c = t | Some u \<Rightarrow> t + R < u))"

definition claims_kept :: "postgres \<Rightarrow> postgres \<Rightarrow> bool" where
  "claims_kept db db' \<longleftrightarrow> (\<forall>i c. pg_claims db i = Some c \<longrightarrow> pg_claims db' i = Some c) \<and> (headers_ok db \<longrightarrow> headers_ok db')"

lemma claims_kept_same: "claim_tables db' = claim_tables db \<Longrightarrow> claims_kept db db'"
  by (simp add: claims_kept_def claim_tables_def headers_ok_def)

lemma claims_kept_held: "claims_kept db db' \<Longrightarrow> held t R i db \<Longrightarrow> held t R i db'"
  by (auto simp: claims_kept_def held_def split: option.splits)

lemma claims_kept_other:
  assumes "pg_claim_operation now i kind db = Ok db1" and "kind \<noteq> ''multi''" and "claim_tables db' = claim_tables db1"
  shows "claims_kept db db'"
  using assms by (auto simp: claims_kept_def claim_Ok_iff claim_tables_def headers_ok_def live_claim_def split: option.splits)

lemma apply_claims:
  assumes "apply_in_transaction now q v e t db = Ok (db', out)"
  shows "claims_kept db db'"
proof -
  obtain db1 where c: "pg_claim_operation now (tw_operation_id q) ''single'' db = Ok db1" using assms by (auto simp: apply_in_transaction_def and_then_Ok_iff)
  have "claim_tables db' = claim_tables db1"
    using assms c
    by (auto simp: apply_in_transaction_def replay_transaction_def apply_fresh_def write_transaction_def Let_def and_then_Ok_iff enqueue_Ok
        claim_tables_def split: option.splits if_splits)
  then show ?thesis using claims_kept_other [OF c] by simp
qed

lemma trade_claims:
  assumes "trade_in_transaction env q v n n' u db = Ok (db', out)"
  shows "claims_kept db db'"
proof -
  let ?i = "tx_operation_id q"
  obtain db1 where c: "pg_claim_operation (pe_now env) ?i ''trade'' db = Ok db1" using assms by (auto simp: trade_in_transaction_def Let_def and_then_Ok_iff)
  have "claim_tables db' = claim_tables db1"
  proof (cases "pg_trade_operations db1 ?i")
    case (Some h)
    then have "replay_trade (pe_now env) q db1 = Ok (db', out)" using assms c by (simp add: trade_in_transaction_def Let_def)
    then show ?thesis
      by (auto simp: replay_trade_def Let_def and_then_Ok_iff dest!: enqueue_all_tables split: if_splits option.splits)
  next
    case None
    define db2 where "db2 = db1\<lparr>pg_trade_operations := (pg_trade_operations db1)(?i \<mapsto> trade_header_of q v n' u)\<rparr>"
    have f: "trade_fresh env q n n' u db2 = Ok (db', out)" using assms c None by (simp add: trade_in_transaction_def Let_def db2_def)
    define db3 where "db3 = db2\<lparr>pg_trades := (pg_trades db2)(tt_trade_id (tx_transition q) \<mapsto>
        \<lparr>tv_version = n', tv_state = state_to_i16 (tt_next_state (tx_transition q)), tv_payload = tt_payload (tx_transition q),
         tv_updated_at = u\<rparr>)\<rparr>"
    obtain vs db4 db5 where d: "persist_trade_records (pe_now env) ?i (zip (tx_writes q) vs) db3 = Ok db4"
      "persist_postings ?i (tt_trade_id (tx_transition q)) u (tx_ledger_postings q) db4 = Ok db5"
      "persist_trade_events (pe_order env) (pe_now env) ?i (tt_trade_id (tx_transition q)) (tx_outbox_events q) db5 = Ok db'"
      using f by (auto simp: trade_fresh_def write_trade_def Let_def and_then_Ok_iff db3_def split: if_splits)
    have "claim_tables db4 = claim_tables db3" using records_tables [OF persist_trade_records_swap [OF d(1)]] by (simp add: claim_tables_def swap_records_def)
    then show ?thesis using persist_postings_Ok [OF d(2)] persist_trade_events_Ok [OF d(3)] by (auto simp: claim_tables_def db3_def db2_def)
  qed
  then show ?thesis using claims_kept_other [OF c] by simp
qed

text \<open>A commit is carried out only when its operation was not claimed, and then the claim is new.\<close>

lemma commit_claims:
  assumes "commit_in_transaction P env q eff db = Ok (db', out)" and ok: "headers_ok db"
  shows "claims_kept db db' \<and> (\<forall>x. out = Applied x \<longrightarrow> pg_claims db (mw_operation_id q) = None \<and>
    pg_claims db' (mw_operation_id q) = Some \<lparr>oc_kind = ''multi'', oc_claimed_at = pe_now env, oc_retired_at = None\<rparr>)"
proof -
  let ?i = "mw_operation_id q"
  obtain db1 where c: "pg_claim_operation (pe_now env) ?i ''multi'' db = Ok db1" using assms by (auto simp: commit_in_transaction_def Let_def and_then_Ok_iff)
  show ?thesis
  proof (cases "pg_claims db ?i")
    case (Some claim)
    then have db1: "db1 = db" and "live_claim (pg_claims db ?i)" using c by (auto simp: claim_Ok_iff live_claim_def)
    then obtain h where h: "pg_multis db ?i = Some h" using ok by (auto simp: headers_ok_def)
    then have "replay_commit P (pe_now env) q eff h db = Ok (db', out)" using assms(1) c db1 by (auto simp: commit_in_transaction_def Let_def and_then_Ok_iff)
    then have "claim_tables db' = claim_tables db \<and> (\<forall>x. out \<noteq> Applied x)"
      by (auto simp: replay_commit_def Let_def and_then_Ok_iff dest!: enqueue_all_tables split: if_splits)
    then show ?thesis by (auto intro: claims_kept_same)
  next
    case None
    then have db1: "db1 = db\<lparr>pg_claims := (pg_claims db)(?i \<mapsto> \<lparr>oc_kind = ''multi'', oc_claimed_at = pe_now env, oc_retired_at = None\<rparr>)\<rparr>"
      using c by (simp add: claim_Ok_iff)
    have none: "pg_multis db1 ?i = None" using ok [unfolded headers_ok_def, rule_format, of ?i] None by (simp add: live_claim_def db1)
    define db2 where "db2 t = db1\<lparr>pg_multis := (pg_multis db1)(?i \<mapsto> \<lparr>mh_result = mw_result q,
        mh_record_count = int (length (mw_writes q)), mh_updated_at = t\<rparr>)\<rparr>" for t
    obtain t vs db3 where "persist_records (pe_now env) ?i (zip (mw_writes q) vs) (db2 t) = Ok db3" "persist P env ?i eff db3 = Ok db'"
      using assms(1) c none by (auto simp: commit_in_transaction_def Let_def and_then_Ok_iff db2_def)
    then have "claim_tables db' = claim_tables (db2 t)" by (auto dest!: records_tables persist_tables)
    then show ?thesis using None ok by (auto simp: claims_kept_def claim_tables_def headers_ok_def live_claim_def db2_def db1)
  qed
qed

section \<open>Retention\<close>

definition receipt_retention :: timestamp where
  "receipt_retention = make_interval MIN_OPERATION_RECEIPT_RETENTION"

definition marker_retention :: timestamp where
  "marker_retention = make_interval MIN_RETIRED_OPERATION_RETENTION"

lemma make_interval_mono: "a \<le> b \<Longrightarrow> make_interval a \<le> make_interval b"
  by (simp add: make_interval_def div_le_mono)

lemma retire_held:
  assumes "headers_ok db" and "retire_expired_operations env ids d db = (db', r)"
  shows "headers_ok db' \<and> (held t receipt_retention i db \<longrightarrow> held t receipt_retention i db')"
proof (cases "db' = db")
  case False
  let ?due = "due_rows (operation_due (pe_now env) d db) ids"
  have d: "receipt_retention \<le> make_interval d"
    and db': "db' = db\<lparr>pg_multis := (\<lambda>i. if i \<in> set ?due then None else pg_multis db i),
       pg_multi_records := (\<lambda>i. if i \<in> set ?due then [] else pg_multi_records db i),
       pg_claims := (\<lambda>i. if i \<in> set ?due then map_option (\<lambda>c. c\<lparr>oc_retired_at := Some (pe_now env)\<rparr>) (pg_claims db i) else pg_claims db i)\<rparr>"
    using assms(2) False by (cases "pe_pg env"; auto simp: retire_expired_operations_def validate_operation_receipt_retention_def
        receipt_retention_def Let_def not_less intro: make_interval_mono split: if_splits result.splits)+
  have due: "operation_due (pe_now env) d db j" if "j \<in> set ?due" for j
    using that by (auto simp: due_rows_def dest: in_set_takeD)
  have "(pg_multis db' j \<noteq> None) = live_claim (pg_claims db' j)" for j
    using assms(1) [unfolded headers_ok_def, rule_format, of j] by (auto simp: db' live_claim_def split: option.splits)
  moreover have "held t receipt_retention i db'" if h: "held t receipt_retention i db"
  proof (cases "i \<in> set ?due")
    case True
    from due [OF this] h d show ?thesis by (auto simp: held_def operation_due_def db' True split: option.splits)
  next
    case False
    then show ?thesis using h by (simp add: held_def db')
  qed
  ultimately show ?thesis unfolding headers_ok_def by blast
qed (use assms(1) in simp)

lemma purge_held:
  assumes "headers_ok db" and "purge_retired_operations env ids d db = (db', r)"
  shows "headers_ok db' \<and>
    (held t R i db \<and> (pe_now env \<le> t + R + marker_retention) \<longrightarrow> held t R i db')"
proof (cases "db' = db")
  case False
  let ?due = "due_rows (marker_due (pe_now env) d db) ids"
  have d: "marker_retention \<le> make_interval d"
    and db': "db' = db\<lparr>pg_claims := (\<lambda>i. if i \<in> set ?due then None else pg_claims db i)\<rparr>"
    using assms(2) False by (cases "pe_pg env"; auto simp: purge_retired_operations_def validate_retired_operation_retention_def
        marker_retention_def Let_def not_less intro: make_interval_mono split: if_splits result.splits)+
  have due: "marker_due (pe_now env) d db j" if "j \<in> set ?due" for j
    using that by (auto simp: due_rows_def dest: in_set_takeD)
  have "(pg_multis db' j \<noteq> None) = live_claim (pg_claims db' j)" for j
    using assms(1) [unfolded headers_ok_def, rule_format, of j] due [of j] by (auto simp: db' live_claim_def marker_due_def split: option.splits)
  moreover have "held t R i db'" if h: "held t R i db" and now: "pe_now env \<le> t + R + marker_retention"
  proof (cases "i \<in> set ?due")
    case True
    from due [OF this] h d now show ?thesis by (auto simp: held_def marker_due_def split: option.splits)
  next
    case False
    then show ?thesis using h by (simp add: held_def db')
  qed
  ultimately show ?thesis unfolding headers_ok_def by blast
qed (use assms(1) in simp)

section \<open>One operation\<close>

definition step_held :: "timestamp \<Rightarrow> postgres \<Rightarrow> pg_op \<Rightarrow> postgres \<Rightarrow> bool" where
  "step_held t db op db' \<longleftrightarrow> headers_ok db' \<and> (\<forall>i. held t receipt_retention i db \<and>
     (\<forall>env ids d. op = PurgeOperations env ids d \<longrightarrow> pe_now env \<le> t + receipt_retention + marker_retention) \<longrightarrow> held t receipt_retention i db')"

lemma step_held_kept: "headers_ok db \<Longrightarrow> claims_kept db db' \<Longrightarrow> step_held t db op db'"
  by (auto simp: step_held_def claims_kept_def intro: claims_kept_held [unfolded claims_kept_def])

lemma transact_claims:
  assumes "transact pg body db = (db', r)" and "\<And>x. body = Ok (db', x) \<Longrightarrow> claims_kept db db'"
  shows "claims_kept db db'"
  using assms(1) by (cases rule: transact_cases) (auto intro: assms(2) claims_kept_same)

lemma batch_claims: "save_batch_fenced env qs ns db = (db', r) \<Longrightarrow> claims_kept db db'"
  by (auto simp: save_batch_fenced_def Let_def split: if_splits intro: claims_kept_same
      dest: transact_claims [OF _ claims_kept_same [OF entries_tables]])

lemma cleanup_claims: "cleanup_expired_receipts env ids d db = (db', r) \<Longrightarrow> claims_kept db db'"
  by (cases "pe_pg env"; auto simp: cleanup_expired_receipts_def Let_def claim_tables_def split: result.splits intro!: claims_kept_same)

lemma pg_step_held:
  assumes st: "pg_step P db op = (db', r)" and ok: "headers_ok db"
  shows "step_held t db op db'"
proof (cases op)
  case (SaveBatch env qs)
  then show ?thesis using st by (auto simp: save_batch_def prod_eq_iff intro!: step_held_kept [OF ok] batch_claims)
next
  case (QueuedBatch env qs ns)
  then obtain x where "save_queued_batch env qs ns db = (db', x)" using st by (auto simp: prod_eq_iff)
  then have "claims_kept db db'" by (auto simp: save_queued_batch_def split: if_splits intro: batch_claims claims_kept_same)
  then show ?thesis by (rule step_held_kept [OF ok])
next
  case (ApplySingle env q)
  then obtain x where "pg_apply env q db = (db', x)" using st by (auto simp: prod_eq_iff)
  then have "claims_kept db db'"
    by (auto simp: pg_apply_def split: result.splits intro: claims_kept_same dest: transact_claims [OF _ apply_claims])
  then show ?thesis by (rule step_held_kept [OF ok])
next
  case (CommitMulti env q eff)
  then obtain x where "pg_commit_records P env q eff db = (db', x)" using st by (auto simp: prod_eq_iff)
  then have "claims_kept db db'"
    by (auto simp: pg_commit_records_def split: result.splits intro: claims_kept_same
        dest: transact_claims [OF _ conjunct1 [OF commit_claims [OF _ ok]]])
  then show ?thesis by (rule step_held_kept [OF ok])
next
  case (ApplyTrade env q)
  then obtain x where "pg_apply_trade env q db = (db', x)" using st by (auto simp: prod_eq_iff)
  then have "claims_kept db db'"
    by (auto simp: pg_apply_trade_def split: result.splits intro: claims_kept_same dest: transact_claims [OF _ trade_claims])
  then show ?thesis by (rule step_held_kept [OF ok])
next
  case (CleanupReceipts env ids d)
  then show ?thesis using st by (auto simp: prod_eq_iff intro!: step_held_kept [OF ok] intro: cleanup_claims)
next
  case (RetireOperations env ids d)
  then obtain x where "retire_expired_operations env ids d db = (db', x)" using st by (auto simp: prod_eq_iff)
  then show ?thesis using retire_held [OF ok] by (auto simp: step_held_def)
next
  case (PurgeOperations env ids d)
  then obtain x where "purge_retired_operations env ids d db = (db', x)" using st by (auto simp: prod_eq_iff)
  then show ?thesis using purge_held [OF ok] unfolding PurgeOperations step_held_def by blast
next
  case (RepairQueue op)
  then show ?thesis using st by (auto simp: case_prod_unfold Let_def claim_tables_def intro!: step_held_kept [OF ok] claims_kept_same)
next
  case (OutboxQueue op)
  then show ?thesis using st by (auto simp: case_prod_unfold Let_def claim_tables_def intro!: step_held_kept [OF ok] claims_kept_same)
qed

lemma commit_step:
  assumes "pg_step P db (CommitMulti env q eff) = (db', MultiCommitted (Ok (Applied x)))" and "headers_ok db"
  shows "pg_claims db (mw_operation_id q) = None"
    and "pg_claims db' (mw_operation_id q) = Some \<lparr>oc_kind = ''multi'', oc_claimed_at = pe_now env, oc_retired_at = None\<rparr>"
proof -
  obtain eff' where "transact (pe_pg env) (commit_in_transaction P env (q\<lparr>mw_writes := sort_key rw_record (mw_writes q)\<rparr>) eff' db) db =
      (db', Ok (Applied x))"
    using assms(1) by (auto simp: prod_eq_iff pg_commit_records_def split: result.splits)
  then obtain "commit_in_transaction P env (q\<lparr>mw_writes := sort_key rw_record (mw_writes q)\<rparr>) eff' db = Ok (db', Applied x)"
    by (cases rule: transact_cases) auto
  from commit_claims [OF this assms(2)]
  show "pg_claims db (mw_operation_id q) = None"
    "pg_claims db' (mw_operation_id q) = Some \<lparr>oc_kind = ''multi'', oc_claimed_at = pe_now env, oc_retired_at = None\<rparr>"
    by simp_all
qed

section \<open>Runs\<close>

lemma run_headers: "headers_ok db \<Longrightarrow> headers_ok (fst (run (pg_step P) db ops))"
proof (induction ops arbitrary: db)
  case (Cons op ops)
  obtain db1 r where st: "pg_step P db op = (db1, r)" by fastforce
  then show ?case using pg_step_held [OF st Cons.prems, of 0] Cons.IH by (simp add: step_held_def case_prod_unfold Let_def)
qed simp

lemma run_held:
  assumes "headers_ok db" and "held t receipt_retention i db"
    and "\<forall>env ids d. PurgeOperations env ids d \<in> set ops \<longrightarrow> pe_now env \<le> t + receipt_retention + marker_retention"
  shows "held t receipt_retention i (fst (run (pg_step P) db ops))"
  using assms
proof (induction ops arbitrary: db)
  case (Cons op ops)
  obtain db1 r where st: "pg_step P db op = (db1, r)" by fastforce
  have "headers_ok db1" "held t receipt_retention i db1"
    using pg_step_held [OF st Cons.prems(1), of t] Cons.prems(2,3) by (auto simp: step_held_def)
  moreover have "\<forall>env ids d. PurgeOperations env ids d \<in> set ops \<longrightarrow> pe_now env \<le> t + receipt_retention + marker_retention"
    using Cons.prems(3) by simp
  ultimately have "held t receipt_retention i (fst (run (pg_step P) db1 ops))" by (rule Cons.IH)
  then show ?case using st by (simp add: case_prod_unfold Let_def)
qed simp

text \<open>
  C13. An operation that was committed once is not committed again as long as the mark of its retirement is kept:
  if no purge of retired operations runs later than the two retention minima after the commit, every
  later commit with the same operation id, whatever it writes and whatever jobs ran in between, is
  answered with an error or as a duplicate.
\<close>

theorem retired_operation_not_reapplied:
  assumes "run (pg_step P) postgres_new before = (db, rs)"
    and "pg_step P db (CommitMulti env q eff) = (db1, MultiCommitted (Ok (Applied x)))"
    and "run (pg_step P) db1 between = (db2, rs')"
    and "\<forall>env' ids d. PurgeOperations env' ids d \<in> set between \<longrightarrow> pe_now env' \<le> pe_now env + receipt_retention + marker_retention"
    and "mw_operation_id q' = mw_operation_id q"
  shows "snd (pg_step P db2 (CommitMulti env'' q' eff')) \<noteq> MultiCommitted (Ok (Applied y))"
proof
  assume "snd (pg_step P db2 (CommitMulti env'' q' eff')) = MultiCommitted (Ok (Applied y))"
  then obtain db3 where again: "pg_step P db2 (CommitMulti env'' q' eff') = (db3, MultiCommitted (Ok (Applied y)))"
    by (metis prod.collapse)
  have ok: "headers_ok db" using run_headers [of postgres_new P before] assms(1) by (simp add: headers_ok_def live_claim_def postgres_new_def)
  have ok1: "headers_ok db1" using pg_step_held [OF assms(2) ok, of 0] by (simp add: step_held_def)
  have "held (pe_now env) receipt_retention (mw_operation_id q) db1" using commit_step(2) [OF assms(2) ok] by (simp add: held_def)
  from run_held [OF ok1 this assms(4), of P] have h: "held (pe_now env) receipt_retention (mw_operation_id q) db2" by (simp add: assms(3))
  have "headers_ok db2" using run_headers [OF ok1, of P between] by (simp add: assms(3))
  from commit_step(1) [OF again this] h show False by (simp add: held_def assms(5))
qed

definition pg_demo_retire :: pg_op where
  "pg_demo_retire = RetireOperations (pg_demo_env Executed (2 * receipt_retention)) [''op1''] MIN_OPERATION_RECEIPT_RETENTION"

definition pg_demo_purge :: pg_op where
  "pg_demo_purge = PurgeOperations (pg_demo_env Executed (receipt_retention + marker_retention)) [''op1''] MIN_RETIRED_OPERATION_RETENTION"

lemmas retention_eval = receipt_retention_def marker_retention_def MIN_OPERATION_RECEIPT_RETENTION_def MAX_OPERATION_RECEIPT_RETENTION_def
  MIN_RETIRED_OPERATION_RETENTION_def MAX_RETIRED_OPERATION_RETENTION_def make_interval_def seconds_def from_millis_def

lemma default_effects_empty: "effects_is_empty commit_effects_default" "ce_appends commit_effects_default = []"
  "ce_outbox_events commit_effects_default = []"
  by (simp_all add: effects_is_empty_def commit_effects_default_def)

lemma pg_demo_retired:
  assumes "pg_step pg_demo postgres_new
    (CommitMulti (pg_demo_env Executed 0) (pg_demo_commit ''op1'' 0) commit_effects_default) = (db, r)"
  shows "\<exists>x. r = MultiCommitted (Ok (Applied x))"
    and "snd (run (pg_step pg_demo) db [pg_demo_retire, pg_demo_purge]) = [Maintained (Ok 1), Maintained (Ok 0)]"
  using assms
  by (auto simp: pg_demo_eval default_effects_empty pg_demo_retire_def pg_demo_purge_def
      retire_expired_operations_def validate_operation_receipt_retention_def due_rows_def operation_due_def MAINTENANCE_BATCH_def
      purge_retired_operations_def validate_retired_operation_retention_def marker_due_def retention_eval)

theorem retired_operation_not_reapplied_witness:
  "\<exists>db1 x db2. pg_step pg_demo postgres_new (CommitMulti (pg_demo_env Executed 0) (pg_demo_commit ''op1'' 0) commit_effects_default) =
       (db1, MultiCommitted (Ok (Applied x))) \<and>
     run (pg_step pg_demo) db1 [pg_demo_retire, pg_demo_purge] = (db2, [Maintained (Ok 1), Maintained (Ok 0)]) \<and>
     (\<forall>y. snd (pg_step pg_demo db2 (CommitMulti (pg_demo_env Executed 7) (pg_demo_commit ''op1'' 1) commit_effects_default)) \<noteq>
       MultiCommitted (Ok (Applied y)))"
proof -
  let ?op = "CommitMulti (pg_demo_env Executed 0) (pg_demo_commit ''op1'' 0) commit_effects_default"
  obtain db1 r where st: "pg_step pg_demo postgres_new ?op = (db1, r)" by fastforce
  then obtain x where db1: "pg_step pg_demo postgres_new ?op = (db1, MultiCommitted (Ok (Applied x)))" using pg_demo_retired(1) by blast
  obtain db2 where db2: "run (pg_step pg_demo) db1 [pg_demo_retire, pg_demo_purge] = (db2, [Maintained (Ok 1), Maintained (Ok 0)])"
    using pg_demo_retired(2) [OF st] by (metis prod.collapse)
  have "snd (pg_step pg_demo db2 (CommitMulti (pg_demo_env Executed 7) (pg_demo_commit ''op1'' 1) commit_effects_default)) \<noteq>
      MultiCommitted (Ok (Applied y))" for y
    by (rule retired_operation_not_reapplied [OF _ db1 db2, of "[]" "[]"])
      (auto simp: pg_demo_retire_def pg_demo_purge_def pg_demo_env_def pg_demo_commit_def)
  then show ?thesis using db1 db2 by blast
qed

end
