(* ===== verification/Spec2Isabelle.thy ===== *)
theory Spec2Isabelle
  imports Snapshot_Store Transaction_Store Multi_Transaction_Store Flush_Queue Relay_Core
    Commit_Effects Trade_Core Memory_Backend Lock_Order Protocol Rpc_Memory Request_Ordering Connection
    Cache_Policy Retry_Policy Outbox_Worker Cache_Repair Postgres_Guarantees Postgres_Retirement
begin

text \<open>
  \<^bold>\<open>TiangZ-DBProxy\<close> is a persistence proxy for game servers. Clients send requests over a framed
  protocol; the server checks them, runs them on a backend, and answers with receipts. A write carries
  an operation or request id, so that it can be sent again: it is applied once and answered as before.
  Records have revisions; a write may demand the revision it was computed from. Events that belong to a
  commit are stored with it in an outbox and published later by workers. The authoritative store is
  PostgreSQL with a Redis cache; a sharded in-memory backend implements the same interface.

  \<^bold>\<open>Parts and theories.\<close> Paths are below \<open>src/crates\<close>; a definition has the name of the function or type
  it translates, with a prefix where two parts use one name.

  Core crate, \<open>dbproxy-core/src\<close>:
  \<^item> \<open>Core_Types\<close>, \<open>Snapshot_Store\<close> (\<open>lib.rs\<close>): records, snapshots, errors, \<open>InMemorySnapshotStore\<close>.
  \<^item> \<open>Transaction_Store\<close> (\<open>transaction.rs\<close>), \<open>Multi_Transaction_Store\<close> (\<open>multi_transaction.rs\<close>): the
    transactional stores for one and for several records.
  \<^item> \<open>Flush_Queue\<close> (\<open>flush.rs\<close>): the coalescing queue in front of a store and its shutdown loop.
  \<^item> \<open>Relay_Core\<close> (\<open>relay.rs\<close>), \<open>Commit_Effects\<close> (\<open>commit.rs\<close>), \<open>Trade_Core\<close> (\<open>trade.rs\<close>): event
    envelopes, the canonical form of effects, the escrow state machine with its ledger.

  Server crate, \<open>dbproxy-server/src\<close>:
  \<^item> \<open>Memory_Spec\<close>, \<open>Memory_Backend\<close>, \<open>Lock_Order\<close> (\<open>memory_backend.rs\<close>): a flat specification of a
    backend, the sharded implementation, and the order in which it takes its mutexes.
  \<^item> \<open>Server_Backend\<close>, \<open>Rpc_Dispatch\<close> (\<open>lib.rs\<close>): the backend interface and one handler per request
    behind the panic barrier. \<open>Rpc_Memory\<close> puts the two parts together.
  \<^item> \<open>Request_Ordering\<close> (\<open>lib.rs\<close>): the concurrent request tasks of a connection as a step relation.
  \<^item> \<open>Connection\<close> (\<open>lib.rs\<close>, \<open>tenancy.rs\<close>): configuration, handshake, tenants.
  \<^item> \<open>Retry_Policy\<close> (\<open>lib.rs\<close>), \<open>Outbox_Worker\<close> (\<open>outbox_worker.rs\<close>, worker loop of \<open>lib.rs\<close>).

  Protocol crate, \<open>dbproxy-protocol\<close>: \<open>Wire_Types\<close> (the messages), \<open>Protocol\<close> (\<open>src/lib.rs\<close>:
  conversions with their limits, frames, fingerprints).

  Storage crate, \<open>dbproxy-storage/src\<close>:
  \<^item> \<open>Storage_Types\<close>, \<open>Cache_Policy\<close> (\<open>lib.rs\<close>): errors, cache configuration, keys, circuit breaker.
  \<^item> \<open>Lease_Contract\<close>: what the durable queues share.
  \<^item> \<open>Outbox_Queue\<close> (\<open>outbox.rs\<close>, \<open>outbox_admin.rs\<close>, \<open>relay.rs\<close>, \<open>commit.rs\<close> and their SQL): the outbox.
  \<^item> \<open>Cache_Repair\<close> (\<open>cache_repair.rs\<close>, \<open>cache_ack.rs\<close> and their SQL, the worker round of the server's
    \<open>lib.rs\<close>): the queue of cache entries to rebuild.
  \<^item> \<open>Postgres_Store\<close> (\<open>lib.rs\<close>, \<open>commit.rs\<close>), \<open>Postgres_Trade\<close> (\<open>trade.rs\<close>), \<open>Postgres_Operations\<close>
    (\<open>receipt_retention.rs\<close>, \<open>operation_retirement.rs\<close> and their SQL): the PostgreSQL store, its tables,
    transactions and retention jobs, and all its operations as one step function \<open>pg_step\<close>.
  \<^item> \<open>Postgres_Refinement\<close>, \<open>Postgres_Commit\<close>, \<open>Postgres_Trade_Refinement\<close>, \<open>Postgres_Run\<close>: each transaction and each run
    of the store refines the specification in \<open>Memory_Spec\<close>. \<open>Postgres_Guarantees\<close>, \<open>Postgres_Queues\<close>,
    \<open>Postgres_Fence\<close>, \<open>Postgres_Retirement\<close>: what follows for its clients, for the cache, for queued
    writes and for retired operations.

  \<open>Prelude\<close> holds results with the \<open>?\<close> operator, the string functions of the standard library, checked
  and saturating arithmetic, and runs of operations. \<open>Contracts\<close> holds the locales of the stores, \<open>Simulation\<close> the one for a
  refinement whose answers may get lost.

  \<^bold>\<open>State and operations.\<close> A struct is a record, an enum a datatype, an operation a function from the
  state to the new state and the result; \<open>u64\<close> and the other machine integers are words, the columns of
  a table integers; strings are the bytes of their UTF-8 encoding. A sequence of calls is
  \<open>run step s ops\<close>, the final state and the replies in order. A \<open>HashMap\<close> is a map, or an association
  list where its size or order matters. A table is the list of its rows, a statement a function on it.

  \<^bold>\<open>Interfaces.\<close>
  \<^item> \<open>commit_log\<close> and \<open>versioned_log\<close> (\<open>Contracts\<close>): an applied request leaves a receipt that stays; a
    repeated request replays it; applied writes raise the revision by one. Interpreted by the three
    stores of the core crate and by the specification of the memory backend.
  \<^item> \<open>snapshot_sink\<close> (\<open>Flush_Queue\<close>): what the queue needs of its store; interpreted by the snapshot store.
  \<^item> \<open>wire_codec\<close> (\<open>Protocol\<close>): a decoder that inverts its encoder exactly within limits; one
    interpretation per message.
  \<^item> \<open>lease_fencing\<close> (\<open>Lease_Contract\<close>): tokens that are granted once and die with the next grant;
    interpreted by the outbox and by the repair queue.
  \<^item> \<open>run_refinement\<close> (\<open>Simulation\<close>): each operation is matched by requests of a specification and its
    acknowledgements are answers of the specification; interpreted by the PostgreSQL store.

  \<^bold>\<open>What is shown.\<close>
  \<^item> Core stores: a retry replays its receipt (C1), multi-record commits are atomic (C6). Receipts can be
    looked up and the order of writes does not matter (\<open>transaction_receipt_recoverable\<close>,
    \<open>multi_receipt_recoverable\<close>, \<open>apply_multi_order_irrelevant\<close>).
  \<^item> Flush queue: coalescing and draining (C10, C12); prefix writes and delivery (\<open>flush_writes_prefix\<close>,
    \<open>flush_delivers_pending\<close>).
  \<^item> PostgreSQL store: runs with connection failures refine the specification of the memory backend (C4) and requests are
    carried out exactly once (C7), acknowledged writes leave a pending cache repair (C8), late queued writes
    change nothing (C11), retired operations are not carried out again (C13).
  \<^item> Relay, trades: round trip and fail-closed decoding (C14, C15), canonical form and zero-sum ledger
    (C17, C18).
  \<^item> Memory backend: refinement of the flat specification without panics (C19), exactly-once application,
    revisions, unique identifiers, trade life cycle, atomic commits (C20 to C24), no deadlock (C25).
  \<^item> Protocol: exact conversions and frames (C26 to C28).
  \<^item> Dispatch: every request is answered in kind (C31), refusals are harmless (C32), read fences hold
    (C33), and over the memory backend write requests refine the specification and are applied once
    (C34, C35).
  \<^item> Connections: order and progress of concurrent requests (C36, C37), handshake and tenants (C38, C39).
  \<^item> Cached reads: keys never collide (C9), probes of the circuit breaker are rate limited (C40); a lost
    probe permit blocks the breaker for good (\<open>lost_probe_refuses_forever\<close>).
  \<^item> Durable queues: no repair is lost (C2), leases are fenced (C3, C5), events of a group are published
    in order (C16), a worker's report is true (C29), retry delays are bounded (C30).

  \<^bold>\<open>Parameters and hypotheses.\<close> SHA-256, the JSON and protobuf encodings, the hash of a shard, the text of
  an error, a publisher, and the rebuild of a cache entry are arguments. Where a theorem needs a property
  of one of them (a codec that reads what it wrote), it is a hypothesis and the witness gives an instance.
  The encoding of commit effects is \<open>pp_encode\<close>; that it can be decoded (\<open>decodable\<close>) is the hypothesis of C4 and C7.
  A call on PostgreSQL takes its clocks, the rows other transactions have locked (skipped by
  \<open>SKIP LOCKED\<close>), and an outcome: executed, failed before, or failed after it took effect. Nothing is assumed
  about these arguments: clocks may run backwards. The theorem on the order of the outbox assumes that
  the order number of an insertion exceeds those of its group, which the advisory locks of
  \<open>lock_partitions\<close> give: \<open>same_group_same_lock\<close> shows that events of one group take the same lock.

  \<^bold>\<open>Loops.\<close> Loops over data are recursive functions. The shutdown loop of the flush queue is bounded by
  its number of rounds as in the source, which C12 shows to be enough. The worker loops do not end; one
  round is modelled. No definition uses fuel.

  \<^bold>\<open>Transactions.\<close> A PostgreSQL transaction is one function on the tables: the row locks and advisory locks
  of the source order concurrent transactions and the model runs them in that order. C4 and C7 are about runs
  without queued saves and retention, which are more liberal than the specification: a late queued save is answered as
  a duplicate without a receipt of its own, and retention forgets receipts. C8, C11 and C13 cover runs with them.

  \<^bold>\<open>Not modelled.\<close> Connections to PostgreSQL, pools and migrations; the Redis cache scripts and the write-ahead
  backlog stream, which are commands for another process; sockets, timeouts and the accept loop; the client
  library; the configuration file; metrics, tracing and crash diagnostics; executables and tools.
  The read-only statistics of the queues are left out too.
\<close>

end
